(* ===== verification/Kotva_Prelude.thy ===== *)
theory Kotva_Prelude
  imports Main "HOL-Library.Word" "HOL-Library.List_Lexorder"
begin

text \<open>
  Shared vocabulary of the development: the machine types of the Rust sources, \<open>Result\<close>
  plumbing, big-endian byte strings, UTF-8 validity and the generic list lemmas that the
  component theories use.

  \<^item> \<open>u8\<close>, \<open>u16\<close>, \<open>u32\<close>, \<open>u64\<close> are words of the given width; a \<open>Vec<u8>\<close> or
    \<open>&[u8]\<close> is a list of \<open>u8\<close>; lengths and indices (\<open>usize\<close>) are natural numbers.
  \<^item> A Rust \<open>String\<close>/\<open>&str\<close> is a HOL \<open>string\<close>, whose characters are the bytes of its
    UTF-8 encoding; \<open>as_bytes\<close> and \<open>string_of_bytes\<close> convert.  The type invariant of
    \<open>String\<close> (valid UTF-8) is the predicate \<open>utf8_valid\<close> on its bytes.
  \<^item> \<open>Result<T, E>\<close> is the sum type \<open>'e + 't\<close> with \<open>Inl\<close> for \<open>Err\<close>; \<open>and_then\<close> is
    the \<open>?\<close> operator and \<open>collect_results\<close> is \<open>.map(f).collect::<Result<Vec<_>, _>>()\<close>.
\<close>

unbundle bit_operations_syntax

type_synonym u8 = "8 word"
type_synonym u16 = "16 word"
type_synonym u32 = "32 word"
type_synonym u64 = "64 word"
type_synonym bytes = "u8 list"

named_theorems wire_simps \<open>evaluation of the field readers of wire objects\<close>

section \<open>Results\<close>

definition and_then :: "'e + 'a \<Rightarrow> ('a \<Rightarrow> 'e + 'b) \<Rightarrow> 'e + 'b" where
  "and_then r f = (case r of Inl e \<Rightarrow> Inl e | Inr x \<Rightarrow> f x)"

lemma and_then_simps [simp]:
  "and_then (Inl e) f = Inl e"
  "and_then (Inr x) f = f x"
  by (simp_all add: and_then_def)

lemma and_then_Inr_iff [simp]:
  "and_then r f = Inr y \<longleftrightarrow> (\<exists>x. r = Inr x \<and> f x = Inr y)"
  by (cases r) auto

lemma and_then_Inl_iff:
  "and_then r f = Inl e \<longleftrightarrow> r = Inl e \<or> (\<exists>x. r = Inr x \<and> f x = Inl e)"
  by (cases r) auto

definition ok_or :: "'a option \<Rightarrow> 'e \<Rightarrow> 'e + 'a" where
  "ok_or r e = (case r of None \<Rightarrow> Inl e | Some x \<Rightarrow> Inr x)"

lemma ok_or_simps [simp]:
  "ok_or None e = Inl e"
  "ok_or (Some x) e = Inr x"
  by (simp_all add: ok_or_def)

lemma ok_or_Inr_iff [simp]: "ok_or r e = Inr x \<longleftrightarrow> r = Some x"
  by (cases r) auto

lemma ok_or_Inl_iff [simp]: "ok_or r e = Inl e' \<longleftrightarrow> r = None \<and> e' = e"
  by (cases r) auto

definition map_err :: "('e \<Rightarrow> 'f) \<Rightarrow> 'e + 'a \<Rightarrow> 'f + 'a" where
  "map_err g r = (case r of Inl e \<Rightarrow> Inl (g e) | Inr x \<Rightarrow> Inr x)"

lemma map_err_simps [simp]:
  "map_err g (Inl e) = Inl (g e)"
  "map_err g (Inr x) = Inr x"
  by (simp_all add: map_err_def)

lemma map_err_Inr_iff [simp]: "map_err g r = Inr x \<longleftrightarrow> r = Inr x"
  by (cases r) auto

fun collect_results :: "('a \<Rightarrow> 'e + 'b) \<Rightarrow> 'a list \<Rightarrow> 'e + 'b list" where
  "collect_results f [] = Inr []"
| "collect_results f (x # xs) =
     and_then (f x) (\<lambda>y. and_then (collect_results f xs) (\<lambda>ys. Inr (y # ys)))"

lemma collect_results_Inr_iff:
  "collect_results f xs = Inr ys \<longleftrightarrow> list_all2 (\<lambda>x y. f x = Inr y) xs ys"
proof (induction xs arbitrary: ys)
  case Nil
  then show ?case by auto
next
  case (Cons x xs)
  then show ?case by (cases ys) auto
qed

lemma collect_results_map [simp]:
  assumes "\<And>y. y \<in> set ys \<Longrightarrow> f (g y) = Inr y"
  shows "collect_results f (map g ys) = Inr ys"
  using assms by (induction ys) auto

lemma collect_results_length: "collect_results f xs = Inr ys \<Longrightarrow> length ys = length xs"
  by (auto simp: collect_results_Inr_iff list_all2_lengthD)

lemma collect_results_inv:
  assumes "collect_results f xs = Inr ys"
    and "\<And>x y. x \<in> set xs \<Longrightarrow> f x = Inr y \<Longrightarrow> g y = x"
  shows "map g ys = xs"
  using assms by (induction xs arbitrary: ys) auto

lemma collect_results_Inr_set:
  assumes "collect_results f xs = Inr ys" and "y \<in> set ys"
  shows "\<exists>x \<in> set xs. f x = Inr y"
  using assms by (induction xs arbitrary: ys) auto

text \<open>A \<open>for\<close> loop whose body ends in \<open>?\<close>.\<close>

fun try_for_each :: "('a \<Rightarrow> 'e + unit) \<Rightarrow> 'a list \<Rightarrow> 'e + unit" where
  "try_for_each f [] = Inr ()"
| "try_for_each f (x # xs) = and_then (f x) (\<lambda>_. try_for_each f xs)"

lemma try_for_each_Inr_iff [simp]: "try_for_each f xs = Inr () \<longleftrightarrow> (\<forall>x \<in> set xs. f x = Inr ())"
  by (induction xs) auto

section \<open>Ordered maps\<close>

text \<open>A \<open>BTreeMap\<close> is its list of entries in ascending key order.\<close>

fun btree_insert :: "'k::linorder \<Rightarrow> 'v \<Rightarrow> ('k \<times> 'v) list \<Rightarrow> ('k \<times> 'v) list" where
  "btree_insert k v [] = [(k, v)]"
| "btree_insert k v ((k', v') # m) =
     (if k < k' then (k, v) # (k', v') # m
      else if k = k' then (k, v) # m
      else (k', v') # btree_insert k v m)"

lemma btree_insert_last:
  "\<forall>k' \<in> fst ` set m. k' < k \<Longrightarrow> btree_insert k v m = m @ [(k, v)]"
  by (induction m) (auto simp: not_less_iff_gr_or_eq)

section \<open>Strings as UTF-8 byte strings\<close>

definition as_bytes_of :: "string \<Rightarrow> bytes" where
  "as_bytes_of s = map of_char s"

definition string_of_bytes :: "bytes \<Rightarrow> string" where
  "string_of_bytes b = map (\<lambda>w. char_of (unat w)) b"

lemma unat_of_char_u8 [simp]: "unat (of_char c :: u8) = of_char c"
proof -
  have "(of_char c :: u8) = of_nat (of_char c)"
    by (simp add: of_nat_of_char)
  moreover have "of_char c < (256::nat)" by (simp add: of_char_def)
  ultimately show ?thesis by (simp add: unat_of_nat)
qed

lemma unat_u8_less [simp]: "unat (w :: u8) < 256"
  by (rule order_less_le_trans [OF unsigned_less]) simp

lemma of_char_char_of_u8 [simp]: "of_char (char_of (unat (w::u8))) = w"
proof -
  have "of_char (char_of (unat w)) = unat w" by (simp add: of_char_of)
  then have "of_nat (of_char (char_of (unat w))) = (of_nat (unat w) :: u8)" by metis
  then show ?thesis by (simp only: of_nat_of_char of_nat_unat ucast_id)
qed

lemma string_of_bytes_as_bytes [simp]: "string_of_bytes (as_bytes_of s) = s"
  by (simp add: string_of_bytes_def as_bytes_of_def comp_def)

lemma as_bytes_string_of_bytes [simp]: "as_bytes_of (string_of_bytes b) = b"
  by (induction b) (simp_all add: string_of_bytes_def as_bytes_of_def)

lemma length_as_bytes_of [simp]: "length (as_bytes_of s) = length s"
  by (simp add: as_bytes_of_def)

lemma as_bytes_of_inject [simp]: "as_bytes_of s = as_bytes_of t \<longleftrightarrow> s = t"
  by (metis string_of_bytes_as_bytes)

text \<open>A continuation byte, and the well-formed byte sequences of the Unicode standard, as
  \<open>std::str::from_utf8\<close> accepts them.\<close>

definition utf8_cont :: "u8 \<Rightarrow> bool" where
  "utf8_cont b \<longleftrightarrow> 0x80 \<le> b \<and> b \<le> 0xBF"

fun utf8_valid :: "bytes \<Rightarrow> bool" where
  "utf8_valid [] = True"
| "utf8_valid (b0 # bs) =
     (if b0 < 0x80 then utf8_valid bs
      else if 0xC2 \<le> b0 \<and> b0 \<le> 0xDF then
        (case bs of b1 # r \<Rightarrow> utf8_cont b1 \<and> utf8_valid r | _ \<Rightarrow> False)
      else if 0xE0 \<le> b0 \<and> b0 \<le> 0xEF then
        (case bs of b1 # b2 # r \<Rightarrow>
           (if b0 = 0xE0 then 0xA0 \<le> b1 \<and> b1 \<le> 0xBF
            else if b0 = 0xED then 0x80 \<le> b1 \<and> b1 \<le> 0x9F
            else utf8_cont b1) \<and> utf8_cont b2 \<and> utf8_valid r
         | _ \<Rightarrow> False)
      else if 0xF0 \<le> b0 \<and> b0 \<le> 0xF4 then
        (case bs of b1 # b2 # b3 # r \<Rightarrow>
           (if b0 = 0xF0 then 0x90 \<le> b1 \<and> b1 \<le> 0xBF
            else if b0 = 0xF4 then 0x80 \<le> b1 \<and> b1 \<le> 0x8F
            else utf8_cont b1) \<and> utf8_cont b2 \<and> utf8_cont b3 \<and> utf8_valid r
         | _ \<Rightarrow> False)
      else False)"

definition rust_string :: "string \<Rightarrow> bool" where
  "rust_string s \<longleftrightarrow> utf8_valid (as_bytes_of s) \<and> length s < 2 ^ 64"

section \<open>Big-endian integers\<close>

text \<open>\<open>be_bytes k n\<close> is the low \<open>k\<close> bytes of \<open>n\<close>, most significant first
  (\<open>to_be_bytes\<close>), and \<open>from_be\<close> reads a byte string as a number (\<open>from_be_bytes\<close>).\<close>

fun be_bytes :: "nat \<Rightarrow> nat \<Rightarrow> bytes" where
  "be_bytes 0 n = []"
| "be_bytes (Suc k) n = be_bytes k (n div 256) @ [of_nat (n mod 256)]"

definition from_be :: "bytes \<Rightarrow> nat" where
  "from_be bs = foldl (\<lambda>acc b. acc * 256 + unat b) 0 bs"

lemma length_be_bytes [simp]: "length (be_bytes k n) = k"
  by (induction k arbitrary: n) auto

lemma from_be_Nil [simp]: "from_be [] = 0"
  by (simp add: from_be_def)

lemma from_be_snoc [simp]: "from_be (bs @ [b]) = from_be bs * 256 + unat b"
  by (simp add: from_be_def)

lemma from_be_be_bytes: "from_be (be_bytes k n) = n mod 256 ^ k"
proof (induction k arbitrary: n)
  case (Suc k)
  have "unat (of_nat (n mod 256) :: u8) = n mod 256"
    by (simp add: unat_of_nat)
  with Suc show ?case
    by (simp add: mod_mult2_eq mult.commute)
qed simp

lemma from_be_less: "from_be bs < 256 ^ length bs"
proof (induction bs rule: rev_induct)
  case (snoc b bs)
  have "unat b < 256" by simp
  then have "from_be (bs @ [b]) < (from_be bs + 1) * 256" by (simp add: unat_u8_less)
  also have "\<dots> \<le> 256 ^ length bs * 256" using snoc by (intro mult_le_mono1) simp
  finally show ?case by (simp add: mult.commute)
qed simp

lemma be_bytes_from_be: "be_bytes (length bs) (from_be bs) = bs"
proof (induction bs rule: rev_induct)
  case (snoc b bs)
  have "unat b < 256" by simp
  then have "(from_be bs * 256 + unat b) div 256 = from_be bs"
    and "(from_be bs * 256 + unat b) mod 256 = unat b"
    by simp_all
  with snoc show ?case by simp
qed simp

section \<open>Lists\<close>

lemma take_append_length [simp]: "take (length xs) (xs @ ys) = xs"
  and drop_append_length [simp]: "drop (length xs) (xs @ ys) = ys"
  by simp_all

text \<open>Two strictly sorted lists of key/value pairs with the same elements are equal.\<close>

lemma strict_sorted_pairs_unique:
  fixes xs ys :: "('k::linorder \<times> 'v) list"
  assumes "sorted_wrt (<) (map fst xs)" and "sorted_wrt (<) (map fst ys)"
    and "set xs = set ys"
  shows "xs = ys"
  using assms
proof (induction xs arbitrary: ys)
  case Nil
  then show ?case by simp
next
  case (Cons x xs)
  then obtain y ys' where ys: "ys = y # ys'" by (cases ys) auto
  have xmin: "\<forall>z \<in> set xs. fst x < fst z" and ymin: "\<forall>z \<in> set ys'. fst y < fst z"
    using Cons.prems ys by auto
  have "x = y"
  proof (rule ccontr)
    assume "x \<noteq> y"
    then have "x \<in> set ys'" and "y \<in> set xs" using Cons.prems ys by auto
    then show False using xmin ymin by force
  qed
  moreover have "x \<notin> set xs" "y \<notin> set ys'" using xmin ymin by force+
  ultimately have "set xs = set ys'" using Cons.prems ys by auto
  then show ?case using Cons \<open>x = y\<close> ys by auto
qed

end
