(* ===== verification/Cbor.thy ===== *)
theory Cbor
  imports Kotva_Prelude
begin

text \<open>
  The deterministic CBOR codec of \<^verbatim>\<open>crates/kotva-core/src/cbor.rs\<close>: the value type \<open>Cv\<close>,
  the encoder \<open>encode\<close>/\<open>enc\<close>/\<open>write_head\<close> and the strict decoder \<open>decode\<close>/\<open>Decoder\<close>.

  A \<open>Decoder { b, pos }\<close> is represented by its unread suffix \<open>b[pos..]\<close>: \<open>byte\<close> and
  \<open>take_bytes\<close> (the methods \<open>byte\<close> and \<open>take\<close>) return the next bytes with the new
  suffix, the bytes consumed between two cursors \<open>s\<close> and \<open>s1\<close> are
  \<open>take (length s - length s1) s\<close>, and \<open>pos == b.len()\<close> is an empty suffix.  The recursion
  of \<open>value\<close> through arrays and maps is bounded by the nesting depth, so the decoder is a total
  function: \<open>cbor_elems\<close> is the element loop of major type 4 and \<open>cbor_entries\<close> the entry
  loop of the method \<open>map\<close>.

  The two directions of correctness are proved once: the decoder accepts exactly the canonical
  encodings of the values within the depth bound (\<open>decode_iff_canonical\<close>).
\<close>

section \<open>Values and errors\<close>

datatype cv =
    U64 u64
  | Bytes bytes
  | Text string
  | Bool bool
  | Array "cv list"
  | Map "(u64 \<times> cv) list"
  | TextMap "(string \<times> cv) list"

datatype cbor_error =
    Malformed | NonShortestForm | IndefiniteLength | MapKeyOrder | TrailingData
  | FloatPresent | NullPresent | TagOrUndefined | DuplicateKey u64 | DuplicateTextKey
  | MixedMapKeys | IntRange | TypeMismatch | UnknownKey u64 | MissingKey u64
  | ManifestKeyPresent | ManifestEmptyChunks | UnknownSuite u8 | UnknownDiscriminant u64

section \<open>Encoding\<close>

definition write_head :: "u8 \<Rightarrow> u64 \<Rightarrow> bytes" where
  "write_head major arg =
     (let m = push_bit 5 major in
      if arg < 24 then [m OR ucast arg]
      else if arg \<le> 0xFF then [m OR 24, ucast arg]
      else if arg \<le> 0xFFFF then (m OR 25) # be_bytes 2 (unat (ucast arg :: u16))
      else if arg \<le> 0xFFFFFFFF then (m OR 26) # be_bytes 4 (unat (ucast arg :: u32))
      else (m OR 27) # be_bytes 8 (unat arg))"

definition text_key :: "string \<Rightarrow> bytes" where
  "text_key k = write_head 3 (of_nat (length k)) @ as_bytes_of k"

lemma size_sorted_items [termination_simp]:
  assumes "(kb, v) \<in> set (sort_key fst (map (\<lambda>(k, v). (f k, v)) m))"
  shows "size v < Suc (size_list (size_prod (\<lambda>_. 0) size) m)"
proof -
  from assms obtain k where "(k, v) \<in> set m" by auto
  then show ?thesis by (induction m) auto
qed

fun enc :: "cv \<Rightarrow> bytes" where
  "enc (U64 n) = write_head 0 n"
| "enc (Bytes b) = write_head 2 (of_nat (length b)) @ b"
| "enc (Text s) = write_head 3 (of_nat (length s)) @ as_bytes_of s"
| "enc (Bool b) = [if b then 0xF5 else 0xF4]"
| "enc (Array a) = write_head 4 (of_nat (length a)) @ concat (map enc a)"
| "enc (Map m) =
     (let items = sort_key fst (map (\<lambda>(k, v). (write_head 0 k, v)) m) in
      write_head 5 (of_nat (length items)) @ concat (map (\<lambda>(kb, v). kb @ enc v) items))"
| "enc (TextMap m) =
     (let items = sort_key fst (map (\<lambda>(k, v). (text_key k, v)) m) in
      write_head 5 (of_nat (length items)) @ concat (map (\<lambda>(kb, v). kb @ enc v) items))"

definition encode :: "cv \<Rightarrow> bytes" where
  "encode v = enc v"

section \<open>Decoding\<close>

definition MAX_NESTING_DEPTH :: nat where
  "MAX_NESTING_DEPTH = 64"

definition byte :: "bytes \<Rightarrow> cbor_error + u8 \<times> bytes" where
  "byte s = (case s of [] \<Rightarrow> Inl Malformed | b # s' \<Rightarrow> Inr (b, s'))"

definition take_bytes :: "nat \<Rightarrow> bytes \<Rightarrow> cbor_error + bytes \<times> bytes" where
  "take_bytes n s = (if n \<le> length s then Inr (take n s, drop n s) else Inl Malformed)"

definition argument :: "u8 \<Rightarrow> bytes \<Rightarrow> cbor_error + u64 \<times> bytes" where
  "argument ai s =
     (if ai \<le> 23 then Inr (ucast ai, s)
      else if ai = 24 then
        and_then (byte s) (\<lambda>(b, s'). let v = ucast b in
          if v < 24 then Inl NonShortestForm else Inr (v, s'))
      else if ai = 25 then
        and_then (take_bytes 2 s) (\<lambda>(b, s'). let v = of_nat (from_be b) in
          if v \<le> 0xFF then Inl NonShortestForm else Inr (v, s'))
      else if ai = 26 then
        and_then (take_bytes 4 s) (\<lambda>(b, s'). let v = of_nat (from_be b) in
          if v \<le> 0xFFFF then Inl NonShortestForm else Inr (v, s'))
      else if ai = 27 then
        and_then (take_bytes 8 s) (\<lambda>(b, s'). let v = of_nat (from_be b) in
          if v \<le> 0xFFFFFFFF then Inl NonShortestForm else Inr (v, s'))
      else if ai = 28 \<or> ai = 29 \<or> ai = 30 then Inl Malformed
      else Inl IndefiniteLength)"

definition simple :: "u8 \<Rightarrow> bytes \<Rightarrow> cbor_error + cv \<times> bytes" where
  "simple ai s =
     (if ai = 20 then Inr (Bool False, s)
      else if ai = 21 then Inr (Bool True, s)
      else if ai = 22 then Inl NullPresent
      else if ai = 23 then Inl TagOrUndefined
      else if ai = 24 then and_then (byte s) (\<lambda>_. Inl TagOrUndefined)
      else if ai = 25 \<or> ai = 26 \<or> ai = 27 then
        (let n = (if ai = 25 then 2 else if ai = 26 then 4 else 8) in
         and_then (take_bytes n s) (\<lambda>_. Inl FloatPresent))
      else if ai = 28 \<or> ai = 29 \<or> ai = 30 then Inl Malformed
      else Inl IndefiniteLength)"

datatype key_kind = KInt | KText

lemma and_then_cong [fundef_cong]:
  "r = r' \<Longrightarrow> (\<And>x. r' = Inr x \<Longrightarrow> f x = g x) \<Longrightarrow> and_then r f = and_then r' g"
  by (cases r') auto

function (sequential) cbor_value :: "nat \<Rightarrow> bytes \<Rightarrow> cbor_error + cv \<times> bytes"
  and cbor_elems :: "nat \<Rightarrow> cv list \<Rightarrow> nat \<Rightarrow> bytes \<Rightarrow> cbor_error + cv list \<times> bytes"
  and cbor_entries :: "nat \<Rightarrow> nat \<Rightarrow> bytes \<Rightarrow> key_kind option \<Rightarrow> (u64 \<times> cv) list \<Rightarrow>
        (string \<times> cv) list \<Rightarrow> nat \<Rightarrow> bytes \<Rightarrow> cbor_error + cv \<times> bytes"
where
  "cbor_value depth s =
     (if depth > MAX_NESTING_DEPTH then Inl Malformed
      else and_then (byte s) (\<lambda>(ib, s1).
        let major = drop_bit 5 ib; ai = ib AND 0x1F in
        if major = 0 then and_then (argument ai s1) (\<lambda>(n, s2). Inr (U64 n, s2))
        else if major = 1 then and_then (argument ai s1) (\<lambda>_. Inl IntRange)
        else if major = 2 then
          and_then (argument ai s1) (\<lambda>(n, s2).
          and_then (take_bytes (unat n) s2) (\<lambda>(b, s3). Inr (Bytes b, s3)))
        else if major = 3 then
          and_then (argument ai s1) (\<lambda>(n, s2).
          and_then (take_bytes (unat n) s2) (\<lambda>(b, s3).
            if utf8_valid b then Inr (Text (string_of_bytes b), s3) else Inl Malformed))
        else if major = 4 then
          and_then (argument ai s1) (\<lambda>(n, s2).
          and_then (cbor_elems (unat n) [] (depth + 1) s2) (\<lambda>(out, s3). Inr (Array out, s3)))
        else if major = 5 then
          and_then (argument ai s1) (\<lambda>(n, s2).
            if n = 0 then Inr (Map [], s2)
            else cbor_entries 0 (unat n) [] None [] [] (depth + 1) s2)
        else if major = 6 then and_then (argument ai s1) (\<lambda>_. Inl TagOrUndefined)
        else simple ai s1))"
| "cbor_elems n out depth s =
     (if n = 0 then Inr (out, s)
      else and_then (cbor_value depth s) (\<lambda>(v, s1). cbor_elems (n - 1) (out @ [v]) depth s1))"
| "cbor_entries i n prev_key kind int_out text_out depth s =
     (if i \<ge> n then
        Inr (case kind of Some KText \<Rightarrow> TextMap text_out | _ \<Rightarrow> Map int_out, s)
      else and_then (cbor_value depth s) (\<lambda>(key, s1).
        let key_bytes = take (length s - length s1) s in
        if i > 0 \<and> key_bytes < prev_key then Inl MapKeyOrder
        else if i > 0 \<and> key_bytes = prev_key then
          (case key of U64 k \<Rightarrow> Inl (DuplicateKey k) | _ \<Rightarrow> Inl DuplicateTextKey)
        else and_then (cbor_value depth s1) (\<lambda>(val, s2).
          (case (kind, key) of
             (None, U64 k) \<Rightarrow>
               cbor_entries (i + 1) n key_bytes (Some KInt) (int_out @ [(k, val)]) text_out depth s2
           | (None, Text t) \<Rightarrow>
               cbor_entries (i + 1) n key_bytes (Some KText) int_out (text_out @ [(t, val)]) depth s2
           | (Some KInt, U64 k) \<Rightarrow>
               cbor_entries (i + 1) n key_bytes (Some KInt) (int_out @ [(k, val)]) text_out depth s2
           | (Some KText, Text t) \<Rightarrow>
               cbor_entries (i + 1) n key_bytes (Some KText) int_out (text_out @ [(t, val)]) depth s2
           | _ \<Rightarrow> Inl MixedMapKeys))))"
  by pat_completeness auto
termination
  by (relation "inv_image (less_than <*lex*> less_than <*lex*> less_than)
        (\<lambda>x. case x of
           Inl (d, s) \<Rightarrow> (66 - d, 0, 0)
         | Inr (Inl (n, out, d, s)) \<Rightarrow> (66 - d, 1, n)
         | Inr (Inr (i, n, p, k, io, to, d, s)) \<Rightarrow> (66 - d, 1, n - i))")
     (auto simp: MAX_NESTING_DEPTH_def)

declare cbor_value.simps [simp del] cbor_elems.simps [simp del] cbor_entries.simps [simp del]

definition decode :: "bytes \<Rightarrow> cbor_error + cv" where
  "decode b = and_then (cbor_value 0 b) (\<lambda>(v, s). if s \<noteq> [] then Inl TrailingData else Inr v)"

section \<open>Canonical values\<close>

text \<open>
  \<open>canon v\<close> states what a decoded value looks like: sizes that fit a 64-bit count, valid UTF-8
  text, map keys strictly ascending in the order of their encoded bytes, and no empty text-keyed map
  (an empty map decodes as the integer-keyed one).  \<open>fits_depth d v\<close> says that \<open>v\<close>, read at
  depth \<open>d\<close>, stays within the nesting bound.
\<close>

fun canon :: "cv \<Rightarrow> bool" where
  "canon (U64 n) = True"
| "canon (Bytes b) = (length b < 2 ^ 64)"
| "canon (Text s) = rust_string s"
| "canon (Bool b) = True"
| "canon (Array a) = (length a < 2 ^ 64 \<and> (\<forall>v \<in> set a. canon v))"
| "canon (Map m) = (length m < 2 ^ 64 \<and> sorted_wrt (<) (map fst m) \<and> (\<forall>(k, v) \<in> set m. canon v))"
| "canon (TextMap m) =
     (m \<noteq> [] \<and> length m < 2 ^ 64 \<and> sorted_wrt (\<lambda>a b. text_key a < text_key b) (map fst m) \<and>
      (\<forall>(k, v) \<in> set m. rust_string k \<and> canon v))"

fun fits_depth :: "nat \<Rightarrow> cv \<Rightarrow> bool" where
  "fits_depth d (Array a) = (d \<le> MAX_NESTING_DEPTH \<and> (\<forall>v \<in> set a. fits_depth (d + 1) v))"
| "fits_depth d (Map m) =
     (d \<le> MAX_NESTING_DEPTH \<and> (\<forall>(k, v) \<in> set m. d + 1 \<le> MAX_NESTING_DEPTH \<and> fits_depth (d + 1) v))"
| "fits_depth d (TextMap m) =
     (d \<le> MAX_NESTING_DEPTH \<and> (\<forall>(k, v) \<in> set m. d + 1 \<le> MAX_NESTING_DEPTH \<and> fits_depth (d + 1) v))"
| "fits_depth d v = (d \<le> MAX_NESTING_DEPTH)"


section \<open>Head bytes and arguments\<close>

lemma head_byte_split:
  fixes ib :: u8
  shows "push_bit 5 (drop_bit 5 ib) OR (ib AND 0x1F) = ib"
proof -
  have "push_bit 5 (drop_bit 5 ib) OR take_bit 5 ib = ib"
    by (rule bit_eqI) (auto simp: bit_simps)
  then show ?thesis by (simp add: take_bit_eq_mask mask_numeral)
qed

lemma drop_bit_5_u8_less: "drop_bit 5 (ib :: u8) < 8"
proof -
  have "unat (drop_bit 5 ib) < 8"
    by (simp add: drop_bit_eq_div unat_div less_mult_imp_div_less)
  then show ?thesis by (simp add: word_less_nat_alt)
qed

lemma head_byte_cases:
  fixes major ai :: u8
  assumes "major < 8" and "ai < 32"
  shows "drop_bit 5 (push_bit 5 major OR ai) = major"
    and "(push_bit 5 major OR ai) AND 0x1F = ai"
proof -
  have *: "\<forall>i<8. \<forall>j<32.
      drop_bit 5 (push_bit 5 (word_of_nat i) OR (word_of_nat j :: u8)) = word_of_nat i \<and>
      (push_bit 5 (word_of_nat i) OR (word_of_nat j :: u8)) AND 0x1F = word_of_nat j"
    by code_simp
  have "unat major < 8" "unat ai < 32"
    using assms by (simp_all add: word_less_nat_alt)
  with * show "drop_bit 5 (push_bit 5 major OR ai) = major"
    and "(push_bit 5 major OR ai) AND 0x1F = ai"
    by (metis of_nat_unat ucast_id)+
qed

lemma u64_cast_small:
  "arg \<le> 0xFF \<Longrightarrow> ucast (ucast (arg :: u64) :: u8) = arg"
  "arg \<le> 0xFFFF \<Longrightarrow> unat (ucast arg :: u16) = unat arg"
  "arg \<le> 0xFFFFFFFF \<Longrightarrow> unat (ucast arg :: u32) = unat arg"
  by (simp_all add: word_unat_eq_iff unsigned_ucast_eq take_bit_eq_mod word_le_nat_alt unat_mod)

lemma unat_u64_less [simp]: "unat (w :: u64) < 18446744073709551616"
  by (rule order_less_le_trans [OF unsigned_less]) simp

lemma unat_ucast_u8_u64 [simp]: "unat (ucast (b :: u8) :: u64) = unat b"
proof -
  have "unat b < 2 ^ 64" by (rule less_trans [OF unat_u8_less]) simp
  then show ?thesis by (simp add: unsigned_ucast_eq take_bit_nat_eq_self)
qed

lemma ucast_ucast_u8_u64 [simp]: "ucast (ucast (b :: u8) :: u64) = b"
  by (rule bit_word_eqI) (simp add: bit_simps)

lemma take_bytes_append [simp]: "take_bytes (length b) (b @ s) = Inr (b, s)"
  by (simp add: take_bytes_def)

lemma take_bytes_Inr:
  "take_bytes n s = Inr (b, s') \<longleftrightarrow> s = b @ s' \<and> length b = n"
  by (auto simp: take_bytes_def split: if_splits)

lemma byte_Inr: "byte s = Inr (b, s') \<longleftrightarrow> s = b # s'"
  by (auto simp: byte_def split: list.splits)

lemma byte_Cons [simp]: "byte (b # s) = Inr (b, s)"
  by (simp add: byte_def)

lemma from_be_bytes_u64:
  "unat arg < 256 ^ k \<Longrightarrow> (of_nat (from_be (be_bytes k (unat arg))) :: u64) = arg"
  by (simp add: from_be_be_bytes)

lemma write_head_argument:
  "\<exists>ai rest. write_head major arg = (push_bit 5 major OR ai) # rest \<and> ai \<le> 27 \<and>
     (\<forall>s. argument ai (rest @ s) = Inr (arg, s))"
proof -
  consider (direct) "arg < 24" | (one) "\<not> arg < 24" "arg \<le> 0xFF"
    | (two) "\<not> arg \<le> 0xFF" "arg \<le> 0xFFFF" | (four) "\<not> arg \<le> 0xFFFF" "arg \<le> 0xFFFFFFFF"
    | (eight) "\<not> arg \<le> 0xFFFFFFFF" by blast
  then show ?thesis
  proof cases
    case direct
    then have "ucast arg \<le> (23 :: u8)"
      by (simp add: word_less_nat_alt word_le_nat_alt unsigned_ucast_eq take_bit_eq_mod unat_mod)
    moreover from direct have "ucast (ucast arg :: u8) = arg"
      by (intro u64_cast_small) (simp add: word_less_nat_alt word_le_nat_alt)
    ultimately show ?thesis using direct
      by (intro exI [of _ "ucast arg"] exI [of _ "[]"])
         (auto simp: write_head_def argument_def word_le_nat_alt)
  next
    case one
    then show ?thesis
      by (intro exI [of _ 24] exI [of _ "[ucast arg]"])
         (simp add: write_head_def argument_def u64_cast_small)
  next
    case two
    then have "take_bytes 2 (be_bytes 2 (unat arg) @ s) = Inr (be_bytes 2 (unat arg), s)" for s
      by (simp add: take_bytes_def)
    moreover have "unat arg < 256 ^ 2" using two by (simp add: word_le_nat_alt)
    moreover have "\<not> arg < 24" using two by (simp add: word_le_nat_alt word_less_nat_alt)
    ultimately show ?thesis using two
      by (intro exI [of _ 25] exI [of _ "be_bytes 2 (unat arg)"])
         (simp add: write_head_def argument_def u64_cast_small from_be_bytes_u64 del: be_bytes.simps)
  next
    case four
    then have "take_bytes 4 (be_bytes 4 (unat arg) @ s) = Inr (be_bytes 4 (unat arg), s)" for s
      by (simp add: take_bytes_def)
    moreover have "unat arg < 256 ^ 4" using four by (simp add: word_le_nat_alt)
    moreover have "\<not> arg < 24" "\<not> arg \<le> 0xFF"
      using four by (simp_all add: word_le_nat_alt word_less_nat_alt)
    ultimately show ?thesis using four
      by (intro exI [of _ 26] exI [of _ "be_bytes 4 (unat arg)"])
         (simp add: write_head_def argument_def u64_cast_small from_be_bytes_u64 del: be_bytes.simps)
  next
    case eight
    then have "take_bytes 8 (be_bytes 8 (unat arg) @ s) = Inr (be_bytes 8 (unat arg), s)" for s
      by (simp add: take_bytes_def)
    moreover have "unat arg < 256 ^ 8" by simp
    moreover have "\<not> arg < 24" "\<not> arg \<le> 0xFF" "\<not> arg \<le> 0xFFFF"
      using eight by (simp_all add: word_le_nat_alt word_less_nat_alt)
    ultimately show ?thesis using eight
      by (intro exI [of _ 27] exI [of _ "be_bytes 8 (unat arg)"])
         (simp add: write_head_def argument_def u64_cast_small from_be_bytes_u64 del: be_bytes.simps)
  qed
qed

lemma from_be_u64_inv:
  assumes "length b = k" "k \<le> 8"
  shows "unat (of_nat (from_be b) :: u64) = from_be b" and "be_bytes k (from_be b) = b"
    and "from_be b < 256 ^ k"
proof -
  show lt: "from_be b < 256 ^ k" using from_be_less [of b] assms by simp
  have "(256::nat) ^ k \<le> 256 ^ 8" using assms by (intro power_increasing) auto
  with lt show "unat (of_nat (from_be b) :: u64) = from_be b"
    by (simp add: unat_of_nat)
  show "be_bytes k (from_be b) = b" using be_bytes_from_be [of b] assms by simp
qed

lemma argument_write_head:
  assumes "argument ai s = Inr (n, s')"
  shows "\<exists>rest. s = rest @ s' \<and> write_head major n = (push_bit 5 major OR ai) # rest"
proof -
  from assms consider "ai \<le> 23" | "ai = 24" | "ai = 25" | "ai = 26" | "ai = 27"
    by (auto simp: argument_def split: if_splits)
  then show ?thesis
  proof cases
    case 1
    then have "ucast ai < (24 :: u64)" "ucast (ucast ai :: u64) = ai"
      by (simp_all add: word_less_nat_alt word_le_nat_alt unsigned_ucast_eq take_bit_eq_mod unat_mod word_unat_eq_iff)
    with 1 assms show ?thesis by (auto simp: argument_def write_head_def)
  next
    case 2
    with assms obtain b where s: "s = b # s'" and n: "n = ucast b" "\<not> n < 24"
      by (auto simp: argument_def byte_Inr Let_def split: if_splits)
    moreover have "unat b \<le> 255" using unat_u8_less [of b] by linarith
    ultimately have "n \<le> 0xFF" by (simp add: word_le_nat_alt)
    with 2 s n show ?thesis by (auto simp: write_head_def)
  next
    case 3
    with assms obtain b where s: "s = b @ s'" "length b = 2" and n: "n = of_nat (from_be b)" "\<not> n \<le> 0xFF"
      by (auto simp: argument_def take_bytes_Inr Let_def split: if_splits)
    note inv = from_be_u64_inv [OF s(2)]
    have "n \<le> 0xFFFF" using inv n by (simp add: word_le_nat_alt)
    with 3 s n inv show ?thesis
      by (auto simp: write_head_def u64_cast_small word_le_nat_alt word_less_nat_alt simp del: be_bytes.simps)
  next
    case 4
    with assms obtain b where s: "s = b @ s'" "length b = 4" and n: "n = of_nat (from_be b)" "\<not> n \<le> 0xFFFF"
      by (auto simp: argument_def take_bytes_Inr Let_def split: if_splits)
    note inv = from_be_u64_inv [OF s(2)]
    have "n \<le> 0xFFFFFFFF" using inv n by (simp add: word_le_nat_alt)
    with 4 s n inv show ?thesis
      by (auto simp: write_head_def u64_cast_small word_le_nat_alt word_less_nat_alt simp del: be_bytes.simps)
  next
    case 5
    with assms obtain b where s: "s = b @ s'" "length b = 8" and n: "n = of_nat (from_be b)" "\<not> n \<le> 0xFFFFFFFF"
      by (auto simp: argument_def take_bytes_Inr Let_def split: if_splits)
    note inv = from_be_u64_inv [OF s(2)]
    with 5 s n inv show ?thesis
      by (auto simp: write_head_def word_le_nat_alt word_less_nat_alt simp del: be_bytes.simps)
  qed
qed

section \<open>Key order\<close>

lemma list_less_snoc:
  fixes xs ys :: "'a::linorder list"
  assumes "length xs = length ys"
  shows "xs @ [a] < ys @ [b] \<longleftrightarrow> xs < ys \<or> xs = ys \<and> a < b"
  using assms by (induction xs ys rule: list_induct2) auto

lemma be_bytes_less:
  assumes "m < n" and "n < 256 ^ k"
  shows "be_bytes k m < be_bytes k n"
  using assms
proof (induction k arbitrary: m n)
  case 0
  then show ?case by simp
next
  case (Suc k)
  have "n div 256 < 256 ^ k" using Suc.prems by (simp add: less_mult_imp_div_less mult.commute)
  show ?case
  proof (cases "m div 256 = n div 256")
    case True
    then have "m mod 256 < n mod 256" using Suc.prems
      by (metis div_mod_decomp nat_add_left_cancel_less)
    then have "(of_nat (m mod 256) :: u8) < of_nat (n mod 256)"
      by (simp add: word_less_nat_alt unat_of_nat)
    then show ?thesis using True by (simp add: list_less_snoc)
  next
    case False
    then have "m div 256 < n div 256" using Suc.prems
      by (simp add: div_le_mono le_neq_implies_less)
    then have "be_bytes k (m div 256) < be_bytes k (n div 256)"
      using \<open>n div 256 < 256 ^ k\<close> by (rule Suc.IH)
    then show ?thesis by (simp add: list_less_snoc)
  qed
qed

lemma write_head_mono:
  assumes "a < b"
  shows "write_head 0 a < write_head 0 b"
proof -
  have ab: "unat a < unat b" using assms by (simp add: word_less_nat_alt)
  have small: "unat (ucast (x::u64) :: u8) = unat x" if "unat x \<le> 255" for x
    using that by (simp add: unsigned_ucast_eq take_bit_eq_mod unat_mod)
  show ?thesis
    using ab be_bytes_less [OF ab]
    by (auto simp: write_head_def Let_def word_less_nat_alt word_le_nat_alt u64_cast_small small
             simp del: be_bytes.simps)
qed

lemma write_head_less_iff: "write_head 0 a < write_head 0 b \<longleftrightarrow> a < b"
  by (metis write_head_mono less_asym linorder_cases order_less_irrefl)

lemma fits_depth_le: "fits_depth d v \<Longrightarrow> d \<le> MAX_NESTING_DEPTH"
  by (cases v) auto

lemma sort_key_fst_id:
  "sorted (map fst xs) \<Longrightarrow> sort_key fst xs = xs"
  by (simp add: sort_key_id_if_sorted)

definition entries_bytes :: "('k \<Rightarrow> bytes) \<Rightarrow> ('k \<times> cv) list \<Rightarrow> bytes" where
  "entries_bytes kb m = concat (map (\<lambda>(k, v). kb k @ enc v) m)"

lemma sorted_keyed:
  assumes "sorted_wrt (\<lambda>a b. kb a < (kb b :: bytes)) (map fst m)"
  shows "sort_key fst (map (\<lambda>(k, v). (kb k, v)) m) = map (\<lambda>(k, v). (kb k, v)) m"
proof (rule sort_key_fst_id)
  have "sorted_wrt (\<lambda>a b. kb (fst a) < kb (fst b)) m" using assms by (simp add: sorted_wrt_map)
  then have "sorted_wrt (\<lambda>a b. kb (fst a) \<le> kb (fst b)) m"
    by (rule sorted_wrt_mono_rel [rotated]) simp
  then show "sorted (map fst (map (\<lambda>(k, v). (kb k, v)) m))"
    by (simp add: sorted_wrt_map case_prod_beta)
qed

lemma enc_Map_sorted:
  "sorted_wrt (<) (map fst m) \<Longrightarrow>
   enc (Map m) = write_head 5 (of_nat (length m)) @ entries_bytes (write_head 0) m"
  using sorted_keyed [of "write_head 0" m]
  by (simp add: write_head_less_iff entries_bytes_def comp_def case_prod_unfold)

lemma enc_TextMap_sorted:
  "sorted_wrt (\<lambda>a b. text_key a < text_key b) (map fst m) \<Longrightarrow>
   enc (TextMap m) = write_head 5 (of_nat (length m)) @ entries_bytes text_key m"
  using sorted_keyed [of "text_key" m]
  by (simp add: entries_bytes_def comp_def case_prod_unfold)

section \<open>The decoder reads every canonical encoding\<close>

lemma cbor_value_head:
  assumes "d \<le> MAX_NESTING_DEPTH" and "major < 8"
  shows "cbor_value d (write_head major n @ s) =
    (if major = 0 then Inr (U64 n, s)
     else if major = 1 then Inl IntRange
     else if major = 2 then and_then (take_bytes (unat n) s) (\<lambda>(b, s3). Inr (Bytes b, s3))
     else if major = 3 then
       and_then (take_bytes (unat n) s) (\<lambda>(b, s3).
         if utf8_valid b then Inr (Text (string_of_bytes b), s3) else Inl Malformed)
     else if major = 4 then
       and_then (cbor_elems (unat n) [] (d + 1) s) (\<lambda>(out, s3). Inr (Array out, s3))
     else if major = 5 then
       (if n = 0 then Inr (Map [], s) else cbor_entries 0 (unat n) [] None [] [] (d + 1) s)
     else if major = 6 then Inl TagOrUndefined
     else cbor_value d (write_head major n @ s))"
proof -
  obtain ai rest where wh: "write_head major n = (push_bit 5 major OR ai) # rest" "ai \<le> 27"
    and arg: "\<And>s. argument ai (rest @ s) = Inr (n, s)"
    using write_head_argument by blast
  have "ai < 32" using wh(2) by (simp add: word_less_nat_alt word_le_nat_alt)
  note hb = head_byte_cases [OF assms(2) this]
  have nd: "(d > MAX_NESTING_DEPTH) = False" using assms(1) by simp
  have "cbor_value d (write_head major n @ s) = cbor_value d ((push_bit 5 major OR ai) # rest @ s)"
    by (simp add: wh(1))
  also have "\<dots> = (if major = 0 then Inr (U64 n, s)
     else if major = 1 then Inl IntRange
     else if major = 2 then and_then (take_bytes (unat n) s) (\<lambda>(b, s3). Inr (Bytes b, s3))
     else if major = 3 then
       and_then (take_bytes (unat n) s) (\<lambda>(b, s3).
         if utf8_valid b then Inr (Text (string_of_bytes b), s3) else Inl Malformed)
     else if major = 4 then
       and_then (cbor_elems (unat n) [] (d + 1) s) (\<lambda>(out, s3). Inr (Array out, s3))
     else if major = 5 then
       (if n = 0 then Inr (Map [], s) else cbor_entries 0 (unat n) [] None [] [] (d + 1) s)
     else if major = 6 then Inl TagOrUndefined
     else simple ai (rest @ s))"
    by (subst cbor_value.simps)
       (simp only: nd byte_Cons and_then_simps prod.case Let_def hb arg if_False)
  finally have eq: "cbor_value d (write_head major n @ s) = \<dots>" .
  show ?thesis by (simp add: eq)
qed

lemma cbor_elems_enc:
  assumes "\<And>v s. v \<in> set a \<Longrightarrow> cbor_value d (enc v @ s) = Inr (v, s)"
  shows "cbor_elems (length a) out d (concat (map enc a) @ s) = Inr (out @ a, s)"
  using assms
proof (induction a arbitrary: out)
  case Nil
  then show ?case by (simp add: cbor_elems.simps)
next
  case (Cons v a)
  then show ?case by (simp add: cbor_elems.simps [of "Suc (length a)"])
qed

lemma cbor_value_text_key:
  assumes "d \<le> MAX_NESTING_DEPTH" "rust_string t"
  shows "cbor_value d (text_key t @ s) = Inr (Text t, s)"
  using assms take_bytes_append [of "as_bytes_of t" s]
  by (simp add: text_key_def cbor_value_head rust_string_def unat_of_nat)

lemma cbor_entries_enc_int:
  assumes "\<And>k v s. (k, v) \<in> set m \<Longrightarrow> cbor_value d (enc v @ s) = Inr (v, s)"
    and "d \<le> MAX_NESTING_DEPTH" and "sorted_wrt (<) (map fst m)"
    and "i + length m = n" and "kind = (if i = 0 then None else Some KInt)"
    and "0 < i \<Longrightarrow> m \<noteq> [] \<Longrightarrow> prev < write_head 0 (fst (hd m))"
  shows "cbor_entries i n prev kind io [] d (entries_bytes (write_head 0) m @ s) = Inr (Map (io @ m), s)"
  using assms
proof (induction m arbitrary: i prev kind io)
  case Nil
  then show ?case by (simp add: cbor_entries.simps entries_bytes_def)
next
  case (Cons kv m)
  obtain k v where kv [simp]: "kv = (k, v)" by fastforce
  let ?rest = "enc v @ entries_bytes (write_head 0) m @ s"
  have bytes: "entries_bytes (write_head 0) ((k, v) # m) @ s = write_head 0 k @ ?rest"
    by (simp add: entries_bytes_def kv)
  have key: "cbor_value d (write_head 0 k @ ?rest) = Inr (U64 k, ?rest)"
    using Cons.prems(2) by (simp add: cbor_value_head)
  have val: "cbor_value d ?rest = Inr (v, entries_bytes (write_head 0) m @ s)"
    using Cons.prems(1) [of k v] kv by simp
  have next_key: "m \<noteq> [] \<Longrightarrow> write_head 0 k < write_head 0 (fst (hd m))"
    using Cons.prems(3) kv by (cases m) (auto simp: write_head_less_iff)
  have IH: "cbor_entries (Suc i) n (write_head 0 k) (Some KInt) (io @ [(k, v)]) [] d
      (entries_bytes (write_head 0) m @ s) = Inr (Map ((io @ [(k, v)]) @ m), s)"
    using Cons.prems next_key by (intro Cons.IH) auto
  have "\<not> (0 < i \<and> write_head 0 k < prev)" "\<not> (0 < i \<and> write_head 0 k = prev)"
    using Cons.prems(6) kv by auto
  then show ?case using Cons.prems(4,5) IH kv
    by (cases "i = 0") (simp_all add: bytes key val Let_def cbor_entries.simps [of _ n prev])
qed

lemma cbor_entries_enc_text:
  assumes "\<And>k v s. (k, v) \<in> set m \<Longrightarrow> cbor_value d (enc v @ s) = Inr (v, s)"
    and "\<forall>k \<in> set (map fst m). rust_string k"
    and "d \<le> MAX_NESTING_DEPTH" and "sorted_wrt (\<lambda>a b. text_key a < text_key b) (map fst m)"
    and "i + length m = n" and "0 < n" and "kind = (if i = 0 then None else Some KText)"
    and "0 < i \<Longrightarrow> m \<noteq> [] \<Longrightarrow> prev < text_key (fst (hd m))"
  shows "cbor_entries i n prev kind [] to d (entries_bytes text_key m @ s) = Inr (TextMap (to @ m), s)"
  using assms
proof (induction m arbitrary: i prev kind to)
  case Nil
  then show ?case by (simp add: cbor_entries.simps entries_bytes_def)
next
  case (Cons kv m)
  obtain k v where kv [simp]: "kv = (k, v)" by fastforce
  let ?rest = "enc v @ entries_bytes text_key m @ s"
  have bytes: "entries_bytes text_key ((k, v) # m) @ s = text_key k @ ?rest"
    by (simp add: entries_bytes_def kv)
  have key: "cbor_value d (text_key k @ ?rest) = Inr (Text k, ?rest)"
    using Cons.prems(2,3) kv by (intro cbor_value_text_key) auto
  have val: "cbor_value d ?rest = Inr (v, entries_bytes text_key m @ s)"
    using Cons.prems(1) [of k v] kv by simp
  have next_key: "m \<noteq> [] \<Longrightarrow> text_key k < text_key (fst (hd m))"
    using Cons.prems(4) kv by (cases m) auto
  have IH: "cbor_entries (Suc i) n (text_key k) (Some KText) [] (to @ [(k, v)]) d
      (entries_bytes text_key m @ s) = Inr (TextMap ((to @ [(k, v)]) @ m), s)"
    using Cons.prems next_key by (intro Cons.IH) auto
  have "\<not> (0 < i \<and> text_key k < prev)" "\<not> (0 < i \<and> text_key k = prev)"
    using Cons.prems(8) kv by auto
  then show ?case using Cons.prems(5,7) IH kv
    by (cases "i = 0") (simp_all add: bytes key val Let_def cbor_entries.simps [of _ n prev])
qed

lemma cbor_value_enc:
  "canon v \<Longrightarrow> fits_depth d v \<Longrightarrow> cbor_value d (enc v @ s) = Inr (v, s)"
proof (induction v arbitrary: d s)
  case (U64 n)
  then show ?case by (simp add: cbor_value_head)
next
  case (Bytes b)
  then show ?case using take_bytes_append [of b s] by (simp add: cbor_value_head unat_of_nat)
next
  case (Text t)
  then show ?case using cbor_value_text_key [of d t s] by (simp add: text_key_def)
next
  case (Bool b)
  then show ?case by (cases b) (simp_all add: cbor_value.simps simple_def)
next
  case (Array a)
  have "cbor_elems (length a) [] (d + 1) (concat (map enc a) @ s) = Inr ([] @ a, s)"
    using Array by (intro cbor_elems_enc) auto
  then show ?case using Array.prems by (simp add: cbor_value_head unat_of_nat)
next
  case (Map m)
  have len: "unat (of_nat (length m) :: u64) = length m" "((of_nat (length m) :: u64) = 0) = (m = [])"
    using Map.prems by (simp_all add: unat_of_nat word_unat_eq_iff)
  show ?case
  proof (cases "m = []")
    case True
    then show ?thesis using Map.prems by (simp add: cbor_value_head)
  next
    case False
    then have "d + 1 \<le> MAX_NESTING_DEPTH" using Map.prems by (cases m) auto
    moreover have "cbor_value (d + 1) (enc v @ s) = Inr (v, s)" if "(k, v) \<in> set m" for k v s
      using that Map.prems by (intro Map.IH [of "(k, v)"]) auto
    ultimately have "cbor_entries 0 (length m) [] None [] [] (d + 1)
        (entries_bytes (write_head 0) m @ s) = Inr (Map ([] @ m), s)"
      using Map.prems by (intro cbor_entries_enc_int) auto
    then show ?thesis using Map.prems len False by (simp add: enc_Map_sorted cbor_value_head del: enc.simps)
  qed
next
  case (TextMap m)
  have len: "unat (of_nat (length m) :: u64) = length m" "((of_nat (length m) :: u64) = 0) = (m = [])"
    using TextMap.prems by (simp_all add: unat_of_nat word_unat_eq_iff)
  have "d + 1 \<le> MAX_NESTING_DEPTH" using TextMap.prems by (cases m) auto
  moreover have "cbor_value (d + 1) (enc v @ s) = Inr (v, s)" if "(k, v) \<in> set m" for k v s
    using that TextMap.prems by (intro TextMap.IH [of "(k, v)"]) auto
  ultimately have "cbor_entries 0 (length m) [] None [] [] (d + 1)
      (entries_bytes text_key m @ s) = Inr (TextMap ([] @ m), s)"
    using TextMap.prems by (intro cbor_entries_enc_text) auto
  then show ?case using TextMap.prems len by (simp add: enc_TextMap_sorted cbor_value_head del: enc.simps)
qed

section \<open>The decoder accepts canonical encodings only\<close>

definition value_sound :: "nat \<Rightarrow> bool" where
  "value_sound d \<longleftrightarrow> (\<forall>s v s'. cbor_value d s = Inr (v, s') \<longrightarrow>
     s = enc v @ s' \<and> canon v \<and> fits_depth d v)"

lemma cbor_elems_sound:
  assumes "value_sound d" and "cbor_elems n out d s = Inr (vs, s')"
  shows "\<exists>ws. vs = out @ ws \<and> length ws = n \<and> s = concat (map enc ws) @ s' \<and>
    (\<forall>w \<in> set ws. canon w \<and> fits_depth d w)"
  using assms(2)
proof (induction n arbitrary: out s)
  case 0
  then show ?case by (simp add: cbor_elems.simps)
next
  case (Suc n)
  from Suc.prems obtain v s1 where v: "cbor_value d s = Inr (v, s1)"
    and rest: "cbor_elems n (out @ [v]) d s1 = Inr (vs, s')"
    by (auto simp: cbor_elems.simps [of "Suc n"])
  from Suc.IH [OF rest] obtain ws where "vs = (out @ [v]) @ ws" "length ws = n"
    "s1 = concat (map enc ws) @ s'" "\<forall>w \<in> set ws. canon w \<and> fits_depth d w"
    by blast
  then show ?case using v assms(1)
    by (intro exI [of _ "v # ws"]) (auto simp: value_sound_def)
qed

definition ents_ok :: "('k \<Rightarrow> bytes) \<Rightarrow> ('k \<Rightarrow> bool) \<Rightarrow> nat \<Rightarrow> bytes \<Rightarrow> nat \<Rightarrow> ('k \<times> cv) list \<Rightarrow> bool" where
  "ents_ok kb kok i prev d m \<longleftrightarrow>
     sorted_wrt (\<lambda>a b. kb a < kb b) (map fst m) \<and> (0 < i \<and> m \<noteq> [] \<longrightarrow> prev < kb (fst (hd m))) \<and>
     (\<forall>(k, w) \<in> set m. kok k \<and> canon w \<and> fits_depth d w)"

lemma ents_ok_Cons:
  assumes "ents_ok kb kok (Suc i) (kb k) d m" and "kok k" "canon w" "fits_depth d w"
    and "0 < i \<Longrightarrow> prev < kb k"
  shows "ents_ok kb kok i prev d ((k, w) # m)"
proof -
  have "kb k < kb a" if "a \<in> set (map fst m)" for a
  proof -
    from assms(1) that have "kb k < kb (fst (hd m))" and s: "sorted_wrt (\<lambda>a b. kb a < kb b) (map fst m)"
      by (auto simp: ents_ok_def)
    moreover from that obtain x m' where "m = x # m'" by (cases m) auto
    ultimately show ?thesis using that by auto
  qed
  then show ?thesis using assms by (auto simp: ents_ok_def)
qed

lemma cbor_entries_sound:
  assumes "value_sound d" and "cbor_entries i n prev kind io to d s = Inr (v, s')"
    and "i \<le> n"
  shows "(kind \<noteq> Some KText \<and> (\<exists>m. v = Map (io @ m) \<and> length m = n - i \<and>
            s = entries_bytes (write_head 0) m @ s' \<and> ents_ok (write_head 0) (\<lambda>_. True) i prev d m)) \<or>
         (kind \<noteq> Some KInt \<and> (kind \<noteq> None \<or> i < n) \<and> (\<exists>m. v = TextMap (to @ m) \<and> length m = n - i \<and>
            s = entries_bytes text_key m @ s' \<and> ents_ok text_key rust_string i prev d m))"
  using assms(2,3)
proof (induction "n - i" arbitrary: i prev kind io to s)
  case 0
  then show ?case
    by (cases kind; cases "the kind") (auto simp: cbor_entries.simps entries_bytes_def ents_ok_def)
next
  case (Suc x)
  then have "i < n" by simp
  with Suc.prems obtain key s1 where key: "cbor_value d s = Inr (key, s1)"
    by (auto simp: cbor_entries.simps [of i n])
  with assms(1) have s: "s = enc key @ s1" "canon key" by (auto simp: value_sound_def)
  have kb: "take (length s - length s1) s = enc key" by (simp add: s)
  note body = Suc.prems(1) [unfolded cbor_entries.simps [of i n] key and_then_simps prod.case kb]
  have ord: "0 < i \<Longrightarrow> prev < enc key"
    using body \<open>i < n\<close> by (auto simp: Let_def split: if_splits cv.splits)
  from body \<open>i < n\<close> obtain val s2 where val: "cbor_value d s1 = Inr (val, s2)"
    by (auto simp: Let_def split: if_splits cv.splits)
  with assms(1) have s1: "s1 = enc val @ s2" "canon val" "fits_depth d val" by (auto simp: value_sound_def)
  have "x = n - Suc i" "Suc i \<le> n" using Suc.hyps(2) \<open>i < n\<close> by auto
  note IH = Suc.hyps(1) [OF this(1) _ this(2)]
  have step: "(case (kind, key) of
       (None, U64 k) \<Rightarrow> cbor_entries (i + 1) n (enc key) (Some KInt) (io @ [(k, val)]) to d s2
     | (None, Text t) \<Rightarrow> cbor_entries (i + 1) n (enc key) (Some KText) io (to @ [(t, val)]) d s2
     | (Some KInt, U64 k) \<Rightarrow> cbor_entries (i + 1) n (enc key) (Some KInt) (io @ [(k, val)]) to d s2
     | (Some KText, Text t) \<Rightarrow> cbor_entries (i + 1) n (enc key) (Some KText) io (to @ [(t, val)]) d s2
     | _ \<Rightarrow> Inl MixedMapKeys) = Inr (v, s')"
    using body [unfolded val and_then_simps prod.case] \<open>i < n\<close> ord
    by (cases "i = 0") (auto simp: Let_def split: if_splits)
  from step consider
    (int) k where "key = U64 k" "kind \<noteq> Some KText"
      "cbor_entries (Suc i) n (write_head 0 k) (Some KInt) (io @ [(k, val)]) to d s2 = Inr (v, s')"
  | (strk) t where "key = Text t" "kind \<noteq> Some KInt"
      "cbor_entries (Suc i) n (text_key t) (Some KText) io (to @ [(t, val)]) d s2 = Inr (v, s')"
    by (auto simp: text_key_def split: option.splits key_kind.splits cv.splits)
  then show ?case
  proof cases
    case int
    from IH [OF int(3)] obtain m where m: "v = Map ((io @ [(k, val)]) @ m)" "length m = n - Suc i"
      "s2 = entries_bytes (write_head 0) m @ s'" "ents_ok (write_head 0) (\<lambda>_. True) (Suc i) (write_head 0 k) d m"
      by auto
    moreover have "ents_ok (write_head 0) (\<lambda>_. True) i prev d ((k, val) # m)"
      using m(4) s1 ord int(1) by (intro ents_ok_Cons) auto
    ultimately have "\<exists>m. v = Map (io @ m) \<and> length m = n - i \<and>
        s = entries_bytes (write_head 0) m @ s' \<and> ents_ok (write_head 0) (\<lambda>_. True) i prev d m"
      using s s1 int(1) \<open>i < n\<close> by (intro exI [of _ "(k, val) # m"]) (auto simp: entries_bytes_def)
    then show ?thesis using int(2) by blast
  next
    case strk
    from IH [OF strk(3)] obtain m where m: "v = TextMap ((to @ [(t, val)]) @ m)" "length m = n - Suc i"
      "s2 = entries_bytes text_key m @ s'" "ents_ok text_key rust_string (Suc i) (text_key t) d m"
      by auto
    moreover have "ents_ok text_key rust_string i prev d ((t, val) # m)"
      using m(4) s s1 ord strk(1) by (intro ents_ok_Cons) (auto simp: text_key_def)
    ultimately have "\<exists>m. v = TextMap (to @ m) \<and> length m = n - i \<and>
        s = entries_bytes text_key m @ s' \<and> ents_ok text_key rust_string i prev d m"
      using s s1 strk(1) \<open>i < n\<close> by (intro exI [of _ "(t, val) # m"]) (auto simp: entries_bytes_def text_key_def)
    then show ?thesis using strk(2) \<open>i < n\<close> by blast
  qed
qed

lemma simple_Inr_iff:
  "simple ai s = Inr (v, s') \<longleftrightarrow> s' = s \<and> (ai = 20 \<and> v = Bool False \<or> ai = 21 \<and> v = Bool True)"
  by (simp add: simple_def Let_def) auto

lemma cbor_value_sound: "value_sound d"
proof (induction "66 - d" arbitrary: d rule: less_induct)
  case less
  show ?case unfolding value_sound_def
  proof (intro allI impI)
    fix s v s'
    assume val: "cbor_value d s = Inr (v, s')"
    then have d: "d \<le> MAX_NESTING_DEPTH" by (auto simp: cbor_value.simps split: if_splits)
    have IH: "value_sound (d + 1)"
      using d by (intro less) (simp add: MAX_NESTING_DEPTH_def)
    from val d obtain ib s1 where ib: "s = ib # s1"
      by (auto simp: cbor_value.simps byte_Inr)
    define major where "major = drop_bit 5 ib"
    define ai where "ai = ib AND 0x1F"
    have split: "push_bit 5 major OR ai = ib"
      unfolding major_def ai_def by (rule head_byte_split)
    note body = val [unfolded ib cbor_value.simps [of d "ib # s1"] byte_Cons and_then_simps prod.case
        Let_def major_def [symmetric] ai_def [symmetric]]
    have m8: "major \<in> {0, 1, 2, 3, 4, 5, 6, 7}"
    proof -
      have "unat major < 8"
        using drop_bit_5_u8_less [of ib] by (simp add: major_def word_less_nat_alt)
      then have "unat major \<in> {0, 1, 2, 3, 4, 5, 6, 7}" by auto
      then show ?thesis by (auto simp: word_unat_eq_iff)
    qed
    show "s = enc v @ s' \<and> canon v \<and> fits_depth d v"
    proof (cases "major = 7")
      case True
      then have "simple ai s1 = Inr (v, s')" using body d by simp
      then consider "ai = 20" "v = Bool False" "s' = s1" | "ai = 21" "v = Bool True" "s' = s1"
        unfolding simple_Inr_iff by blast
      then show ?thesis
        using True ib split d by cases (simp_all flip: split)
    next
      case False
      with m8 have m: "major \<in> {0, 1, 2, 3, 4, 5, 6}" by blast
      have "\<exists>r. argument ai s1 = Inr r"
      proof (rule ccontr)
        assume "\<not> ?thesis"
        then obtain e where "argument ai s1 = Inl e" by (cases "argument ai s1") auto
        with m body d show False by auto
      qed
      then obtain n s2 where arg: "argument ai s1 = Inr (n, s2)" by auto
      have wh: "s = write_head major n @ s2"
        using argument_write_head [OF arg, of major] ib split by auto
      have "major < 8" using drop_bit_5_u8_less by (simp add: major_def)
      note hd = cbor_value_head [OF d this, of n s2, folded wh, unfolded val, symmetric]
      from m hd consider "major = 0" | "major = 2" | "major = 3" | "major = 4" | "major = 5"
        by (auto split: if_splits)
      then show ?thesis
      proof cases
        case 1
        then show ?thesis using hd wh d by auto
      next
        case 2
        then obtain b where "v = Bytes b" "s2 = b @ s'" "length b = unat n"
          using hd by (auto simp: take_bytes_Inr)
        then show ?thesis using wh 2 d by simp
      next
        case 3
        then obtain b where "v = Text (string_of_bytes b)" "s2 = b @ s'" "length b = unat n" "utf8_valid b"
          using hd by (auto simp: take_bytes_Inr split: if_splits)
        moreover from this have "length (string_of_bytes b) = unat n"
          by (simp add: string_of_bytes_def)
        ultimately show ?thesis using wh 3 d by (simp add: rust_string_def)
      next
        case 4
        then obtain vs where v: "v = Array vs" and el: "cbor_elems (unat n) [] (d + 1) s2 = Inr (vs, s')"
          using hd by auto
        from cbor_elems_sound [OF IH el] v wh 4 d show ?thesis by auto
      next
        case 5
        show ?thesis
        proof (cases "n = 0")
          case True
          then show ?thesis using 5 hd wh d by auto
        next
          case False
          then have "0 < unat n" by (simp add: word_unat_eq_iff)
          have ent: "cbor_entries 0 (unat n) [] None [] [] (d + 1) s2 = Inr (v, s')"
            using False 5 hd by simp
          from cbor_entries_sound [OF IH ent] consider
            m where "v = Map m" "length m = unat n" "s2 = entries_bytes (write_head 0) m @ s'"
              "ents_ok (write_head 0) (\<lambda>_. True) 0 [] (d + 1) m"
          | m where "v = TextMap m" "length m = unat n" "s2 = entries_bytes text_key m @ s'"
              "ents_ok text_key rust_string 0 [] (d + 1) m"
            by auto
          then show ?thesis
          proof cases
            case 1
            then have "sorted_wrt (<) (map fst m)"
              by (simp add: ents_ok_def write_head_less_iff)
            with 1 5 wh d show ?thesis
              by (auto simp: enc_Map_sorted ents_ok_def dest: fits_depth_le simp del: enc.simps)
          next
            case 2
            with 5 wh d \<open>0 < unat n\<close> show ?thesis
              by (auto simp: enc_TextMap_sorted ents_ok_def dest: fits_depth_le simp del: enc.simps)
          qed
        qed
      qed
    qed
  qed
qed

theorem decode_iff_canonical:
  "decode b = Inr v \<longleftrightarrow> canon v \<and> fits_depth 0 v \<and> b = encode v"
proof
  assume "decode b = Inr v"
  then have "cbor_value 0 b = Inr (v, [])"
    by (auto simp: decode_def split: if_splits)
  then show "canon v \<and> fits_depth 0 v \<and> b = encode v"
    using cbor_value_sound [of 0] by (auto simp: value_sound_def encode_def)
next
  assume "canon v \<and> fits_depth 0 v \<and> b = encode v"
  then show "decode b = Inr v"
    using cbor_value_enc [of v 0 "[]"] by (simp add: decode_def encode_def)
qed

end
