(* ===== verification/Wire.thy ===== *)
theory Wire
  imports Cbor "HOL-Library.Multiset"
begin

text \<open>
  The field-extraction layer of \<^verbatim>\<open>cbor.rs\<close>: the consuming map reader \<open>Fields\<close>, the
  coercions \<open>as_u64\<close>, \<open>as_bytes\<close>, \dots, and the contract every wire object of the core
  crate keeps, as the locales \<open>wire_object\<close> and \<open>signed_object\<close>.

  A reader is a continuation over the remaining fields.  \<open>req_as conv k (\<lambda>x. rest)\<close> is the
  statement \<open>let x = conv(f.req(k)?)?; rest\<close>, \<open>opt_as conv k (\<lambda>x. rest)\<close> is
  \<open>let x = f.take(k).map(conv).transpose()?; rest\<close>, and \<open>finish x\<close> is
  \<open>f.deny_unknown()?; Ok(x)\<close>.
\<close>

section \<open>Fields\<close>

type_synonym fields = "(u64 \<times> cv) list"

definition fields_from_cv :: "cv \<Rightarrow> cbor_error + fields" where
  "fields_from_cv c = (case c of Map m \<Rightarrow> Inr m | _ \<Rightarrow> Inl TypeMismatch)"

definition fields_has :: "fields \<Rightarrow> u64 \<Rightarrow> bool" where
  "fields_has f k = list_ex (\<lambda>(kk, _). kk = k) f"

fun fields_take :: "u64 \<Rightarrow> fields \<Rightarrow> cv option \<times> fields" where
  "fields_take k [] = (None, [])"
| "fields_take k ((kk, v) # f) =
     (if kk = k then (Some v, f) else let (r, f') = fields_take k f in (r, (kk, v) # f'))"

definition fields_req :: "u64 \<Rightarrow> fields \<Rightarrow> cbor_error + cv \<times> fields" where
  "fields_req k f =
     (case fields_take k f of (Some v, f') \<Rightarrow> Inr (v, f') | (None, _) \<Rightarrow> Inl (MissingKey k))"

definition fields_into_pairs :: "fields \<Rightarrow> (u64 \<times> cv) list" where
  "fields_into_pairs f = f"

definition fields_deny_unknown :: "fields \<Rightarrow> cbor_error + unit" where
  "fields_deny_unknown f = (case f of (k, _) # _ \<Rightarrow> Inl (UnknownKey k) | [] \<Rightarrow> Inr ())"

definition req_as :: "(cv \<Rightarrow> cbor_error + 'x) \<Rightarrow> u64 \<Rightarrow> ('x \<Rightarrow> fields \<Rightarrow> cbor_error + 'r) \<Rightarrow>
    fields \<Rightarrow> cbor_error + 'r" where
  "req_as conv k cont f = and_then (fields_req k f) (\<lambda>(v, f'). and_then (conv v) (\<lambda>x. cont x f'))"

definition opt_as :: "(cv \<Rightarrow> cbor_error + 'x) \<Rightarrow> u64 \<Rightarrow> ('x option \<Rightarrow> fields \<Rightarrow> cbor_error + 'r) \<Rightarrow>
    fields \<Rightarrow> cbor_error + 'r" where
  "opt_as conv k cont f =
     (case fields_take k f of
        (None, f') \<Rightarrow> cont None f'
      | (Some v, f') \<Rightarrow> and_then (conv v) (\<lambda>x. cont (Some x) f'))"

definition finish :: "'r \<Rightarrow> fields \<Rightarrow> cbor_error + 'r" where
  "finish r f = and_then (fields_deny_unknown f) (\<lambda>_. Inr r)"

definition read_fields :: "(fields \<Rightarrow> cbor_error + 'r) \<Rightarrow> cv \<Rightarrow> cbor_error + 'r" where
  "read_fields rd c = and_then (fields_from_cv c) rd"

definition from_bytes :: "(cv \<Rightarrow> cbor_error + 'a) \<Rightarrow> bytes \<Rightarrow> cbor_error + 'a" where
  "from_bytes from_cv b = and_then (decode b) from_cv"

section \<open>Coercions\<close>

definition as_u64 :: "cv \<Rightarrow> cbor_error + u64" where
  "as_u64 c = (case c of U64 n \<Rightarrow> Inr n | _ \<Rightarrow> Inl TypeMismatch)"

definition as_u8 :: "cv \<Rightarrow> cbor_error + u8" where
  "as_u8 c = and_then (as_u64 c) (\<lambda>n. if n \<le> 0xFF then Inr (ucast n) else Inl IntRange)"

definition as_u32 :: "cv \<Rightarrow> cbor_error + u32" where
  "as_u32 c = and_then (as_u64 c) (\<lambda>n. if n \<le> 0xFFFFFFFF then Inr (ucast n) else Inl IntRange)"

definition as_bytes :: "cv \<Rightarrow> cbor_error + bytes" where
  "as_bytes c = (case c of Bytes b \<Rightarrow> Inr b | _ \<Rightarrow> Inl TypeMismatch)"

definition as_text :: "cv \<Rightarrow> cbor_error + string" where
  "as_text c = (case c of Text s \<Rightarrow> Inr s | _ \<Rightarrow> Inl TypeMismatch)"

definition as_bool :: "cv \<Rightarrow> cbor_error + bool" where
  "as_bool c = (case c of Bool b \<Rightarrow> Inr b | _ \<Rightarrow> Inl TypeMismatch)"

definition as_array :: "cv \<Rightarrow> cbor_error + cv list" where
  "as_array c = (case c of Array a \<Rightarrow> Inr a | _ \<Rightarrow> Inl TypeMismatch)"

text \<open>\<open>as_array(c)?.into_iter().map(f).collect()\<close>\<close>

definition as_list :: "(cv \<Rightarrow> cbor_error + 'x) \<Rightarrow> cv \<Rightarrow> cbor_error + 'x list" where
  "as_list f c = and_then (as_array c) (collect_results f)"

section \<open>Evaluation of readers\<close>

lemma coercion_simps [wire_simps]:
  "as_u64 (U64 n) = Inr n" "as_bytes (Bytes b) = Inr b" "as_text (Text s) = Inr s"
  "as_bool (Bool x) = Inr x" "as_array (Array a) = Inr a"
  by (simp_all add: as_u64_def as_bytes_def as_text_def as_bool_def as_array_def)

lemma coercion_Inr_iff [simp]:
  "as_u64 c = Inr n \<longleftrightarrow> c = U64 n" "as_bytes c = Inr b \<longleftrightarrow> c = Bytes b"
  "as_text c = Inr s \<longleftrightarrow> c = Text s" "as_bool c = Inr x \<longleftrightarrow> c = Bool x"
  "as_array c = Inr a \<longleftrightarrow> c = Array a"
  by (auto simp: as_u64_def as_bytes_def as_text_def as_bool_def as_array_def split: cv.splits)

lemma u8_as_u64_le: "(ucast (b :: u8) :: u64) \<le> 0xFF"
proof -
  have "unat b \<le> 255" using unat_u8_less [of b] by linarith
  then show ?thesis by (simp add: word_le_nat_alt)
qed

lemma as_u8_U64 [wire_simps]: "as_u8 (U64 (ucast (b :: u8))) = Inr b"
  by (simp add: as_u8_def coercion_simps u8_as_u64_le)

lemma as_u8_Inr_iff [simp]: "as_u8 c = Inr b \<longleftrightarrow> c = U64 (ucast b)"
proof
  assume "as_u8 c = Inr b"
  then obtain n where "c = U64 n" "n \<le> 0xFF" "b = ucast n"
    by (auto simp: as_u8_def split: if_splits)
  then show "c = U64 (ucast b)" by (simp add: u64_cast_small)
qed (simp add: as_u8_U64)

lemma u32_as_u64_le: "(ucast (b :: u32) :: u64) \<le> 0xFFFFFFFF" (is ?le)
  and ucast_ucast_u32_u64 [simp]: "ucast (ucast (b :: u32) :: u64) = b"
proof -
  have "unat b < 2 ^ 32" by (rule order_less_le_trans [OF unsigned_less]) simp
  moreover from this have "unat (ucast b :: u64) = unat b"
    by (simp add: unsigned_ucast_eq take_bit_nat_eq_self)
  ultimately show ?le by (simp add: word_le_nat_alt)
  show "ucast (ucast b :: u64) = b" by (rule bit_word_eqI) (simp add: bit_simps)
qed

lemma as_u32_U64 [wire_simps]: "as_u32 (U64 (ucast (b :: u32))) = Inr b"
  by (simp add: as_u32_def coercion_simps u32_as_u64_le)

lemma as_u32_Inr_iff [simp]: "as_u32 c = Inr b \<longleftrightarrow> c = U64 (ucast b)"
proof
  assume "as_u32 c = Inr b"
  then obtain n where n: "c = U64 n" "n \<le> 0xFFFFFFFF" "b = ucast n"
    by (auto simp: as_u32_def split: if_splits)
  then have "ucast b = n"
    by (simp add: word_unat_eq_iff unsigned_ucast_eq take_bit_eq_mod word_le_nat_alt unat_mod)
  with n show "c = U64 (ucast b)" by simp
qed (simp add: as_u32_U64)

lemma as_list_Inr_iff:
  "as_list f c = Inr xs \<longleftrightarrow> (\<exists>a. c = Array a \<and> collect_results f a = Inr xs)"
  by (auto simp: as_list_def)

lemma as_list_Array_map [wire_simps]:
  assumes "\<And>y. y \<in> set ys \<Longrightarrow> f (g y) = Inr y"
  shows "as_list f (Array (map g ys)) = Inr ys"
  using assms by (simp add: as_list_def coercion_simps)

lemma as_list_inv:
  assumes "as_list f c = Inr ys"
    and "\<And>a x y. c = Array a \<Longrightarrow> x \<in> set a \<Longrightarrow> f x = Inr y \<Longrightarrow> g y = x"
  shows "c = Array (map g ys)"
  using assms collect_results_inv [of f _ ys g] by (fastforce simp: as_list_Inr_iff)

lemma as_list_iff:
  assumes "\<And>c x. f c = Inr x \<longleftrightarrow> c = g x"
  shows "as_list f c = Inr xs \<longleftrightarrow> c = Array (map g xs)"
proof
  assume "as_list f c = Inr xs"
  then show "c = Array (map g xs)" by (rule as_list_inv) (simp add: assms)
next
  assume "c = Array (map g xs)"
  then show "as_list f c = Inr xs" using assms by (auto intro: as_list_Array_map)
qed

lemma prim_list_inj [simp]: "map Bytes a = map Bytes b \<longleftrightarrow> a = b" "map Text s = map Text t \<longleftrightarrow> s = t"
  by (simp_all add: inj_map_eq_map inj_def)

lemma read_fields_Map [wire_simps]: "read_fields rd (Map m) = rd m"
  by (simp add: read_fields_def fields_from_cv_def)

lemma read_fields_Inr_iff [simp]:
  "read_fields rd c = Inr r \<longleftrightarrow> (\<exists>m. c = Map m \<and> rd m = Inr r)"
  by (auto simp: read_fields_def fields_from_cv_def split: cv.splits)

lemma req_as_Cons [wire_simps]:
  "req_as conv k cont ((k, v) # f) = and_then (conv v) (\<lambda>x. cont x f)"
  by (simp add: req_as_def fields_req_def)

lemma opt_as_Nil [wire_simps]: "opt_as conv k cont [] = cont None []"
  by (simp add: opt_as_def)

lemma opt_as_Cons_same [wire_simps]:
  "opt_as conv k cont ((k, v) # f) = and_then (conv v) (\<lambda>x. cont (Some x) f)"
  by (simp add: opt_as_def)

lemma finish_Nil [wire_simps]: "finish r [] = Inr r"
  by (simp add: finish_def fields_deny_unknown_def)

lemma finish_Inr_iff [simp]: "finish r f = Inr r' \<longleftrightarrow> f = [] \<and> r' = r"
  by (auto simp: finish_def fields_deny_unknown_def split: list.splits)

lemma fields_take_absent: "k \<notin> fst ` set f \<Longrightarrow> fields_take k f = (None, f)"
  by (induction f) (auto simp: Let_def)

lemma opt_as_absent: "k \<notin> fst ` set f \<Longrightarrow> opt_as conv k cont f = cont None f"
  by (simp add: opt_as_def fields_take_absent)

lemma opt_as_Cons_absent [wire_simps]:
  "k \<notin> fst ` set ((kk, v) # f) \<Longrightarrow> opt_as conv k cont ((kk, v) # f) = cont None ((kk, v) # f)"
  by (rule opt_as_absent)

lemma fields_take_mset:
  "fields_take k f = (Some v, f') \<Longrightarrow> mset f = add_mset (k, v) (mset f')"
  by (induction f arbitrary: f') (auto split: if_splits prod.splits)

lemma fields_take_None: "fields_take k f = (None, f') \<Longrightarrow> f' = f"
  by (induction f arbitrary: f') (auto split: if_splits prod.splits)

lemma req_as_Inr_iff:
  "req_as conv k cont f = Inr r \<longleftrightarrow>
   (\<exists>v x f'. fields_take k f = (Some v, f') \<and> conv v = Inr x \<and> cont x f' = Inr r)"
  by (auto simp: req_as_def fields_req_def split: prod.splits option.splits)

lemma req_as_InrE:
  assumes "req_as conv k cont f = Inr r"
  obtains v x f' where "mset f = add_mset (k, v) (mset f')" "conv v = Inr x" "cont x f' = Inr r"
  using assms by (auto simp: req_as_Inr_iff dest: fields_take_mset)

lemma opt_as_InrE:
  assumes "opt_as conv k cont f = Inr r"
  obtains (absent) "cont None f = Inr r"
  | (present) v x f' where "mset f = add_mset (k, v) (mset f')" "conv v = Inr x" "cont (Some x) f' = Inr r"
proof (cases "fields_take k f")
  case (Pair o' f')
  then show ?thesis
  proof (cases o')
    case None
    then show ?thesis using assms Pair fields_take_None [of k f f'] absent by (auto simp: opt_as_def)
  next
    case (Some v)
    then show ?thesis using assms Pair fields_take_mset [of k f v f'] present by (auto simp: opt_as_def)
  qed
qed

text \<open>A canonical map whose entries are known as a multiset is known as a list.\<close>

lemma canon_Map_eqI:
  assumes "canon (Map m)" and "mset m = mset l" and "sorted_wrt (<) (map fst l)"
  shows "Map m = Map l"
proof -
  have "set m = set l" using assms(2) by (metis set_mset_mset)
  then show ?thesis
    using strict_sorted_pairs_unique [of m l] assms(1,3) by simp
qed

lemma canon_Map_entry:
  assumes "canon (Map m)" and "fits_depth d (Map m)" and "(k, v) \<in># mset m"
  shows "canon v" and "fits_depth (d + 1) v"
  using assms by auto

lemma encode_inj:
  assumes "canon a" "fits_depth 0 a" "canon b" "fits_depth 0 b" "encode a = encode b"
  shows "a = b"
proof -
  have "decode (encode a) = Inr a" "decode (encode a) = Inr b"
    using assms by (simp_all add: decode_iff_canonical)
  then show ?thesis by simp
qed

section \<open>Empty maps\<close>

text \<open>
  The empty text-keyed map and the empty integer-keyed map have the same encoding, which
  decodes to the latter.  \<open>norm_cv\<close> replaces the former by the latter throughout a value.
\<close>

fun norm_cv :: "cv \<Rightarrow> cv" where
  "norm_cv (Array a) = Array (map norm_cv a)"
| "norm_cv (Map m) = Map (map (\<lambda>(k, v). (k, norm_cv v)) m)"
| "norm_cv (TextMap m) = (if m = [] then Map [] else TextMap (map (\<lambda>(k, v). (k, norm_cv v)) m))"
| "norm_cv (U64 n) = U64 n"
| "norm_cv (Bytes b) = Bytes b"
| "norm_cv (Text s) = Text s"
| "norm_cv (Bool b) = Bool b"

lemma sort_key_fst_map_snd:
  "sort_key fst (map (\<lambda>(k, v). (kb k, g v)) m) =
   map (\<lambda>(k, v). (k, g v)) (sort_key fst (map (\<lambda>(k, v). (kb k, v)) m))"
proof (induction m)
  case (Cons p m)
  have ins: "insort_key fst (kb k, g v) (map (\<lambda>(k, v). (k, g v)) xs) =
      map (\<lambda>(k, v). (k, g v)) (insort_key fst (kb k, v) xs)" for k v xs
    by (induction xs) auto
  from Cons show ?case by (cases p) (simp add: ins)
qed simp

lemma enc_norm_cv [simp]: "enc (norm_cv v) = enc v"
proof (induction v rule: enc.induct)
  case (5 a)
  then show ?case by (simp add: comp_def cong: map_cong)
next
  case (6 m)
  have "enc (norm_cv w) = enc w" if "(k, w) \<in> set m" for k w
    using 6 [OF refl, of "(write_head 0 k, w)"] that by force
  then show ?case
    by (auto simp: comp_def case_prod_unfold sort_key_fst_map_snd
        [of "write_head 0" norm_cv m, unfolded case_prod_unfold] intro!: arg_cong [where f = concat])
next
  case (7 m)
  have "enc (norm_cv w) = enc w" if "(k, w) \<in> set m" for k w
    using 7 [OF refl, of "(text_key k, w)"] that by force
  then show ?case
    by (auto simp: comp_def case_prod_unfold sort_key_fst_map_snd
        [of text_key norm_cv m, unfolded case_prod_unfold] intro!: arg_cong [where f = concat])
qed simp_all

lemma encode_norm_cv [simp]: "encode (norm_cv v) = encode v"
  by (simp add: encode_def)

lemma norm_canon [simp]: "canon v \<Longrightarrow> norm_cv v = v"
  by (induction v rule: norm_cv.induct) (auto intro!: map_idI)

section \<open>Reading the fields of a canonical map\<close>

text \<open>\<open>fields_ok d f\<close>: every remaining field value is canonical and fits at depth \<open>d\<close>.\<close>

definition fields_ok :: "nat \<Rightarrow> fields \<Rightarrow> bool" where
  "fields_ok d f \<longleftrightarrow> (\<forall>(k, v) \<in># mset f. canon v \<and> fits_depth d v)"

lemma fields_ok_add:
  "mset f = add_mset (k, v) (mset f') \<Longrightarrow> fields_ok d f \<longleftrightarrow> canon v \<and> fits_depth d v \<and> fields_ok d f'"
  by (auto simp: fields_ok_def simp del: set_mset_mset)

lemma fields_ok_Map: "canon (Map m) \<Longrightarrow> fits_depth d (Map m) \<Longrightarrow> fields_ok (Suc d) m"
  by (auto simp: fields_ok_def)

lemma req_as_okE:
  assumes "req_as conv k cont f = Inr r" and "fields_ok d f"
  obtains v x f' where "mset f = add_mset (k, v) (mset f')" "conv v = Inr x" "cont x f' = Inr r"
    "canon v" "fits_depth d v" "fields_ok d f'"
  using assms by (elim req_as_InrE) (auto simp: fields_ok_add)

lemma opt_as_okE:
  assumes "opt_as conv k cont f = Inr r" and "fields_ok d f"
  obtains (absent) "cont None f = Inr r" "fields_ok d f"
  | (present) v x f' where "mset f = add_mset (k, v) (mset f')" "conv v = Inr x" "cont (Some x) f' = Inr r"
    "canon v" "fits_depth d v" "fields_ok d f'"
  using assms by (elim opt_as_InrE) (auto simp: fields_ok_add)

lemma read_fields_canonE:
  assumes "read_fields rd v = Inr x" "canon v" "fits_depth d v"
    and "\<And>m. rd m = Inr x \<Longrightarrow> fields_ok (Suc d) m \<Longrightarrow> mset m = mset l \<and> P"
    and "sorted_wrt (<) (map fst l)"
  shows "v = Map l \<and> P"
proof -
  obtain m where m: "v = Map m" "rd m = Inr x" using assms(1) by auto
  then have "mset m = mset l" P using assms(2-4) fields_ok_Map [of m d] by blast+
  then show ?thesis using canon_Map_eqI [of m l] assms(2,5) by (simp add: m(1))
qed

section \<open>The contract of wire objects\<close>

text \<open>
  \<open>cv_writer\<close>: an object type with its canonical value \<open>to_cv\<close>, its decoder \<open>from_cv\<close> and its
  Rust type invariant \<open>wf\<close> (lengths below \<open>2^64\<close>, valid UTF-8 strings, and the schema's own
  conditions), read at nesting depth \<open>d\<close>: what is written is canonical and reads back.
  \<open>cv_object\<close>: in addition nothing else is read.
\<close>

locale cv_writer =
  fixes to_cv :: "'a \<Rightarrow> cv"
    and from_cv :: "cv \<Rightarrow> cbor_error + 'a"
    and wf :: "'a \<Rightarrow> bool"
    and d :: nat
  assumes canon_to_cv: "wf x \<Longrightarrow> canon (to_cv x)"
    and fits_to_cv: "wf x \<Longrightarrow> fits_depth d (to_cv x)"
    and from_to_cv: "wf x \<Longrightarrow> from_cv (to_cv x) = Inr x"
begin

lemma list_from_to: "\<forall>x \<in> set xs. wf x \<Longrightarrow> as_list from_cv (Array (map to_cv xs)) = Inr xs"
  by (simp add: as_list_Array_map from_to_cv)

lemma list_canon:
  "length xs < 2 ^ 64 \<Longrightarrow> \<forall>x \<in> set xs. wf x \<Longrightarrow> canon (Array (map to_cv xs))"
  by (simp add: canon_to_cv)

lemma list_fits:
  "\<forall>x \<in> set xs. wf x \<Longrightarrow> d = Suc e \<Longrightarrow> e \<le> MAX_NESTING_DEPTH \<Longrightarrow> fits_depth e (Array (map to_cv xs))"
  using fits_to_cv by simp

lemma to_cv_inj: "wf x \<Longrightarrow> wf y \<Longrightarrow> to_cv x = to_cv y \<Longrightarrow> x = y"
  by (metis from_to_cv sum.inject(2))

lemma list_inj:
  assumes "\<forall>x \<in> set xs. wf x" "\<forall>x \<in> set ys. wf x" "map to_cv xs = map to_cv ys"
  shows "xs = ys"
proof -
  have "Inr xs = (Inr ys :: cbor_error + _)"
    using list_from_to [OF assms(1)] list_from_to [OF assms(2)] unfolding assms(3) by (rule box_equals [OF refl])
  then show ?thesis by simp
qed

end

locale cv_object = cv_writer to_cv from_cv wf d
  for to_cv :: "'a \<Rightarrow> cv" and from_cv :: "cv \<Rightarrow> cbor_error + 'a" and wf :: "'a \<Rightarrow> bool" and d :: nat +
  assumes to_from_cv: "canon c \<Longrightarrow> fits_depth d c \<Longrightarrow> from_cv c = Inr x \<Longrightarrow> wf x \<and> to_cv x = c"
begin

lemma list_to_from:
  assumes "as_list from_cv v = Inr xs" "canon v" "fits_depth e v" "d = Suc e"
  shows "length xs < 2 ^ 64 \<and> (\<forall>x \<in> set xs. wf x) \<and> v = Array (map to_cv xs)"
proof -
  obtain a where a: "v = Array a" "collect_results from_cv a = Inr xs"
    using assms(1) by (auto simp: as_list_Inr_iff)
  have ok: "wf x \<and> to_cv x = w" if "w \<in> set a" "from_cv w = Inr x" for w x
    using assms(2-4) that by (intro to_from_cv) (auto simp: a)
  then have "map to_cv xs = a" using a(2) by (intro collect_results_inv) auto
  moreover have "\<forall>x \<in> set xs. wf x" using ok collect_results_Inr_set [OF a(2)] by blast
  ultimately show ?thesis using assms(2) by (auto simp: a)
qed

end

text \<open>
  \<open>wire_writer\<close> and \<open>wire_object\<close> are the same contracts for an object that is decoded on its own.
  A \<open>wire_object\<close> accepts exactly the wire bytes of well-formed objects, so no two byte strings
  decode to the same object.
\<close>

locale wire_writer = cv_writer to_cv from_cv wf 0
  for to_cv :: "'a \<Rightarrow> cv" and from_cv :: "cv \<Rightarrow> cbor_error + 'a" and wf :: "'a \<Rightarrow> bool"
begin

lemma round_trip:
  assumes "wf x"
  shows "from_bytes from_cv (encode (to_cv x)) = Inr x"
proof -
  have "decode (encode (to_cv x)) = Inr (to_cv x)"
    using assms by (simp add: decode_iff_canonical canon_to_cv fits_to_cv)
  then show ?thesis using assms by (simp add: from_bytes_def from_to_cv)
qed

lemma det_cbor_inj:
  "wf x \<Longrightarrow> wf y \<Longrightarrow> encode (to_cv x) = encode (to_cv y) \<Longrightarrow> x = y"
  by (metis round_trip sum.inject(2))

end

locale wire_object = cv_object to_cv from_cv wf 0
  for to_cv :: "'a \<Rightarrow> cv" and from_cv :: "cv \<Rightarrow> cbor_error + 'a" and wf :: "'a \<Rightarrow> bool"

sublocale wire_object \<subseteq> wire_writer
  by unfold_locales

context wire_object
begin

lemma from_bytes_iff:
  "from_bytes from_cv b = Inr x \<longleftrightarrow> wf x \<and> b = encode (to_cv x)"
proof
  assume "from_bytes from_cv b = Inr x"
  then obtain c where "decode b = Inr c" "from_cv c = Inr x" by (auto simp: from_bytes_def)
  then show "wf x \<and> b = encode (to_cv x)"
    using to_from_cv [of c x] by (auto simp: decode_iff_canonical)
qed (auto simp: round_trip)

end

text \<open>
  \<open>signed_writer\<close> and \<open>signed_object\<close>: a wire object with a signature field.  \<open>body_cv\<close> is \<open>to_cv(false)\<close>, the map
  without the signature key, and \<open>strip\<close> clears the signature.  The signing body then
  determines every field of the object except the signature.
\<close>

locale signed_writer = wire_writer to_cv from_cv wf
  for to_cv :: "'a \<Rightarrow> cv" and from_cv :: "cv \<Rightarrow> cbor_error + 'a" and wf :: "'a \<Rightarrow> bool" +
  fixes body_cv :: "'a \<Rightarrow> cv"
    and strip :: "'a \<Rightarrow> 'a"
  assumes canon_body: "wf x \<Longrightarrow> canon (body_cv x)"
    and fits_body: "wf x \<Longrightarrow> fits_depth 0 (body_cv x)"
    and body_eq: "wf x \<Longrightarrow> wf y \<Longrightarrow> body_cv x = body_cv y \<Longrightarrow> strip x = strip y"
begin

lemma signing_body_binds:
  assumes "wf x" "wf y" "encode (body_cv x) = encode (body_cv y)"
  shows "strip x = strip y"
proof -
  have "body_cv x = body_cv y"
    using assms(3) by (intro encode_inj canon_body fits_body assms(1,2))
  then show ?thesis by (rule body_eq [OF assms(1,2)])
qed

end

locale signed_object = signed_writer to_cv from_cv wf body_cv strip + wire_object to_cv from_cv wf
  for to_cv :: "'a \<Rightarrow> cv" and from_cv :: "cv \<Rightarrow> cbor_error + 'a" and wf :: "'a \<Rightarrow> bool"
    and body_cv :: "'a \<Rightarrow> cv" and strip :: "'a \<Rightarrow> 'a"

lemma signed_objectI:
  assumes "cv_object to_cv from_cv ok 0"
    and "\<And>x. ok x \<Longrightarrow> canon (body_cv x)" "\<And>x. ok x \<Longrightarrow> fits_depth 0 (body_cv x)"
    and "\<And>x y. ok x \<Longrightarrow> ok y \<Longrightarrow> body_cv x = body_cv y \<Longrightarrow> strip x = strip y"
  shows "signed_object to_cv from_cv ok body_cv strip"
  using assms
  by (intro signed_object.intro signed_writer.intro wire_writer.intro wire_object.intro
      signed_writer_axioms.intro cv_object.axioms(1))

end
