(* ===== verification/Rollback.thy ===== *)
theory Rollback
  imports Main
begin

text \<open>
  The anti-rollback contract shared by the per-peer trackers of the core crate
  (\<open>SuiteRatchet\<close>, \<open>CapsVersionTracker\<close>, the feed and subscription trackers): a map from a
  key to the highest version accepted so far, and an operation that rejects anything older.
  The trackers are interpreted in the theories of their components.
\<close>

text \<open>A run of a tracker: every attempt is offered in order, a rejected one leaves the state.\<close>

fun run_accepts :: "('st \<Rightarrow> 'a \<Rightarrow> 'e + 'st) \<Rightarrow> 'st \<Rightarrow> 'a list \<Rightarrow> 'st" where
  "run_accepts acc st [] = st"
| "run_accepts acc st (a # as) =
     run_accepts acc (case acc st a of Inl _ \<Rightarrow> st | Inr st' \<Rightarrow> st') as"

text \<open>
  \<open>older v f\<close> says that version \<open>v\<close> is refused once \<open>f\<close> is the floor: \<open>v < f\<close> for a tracker
  that lets the same version through again, \<open>v \<le> f\<close> for one that does not.
\<close>

locale version_floor =
  fixes version :: "'st \<Rightarrow> 'k \<Rightarrow> 'v::linorder option"
    and accept :: "'st \<Rightarrow> 'a \<Rightarrow> 'e + 'st"
    and key_of :: "'a \<Rightarrow> 'k"
    and ver_of :: "'a \<Rightarrow> 'v"
    and admissible :: "'a \<Rightarrow> bool"
    and older :: "'v \<Rightarrow> 'v \<Rightarrow> bool"
  assumes accept_version: "accept st a = Inr st' \<Longrightarrow> version st' = (version st)(key_of a \<mapsto> ver_of a)"
    and accept_iff: "(\<exists>st'. accept st a = Inr st') \<longleftrightarrow>
        admissible a \<and> (\<forall>f. version st (key_of a) = Some f \<longrightarrow> \<not> older (ver_of a) f)"
    and older_less: "v < f \<Longrightarrow> older v f"
    and older_trans: "older v f \<Longrightarrow> f \<le> f' \<Longrightarrow> older v f'"
begin

lemma not_older_le: "\<not> older v f \<Longrightarrow> f \<le> v"
  using older_less by (meson not_le)

lemma accept_not_older:
  "accept st a = Inr st' \<Longrightarrow> version st (key_of a) = Some f \<Longrightarrow> \<not> older (ver_of a) f"
  using accept_iff [of st a] by auto

lemma step_floor:
  assumes "version st k = Some f"
  shows "\<exists>f'. version (case accept st a of Inl _ \<Rightarrow> st | Inr st' \<Rightarrow> st') k = Some f' \<and> f \<le> f'"
proof (cases "accept st a")
  case (Inl e)
  then show ?thesis using assms by simp
next
  case (Inr st')
  show ?thesis
  proof (cases "k = key_of a")
    case True
    then have "f \<le> ver_of a"
      using accept_not_older [OF Inr] assms not_older_le by auto
    then show ?thesis using Inr True accept_version [OF Inr] by auto
  next
    case False
    then show ?thesis using Inr assms accept_version [OF Inr] by auto
  qed
qed

lemma run_floor:
  "version st k = Some f \<Longrightarrow> \<exists>f'. version (run_accepts accept st as) k = Some f' \<and> f \<le> f'"
proof (induction as arbitrary: st f)
  case Nil
  then show ?case by auto
next
  case (Cons a as)
  from step_floor [OF Cons.prems, of a] obtain f1 where
    f1: "version (case accept st a of Inl _ \<Rightarrow> st | Inr st' \<Rightarrow> st') k = Some f1" "f \<le> f1"
    by blast
  from Cons.IH [OF f1(1)] f1(2) show ?case by fastforce
qed

text \<open>After one version of a peer is accepted, no older one is accepted, whatever came between.\<close>

lemma no_rollback:
  assumes "accept st a = Inr st1" and "key_of b = key_of a" and "older (ver_of b) (ver_of a)"
  shows "\<nexists>st2. accept (run_accepts accept st1 as) b = Inr st2"
proof -
  have "version st1 (key_of b) = Some (ver_of a)"
    using accept_version [OF assms(1)] assms(2) by simp
  from run_floor [OF this, of as] obtain f where
    "version (run_accepts accept st1 as) (key_of b) = Some f" "ver_of a \<le> f" by blast
  then show ?thesis
    using accept_iff older_trans [OF assms(3)] by blast
qed

lemma other_peers_unchanged:
  assumes "\<forall>a \<in> set as. key_of a \<noteq> k"
  shows "version (run_accepts accept st as) k = version st k"
  using assms
proof (induction as arbitrary: st)
  case (Cons a as)
  have "version (case accept st a of Inl _ \<Rightarrow> st | Inr st' \<Rightarrow> st') k = version st k"
    using Cons.prems accept_version [of st a] by (auto split: sum.splits)
  then show ?case using Cons by simp
qed simp

end

end
