(* ===== verification/Suite_Id.thy ===== *)
theory Suite_Id
  imports Wire Rollback
begin

text \<open>
  Algorithm suites (\<^verbatim>\<open>suite.rs\<close>), content addresses (\<^verbatim>\<open>id.rs\<close>) and the signature
  helpers of \<^verbatim>\<open>identity.rs\<close> that every signed object uses.

  BLAKE3 and Ed25519 are third-party code.  They enter as the fields of the record \<open>crypto\<close>, an
  argument of the definitions that call them; \<open>blake3_law\<close> and \<open>ed25519_law\<close> state what their
  documentation promises (a 32-byte digest; an honest signature verifies under the public key of its
  seed) and appear as named hypotheses where a property needs them.  \<open>toy_crypto\<close> is an
  executable instance that satisfies both laws.
\<close>

section \<open>Suites\<close>

datatype suite =
    Classical
  | PqHybrid
  | ReservedAeadGcm
  | ReservedAnchorSlhDsa
  | ReservedHashSha3

definition suite_from_u8 :: "u8 \<Rightarrow> suite option" where
  "suite_from_u8 b =
     (if b = 0x01 then Some Classical
      else if b = 0x02 then Some PqHybrid
      else if b = 0x03 then Some ReservedAeadGcm
      else if b = 0x04 then Some ReservedAnchorSlhDsa
      else if b = 0x05 then Some ReservedHashSha3
      else None)"

fun suite_as_u8 :: "suite \<Rightarrow> u8" where
  "suite_as_u8 Classical = 0x01"
| "suite_as_u8 PqHybrid = 0x02"
| "suite_as_u8 ReservedAeadGcm = 0x03"
| "suite_as_u8 ReservedAnchorSlhDsa = 0x04"
| "suite_as_u8 ReservedHashSha3 = 0x05"

definition is_supported :: "suite \<Rightarrow> bool" where
  "is_supported s = (case s of Classical \<Rightarrow> True | _ \<Rightarrow> False)"

definition mote_supported :: "suite \<Rightarrow> bool" where
  "mote_supported s = (case s of Classical \<Rightarrow> True | PqHybrid \<Rightarrow> True | _ \<Rightarrow> False)"

definition suite_from_cv :: "cv \<Rightarrow> cbor_error + suite" where
  "suite_from_cv c = and_then (as_u8 c) (\<lambda>b. ok_or (suite_from_u8 b) (UnknownSuite b))"

definition suite_cv :: "suite \<Rightarrow> cv" where
  "suite_cv s = U64 (ucast (suite_as_u8 s))"

text \<open>The derived \<open>Ord\<close> of the enum compares the variants in declaration order.\<close>

lemma suite_as_u8_inject [simp]: "suite_as_u8 a = suite_as_u8 b \<longleftrightarrow> a = b"
  by (cases a; cases b) simp_all

instantiation suite :: linorder
begin

definition less_eq_suite :: "suite \<Rightarrow> suite \<Rightarrow> bool" where
  "less_eq_suite a b \<longleftrightarrow> suite_as_u8 a \<le> suite_as_u8 b"

definition less_suite :: "suite \<Rightarrow> suite \<Rightarrow> bool" where
  "less_suite a b \<longleftrightarrow> suite_as_u8 a < suite_as_u8 b"

instance
proof
  fix x y z :: suite
  show "(x < y) = (x \<le> y \<and> \<not> y \<le> x)" by (simp only: less_eq_suite_def less_suite_def less_le_not_le)
  show "x \<le> x" by (simp add: less_eq_suite_def)
  show "x \<le> y \<Longrightarrow> y \<le> z \<Longrightarrow> x \<le> z" by (simp add: less_eq_suite_def)
  show "x \<le> y \<Longrightarrow> y \<le> x \<Longrightarrow> x = y"
    unfolding less_eq_suite_def by (metis order.antisym suite_as_u8_inject)
  show "x \<le> y \<or> y \<le> x" by (auto simp: less_eq_suite_def)
qed

end

text \<open>\<open>Iterator::max\<close>: the greatest element, \<open>None\<close> for an empty iterator.\<close>

fun iter_max :: "'a::linorder list \<Rightarrow> 'a option" where
  "iter_max [] = None"
| "iter_max (x # xs) = (case iter_max xs of None \<Rightarrow> Some x | Some y \<Rightarrow> Some (max x y))"

datatype suite_negotiation_error = IntersectionEmpty

fun suite_negotiation_error_code :: "suite_negotiation_error \<Rightarrow> u16" where
  "suite_negotiation_error_code IntersectionEmpty = 0x0102"

definition negotiate_suite :: "suite list \<Rightarrow> suite list \<Rightarrow> suite_negotiation_error + suite" where
  "negotiate_suite sender recipient =
     ok_or (iter_max (filter (\<lambda>s. List.member recipient s) sender)) IntersectionEmpty"

section \<open>The suite ratchet\<close>

datatype suite_ratchet_error = SuiteDowngrade

fun suite_ratchet_error_code :: "suite_ratchet_error \<Rightarrow> u16" where
  "suite_ratchet_error_code SuiteDowngrade = 0x020F"

record suite_ratchet =
  floors :: "bytes \<rightharpoonup> u8"

definition ratchet_new :: suite_ratchet where
  "ratchet_new = \<lparr>floors = Map.empty\<rparr>"

definition high_water_mark :: "suite_ratchet \<Rightarrow> bytes \<Rightarrow> suite option" where
  "high_water_mark r contact = Option.bind (floors r contact) suite_from_u8"

definition ratchet_check :: "suite_ratchet \<Rightarrow> bytes \<Rightarrow> suite \<Rightarrow> suite_ratchet_error + unit" where
  "ratchet_check r contact s =
     (case floors r contact of
        Some fl \<Rightarrow> if suite_as_u8 s < fl then Inl SuiteDowngrade else Inr ()
      | None \<Rightarrow> Inr ())"

definition ratchet_observe :: "suite_ratchet \<Rightarrow> bytes \<Rightarrow> suite \<Rightarrow> suite_ratchet" where
  "ratchet_observe r contact s =
     (let e = (case floors r contact of Some fl \<Rightarrow> fl | None \<Rightarrow> 0);
          e' = (if suite_as_u8 s > e then suite_as_u8 s else e)
      in r\<lparr>floors := (floors r)(contact \<mapsto> e')\<rparr>)"

definition ratchet_accept :: "suite_ratchet \<Rightarrow> bytes \<Rightarrow> suite \<Rightarrow> suite_ratchet_error + suite_ratchet" where
  "ratchet_accept r contact s =
     and_then (ratchet_check r contact s) (\<lambda>_. Inr (ratchet_observe r contact s))"

section \<open>Cryptographic primitives\<close>

record crypto =
  blake3 :: "bytes \<Rightarrow> bytes"
  ed_valid_key :: "bytes \<Rightarrow> bool"
  ed_public :: "bytes \<Rightarrow> bytes"
  ed_sign :: "bytes \<Rightarrow> bytes \<Rightarrow> bytes"
  ed_verify_strict :: "bytes \<Rightarrow> bytes \<Rightarrow> bytes \<Rightarrow> bool"

definition blake3_law :: "crypto \<Rightarrow> bool" where
  "blake3_law C \<longleftrightarrow> (\<forall>b. length (blake3 C b) = 32)"

definition ed25519_law :: "crypto \<Rightarrow> bool" where
  "ed25519_law C \<longleftrightarrow> (\<forall>seed. length seed = 32 \<longrightarrow>
     length (ed_public C seed) = 32 \<and> ed_valid_key C (ed_public C seed) \<and>
     (\<forall>m. length (ed_sign C seed m) = 64 \<and> ed_verify_strict C (ed_public C seed) m (ed_sign C seed m)))"

definition toy_hash :: "bytes \<Rightarrow> bytes" where
  "toy_hash b = take 32 (b @ replicate 32 0)"

definition toy_crypto :: crypto where
  "toy_crypto = \<lparr>blake3 = toy_hash, ed_valid_key = (\<lambda>_. True), ed_public = (\<lambda>seed. seed),
     ed_sign = (\<lambda>seed m. seed @ toy_hash m), ed_verify_strict = (\<lambda>pk m sg. sg = pk @ toy_hash m)\<rparr>"

section \<open>Content addresses\<close>

datatype content_id = ContentId (cid_bytes: bytes)

definition MH_BLAKE3_256 :: u8 where
  "MH_BLAKE3_256 = 0x1E"

definition content_id_of :: "crypto \<Rightarrow> bytes \<Rightarrow> content_id" where
  "content_id_of C b = ContentId (MH_BLAKE3_256 # blake3 C b)"

definition cid_algorithm :: "content_id \<Rightarrow> u8 option" where
  "cid_algorithm i = (case cid_bytes i of [] \<Rightarrow> None | a # _ \<Rightarrow> Some a)"

definition cid_digest :: "content_id \<Rightarrow> bytes" where
  "cid_digest i = drop 1 (cid_bytes i)"

definition cid_verify :: "crypto \<Rightarrow> content_id \<Rightarrow> bytes \<Rightarrow> bool" where
  "cid_verify C i b =
     (case cid_algorithm i of
        Some a \<Rightarrow> if a = MH_BLAKE3_256 \<and> length (cid_digest i) = 32
                  then blake3 C b = cid_digest i else False
      | None \<Rightarrow> False)"

definition hash_cv :: "content_id \<Rightarrow> cv" where
  "hash_cv i = Bytes (cid_bytes i)"

definition as_hash :: "cv \<Rightarrow> cbor_error + content_id" where
  "as_hash c = and_then (as_bytes c) (\<lambda>b. Inr (ContentId b))"

definition wf_hash_opt :: "content_id option \<Rightarrow> bool" where
  "wf_hash_opt h = (case h of None \<Rightarrow> True | Some i \<Rightarrow> length (cid_bytes i) < 2 ^ 64)"

section \<open>Domain-separated signatures\<close>

datatype identity_error =
    BadSignature
  | BrokenChain
  | UnsupportedSuite u8
  | IdMalformed string
  | BadKeyLength
  | BadEncoding cbor_error
  | RecoveryThresholdInvalid

text \<open>An \<open>IdentityKey\<close> is its 32-byte seed.\<close>

type_synonym identity_key = bytes

definition verifying_key :: "crypto \<Rightarrow> bytes \<Rightarrow> identity_error + bytes" where
  "verifying_key C b =
     (if length b \<noteq> 32 then Inl BadKeyLength
      else if ed_valid_key C b then Inr b else Inl BadKeyLength)"

definition signature :: "bytes \<Rightarrow> identity_error + bytes" where
  "signature b = (if length b \<noteq> 64 then Inl BadKeyLength else Inr b)"

definition key_public :: "crypto \<Rightarrow> identity_key \<Rightarrow> bytes" where
  "key_public C k = ed_public C k"

definition sign_domain :: "crypto \<Rightarrow> identity_key \<Rightarrow> bytes \<Rightarrow> bytes \<Rightarrow> bytes" where
  "sign_domain C k domain msg = ed_sign C k (domain @ msg)"

definition verify_domain :: "crypto \<Rightarrow> bytes \<Rightarrow> bytes \<Rightarrow> bytes \<Rightarrow> bytes \<Rightarrow> identity_error + unit" where
  "verify_domain C pk domain msg sg =
     and_then (verifying_key C pk) (\<lambda>vk.
     and_then (signature sg) (\<lambda>s.
       if ed_verify_strict C vk (domain @ msg) s then Inr () else Inl BadSignature))"

text \<open>A domain-separation tag is its ASCII text followed by one zero byte.\<close>

definition ds_tag :: "string \<Rightarrow> bytes" where
  "ds_tag s = as_bytes_of s @ [0]"

section \<open>Lemmas on suites\<close>

lemma is_supported_iff [simp]: "is_supported s \<longleftrightarrow> s = Classical"
  by (cases s) (simp_all add: is_supported_def)

lemma suite_from_as_u8 [simp]: "suite_from_u8 (suite_as_u8 s) = Some s"
  by (cases s) (simp_all add: suite_from_u8_def)

lemma suite_from_u8_Some_iff: "suite_from_u8 b = Some s \<longleftrightarrow> b = suite_as_u8 s"
  by (cases s) (auto simp: suite_from_u8_def split: if_splits)

lemma suite_from_cv_suite_cv [wire_simps]: "suite_from_cv (suite_cv s) = Inr s"
  by (simp add: suite_from_cv_def suite_cv_def as_u8_U64)

lemma suite_from_cv_Inr_iff [simp]: "suite_from_cv c = Inr s \<longleftrightarrow> c = suite_cv s"
  by (auto simp: suite_from_cv_def suite_cv_def suite_from_u8_Some_iff)

lemma canon_suite_cv [simp]: "canon (suite_cv s)" and fits_suite_cv [simp]: "fits_depth d (suite_cv s) \<longleftrightarrow> d \<le> MAX_NESTING_DEPTH"
  by (simp_all add: suite_cv_def)

lemma suite_cv_inject [simp]: "suite_cv a = suite_cv b \<longleftrightarrow> a = b"
  by (metis suite_from_cv_suite_cv sum.inject(2))

lemma iter_max_Some_iff: "iter_max xs = Some m \<longleftrightarrow> m \<in> set xs \<and> (\<forall>x \<in> set xs. x \<le> m)"
proof (induction xs arbitrary: m)
  case Nil
  then show ?case by simp
next
  case (Cons x xs)
  show ?case
  proof (cases "iter_max xs")
    case None
    then have "xs = []" by (cases xs) (auto split: option.splits)
    then show ?thesis by auto
  next
    case (Some y)
    with Cons.IH [of y] show ?thesis by (auto simp: max_def intro: antisym)
  qed
qed

lemma iter_max_None_iff: "iter_max xs = None \<longleftrightarrow> xs = []"
  by (cases xs) (auto split: option.splits)

section \<open>Lemmas on content addresses and signatures\<close>

lemma hash_cv_simps [simp]:
  "canon (hash_cv i) \<longleftrightarrow> length (cid_bytes i) < 2 ^ 64"
  "fits_depth d (hash_cv i) \<longleftrightarrow> d \<le> MAX_NESTING_DEPTH"
  "hash_cv i = hash_cv j \<longleftrightarrow> i = j"
  by (cases i; cases j; simp add: hash_cv_def)+

lemma norm_wire [simp]: "norm_cv (suite_cv s) = suite_cv s" "norm_cv (hash_cv h) = hash_cv h"
  by (simp_all add: suite_cv_def hash_cv_def)

lemma as_hash_hash_cv [wire_simps]: "as_hash (hash_cv i) = Inr i"
  by (simp add: as_hash_def hash_cv_def coercion_simps)

lemma as_list_prim_iff [simp]:
  "as_list as_bytes c = Inr bs \<longleftrightarrow> c = Array (map Bytes bs)"
  "as_list as_text c = Inr ss \<longleftrightarrow> c = Array (map Text ss)"
  "as_list suite_from_cv c = Inr us \<longleftrightarrow> c = Array (map suite_cv us)"
  by (rule as_list_iff, simp)+

lemma as_list_prim [wire_simps]:
  "as_list as_bytes (Array (map Bytes bs)) = Inr bs"
  "as_list as_text (Array (map Text ss)) = Inr ss"
  "as_list suite_from_cv (Array (map suite_cv us)) = Inr us"
  by simp_all

lemma suite_list_inj [simp]: "map suite_cv a = map suite_cv b \<longleftrightarrow> a = b"
  by (simp add: inj_map_eq_map inj_def)

lemma as_hash_Inr_iff [simp]: "as_hash c = Inr i \<longleftrightarrow> c = hash_cv i"
  by (cases i) (auto simp: as_hash_def hash_cv_def)

lemma verify_domain_Inr_iff:
  "verify_domain C pk domain msg sg = Inr () \<longleftrightarrow>
     length pk = 32 \<and> ed_valid_key C pk \<and> length sg = 64 \<and> ed_verify_strict C pk (domain @ msg) sg"
  by (auto simp: verify_domain_def verifying_key_def signature_def split: if_splits)

lemma verify_sign_domain:
  assumes "ed25519_law C" and "length k = 32"
  shows "verify_domain C (key_public C k) domain msg (sign_domain C k domain msg) = Inr ()"
  using assms by (simp add: verify_domain_Inr_iff key_public_def sign_domain_def ed25519_law_def)

lemma toy_hash_length [simp]: "length (toy_hash b) = 32"
  by (cases "length b \<le> 32") (simp_all add: toy_hash_def)

lemma toy_crypto_laws: "blake3_law toy_crypto" "ed25519_law toy_crypto"
  by (simp_all add: blake3_law_def ed25519_law_def toy_crypto_def)

section \<open>The ratchet never moves down\<close>

lemma ratchet_observe_floor:
  "floors (ratchet_observe r c s) =
     (floors r)(c \<mapsto> (case floors r c of None \<Rightarrow> suite_as_u8 s | Some fl \<Rightarrow> max fl (suite_as_u8 s)))"
proof -
  have "0 < suite_as_u8 s" by (cases s) simp_all
  then show ?thesis
    by (auto simp: ratchet_observe_def Let_def max_def split: option.splits)
qed

interpretation ratchet: version_floor
  "\<lambda>r. floors r" "\<lambda>r (c, s). ratchet_accept r c s" fst "\<lambda>(c, s). suite_as_u8 s" "\<lambda>_. True" "(<)"
proof
  fix r r' :: suite_ratchet and a :: "bytes \<times> suite"
  obtain c s where a: "a = (c, s)" by fastforce
  assume "(case a of (c, s) \<Rightarrow> ratchet_accept r c s) = Inr r'"
  then show "floors r' = (floors r)(fst a \<mapsto> (case a of (c, s) \<Rightarrow> suite_as_u8 s))"
    by (auto simp: a ratchet_accept_def ratchet_check_def ratchet_observe_floor max_def
        split: option.splits if_splits)
qed (auto simp: ratchet_accept_def ratchet_check_def split: option.splits)


section \<open>Properties\<close>

text \<open>Negotiation picks the strongest common suite and does not depend on which side runs it;
  it fails exactly when the two offers are disjoint.\<close>

theorem negotiate_suite_strongest:
  "negotiate_suite a b = negotiate_suite b a \<and>
   (negotiate_suite a b = Inl IntersectionEmpty \<longleftrightarrow> set a \<inter> set b = {}) \<and>
   (\<forall>s. negotiate_suite a b = Inr s \<longleftrightarrow> s \<in> set a \<inter> set b \<and> (\<forall>t \<in> set a \<inter> set b. suite_as_u8 t \<le> suite_as_u8 s))"
proof -
  have some: "negotiate_suite a b = Inr s \<longleftrightarrow>
      s \<in> set a \<inter> set b \<and> (\<forall>t \<in> set a \<inter> set b. suite_as_u8 t \<le> suite_as_u8 s)" for a b s
  proof -
    have "negotiate_suite a b = Inr s \<longleftrightarrow> iter_max (filter (\<lambda>s. s \<in> set b) a) = Some s"
      by (auto simp: negotiate_suite_def ok_or_def split: option.splits)
    then show ?thesis by (auto simp: iter_max_Some_iff less_eq_suite_def)
  qed
  have none: "negotiate_suite a b = Inl IntersectionEmpty \<longleftrightarrow> set a \<inter> set b = {}" for a b
  proof -
    have "negotiate_suite a b = Inl IntersectionEmpty \<longleftrightarrow> iter_max (filter (\<lambda>s. s \<in> set b) a) = None"
      by (auto simp: negotiate_suite_def ok_or_def split: option.splits)
    then show ?thesis by (auto simp: iter_max_None_iff filter_empty_conv)
  qed
  have "negotiate_suite a b = negotiate_suite b a"
  proof (cases "negotiate_suite a b")
    case (Inl e)
    then show ?thesis using none [of a b] none [of b a] by (cases e) (simp add: Int_commute)
  next
    case (Inr s)
    then show ?thesis using some [of a b s] some [of b a s] by (simp add: Int_commute)
  qed
  with some none show ?thesis by blast
qed

theorem negotiate_suite_strongest_witness:
  "negotiate_suite [Classical, PqHybrid, ReservedAeadGcm] [PqHybrid, Classical] = Inr PqHybrid"
  using negotiate_suite_strongest [of "[Classical, PqHybrid, ReservedAeadGcm]" "[PqHybrid, Classical]",
      THEN conjunct2, THEN conjunct2, THEN spec, of PqHybrid] by simp

text \<open>The ratchet never lets a contact downgrade: once a suite of a contact was accepted, no
  weaker suite of that contact is accepted, whatever messages came in between.\<close>

theorem ratchet_no_downgrade:
  assumes "ratchet_accept r contact s = Inr r1" and "suite_as_u8 weaker < suite_as_u8 s"
  shows "ratchet_accept (run_accepts (\<lambda>r (c, s). ratchet_accept r c s) r1 msgs) contact weaker = Inl SuiteDowngrade"
proof -
  have "\<nexists>r2. ratchet_accept (run_accepts (\<lambda>r (c, s). ratchet_accept r c s) r1 msgs) contact weaker = Inr r2"
    using ratchet.no_rollback [of r "(contact, s)" r1 "(contact, weaker)" msgs] assms by simp
  moreover have "(\<exists>r2. ratchet_accept q c w = Inr r2) \<or> ratchet_accept q c w = Inl SuiteDowngrade" for q c w
    by (auto simp: ratchet_accept_def ratchet_check_def split: option.splits)
  ultimately show ?thesis by blast
qed

theorem ratchet_no_downgrade_witness:
  "ratchet_accept (run_accepts (\<lambda>r (c, s). ratchet_accept r c s)
      (ratchet_observe ratchet_new [1] PqHybrid) [([2], Classical), ([1], Classical)]) [1] Classical
   = Inl SuiteDowngrade"
  by (rule ratchet_no_downgrade [of ratchet_new _ PqHybrid])
    (simp_all add: ratchet_accept_def ratchet_check_def ratchet_new_def)

text \<open>A content address accepts the bytes it was computed from, and accepting other bytes
  exhibits a BLAKE3 collision.\<close>

theorem content_id_binds:
  assumes "blake3_law C"
  shows "cid_verify C (content_id_of C b) b' \<longleftrightarrow> blake3 C b = blake3 C b'"
  using assms by (auto simp: cid_verify_def cid_algorithm_def cid_digest_def content_id_of_def blake3_law_def)

theorem content_id_binds_witness:
  "cid_verify toy_crypto (content_id_of toy_crypto [1]) [1] \<longleftrightarrow> blake3 toy_crypto [1] = blake3 toy_crypto [1]"
  by (rule content_id_binds [OF toy_crypto_laws(1)])

end
