(* ===== verification/Wire_Laws.thy ===== *)
theory Wire_Laws
  imports Suite_Id
begin

text \<open>
  Laws of the field readers for objects with many optional fields.  \<open>reads conv g P d\<close> says that a
  coercion \<open>conv\<close>, applied to a canonical value at depth \<open>d\<close>, yields only values \<open>x\<close> with
  \<open>P x\<close>, and only from the canonical form \<open>g x\<close>.  The elimination rules below turn one
  reader step into one equation on the multiset of fields, whether or not the field is optional, so that
  the decoder of an object is inverted field by field without splitting on every optional field.
\<close>

abbreviation short :: "'a list \<Rightarrow> bool" where
  "short b \<equiv> length b < 18446744073709551616"

definition reads :: "(cv \<Rightarrow> 'e + 'x) \<Rightarrow> ('x \<Rightarrow> cv) \<Rightarrow> ('x \<Rightarrow> bool) \<Rightarrow> nat \<Rightarrow> bool" where
  "reads conv g P d \<longleftrightarrow> (\<forall>v x. conv v = Inr x \<and> canon v \<and> fits_depth d v \<longrightarrow> P x \<and> v = g x)"

named_theorems reads_laws \<open>what the coercions read\<close>

lemma reads_prim [reads_laws]:
  "reads as_u64 U64 (\<lambda>_. True) d"
  "reads as_u8 (\<lambda>b. U64 (ucast b)) (\<lambda>_. True) d"
  "reads as_u32 (\<lambda>b. U64 (ucast b)) (\<lambda>_. True) d"
  "reads as_bytes Bytes short d"
  "reads as_text Text rust_string d"
  "reads as_bool Bool (\<lambda>_. True) d"
  "reads as_hash hash_cv (\<lambda>i. short (cid_bytes i)) d"
  "reads suite_from_cv suite_cv (\<lambda>_. True) d"
  by (auto simp: reads_def rust_string_def)

lemma reads_list [reads_laws]:
  assumes "reads conv g P (Suc d)"
  shows "reads (as_list conv) (\<lambda>xs. Array (map g xs)) (\<lambda>xs. short xs \<and> (\<forall>x \<in> set xs. P x)) d"
  unfolding reads_def
proof (intro allI impI, elim conjE)
  fix v xs
  assume v: "as_list conv v = Inr xs" "canon v" "fits_depth d v"
  then obtain a where a: "v = Array a" "collect_results conv a = Inr xs" by (auto simp: as_list_Inr_iff)
  have ok: "P x \<and> w = g x" if "w \<in> set a" "conv w = Inr x" for w x
    using assms v that by (auto simp: reads_def a)
  have "map g xs = a" using a(2) ok by (intro collect_results_inv) auto
  moreover have "\<forall>x \<in> set xs. P x" using ok collect_results_Inr_set [OF a(2)] by blast
  ultimately show "(short xs \<and> (\<forall>x \<in> set xs. P x)) \<and> v = Array (map g xs)"
    using v(2) by (auto simp: a)
qed

context cv_object
begin

lemma reads_object: "reads from_cv to_cv wf d"
  unfolding reads_def using to_from_cv by metis

end

lemma req_as_readsE:
  assumes "req_as conv k cont f = Inr r" "fields_ok d f" "reads conv g P d"
  obtains x f' where "mset f = add_mset (k, g x) (mset f')" "P x" "cont x f' = Inr r" "fields_ok d f'"
  using assms by (elim req_as_okE) (auto simp: reads_def)

lemma opt_as_readsE:
  assumes "opt_as conv k cont f = Inr r" "fields_ok d f" "reads conv g P d"
  obtains x f' where "mset f = mset (case x of None \<Rightarrow> [] | Some y \<Rightarrow> [(k, g y)]) + mset f'" "pred_option P x"
    "cont x f' = Inr r" "fields_ok d f'"
  using assms(1,2)
proof (cases rule: opt_as_okE)
  case absent
  then show thesis by (intro that [of None f]) simp_all
next
  case (present v x f')
  then show thesis using assms(3) by (intro that [of "Some x" f']) (auto simp: reads_def)
qed

declare option.pred_True [simp]

lemma pred_option_Some: "pred_option P x \<longleftrightarrow> (\<forall>y. x = Some y \<longrightarrow> P y)"
  by (cases x) simp_all

lemma list_all_opt_field [simp]:
  "list_all Q (case x of None \<Rightarrow> [] | Some y \<Rightarrow> [(k, g y)]) \<longleftrightarrow> pred_option (\<lambda>y. Q (k, g y)) x"
  by (cases x) auto

lemma opt_as_field [wire_simps]:
  assumes "\<And>y. x = Some y \<Longrightarrow> conv (g y) = Inr y" and "list_all (\<lambda>p. fst p \<noteq> k) rest"
  shows "opt_as conv k cont ((case x of None \<Rightarrow> [] | Some y \<Rightarrow> [(k, g y)]) @ rest) = cont x rest"
proof (cases x)
  case None
  moreover have "k \<notin> fst ` set rest" using assms(2) by (auto simp: list_all_iff)
  ultimately show ?thesis by (simp add: opt_as_absent)
qed (simp add: assms wire_simps)

lemma opt_as_other_field [wire_simps]:
  assumes "list_all (\<lambda>p. fst p \<noteq> k) (case x of None \<Rightarrow> [] | Some y \<Rightarrow> [(k', g y)])"
  shows "opt_as conv k cont (case x of None \<Rightarrow> [] | Some y \<Rightarrow> [(k', g y)]) =
    cont None (case x of None \<Rightarrow> [] | Some y \<Rightarrow> [(k', g y)])"
  using assms by (intro opt_as_absent) (auto simp: list_all_iff)

lemma opt_as_last_field [wire_simps]:
  assumes "\<And>y. x = Some y \<Longrightarrow> conv (g y) = Inr y"
  shows "opt_as conv k cont (case x of None \<Rightarrow> [] | Some y \<Rightarrow> [(k, g y)]) = cont x []"
  using opt_as_field [of x conv g k "[]"] assms by simp

section \<open>Writing the fields of a map\<close>

text \<open>\<open>field_list d n m\<close>: the fields \<open>m\<close> are in ascending key order with keys from \<open>n\<close> on, and their
  values are canonical and fit at depth \<open>d\<close>.  Wire objects use small keys, so the length of a map is
  no concern.\<close>

definition field_list :: "nat \<Rightarrow> nat \<Rightarrow> fields \<Rightarrow> bool" where
  "field_list d n m \<longleftrightarrow> sorted_wrt (<) (map fst m) \<and>
     (\<forall>(k, v) \<in> set m. n \<le> unat k \<and> unat k < 1000 \<and> canon v \<and> fits_depth d v)"

lemma field_list_Nil [simp]: "field_list d n []"
  by (simp add: field_list_def)

lemma field_list_Cons [simp]:
  "field_list d n ((k, v) # m) \<longleftrightarrow>
     n \<le> unat k \<and> unat k < 1000 \<and> canon v \<and> fits_depth d v \<and> field_list d (Suc (unat k)) m"
  by (fastforce simp: field_list_def word_less_nat_alt Suc_le_eq)

lemma field_list_mono: "field_list d n m \<Longrightarrow> n' \<le> n \<Longrightarrow> field_list d n' m"
  by (force simp: field_list_def)

lemma field_list_opt [simp]:
  assumes "n \<le> unat k" "unat k < 1000" "field_list d (Suc (unat k)) m"
  shows "field_list d n ((case x of None \<Rightarrow> [] | Some y \<Rightarrow> [(k, g y)]) @ m) \<longleftrightarrow>
    pred_option (\<lambda>y. canon (g y) \<and> fits_depth d (g y)) x"
proof (cases x)
  case None
  then show ?thesis using assms(1) field_list_mono [OF assms(3), of n] by simp
qed (use assms in simp)

lemma field_list_last_opt [simp]:
  "n \<le> unat k \<Longrightarrow> unat k < 1000 \<Longrightarrow> field_list d n (case x of None \<Rightarrow> [] | Some y \<Rightarrow> [(k, g y)]) \<longleftrightarrow>
    pred_option (\<lambda>y. canon (g y) \<and> fits_depth d (g y)) x"
  using field_list_opt [where m = "[]"] by simp

lemma field_list_length:
  assumes "field_list d n m"
  shows "length m < 2 ^ 64"
proof -
  have dist: "distinct (map fst m)" using assms strict_sorted_iff by (auto simp: field_list_def)
  have "card (unat ` set (map fst m)) \<le> card {..< 1000 :: nat}"
    using assms by (intro card_mono) (auto simp: field_list_def)
  moreover have "card (unat ` set (map fst m)) = card (set (map fst m))"
    by (rule card_image) (simp add: inj_on_def word_unat_eq_iff)
  moreover have "card (set (map fst m)) = length m" using distinct_card [OF dist] by simp
  ultimately show ?thesis by simp
qed

lemma field_list_Map:
  assumes "field_list (Suc d) n m" "d < MAX_NESTING_DEPTH"
  shows "canon (Map m)" "fits_depth d (Map m)" "sorted_wrt (<) (map fst m)"
  using field_list_length [OF assms(1)] assms by (auto simp: field_list_def)

text \<open>\<open>reading d m l rd r\<close>: a decoder has taken the fields \<open>l\<close> from the map \<open>m\<close> and goes on with
  \<open>rd\<close>, which returns \<open>r\<close>.\<close>

definition reading :: "nat \<Rightarrow> fields \<Rightarrow> fields \<Rightarrow> (fields \<Rightarrow> 'e + 'r) \<Rightarrow> 'r \<Rightarrow> bool" where
  "reading d m l rd r \<longleftrightarrow> (\<exists>f. rd f = Inr r \<and> fields_ok d f \<and> mset m = mset l + mset f)"

lemma reading_reqE:
  assumes "reading d m l (req_as conv k cont) r" "reads conv g P d"
  obtains x where "P x" "reading d m (l @ [(k, g x)]) (cont x) r"
proof -
  obtain f where f: "req_as conv k cont f = Inr r" "fields_ok d f" "mset m = mset l + mset f"
    using assms(1) by (auto simp: reading_def)
  from f(1,2) assms(2) obtain x f' where "mset f = add_mset (k, g x) (mset f')" "P x" "cont x f' = Inr r" "fields_ok d f'"
    by (rule req_as_readsE)
  then show thesis using f(3) by (intro that [of x]) (auto simp: reading_def intro!: exI [of _ f'])
qed

lemma reading_optE:
  assumes "reading d m l (opt_as conv k cont) r" "reads conv g P d"
  obtains x where "pred_option P x" "reading d m (l @ (case x of None \<Rightarrow> [] | Some y \<Rightarrow> [(k, g y)])) (cont x) r"
proof -
  obtain f where f: "opt_as conv k cont f = Inr r" "fields_ok d f" "mset m = mset l + mset f"
    using assms(1) by (auto simp: reading_def)
  from f(1,2) assms(2) obtain x f' where
    "mset f = mset (case x of None \<Rightarrow> [] | Some y \<Rightarrow> [(k, g y)]) + mset f'" "pred_option P x"
    "cont x f' = Inr r" "fields_ok d f'"
    by (rule opt_as_readsE)
  then show thesis using f(3) by (intro that [of x]) (auto simp: reading_def ac_simps intro!: exI [of _ f'])
qed

lemma reading_anyE:
  assumes "reading d m l (req_as conv k cont) r"
  obtains v x where "conv v = Inr x" "canon v" "fits_depth d v" "reading d m (l @ [(k, v)]) (cont x) r"
proof -
  obtain f where f: "req_as conv k cont f = Inr r" "fields_ok d f" "mset m = mset l + mset f"
    using assms by (auto simp: reading_def)
  from f(1,2) obtain v x f' where "mset f = add_mset (k, v) (mset f')" "conv v = Inr x" "cont x f' = Inr r"
    "canon v" "fits_depth d v" "fields_ok d f'"
    by (rule req_as_okE)
  then show thesis using f(3) by (intro that [of v x]) (auto simp: reading_def intro!: exI [of _ f'])
qed

lemma reading_finish [simp]: "reading d m l (finish r) r' \<longleftrightarrow> r' = r \<and> mset m = mset l"
  by (auto simp: reading_def fields_ok_def)

lemma reading_deny [simp]:
  "reading d m l (\<lambda>f. and_then (fields_deny_unknown f) (\<lambda>_. res)) r \<longleftrightarrow> res = Inr r \<and> mset m = mset l"
proof -
  have "fields_deny_unknown f = Inr () \<longleftrightarrow> f = []" for f
    by (cases f) (auto simp: fields_deny_unknown_def)
  then show ?thesis by (auto simp: reading_def fields_ok_def)
qed

lemma reading_fail [simp]: "\<not> reading d m l (\<lambda>_. Inl e) r"
  by (simp add: reading_def)

lemma reading_test:
  "reading d m l (\<lambda>f. if b then Inl e else rd f) r \<longleftrightarrow> \<not> b \<and> reading d m l rd r"
  by (cases b) (simp_all add: reading_def)

lemmas prim_readE = reads_prim [THEN [2] reading_reqE] reads_prim [THEN [2] reading_optE]
  reads_prim [THEN reads_list, THEN [2] reading_reqE] reads_prim [THEN reads_list, THEN [2] reading_optE]

lemma read_fields_canon_exE:
  assumes "read_fields rd v = Inr x" "canon v" "fits_depth d v"
    and "\<And>m. reading (Suc d) m [] rd x \<Longrightarrow> \<exists>e. mset m = mset (l e) \<and> P e"
    and "\<And>e. sorted_wrt (<) (map fst (l e))"
  shows "\<exists>e. v = Map (l e) \<and> P e"
proof -
  obtain m where m: "v = Map m" "rd m = Inr x" using assms(1) by auto
  then have "reading (Suc d) m [] rd x" using assms(2,3) fields_ok_Map [of m d] by (auto simp: reading_def)
  then obtain e where "mset m = mset (l e)" "P e" using assms(4) by blast
  then show ?thesis using canon_Map_eqI [of m "l e"] assms(2,5) by (auto simp: m(1))
qed

lemma cv_fieldsI:
  assumes "\<And>x. to_cv x = Map (fl x)" "from_cv = read_fields rd" "d < MAX_NESTING_DEPTH"
    and written: "\<And>x. ok x \<Longrightarrow> field_list (Suc d) 0 (fl x)" "\<And>x. ok x \<Longrightarrow> rd (fl x) = Inr x"
    and read: "\<And>m x. reading (Suc d) m [] rd x \<Longrightarrow> mset m = mset (fl x) \<and> ok x"
  shows "cv_object to_cv from_cv ok d"
proof
  fix x
  assume "ok x"
  then show "canon (to_cv x)" "fits_depth d (to_cv x)" "from_cv (to_cv x) = Inr x"
    using field_list_Map [OF written(1) assms(3)] written(2) by (simp_all add: assms(1,2) read_fields_Map)
next
  fix c x
  assume v: "canon c" "fits_depth d c" "from_cv c = Inr x"
  then obtain m where m: "c = Map m" "rd m = Inr x" by (auto simp: assms(2))
  then have "reading (Suc d) m [] rd x" using v fields_ok_Map [of m d] by (auto simp: reading_def)
  then have "mset m = mset (fl x)" "ok x" using read by blast+
  then show "ok x \<and> to_cv x = c"
    using canon_Map_eqI [of m "fl x"] field_list_Map(3) [OF written(1) assms(3), of x] v(1)
    by (simp add: m(1) assms(1))
qed

lemma signed_fieldsI:
  assumes obj: "cv_object to_cv from_cv ok 0"
    and "\<And>x. to_cv x = Map (fl x)" "\<And>x. body_cv x = Map (bl x)"
    and "\<And>x. ok x \<Longrightarrow> field_list (Suc 0) 0 (bl x)"
    and "\<And>x. mset (fl (strip x)) = add_mset s (mset (bl x))" "\<And>x. ok x \<Longrightarrow> ok (strip x)"
  shows "signed_object to_cv from_cv ok body_cv strip"
proof (rule signed_objectI [OF obj])
  have d: "(0::nat) < MAX_NESTING_DEPTH" by (simp add: MAX_NESTING_DEPTH_def)
  show "canon (body_cv x)" "fits_depth 0 (body_cv x)" if "ok x" for x
    using field_list_Map [OF assms(4) [OF that] d] by (simp_all add: assms(3))
  show "strip x = strip y" if ok: "ok x" "ok y" and eq: "body_cv x = body_cv y" for x y
  proof -
    have w: "cv_writer to_cv from_cv ok 0" by (rule cv_object.axioms(1) [OF obj])
    have c: "canon (Map (fl (strip x)))" "canon (Map (fl (strip y)))"
      using cv_writer.canon_to_cv [OF w assms(6) [OF ok(1)]] cv_writer.canon_to_cv [OF w assms(6) [OF ok(2)]]
      by (simp_all add: assms(2))
    have "mset (fl (strip x)) = mset (fl (strip y))" using eq by (simp add: assms(3,5))
    then have "Map (fl (strip x)) = Map (fl (strip y))" using c by (intro canon_Map_eqI) simp_all
    then have "from_cv (to_cv (strip x)) = from_cv (to_cv (strip y))" by (simp add: assms(2))
    then show ?thesis using ok assms(6) by (simp add: cv_writer.from_to_cv [OF w])
  qed
qed

end
