(* ===== verification/Wire_Err.thy ===== *)
theory Wire_Err
  imports Wire_Laws
begin

text \<open>
  Readers of the modules whose decoders return an error type of their own and convert a
  \<open>CborError\<close> by \<open>From\<close> (public objects, subscriptions, CAD, calls).  \<open>w\<close> is that conversion:
  \<open>wreq w conv k (\<lambda>x. rest)\<close> is \<open>let x = conv(f.req(k)?)?; rest\<close> with both question marks
  converting, \<open>wopt\<close> is the optional field and \<open>wfinish w res\<close> is \<open>f.deny_unknown()?; res\<close>.
  \<open>forget\<close> drops the error, so that the contracts of the wire objects apply to these decoders too.
\<close>

definition lift_err :: "(cbor_error \<Rightarrow> 'e) \<Rightarrow> (cv \<Rightarrow> cbor_error + 'x) \<Rightarrow> cv \<Rightarrow> 'e + 'x" where
  "lift_err w conv v = map_err w (conv v)"

definition wreq :: "(cbor_error \<Rightarrow> 'e) \<Rightarrow> (cv \<Rightarrow> 'e + 'x) \<Rightarrow> u64 \<Rightarrow> ('x \<Rightarrow> fields \<Rightarrow> 'e + 'r) \<Rightarrow> fields \<Rightarrow> 'e + 'r" where
  "wreq w conv k cont f =
     and_then (map_err w (fields_req k f)) (\<lambda>(v, f'). and_then (conv v) (\<lambda>x. cont x f'))"

definition wopt :: "(cv \<Rightarrow> 'e + 'x) \<Rightarrow> u64 \<Rightarrow> ('x option \<Rightarrow> fields \<Rightarrow> 'e + 'r) \<Rightarrow> fields \<Rightarrow> 'e + 'r" where
  "wopt conv k cont f =
     (case fields_take k f of
        (None, f') \<Rightarrow> cont None f'
      | (Some v, f') \<Rightarrow> and_then (conv v) (\<lambda>x. cont (Some x) f'))"

definition wfinish :: "(cbor_error \<Rightarrow> 'e) \<Rightarrow> 'e + 'r \<Rightarrow> fields \<Rightarrow> 'e + 'r" where
  "wfinish w res f = and_then (map_err w (fields_deny_unknown f)) (\<lambda>_. res)"

definition wread :: "(cbor_error \<Rightarrow> 'e) \<Rightarrow> (fields \<Rightarrow> 'e + 'r) \<Rightarrow> cv \<Rightarrow> 'e + 'r" where
  "wread w rd c = and_then (map_err w (fields_from_cv c)) rd"

definition wfrom_bytes :: "(cbor_error \<Rightarrow> 'e) \<Rightarrow> (cv \<Rightarrow> 'e + 'a) \<Rightarrow> bytes \<Rightarrow> 'e + 'a" where
  "wfrom_bytes w from_cv b = and_then (map_err w (decode b)) from_cv"

definition forget :: "'e + 'a \<Rightarrow> cbor_error + 'a" where
  "forget r = (case r of Inl _ \<Rightarrow> Inl TypeMismatch | Inr x \<Rightarrow> Inr x)"

lemma forget_Inr_iff [simp]: "forget r = Inr x \<longleftrightarrow> r = Inr x"
  by (simp add: forget_def split: sum.splits)

lemma lift_err_Inr_iff [simp]: "lift_err w conv v = Inr x \<longleftrightarrow> conv v = Inr x"
  by (simp add: lift_err_def)

section \<open>Evaluation\<close>

lemma lift_err_Inr [wire_simps]: "conv v = Inr x \<Longrightarrow> lift_err w conv v = Inr x"
  by simp

lemma wread_Map [wire_simps]: "wread w rd (Map m) = rd m"
  by (simp add: wread_def fields_from_cv_def)

lemma wread_Inr_iff [simp]: "wread w rd c = Inr r \<longleftrightarrow> (\<exists>m. c = Map m \<and> rd m = Inr r)"
  by (auto simp: wread_def fields_from_cv_def split: cv.splits)

lemma wreq_Cons [wire_simps]: "wreq w conv k cont ((k, v) # f) = and_then (conv v) (\<lambda>x. cont x f)"
  by (simp add: wreq_def fields_req_def)

lemma wfinish_Nil [wire_simps]: "wfinish w res [] = res"
  by (simp add: wfinish_def fields_deny_unknown_def)

lemma wopt_absent: "k \<notin> fst ` set f \<Longrightarrow> wopt conv k cont f = cont None f"
  by (simp add: wopt_def fields_take_absent)

lemma wopt_Nil [wire_simps]: "wopt conv k cont [] = cont None []"
  by (simp add: wopt_def)

lemma wopt_Cons_same [wire_simps]:
  "wopt conv k cont ((k, v) # f) = and_then (conv v) (\<lambda>x. cont (Some x) f)"
  by (simp add: wopt_def)

lemma wopt_Cons_absent [wire_simps]:
  "k \<notin> fst ` set ((kk, v) # f) \<Longrightarrow> wopt conv k cont ((kk, v) # f) = cont None ((kk, v) # f)"
  by (rule wopt_absent)

lemma wopt_field [wire_simps]:
  assumes "\<And>y. x = Some y \<Longrightarrow> conv (g y) = Inr y" and "list_all (\<lambda>p. fst p \<noteq> k) rest"
  shows "wopt conv k cont ((case x of None \<Rightarrow> [] | Some y \<Rightarrow> [(k, g y)]) @ rest) = cont x rest"
proof (cases x)
  case None
  moreover have "k \<notin> fst ` set rest" using assms(2) by (auto simp: list_all_iff)
  ultimately show ?thesis by (simp add: wopt_absent)
qed (simp add: assms wire_simps)

lemma wopt_other_field [wire_simps]:
  assumes "list_all (\<lambda>p. fst p \<noteq> k) (case x of None \<Rightarrow> [] | Some y \<Rightarrow> [(k', g y)])"
  shows "wopt conv k cont (case x of None \<Rightarrow> [] | Some y \<Rightarrow> [(k', g y)]) =
    cont None (case x of None \<Rightarrow> [] | Some y \<Rightarrow> [(k', g y)])"
  using assms by (intro wopt_absent) (auto simp: list_all_iff)

lemma wopt_last_field [wire_simps]:
  assumes "\<And>y. x = Some y \<Longrightarrow> conv (g y) = Inr y"
  shows "wopt conv k cont (case x of None \<Rightarrow> [] | Some y \<Rightarrow> [(k, g y)]) = cont x []"
  using wopt_field [of x conv g k "[]"] assms by simp

section \<open>Inversion\<close>

lemma reads_lift [simp]: "reads (lift_err w conv) g P d \<longleftrightarrow> reads conv g P d"
  by (simp add: reads_def)

lemma reading_wreqE:
  assumes "reading d m l (wreq w conv k cont) r" "reads conv g P d"
  obtains x where "P x" "reading d m (l @ [(k, g x)]) (cont x) r"
proof -
  obtain f where f: "wreq w conv k cont f = Inr r" "fields_ok d f" "mset m = mset l + mset f"
    using assms(1) by (auto simp: reading_def)
  from f(1) obtain v x f' where v: "fields_take k f = (Some v, f')" "conv v = Inr x" "cont x f' = Inr r"
    by (auto simp: wreq_def fields_req_def split: prod.splits option.splits)
  have "mset f = add_mset (k, v) (mset f')" using v(1) by (rule fields_take_mset)
  then show thesis using f(2,3) v(2,3) assms(2)
    by (intro that [of x]) (auto simp: reading_def reads_def fields_ok_add intro!: exI [of _ f'])
qed

lemma reading_woptE:
  assumes "reading d m l (wopt conv k cont) r" "reads conv g P d"
  obtains x where "pred_option P x" "reading d m (l @ (case x of None \<Rightarrow> [] | Some y \<Rightarrow> [(k, g y)])) (cont x) r"
proof -
  obtain f where f: "wopt conv k cont f = Inr r" "fields_ok d f" "mset m = mset l + mset f"
    using assms(1) by (auto simp: reading_def)
  show thesis
  proof (cases "fields_take k f")
    case (Pair o' f')
    show thesis
    proof (cases o')
      case None
      then show thesis
        using Pair f fields_take_None [of k f f'] by (intro that [of None]) (auto simp: wopt_def reading_def)
    next
      case (Some v)
      then obtain x where x: "conv v = Inr x" "cont (Some x) f' = Inr r" using f(1) Pair by (auto simp: wopt_def)
      have "mset f = add_mset (k, v) (mset f')" using Pair Some by (auto intro: fields_take_mset)
      then show thesis using f(2,3) x assms(2)
        by (intro that [of "Some x"]) (auto simp: reading_def reads_def fields_ok_add intro!: exI [of _ f'])
    qed
  qed
qed

lemma reading_wfinish [simp]:
  "reading d m l (wfinish w res) r \<longleftrightarrow> res = Inr r \<and> mset m = mset l"
proof -
  have "fields_deny_unknown f = Inr () \<longleftrightarrow> f = []" for f
    by (cases f) (auto simp: fields_deny_unknown_def)
  then show ?thesis by (auto simp: reading_def wfinish_def fields_ok_def)
qed

lemmas reads_lift_prim = reads_prim [THEN reads_lift [THEN iffD2]] reads_prim [THEN reads_list, THEN reads_lift [THEN iffD2]]

lemmas prim_wreadE = reads_lift_prim [THEN [2] reading_wreqE] reads_lift_prim [THEN [2] reading_woptE]

lemma err_fieldsI:
  assumes "\<And>x. to_cv x = Map (fl x)" "from_cv = wread w rd" "d < MAX_NESTING_DEPTH"
    and written: "\<And>x. ok x \<Longrightarrow> field_list (Suc d) 0 (fl x)" "\<And>x. ok x \<Longrightarrow> rd (fl x) = Inr x"
    and read: "\<And>m x. reading (Suc d) m [] rd x \<Longrightarrow> mset m = mset (fl x) \<and> ok x"
  shows "cv_object to_cv (\<lambda>c. forget (from_cv c)) ok d"
proof
  fix x
  assume "ok x"
  then show "canon (to_cv x)" "fits_depth d (to_cv x)" "forget (from_cv (to_cv x)) = Inr x"
    using field_list_Map [OF written(1) assms(3)] written(2) by (simp_all add: assms(1,2))
next
  fix c x
  assume v: "canon c" "fits_depth d c" "forget (from_cv c) = Inr x"
  then obtain m where m: "c = Map m" "rd m = Inr x" by (auto simp: assms(2))
  then have "reading (Suc d) m [] rd x" using v fields_ok_Map [of m d] by (auto simp: reading_def)
  then have "mset m = mset (fl x)" "ok x" using read by blast+
  then show "ok x \<and> to_cv x = c"
    using canon_Map_eqI [of m "fl x"] field_list_Map(3) [OF written(1) assms(3), of x] v(1)
    by (simp add: m(1) assms(1))
qed

text \<open>Decoding from bytes succeeds exactly on the canonical bytes of well-formed objects.\<close>

lemma wfrom_bytes_iff:
  assumes "cv_object to_cv (\<lambda>c. forget (from_cv c)) ok 0"
  shows "wfrom_bytes w from_cv b = Inr x \<longleftrightarrow> ok x \<and> b = encode (to_cv x)"
proof -
  have "wfrom_bytes w from_cv b = Inr x \<longleftrightarrow> from_bytes (\<lambda>c. forget (from_cv c)) b = Inr x"
    by (auto simp: wfrom_bytes_def from_bytes_def)
  then show ?thesis using assms by (simp add: wire_object.from_bytes_iff [OF wire_object.intro])
qed

end
