(* ===== verification/Kt.thy ===== *)
theory Kt
  imports Suite_Id
begin

text \<open>
  The wire objects of the key-transparency log (\<^verbatim>\<open>kt.rs\<close>): \<open>SignedTreeHead\<close>,
  \<open>InclusionProof\<close>, \<open>ConsistencyProof\<close> and the identity leaf-hash rule.  The Merkle
  arithmetic that checks the proofs is in theory \<open>Merkle\<close>.
\<close>

definition KT_STH_DS :: bytes where
  "KT_STH_DS = ds_tag ''DMTAP-v0/kt-sth''"

definition identity_leaf_hash :: "crypto \<Rightarrow> string \<Rightarrow> bytes \<Rightarrow> u64 \<Rightarrow> content_id \<Rightarrow> content_id" where
  "identity_leaf_hash C name ik version identity_id =
     (let leaf_data = encode (Array [Text name, Bytes ik, U64 version, hash_cv identity_id]);
          digest = blake3 C (0x00 # leaf_data)
      in ContentId (MH_BLAKE3_256 # digest))"

section \<open>Signed tree heads\<close>

record signed_tree_head =
  sth_suite :: suite
  sth_log_id :: bytes
  sth_tree_size :: u64
  sth_timestamp :: u64
  sth_root_hash :: content_id
  sth_sig :: bytes

definition sth_to_cv :: "bool \<Rightarrow> signed_tree_head \<Rightarrow> cv" where
  "sth_to_cv include_sig s =
     Map ([(1, suite_cv (sth_suite s)),
           (2, Bytes (sth_log_id s)),
           (3, U64 (sth_tree_size s)),
           (4, U64 (sth_timestamp s)),
           (5, hash_cv (sth_root_hash s))]
          @ (if include_sig then [(6, Bytes (sth_sig s))] else []))"

definition sth_det_cbor :: "signed_tree_head \<Rightarrow> bytes" where
  "sth_det_cbor s = encode (sth_to_cv True s)"

definition sth_signing_body :: "signed_tree_head \<Rightarrow> bytes" where
  "sth_signing_body s = encode (sth_to_cv False s)"

definition sth_from_cv :: "cv \<Rightarrow> cbor_error + signed_tree_head" where
  "sth_from_cv = read_fields (
     req_as suite_from_cv 1 (\<lambda>suite.
     req_as as_bytes 2 (\<lambda>log_id.
     req_as as_u64 3 (\<lambda>tree_size.
     req_as as_u64 4 (\<lambda>timestamp.
     req_as as_hash 5 (\<lambda>root_hash.
     req_as as_bytes 6 (\<lambda>sig.
       finish \<lparr>sth_suite = suite, sth_log_id = log_id, sth_tree_size = tree_size,
         sth_timestamp = timestamp, sth_root_hash = root_hash, sth_sig = sig\<rparr>)))))))"

definition sth_from_det_cbor :: "bytes \<Rightarrow> cbor_error + signed_tree_head" where
  "sth_from_det_cbor = from_bytes sth_from_cv"

definition sth_issue :: "crypto \<Rightarrow> identity_key \<Rightarrow> u64 \<Rightarrow> u64 \<Rightarrow> content_id \<Rightarrow> signed_tree_head" where
  "sth_issue C log_key tree_size timestamp root_hash =
     (let s = \<lparr>sth_suite = Classical, sth_log_id = key_public C log_key, sth_tree_size = tree_size,
                sth_timestamp = timestamp, sth_root_hash = root_hash, sth_sig = []\<rparr>
      in s\<lparr>sth_sig := sign_domain C log_key KT_STH_DS (sth_signing_body s)\<rparr>)"

definition sth_verify :: "crypto \<Rightarrow> signed_tree_head \<Rightarrow> identity_error + unit" where
  "sth_verify C s =
     (if \<not> is_supported (sth_suite s) then Inl (UnsupportedSuite (suite_as_u8 (sth_suite s)))
      else verify_domain C (sth_log_id s) KT_STH_DS (sth_signing_body s) (sth_sig s))"

definition wf_sth :: "signed_tree_head \<Rightarrow> bool" where
  "wf_sth s \<longleftrightarrow> length (sth_log_id s) < 2 ^ 64 \<and> length (cid_bytes (sth_root_hash s)) < 2 ^ 64 \<and>
     length (sth_sig s) < 2 ^ 64"

section \<open>Inclusion proofs\<close>

record inclusion_proof =
  ip_tree_size :: u64
  ip_leaf_index :: u64
  ip_leaf_hash :: content_id
  ip_audit_path :: "content_id list"

definition ip_to_cv :: "inclusion_proof \<Rightarrow> cv" where
  "ip_to_cv p =
     Map [(1, U64 (ip_tree_size p)),
          (2, U64 (ip_leaf_index p)),
          (3, hash_cv (ip_leaf_hash p)),
          (4, Array (map hash_cv (ip_audit_path p)))]"

definition ip_det_cbor :: "inclusion_proof \<Rightarrow> bytes" where
  "ip_det_cbor p = encode (ip_to_cv p)"

definition ip_from_cv :: "cv \<Rightarrow> cbor_error + inclusion_proof" where
  "ip_from_cv = read_fields (
     req_as as_u64 1 (\<lambda>tree_size.
     req_as as_u64 2 (\<lambda>leaf_index.
     req_as as_hash 3 (\<lambda>leaf_hash.
     req_as (as_list as_hash) 4 (\<lambda>audit_path.
       finish \<lparr>ip_tree_size = tree_size, ip_leaf_index = leaf_index, ip_leaf_hash = leaf_hash,
         ip_audit_path = audit_path\<rparr>)))))"

definition ip_from_det_cbor :: "bytes \<Rightarrow> cbor_error + inclusion_proof" where
  "ip_from_det_cbor = from_bytes ip_from_cv"

definition wf_hash_list :: "content_id list \<Rightarrow> bool" where
  "wf_hash_list hs \<longleftrightarrow> length hs < 2 ^ 64 \<and> (\<forall>h \<in> set hs. length (cid_bytes h) < 2 ^ 64)"

definition wf_ip :: "inclusion_proof \<Rightarrow> bool" where
  "wf_ip p \<longleftrightarrow> length (cid_bytes (ip_leaf_hash p)) < 2 ^ 64 \<and> wf_hash_list (ip_audit_path p)"

section \<open>Consistency proofs\<close>

record consistency_proof =
  cp_first_size :: u64
  cp_second_size :: u64
  cp_proof_path :: "content_id list"

definition cp_to_cv :: "consistency_proof \<Rightarrow> cv" where
  "cp_to_cv p =
     Map [(1, U64 (cp_first_size p)),
          (2, U64 (cp_second_size p)),
          (3, Array (map hash_cv (cp_proof_path p)))]"

definition cp_det_cbor :: "consistency_proof \<Rightarrow> bytes" where
  "cp_det_cbor p = encode (cp_to_cv p)"

definition cp_from_cv :: "cv \<Rightarrow> cbor_error + consistency_proof" where
  "cp_from_cv = read_fields (
     req_as as_u64 1 (\<lambda>first_size.
     req_as as_u64 2 (\<lambda>second_size.
     req_as (as_list as_hash) 3 (\<lambda>proof_path.
       finish \<lparr>cp_first_size = first_size, cp_second_size = second_size, cp_proof_path = proof_path\<rparr>))))"

definition cp_from_det_cbor :: "bytes \<Rightarrow> cbor_error + consistency_proof" where
  "cp_from_det_cbor = from_bytes cp_from_cv"

definition wf_cp :: "consistency_proof \<Rightarrow> bool" where
  "wf_cp p \<longleftrightarrow> wf_hash_list (cp_proof_path p)"

section \<open>Codec laws\<close>

lemma max_depth [simp]: "MAX_NESTING_DEPTH = 64"
  by (simp add: MAX_NESTING_DEPTH_def)

lemma as_list_as_hash_Inr_iff [simp]:
  "as_list as_hash c = Inr hs \<longleftrightarrow> c = Array (map hash_cv hs)"
proof
  assume "as_list as_hash c = Inr hs"
  then show "c = Array (map hash_cv hs)" by (rule as_list_inv) simp
qed (simp add: as_list_Array_map as_hash_hash_cv)

lemma canon_hash_list [simp]: "canon (Array (map hash_cv hs)) \<longleftrightarrow> wf_hash_list hs"
  by (auto simp: wf_hash_list_def)

lemma ip_from_cv_Inr:
  assumes "ip_from_cv c = Inr p" and "canon c"
  shows "c = ip_to_cv p"
proof -
  from assms obtain m where c: "c = Map m" and m: "mset m = mset [(1, U64 (ip_tree_size p)),
          (2, U64 (ip_leaf_index p)), (3, hash_cv (ip_leaf_hash p)), (4, Array (map hash_cv (ip_audit_path p)))]"
    unfolding ip_from_cv_def
    by (auto elim!: req_as_InrE)
  then show ?thesis using assms(2) unfolding ip_to_cv_def c by (intro canon_Map_eqI) auto
qed

interpretation ip: wire_object ip_to_cv ip_from_cv wf_ip
proof
  fix p
  assume "wf_ip p"
  then show "canon (ip_to_cv p)" and "fits_depth 0 (ip_to_cv p)"
    by (auto simp: ip_to_cv_def wf_ip_def simp del: canon.simps(5))
  show "ip_from_cv (ip_to_cv p) = Inr p"
    by (simp add: ip_from_cv_def ip_to_cv_def wire_simps)
next
  fix c p
  assume c: "canon c" "ip_from_cv c = Inr p"
  then show "wf_ip p \<and> ip_to_cv p = c"
    using ip_from_cv_Inr [of c p]
    by (auto simp: ip_to_cv_def wf_ip_def simp del: canon.simps(5))
qed

lemma cp_from_cv_Inr:
  assumes "cp_from_cv c = Inr p" and "canon c"
  shows "c = cp_to_cv p"
proof -
  from assms obtain m where c: "c = Map m" and m: "mset m = mset [(1, U64 (cp_first_size p)),
      (2, U64 (cp_second_size p)), (3, Array (map hash_cv (cp_proof_path p)))]"
    unfolding cp_from_cv_def by (auto elim!: req_as_InrE)
  then show ?thesis using assms(2) unfolding cp_to_cv_def c by (intro canon_Map_eqI) auto
qed

interpretation cp: wire_object cp_to_cv cp_from_cv wf_cp
proof
  fix p
  assume "wf_cp p"
  then show "canon (cp_to_cv p)" and "fits_depth 0 (cp_to_cv p)"
    by (auto simp: cp_to_cv_def wf_cp_def simp del: canon.simps(5))
  show "cp_from_cv (cp_to_cv p) = Inr p"
    by (simp add: cp_from_cv_def cp_to_cv_def wire_simps)
next
  fix c p
  assume "canon c" "cp_from_cv c = Inr p"
  then show "wf_cp p \<and> cp_to_cv p = c"
    using cp_from_cv_Inr [of c p] by (auto simp: cp_to_cv_def wf_cp_def simp del: canon.simps(5))
qed

lemma sth_from_cv_Inr:
  assumes "sth_from_cv c = Inr s" and "canon c"
  shows "c = sth_to_cv True s"
proof -
  from assms obtain m where c: "c = Map m" and m: "mset m = mset [(1, suite_cv (sth_suite s)),
      (2, Bytes (sth_log_id s)), (3, U64 (sth_tree_size s)), (4, U64 (sth_timestamp s)),
      (5, hash_cv (sth_root_hash s)), (6, Bytes (sth_sig s))]"
    unfolding sth_from_cv_def by (auto elim!: req_as_InrE)
  then show ?thesis using assms(2) unfolding sth_to_cv_def c
    by (simp only: if_True append.simps) (intro canon_Map_eqI, auto)
qed

interpretation sth: signed_object "sth_to_cv True" sth_from_cv wf_sth "sth_to_cv False" "sth_sig_update (\<lambda>_. [])"
proof
  fix s
  assume "wf_sth s"
  then show "canon (sth_to_cv True s)" and "fits_depth 0 (sth_to_cv True s)"
    and "canon (sth_to_cv False s)" and "fits_depth 0 (sth_to_cv False s)"
    by (simp_all add: sth_to_cv_def wf_sth_def)
  show "sth_from_cv (sth_to_cv True s) = Inr s"
    by (simp add: sth_from_cv_def sth_to_cv_def wire_simps)
next
  fix c s
  assume "canon c" "sth_from_cv c = Inr s"
  then show "wf_sth s \<and> sth_to_cv True s = c"
    using sth_from_cv_Inr [of c s] by (auto simp: sth_to_cv_def wf_sth_def)
next
  fix x y
  assume "sth_to_cv False x = sth_to_cv False y"
  then show "x\<lparr>sth_sig := []\<rparr> = y\<lparr>sth_sig := []\<rparr>"
    by (cases x; cases y) (simp add: sth_to_cv_def)
qed

end
