(* ===== verification/Merkle.thy ===== *)
theory Merkle
  imports Kt "HOL-Library.While_Combinator"
begin

text \<open>
  The RFC 6962 Merkle arithmetic of \<^verbatim>\<open>kt.rs\<close>: tree hashes, audit and consistency paths, the
  two verifiers and the in-memory reference tree \<open>MerkleTree\<close>.  A digest \<open>[u8; 32]\<close> is a
  byte list.  The verifiers only shift, compare and decrement (under a guard) their 64-bit indices,
  so the loops run on natural numbers.
\<close>

datatype kt_error = ProofInvalid | LeafHashMismatch | NotConsistent

fun kt_error_code :: "kt_error \<Rightarrow> u16" where
  "kt_error_code ProofInvalid = 0x0108"
| "kt_error_code LeafHashMismatch = 0x0117"
| "kt_error_code NotConsistent = 0x0110"

section \<open>Tree hashes and proofs\<close>

definition digest32 :: "content_id \<Rightarrow> bytes option" where
  "digest32 i =
     (if cid_algorithm i = Some MH_BLAKE3_256 \<and> length (cid_digest i) = 32
      then Some (cid_digest i) else None)"

definition as_content_id :: "bytes \<Rightarrow> content_id" where
  "as_content_id d = ContentId (MH_BLAKE3_256 # d)"

definition node :: "crypto \<Rightarrow> bytes \<Rightarrow> bytes \<Rightarrow> bytes" where
  "node C l r = blake3 C (0x01 # l @ r)"

definition split_point :: "nat \<Rightarrow> nat" where
  "split_point n = while (\<lambda>k. 2 * k < n) (\<lambda>k. 2 * k) 1"

lemma split_point_inv:
  assumes "2 \<le> n"
  shows "\<exists>j. split_point n = 2 ^ j \<and> 2 ^ j < n \<and> n \<le> 2 * 2 ^ j"
  unfolding split_point_def
proof (rule while_rule [where P = "\<lambda>k. \<exists>j. k = 2 ^ j \<and> k < n" and r = "measure (\<lambda>k. n - k)"])
  show "\<exists>j. (1::nat) = 2 ^ j \<and> 1 < n" using assms by (intro exI [of _ 0]) simp
  show "\<exists>j. 2 * k = 2 ^ j \<and> 2 * k < n" if "\<exists>j. k = 2 ^ j \<and> k < n" "2 * k < n" for k
    using that by (auto intro: exI [of _ "Suc _"])
  show "(2 * k, k) \<in> measure (\<lambda>k. n - k)" if "\<exists>j. k = 2 ^ j \<and> k < n" "2 * k < n" for k
    using that by (auto intro: diff_less_mono2)
qed auto

lemma split_point_bounds [termination_simp]:
  assumes "2 \<le> n"
  shows "0 < split_point n" "split_point n < n"
  using split_point_inv [OF assms] by auto

lemma split_point_rest: "2 \<le> n \<Longrightarrow> n - split_point n < n"
  using split_point_bounds [of n] by linarith

fun mth :: "crypto \<Rightarrow> bytes list \<Rightarrow> bytes" where
  "mth C leaves =
     (case leaves of
        [] \<Rightarrow> []
      | [l] \<Rightarrow> l
      | _ \<Rightarrow> let k = split_point (length leaves)
             in node C (mth C (take k leaves)) (mth C (drop k leaves)))"


declare mth.simps [simp del]

lemma mth_single [simp]: "mth C [l] = l"
  by (simp add: mth.simps)

lemma mth_split:
  "2 \<le> length leaves \<Longrightarrow> mth C leaves =
     node C (mth C (take (split_point (length leaves)) leaves))
            (mth C (drop (split_point (length leaves)) leaves))"
  by (subst mth.simps) (auto simp: Let_def split: list.splits)

function audit_path :: "crypto \<Rightarrow> nat \<Rightarrow> bytes list \<Rightarrow> bytes list" where
  "audit_path C m leaves =
     (let n = length leaves in
      if n \<le> 1 then []
      else let k = split_point n in
        if m < k then audit_path C m (take k leaves) @ [mth C (drop k leaves)]
        else audit_path C (m - k) (drop k leaves) @ [mth C (take k leaves)])"
  by pat_completeness auto
termination
  by (relation "measure (\<lambda>(C, m, l). length l)") (auto simp: split_point_bounds split_point_rest)

declare audit_path.simps [simp del]

function subproof :: "crypto \<Rightarrow> nat \<Rightarrow> bytes list \<Rightarrow> bool \<Rightarrow> bytes list" where
  "subproof C m leaves b =
     (let n = length leaves in
      if m = n then (if b then [] else [mth C leaves])
      else if n \<le> 1 then []
      else let k = split_point n in
        if m \<le> k then subproof C m (take k leaves) b @ [mth C (drop k leaves)]
        else subproof C (m - k) (drop k leaves) False @ [mth C (take k leaves)])"
  by pat_completeness auto
termination
  by (relation "measure (\<lambda>(C, m, l, b). length l)") (auto simp: split_point_bounds split_point_rest)

declare subproof.simps [simp del]


section \<open>Verifiers\<close>

text \<open>The inner \<open>loop\<close> of \<open>fold_inclusion\<close>: shift until the node is a right child or zero.\<close>

function skip_levels :: "nat \<Rightarrow> nat \<Rightarrow> nat \<times> nat" where
  "skip_levels node_idx last_idx =
     (let n = node_idx div 2; l = last_idx div 2 in
      if odd n \<or> n = 0 then (n, l) else skip_levels n l)"
  by pat_completeness auto
termination
  by (relation "measure fst") auto

declare skip_levels.simps [simp del]

text \<open>The \<open>for p in &proof.audit_path\<close> loop: \<open>None\<close> is \<open>return false\<close>, otherwise the final
  \<open>last_idx\<close> and \<open>r\<close>.\<close>

fun fold_path :: "crypto \<Rightarrow> nat \<Rightarrow> nat \<Rightarrow> bytes \<Rightarrow> content_id list \<Rightarrow> (nat \<times> bytes) option" where
  "fold_path C node_idx last_idx r [] = Some (last_idx, r)"
| "fold_path C node_idx last_idx r (p # ps) =
     (case digest32 p of
        None \<Rightarrow> None
      | Some pd \<Rightarrow>
          if last_idx = 0 then None
          else if odd node_idx \<or> node_idx = last_idx then
            (let r' = node C pd r;
                 (n, l) = (if even node_idx then skip_levels node_idx last_idx else (node_idx, last_idx))
             in fold_path C (n div 2) (l div 2) r' ps)
          else fold_path C (node_idx div 2) (last_idx div 2) (node C r pd) ps)"

definition fold_inclusion :: "crypto \<Rightarrow> inclusion_proof \<Rightarrow> content_id \<Rightarrow> bool" where
  "fold_inclusion C p root =
     (case digest32 (ip_leaf_hash p) of
        None \<Rightarrow> False
      | Some leaf \<Rightarrow>
          (case digest32 root of
             None \<Rightarrow> False
           | Some root_d \<Rightarrow>
               if ip_leaf_index p \<ge> ip_tree_size p then False
               else (case fold_path C (unat (ip_leaf_index p)) (unat (ip_tree_size p) - 1) leaf
                            (ip_audit_path p) of
                       None \<Rightarrow> False
                     | Some (last_idx, r) \<Rightarrow> last_idx = 0 \<and> r = root_d)))"

definition verify_root :: "crypto \<Rightarrow> inclusion_proof \<Rightarrow> content_id \<Rightarrow> kt_error + unit" where
  "verify_root C p root = (if fold_inclusion C p root then Inr () else Inl ProofInvalid)"

definition verify_against :: "crypto \<Rightarrow> inclusion_proof \<Rightarrow> signed_tree_head \<Rightarrow> kt_error + unit" where
  "verify_against C p sth =
     (if ip_tree_size p \<noteq> sth_tree_size sth then Inl ProofInvalid
      else verify_root C p (sth_root_hash sth))"

text \<open>The three loops of \<open>verify_consistency\<close>; an exhausted path is \<open>None\<close>.\<close>

function strip_ones :: "nat \<Rightarrow> nat \<Rightarrow> nat \<times> nat" where
  "strip_ones node_idx last_idx =
     (if odd node_idx then strip_ones (node_idx div 2) (last_idx div 2) else (node_idx, last_idx))"
  by pat_completeness auto
termination
  by (relation "measure fst") (auto elim: oddE)

declare strip_ones.simps [simp del]

function cons_loop :: "crypto \<Rightarrow> nat \<Rightarrow> nat \<Rightarrow> bytes \<Rightarrow> bytes \<Rightarrow> bytes list \<Rightarrow>
    (nat \<times> bytes \<times> bytes \<times> bytes list) option" where
  "cons_loop C node_idx last_idx old_hash new_hash path =
     (if node_idx > 0 then
        if odd node_idx then
          (case path of
             [] \<Rightarrow> None
           | s # path' \<Rightarrow> cons_loop C (node_idx div 2) (last_idx div 2) (node C s old_hash) (node C s new_hash) path')
        else if node_idx < last_idx then
          (case path of
             [] \<Rightarrow> None
           | s # path' \<Rightarrow> cons_loop C (node_idx div 2) (last_idx div 2) old_hash (node C new_hash s) path')
        else cons_loop C (node_idx div 2) (last_idx div 2) old_hash new_hash path
      else Some (last_idx, old_hash, new_hash, path))"
  by pat_completeness auto
termination
  by (relation "measure (\<lambda>(C, n, l, oh, nh, p). n)") auto

declare cons_loop.simps [simp del]

function cons_tail :: "crypto \<Rightarrow> nat \<Rightarrow> bytes \<Rightarrow> bytes list \<Rightarrow> (bytes \<times> bytes list) option" where
  "cons_tail C last_idx new_hash path =
     (if last_idx > 0 then
        (case path of
           [] \<Rightarrow> None
         | s # path' \<Rightarrow> cons_tail C (last_idx div 2) (node C new_hash s) path')
      else Some (new_hash, path))"
  by pat_completeness auto
termination
  by (relation "measure (\<lambda>(C, l, nh, p). l)") auto

declare cons_tail.simps [simp del]

text \<open>The fold after the early returns: seed, main loop, tail loop, final comparison.\<close>

definition cons_fold :: "crypto \<Rightarrow> nat \<Rightarrow> nat \<Rightarrow> bytes \<Rightarrow> bytes \<Rightarrow> bytes list \<Rightarrow> bool" where
  "cons_fold C m n old_root new_root path =
     (let (node_idx, last_idx) = strip_ones (m - 1) (n - 1);
          seed = (if node_idx > 0 then
                    (case path of [] \<Rightarrow> None | h # path' \<Rightarrow> Some (h, path'))
                  else Some (old_root, path))
      in case seed of
           None \<Rightarrow> False
         | Some (h, path1) \<Rightarrow>
             (case cons_loop C node_idx last_idx h h path1 of
                None \<Rightarrow> False
              | Some (last_idx', old_hash, new_hash, path2) \<Rightarrow>
                  (case cons_tail C last_idx' new_hash path2 of
                     None \<Rightarrow> False
                   | Some (new_hash', path3) \<Rightarrow>
                       path3 = [] \<and> old_hash = old_root \<and> new_hash' = new_root)))"

definition verify_consistency :: "crypto \<Rightarrow> signed_tree_head \<Rightarrow> signed_tree_head \<Rightarrow>
    consistency_proof \<Rightarrow> kt_error + unit" where
  "verify_consistency C old new p =
     (let m = sth_tree_size old; n = sth_tree_size new in
      if cp_first_size p \<noteq> m \<or> cp_second_size p \<noteq> n \<or> m > n then Inl NotConsistent
      else and_then (ok_or (digest32 (sth_root_hash old)) NotConsistent) (\<lambda>old_root.
           and_then (ok_or (digest32 (sth_root_hash new)) NotConsistent) (\<lambda>new_root.
             if m = n then
               (if cp_proof_path p = [] \<and> old_root = new_root then Inr () else Inl NotConsistent)
             else if m = 0 then
               (if cp_proof_path p = [] then Inr () else Inl NotConsistent)
             else
               and_then (collect_results (\<lambda>h. ok_or (digest32 h) NotConsistent) (cp_proof_path p)) (\<lambda>path.
                 if cons_fold C (unat m) (unat n) old_root new_root path
                 then Inr () else Inl NotConsistent))))"

section \<open>The reference tree\<close>

record merkle_tree =
  leaves :: "bytes list"

definition tree_new :: merkle_tree where
  "tree_new = \<lparr>leaves = []\<rparr>"

definition tree_append :: "merkle_tree \<Rightarrow> content_id \<Rightarrow> (u64 \<times> merkle_tree) option" where
  "tree_append t leaf_hash =
     Option.bind (digest32 leaf_hash) (\<lambda>d.
       let t' = t\<lparr>leaves := leaves t @ [d]\<rparr> in Some (of_nat (length (leaves t') - 1), t'))"

definition tree_size :: "merkle_tree \<Rightarrow> u64" where
  "tree_size t = of_nat (length (leaves t))"

definition tree_root :: "crypto \<Rightarrow> merkle_tree \<Rightarrow> content_id option" where
  "tree_root C t = (if leaves t = [] then None else Some (as_content_id (mth C (leaves t))))"

definition inclusion_path :: "crypto \<Rightarrow> merkle_tree \<Rightarrow> u64 \<Rightarrow> content_id list option" where
  "inclusion_path C t index =
     (if unat index \<ge> length (leaves t) then None
      else Some (map as_content_id (audit_path C (unat index) (leaves t))))"

definition consistency_path :: "crypto \<Rightarrow> merkle_tree \<Rightarrow> u64 \<Rightarrow> content_id list option" where
  "consistency_path C t first =
     (let m = unat first; n = length (leaves t) in
      if m = 0 \<or> m > n then None
      else let path = (if m = n then [] else subproof C m (leaves t) True)
           in Some (map as_content_id path))"

end
