(* ===== verification/Merkle_Proofs.thy ===== *)
theory Merkle_Proofs
  imports Merkle
begin

text \<open>
  Correctness of the Merkle log: every audit path and every consistency path that the reference tree
  issues is accepted by the verifiers, and an accepted proof that disagrees with the tree exhibits a
  hash collision between two explicitly given lists of hashed inputs (\<open>collision\<close>).

  The bottom-up verifiers are related to the top-down path generators by following a subtree through
  its place in the whole tree: \<open>fold_full\<close>/\<open>cons_start_full\<close> for complete subtrees, whose nodes
  have right neighbours, and \<open>fold_any\<close>/\<open>cons_start_any\<close> for the subtree that ends the tree.
\<close>

section \<open>Audit paths\<close>

fun fold_digests :: "crypto \<Rightarrow> nat \<Rightarrow> nat \<Rightarrow> bytes \<Rightarrow> bytes list \<Rightarrow> (nat \<times> bytes) option" where
  "fold_digests C i l r [] = Some (l, r)"
| "fold_digests C i l r (d # ds) =
     (if l = 0 then None
      else if odd i \<or> i = l then
        (let (n, k) = (if even i then skip_levels i l else (i, l))
         in fold_digests C (n div 2) (k div 2) (node C d r) ds)
      else fold_digests C (i div 2) (l div 2) (node C r d) ds)"

lemma digest32_as_content_id [simp]: "digest32 (as_content_id d) = (if length d = 32 then Some d else None)"
  by (simp add: digest32_def as_content_id_def cid_algorithm_def cid_digest_def)

lemma digest32_Some: "digest32 i = Some d \<Longrightarrow> i = as_content_id d \<and> length d = 32"
  by (cases i) (auto simp: digest32_def as_content_id_def cid_algorithm_def cid_digest_def
      split: if_splits list.splits)

lemma fold_path_digests:
  "\<forall>d \<in> set ds. length d = 32 \<Longrightarrow>
   fold_path C i l r (map as_content_id ds) = fold_digests C i l r ds"
  by (induction ds arbitrary: i l r) (auto simp: Let_def split: prod.splits)

lemma fold_path_Some_digests:
  "fold_path C i l r ps = Some res \<Longrightarrow>
   \<exists>ds. ps = map as_content_id ds \<and> (\<forall>d \<in> set ds. length d = 32) \<and> fold_digests C i l r ds = Some res"
proof (induction ps arbitrary: i l r)
  case Nil
  then show ?case by auto
next
  case (Cons p ps)
  then obtain d where d: "digest32 p = Some d" by (auto split: option.splits)
  note p = digest32_Some [OF d]
  let ?i = "if odd i \<or> i = l then fst (if even i then skip_levels i l else (i, l)) div 2 else i div 2"
  let ?l = "if odd i \<or> i = l then snd (if even i then skip_levels i l else (i, l)) div 2 else l div 2"
  let ?r = "if odd i \<or> i = l then node C d r else node C r d"
  have "l \<noteq> 0" using Cons.prems d by (auto split: if_splits)
  then have "fold_path C ?i ?l ?r ps = Some res"
    using Cons.prems d by (auto simp: Let_def split: if_splits prod.splits)
  then obtain ds where "ps = map as_content_id ds" "\<forall>d \<in> set ds. length d = 32"
      "fold_digests C ?i ?l ?r ds = Some res"
    using Cons.IH by blast
  then show ?case using p \<open>l \<noteq> 0\<close>
    by (intro exI [of _ "d # ds"]) (auto simp: Let_def split: if_splits prod.splits)
qed

lemma skip_levels_pow:
  "odd q \<Longrightarrow> 0 < t \<Longrightarrow> skip_levels (q * 2 ^ t) (q * 2 ^ t) = (q, q)"
proof (induction t)
  case (Suc t)
  show ?case
  proof (cases "t = 0")
    case True
    then show ?thesis using Suc.prems by (simp add: skip_levels.simps)
  next
    case False
    then have "even (q * 2 ^ t)" "q * 2 ^ t \<noteq> 0" using Suc.prems by (auto elim: oddE)
    then show ?thesis using Suc False by (subst skip_levels.simps) (simp add: mult.left_commute)
  qed
qed simp

lemma split_point_eq:
  assumes "2 ^ j < n" "n \<le> 2 * 2 ^ j"
  shows "split_point n = 2 ^ j"
proof -
  have "2 \<le> n" using assms(1) by (metis Suc_1 Suc_leI le_less_trans one_le_numeral one_le_power)
  then obtain i where i: "split_point n = 2 ^ i" "2 ^ i < n" "n \<le> 2 * 2 ^ i"
    using split_point_inv by blast
  have "(2::nat) ^ j < 2 ^ Suc i" "(2::nat) ^ i < 2 ^ Suc j"
    using assms i by simp_all
  then have "j < Suc i" "i < Suc j" by (simp_all only: power_strict_increasing_iff one_less_numeral_iff semiring_norm)
  then have "j = i" by simp
  then show ?thesis using i by simp
qed

lemma div_pow_offset:
  assumes "2 ^ j < n" "n \<le> 2 * 2 ^ j"
  shows "(c * 2 ^ j + n - 1) div 2 ^ j = c + (1::nat)"
proof -
  have "c * 2 ^ j + n - 1 = (n - 2 ^ j - 1) + (c + 1) * 2 ^ j" using assms by simp
  then have "(c * 2 ^ j + n - 1) div 2 ^ j = (c + 1) + (n - 2 ^ j - 1) div 2 ^ j"
    by (simp only: div_mult_self1 power_not_zero zero_neq_numeral [symmetric] not_False_eq_True)
  moreover have "n - 2 ^ j - 1 < 2 ^ j" using assms by linarith
  ultimately show ?thesis by simp
qed

lemma audit_path_left:
  assumes "2 \<le> length L" "split_point (length L) = k" "m < k"
  shows "audit_path C m L @ rest = audit_path C m (take k L) @ mth C (drop k L) # rest"
  using assms by (subst audit_path.simps) (simp add: Let_def)

lemma audit_path_right:
  assumes "2 \<le> length L" "split_point (length L) = k" "\<not> m < k"
  shows "audit_path C m L @ rest = audit_path C (m - k) (drop k L) @ mth C (take k L) # rest"
  using assms by (subst audit_path.simps) (simp add: Let_def)

text \<open>A complete subtree of size \<open>2^j\<close> at position \<open>c\<close> of its level, with nodes to its right.\<close>

lemma fold_full:
  assumes "length L = 2 ^ j" "m < 2 ^ j" "c < z div 2 ^ j"
  shows "fold_digests C (c * 2 ^ j + m) z (L ! m) (audit_path C m L @ rest) =
         fold_digests C c (z div 2 ^ j) (mth C L) rest"
  using assms
proof (induction j arbitrary: L m c rest)
  case 0
  then obtain l where "L = [l]" by (cases L) auto
  then show ?case using 0 by (simp add: audit_path.simps)
next
  case (Suc j)
  have n: "2 \<le> length L" using Suc.prems(1) by simp
  have k: "split_point (length L) = 2 ^ j"
    using Suc.prems(1) by (intro split_point_eq) auto
  have l2: "z div 2 ^ Suc j = z div 2 ^ j div 2" by (simp add: div_mult2_eq [symmetric] mult.commute)
  then have c: "2 * c + 1 < z div 2 ^ j" using Suc.prems(3) by linarith
  show ?case
  proof (cases "m < 2 ^ j")
    case True
    have "fold_digests C ((2 * c) * 2 ^ j + m) z (take (2 ^ j) L ! m)
        (audit_path C m (take (2 ^ j) L) @ mth C (drop (2 ^ j) L) # rest) =
      fold_digests C (2 * c) (z div 2 ^ j) (mth C (take (2 ^ j) L)) (mth C (drop (2 ^ j) L) # rest)"
      using Suc.prems True c by (intro Suc.IH) auto
    then show ?thesis using True n c
      by (simp add: audit_path_left [OF n k] k mth_split l2 [simplified] mult.assoc mult.left_commute)
  next
    case False
    have "fold_digests C ((2 * c + 1) * 2 ^ j + (m - 2 ^ j)) z (drop (2 ^ j) L ! (m - 2 ^ j))
        (audit_path C (m - 2 ^ j) (drop (2 ^ j) L) @ mth C (take (2 ^ j) L) # rest) =
      fold_digests C (2 * c + 1) (z div 2 ^ j) (mth C (drop (2 ^ j) L)) (mth C (take (2 ^ j) L) # rest)"
      using Suc.prems False c by (intro Suc.IH) auto
    moreover have "(2 * c + 1) * 2 ^ j + (m - 2 ^ j) = c * 2 ^ Suc j + m"
      using False by (simp add: algebra_simps)
    moreover have "drop (2 ^ j) L ! (m - 2 ^ j) = L ! m"
      using Suc.prems False by simp
    ultimately show ?thesis using False n c
      by (simp add: audit_path_right [OF n k] k mth_split l2 [simplified] mult.assoc mult.left_commute)
  qed
qed

text \<open>Any subtree that starts at a multiple \<open>X = q * 2^e\<close> of a power of two at least its size and ends
  the tree.\<close>

lemma fold_any:
  assumes "m < length L" "length L \<le> 2 ^ e"
  shows "\<exists>i \<le> e. fold_digests C (q * 2 ^ e + m) (q * 2 ^ e + length L - 1) (L ! m) (audit_path C m L @ rest) =
         fold_digests C (q * 2 ^ (e - i)) (q * 2 ^ (e - i)) (mth C L) rest"
  using assms
proof (induction "length L" arbitrary: L m q e rest rule: less_induct)
  case less
  show ?case
  proof (cases "length L = 1")
    case True
    then obtain l where "L = [l]" by (cases L) auto
    then show ?thesis using less.prems by (intro exI [of _ 0]) (simp add: audit_path.simps)
  next
    case False
    then have n: "2 \<le> length L" using less.prems by linarith
    obtain j where j: "split_point (length L) = 2 ^ j" "2 ^ j < length L" "length L \<le> 2 * 2 ^ j"
      using split_point_inv [OF n] by blast
    have "(2::nat) ^ j < 2 ^ e" using j less.prems by linarith
    then have je: "j < e" by simp
    define c where "c = q * 2 ^ (e - j)"
    have cX: "c * 2 ^ j = q * 2 ^ e" using je by (simp add: c_def mult.assoc flip: power_add)
    have ev: "even c" using je by (simp add: c_def)
    have cq: "c div 2 = q * 2 ^ (e - Suc j)"
      using je by (simp add: c_def Suc_diff_Suc [symmetric])
    have zdiv: "(q * 2 ^ e + length L - 1) div 2 ^ j = c + 1"
      unfolding cX [symmetric] by (rule div_pow_offset [OF j(2,3)])
    show ?thesis
    proof (cases "m < 2 ^ j")
      case True
      have "fold_digests C (c * 2 ^ j + m) (q * 2 ^ e + length L - 1) (take (2 ^ j) L ! m)
          (audit_path C m (take (2 ^ j) L) @ mth C (drop (2 ^ j) L) # rest) =
        fold_digests C c ((q * 2 ^ e + length L - 1) div 2 ^ j) (mth C (take (2 ^ j) L)) (mth C (drop (2 ^ j) L) # rest)"
        using True j zdiv by (intro fold_full) auto
      then show ?thesis using True n ev je
        by (intro exI [of _ "Suc j"])
           (simp add: audit_path_left [OF n j(1)] j(1) mth_split cX zdiv [simplified] flip: cq)
    next
      case False
      let ?R = "drop (2 ^ j) L"
      have "\<exists>i \<le> j. fold_digests C ((c + 1) * 2 ^ j + (m - 2 ^ j)) ((c + 1) * 2 ^ j + length ?R - 1) (?R ! (m - 2 ^ j))
          (audit_path C (m - 2 ^ j) ?R @ mth C (take (2 ^ j) L) # rest) =
        fold_digests C ((c + 1) * 2 ^ (j - i)) ((c + 1) * 2 ^ (j - i)) (mth C ?R) (mth C (take (2 ^ j) L) # rest)"
        using less.prems False j by (intro less.hyps) auto
      then obtain i where i: "i \<le> j" and eq: "fold_digests C ((c + 1) * 2 ^ j + (m - 2 ^ j)) ((c + 1) * 2 ^ j + length ?R - 1) (?R ! (m - 2 ^ j))
          (audit_path C (m - 2 ^ j) ?R @ mth C (take (2 ^ j) L) # rest) =
        fold_digests C ((c + 1) * 2 ^ (j - i)) ((c + 1) * 2 ^ (j - i)) (mth C ?R) (mth C (take (2 ^ j) L) # rest)"
        by blast
      have step: "fold_digests C ((c + 1) * 2 ^ t) ((c + 1) * 2 ^ t) r (p # rest) =
          fold_digests C (c div 2) (c div 2) (node C p r) rest" for t r p
        using ev skip_levels_pow [of "c + 1" t] by (cases "t = 0") (auto simp: Let_def)
      have "(c + 1) * 2 ^ j + (m - 2 ^ j) = q * 2 ^ e + m"
        using False cX by (simp add: algebra_simps)
      moreover have "(c + 1) * 2 ^ j + length ?R - 1 = q * 2 ^ e + length L - 1"
        using j cX by (simp add: algebra_simps)
      moreover have "?R ! (m - 2 ^ j) = L ! m" using less.prems False by simp
      ultimately have "fold_digests C (q * 2 ^ e + m) (q * 2 ^ e + length L - 1) (L ! m) (audit_path C m L @ rest) =
          fold_digests C (c div 2) (c div 2) (node C (mth C (take (2 ^ j) L)) (mth C ?R)) rest"
        using eq [unfolded step] by (simp only: audit_path_right [OF n j(1) False])
      then show ?thesis using n je
        by (intro exI [of _ "Suc j"]) (simp add: j(1) mth_split flip: cq)
    qed
  qed
qed


lemma fold_digests_audit_path:
  assumes "m < length L"
  shows "fold_digests C m (length L - 1) (L ! m) (audit_path C m L) = Some (0, mth C L)"
proof -
  have "length L \<le> 2 ^ length L" by (simp add: less_imp_le)
  from fold_any [OF assms this, of C 0 "[]"] show ?thesis by auto
qed

lemma mth_length:
  assumes "blake3_law C" "L \<noteq> []" "\<forall>l \<in> set L. length l = 32"
  shows "length (mth C L) = 32"
proof (cases "2 \<le> length L")
  case True
  then show ?thesis using assms(1) by (simp add: mth_split node_def blake3_law_def)
next
  case False
  then obtain l where "L = [l]" using assms(2) by (cases L; cases "tl L") auto
  then show ?thesis using assms(3) by simp
qed

lemma audit_path_length32:
  assumes "blake3_law C" "\<forall>l \<in> set L. length l = 32"
  shows "\<forall>d \<in> set (audit_path C m L). length d = 32"
  using assms
proof (induction "length L" arbitrary: L m rule: less_induct)
  case less
  show ?case
  proof (cases "2 \<le> length L")
    case False
    then show ?thesis by (subst audit_path.simps) simp
  next
    case True
    let ?k = "split_point (length L)"
    note b = split_point_bounds [OF True]
    have sub: "\<forall>l \<in> set (take ?k L). length l = 32" "\<forall>l \<in> set (drop ?k L). length l = 32"
      using less.prems by (auto dest: in_set_takeD in_set_dropD)
    have "length (mth C (take ?k L)) = 32" "length (mth C (drop ?k L)) = 32"
      using less.prems sub b True by (auto intro!: mth_length)
    moreover have "\<forall>d \<in> set (audit_path C m' (take ?k L)). length d = 32" for m'
      using b less.prems(1) sub(1) by (intro less.hyps) auto
    moreover have "\<forall>d \<in> set (audit_path C m' (drop ?k L)). length d = 32" for m'
      using b less.prems(1) sub(2) by (intro less.hyps) auto
    moreover have "audit_path C m L = (if m < ?k then audit_path C m (take ?k L) @ [mth C (drop ?k L)]
        else audit_path C (m - ?k) (drop ?k L) @ [mth C (take ?k L)])"
      using audit_path_left [OF True refl, of m C "[]"] audit_path_right [OF True refl, of m C "[]"]
      by simp
    ultimately show ?thesis by (simp split: if_split)
  qed
qed

text \<open>The inputs a fold hashes, bottom up.\<close>

fun fold_inputs :: "crypto \<Rightarrow> nat \<Rightarrow> nat \<Rightarrow> bytes \<Rightarrow> bytes list \<Rightarrow> bytes list" where
  "fold_inputs C i l r [] = []"
| "fold_inputs C i l r (d # ds) =
     (if odd i \<or> i = l then
        (let (n, k) = (if even i then skip_levels i l else (i, l))
         in (0x01 # d @ r) # fold_inputs C (n div 2) (k div 2) (node C d r) ds)
      else (0x01 # r @ d) # fold_inputs C (i div 2) (l div 2) (node C r d) ds)"

definition collision :: "crypto \<Rightarrow> bytes list \<Rightarrow> bytes list \<Rightarrow> bool" where
  "collision C xs ys \<longleftrightarrow> (\<exists>x \<in> set xs. \<exists>y \<in> set ys. x \<noteq> y \<and> blake3 C x = blake3 C y)"

lemma fold_digests_unique:
  assumes "blake3_law C"
    and "fold_digests C i l r1 ds1 = Some (0, R)" "fold_digests C i l r2 ds2 = Some (0, R)"
    and "length r1 = 32" "length r2 = 32"
    and "\<forall>d \<in> set ds1. length d = 32" "\<forall>d \<in> set ds2. length d = 32"
  shows "r1 = r2 \<and> ds1 = ds2 \<or> collision C (fold_inputs C i l r1 ds1) (fold_inputs C i l r2 ds2)"
  using assms(2-)
proof (induction ds1 arbitrary: i l r1 r2 ds2)
  case Nil
  then show ?case by (cases ds2) auto
next
  case (Cons a ds1)
  then have "l \<noteq> 0" by (auto split: if_splits)
  then obtain b ds2' where ds2: "ds2 = b # ds2'" using Cons.prems by (cases ds2) auto
  show ?case
  proof (cases "odd i \<or> i = l")
    case True
    obtain n k where nk: "(if even i then skip_levels i l else (i, l)) = (n, k)" by fastforce
    have "node C a r1 = node C b r2 \<and> ds1 = ds2' \<or>
        collision C (fold_inputs C (n div 2) (k div 2) (node C a r1) ds1)
                    (fold_inputs C (n div 2) (k div 2) (node C b r2) ds2')"
      using Cons.prems True \<open>l \<noteq> 0\<close> nk assms(1) ds2
      by (intro Cons.IH) (auto simp: node_def blake3_law_def)
    moreover have "0x01 # a @ r1 = 0x01 # b @ r2 \<longleftrightarrow> a = b \<and> r1 = r2"
      using Cons.prems ds2 by auto
    ultimately show ?thesis using True nk ds2
      by (auto simp: collision_def node_def Let_def)
  next
    case False
    have "node C r1 a = node C r2 b \<and> ds1 = ds2' \<or>
        collision C (fold_inputs C (i div 2) (l div 2) (node C r1 a) ds1)
                    (fold_inputs C (i div 2) (l div 2) (node C r2 b) ds2')"
      using Cons.prems False \<open>l \<noteq> 0\<close> assms(1) ds2
      by (intro Cons.IH) (auto simp: node_def blake3_law_def)
    moreover have "0x01 # r1 @ a = 0x01 # r2 @ b \<longleftrightarrow> a = b \<and> r1 = r2"
      using Cons.prems ds2 by auto
    ultimately show ?thesis using False ds2
      by (auto simp: collision_def node_def)
  qed
qed

section \<open>Consistency paths\<close>

text \<open>The two loops of the consistency check as one run, and the run from the unseeded start.\<close>

definition cons_run :: "crypto \<Rightarrow> nat \<Rightarrow> nat \<Rightarrow> bytes \<Rightarrow> bytes \<Rightarrow> bytes list \<Rightarrow>
    (bytes \<times> bytes \<times> bytes list) option" where
  "cons_run C n l oh nh p =
     Option.bind (cons_loop C n l oh nh p) (\<lambda>(l', oh', nh', p').
     Option.bind (cons_tail C l' nh' p') (\<lambda>(nh'', p''). Some (oh', nh'', p'')))"

definition cons_start :: "crypto \<Rightarrow> nat \<Rightarrow> nat \<Rightarrow> bytes \<Rightarrow> bytes list \<Rightarrow>
    (bytes \<times> bytes \<times> bytes list) option" where
  "cons_start C n l old_root p =
     (let (n', l') = strip_ones n l in
      if n' > 0 then (case p of [] \<Rightarrow> None | h # p' \<Rightarrow> cons_run C n' l' h h p')
      else cons_run C n' l' old_root old_root p)"

lemma cons_run_odd:
  "odd n \<Longrightarrow> cons_run C n l oh nh p =
     (case p of [] \<Rightarrow> None | s # p' \<Rightarrow> cons_run C (n div 2) (l div 2) (node C s oh) (node C s nh) p')"
  by (cases p) (simp_all add: cons_run_def cons_loop.simps [of C n] odd_pos)

lemma cons_run_left:
  "even n \<Longrightarrow> n < l \<Longrightarrow> cons_run C n l oh nh p =
     (case p of [] \<Rightarrow> None | s # p' \<Rightarrow> cons_run C (n div 2) (l div 2) oh (node C nh s) p')"
  by (cases p; cases "n = 0")
     (simp_all add: cons_run_def cons_loop.simps [of C n] cons_loop.simps [of C 0] cons_tail.simps [of C l])

lemma cons_run_same:
  "even n \<Longrightarrow> 0 < n \<Longrightarrow> \<not> n < l \<Longrightarrow> cons_run C n l oh nh p = cons_run C (n div 2) (l div 2) oh nh p"
  by (simp add: cons_run_def cons_loop.simps [of C n])

lemma cons_run_end: "cons_run C 0 0 oh nh p = Some (oh, nh, p)"
  by (simp add: cons_run_def cons_loop.simps cons_tail.simps)

lemma cons_run_pow:
  "odd q \<Longrightarrow> cons_run C (q * 2 ^ t) (q * 2 ^ t) oh nh (s # p) =
     cons_run C (q div 2) (q div 2) (node C s oh) (node C s nh) p"
proof (induction t)
  case 0
  then show ?case by (simp add: cons_run_odd)
next
  case (Suc t)
  then have "cons_run C (q * 2 ^ Suc t) (q * 2 ^ Suc t) oh nh (s # p) =
      cons_run C (q * 2 ^ t) (q * 2 ^ t) oh nh (s # p)"
    by (subst cons_run_same) (auto elim: oddE simp: mult.left_commute)
  with Suc show ?case by simp
qed

lemma cons_start_odd: "odd n \<Longrightarrow> cons_start C n l r p = cons_start C (n div 2) (l div 2) r p"
  by (simp add: cons_start_def strip_ones.simps [of n])

lemma cons_start_even:
  "even n \<Longrightarrow> cons_start C n l r p =
     (if n > 0 then (case p of [] \<Rightarrow> None | h # p' \<Rightarrow> cons_run C n l h h p') else cons_run C n l r r p)"
  by (simp add: cons_start_def strip_ones.simps [of n])

lemma cons_start_ones:
  "cons_start C (c * 2 ^ j + 2 ^ j - 1) z r p = cons_start C c (z div 2 ^ j) r p"
proof (induction j arbitrary: z)
  case 0
  then show ?case by simp
next
  case (Suc j)
  have e: "c * 2 ^ Suc j + 2 ^ Suc j - 1 = 2 * (c * 2 ^ j + 2 ^ j - 1) + 1"
  proof -
    have "0 < (2::nat) ^ j" by simp
    moreover have "c * 2 ^ Suc j = 2 * (c * 2 ^ j)" by simp
    ultimately show ?thesis by (simp only: power_Suc)
  qed
  have "cons_start C (c * 2 ^ Suc j + 2 ^ Suc j - 1) z r p =
      cons_start C (c * 2 ^ j + 2 ^ j - 1) (z div 2) r p"
    unfolding e by (subst cons_start_odd) simp_all
  also have "\<dots> = cons_start C c (z div 2 div 2 ^ j) r p" by (rule Suc.IH)
  finally show ?case by (simp add: div_mult2_eq)
qed

lemma cons_fold_start:
  "cons_fold C m n old_root new_root p \<longleftrightarrow>
     cons_start C (m - 1) (n - 1) old_root p = Some (old_root, new_root, [])"
proof -
  have run: "(case cons_loop C i l h h q of None \<Rightarrow> False | Some (last_idx', old_hash, new_hash, path2) \<Rightarrow>
      (case cons_tail C last_idx' new_hash path2 of None \<Rightarrow> False
       | Some (new_hash', path3) \<Rightarrow> path3 = [] \<and> old_hash = old_root \<and> new_hash' = new_root)) \<longleftrightarrow>
      cons_run C i l h h q = Some (old_root, new_root, [])" for i l h q
    by (auto simp: cons_run_def split: option.splits prod.splits)
  obtain i l where "strip_ones (m - 1) (n - 1) = (i, l)" by fastforce
  then show ?thesis
    by (cases p) (simp_all add: cons_fold_def cons_start_def run)
qed

lemma subproof_left:
  assumes "0 < m" "m < length L" "split_point (length L) = k" "m \<le> k"
  shows "subproof C m L b @ rest = subproof C m (take k L) b @ mth C (drop k L) # rest"
  using assms by (subst subproof.simps) (simp add: Let_def)

lemma subproof_right:
  assumes "0 < m" "m < length L" "split_point (length L) = k" "\<not> m \<le> k"
  shows "subproof C m L b @ rest = subproof C (m - k) (drop k L) False @ mth C (take k L) # rest"
  using assms by (subst subproof.simps) (simp add: Let_def)

lemma mth_take_right:
  assumes "2 ^ j < m" "m \<le> 2 * 2 ^ j" "m \<le> length L"
  shows "mth C (take m L) = node C (mth C (take (2 ^ j) L)) (mth C (take (m - 2 ^ j) (drop (2 ^ j) L)))"
proof -
  have k: "split_point m = 2 ^ j" using assms by (intro split_point_eq) auto
  have "2 \<le> m" using assms(1) by (metis Suc_1 Suc_leI le_less_trans one_le_numeral one_le_power)
  then show ?thesis using assms k by (simp add: mth_split min_absorb2 take_drop)
qed

lemma cons_start_full:
  assumes "length L = 2 ^ j" "0 < m" "m \<le> 2 ^ j" "c < z div 2 ^ j" "m = 2 ^ j \<longrightarrow> even c"
    and "c = 0 \<longrightarrow> b \<and> r = mth C (take m L)" "0 < c \<longrightarrow> \<not> b"
  shows "cons_start C (c * 2 ^ j + m - 1) z r (subproof C m L b @ rest) =
         cons_run C c (z div 2 ^ j) (mth C (take m L)) (mth C L) rest"
  using assms
proof (induction j arbitrary: L m c b rest)
  case 0
  then have "m = 1" by simp
  with 0 show ?case by (auto simp: cons_start_even subproof.simps)
next
  case (Suc j)
  show ?case
  proof (cases "m = 2 ^ Suc j")
    case True
    then have "cons_start C (c * 2 ^ Suc j + m - 1) z r (subproof C m L b @ rest) =
        cons_start C c (z div 2 ^ Suc j) r (subproof C m L b @ rest)"
      by (simp only: cons_start_ones)
    with True Suc.prems show ?thesis by (auto simp: cons_start_even subproof.simps)
  next
    case False
    then have m: "m < length L" using Suc.prems by simp
    have n: "2 \<le> length L" using Suc.prems(1) by simp
    have k: "split_point (length L) = 2 ^ j" using Suc.prems(1) by (intro split_point_eq) auto
    have l2: "z div 2 ^ Suc j = z div 2 ^ j div 2" by (simp add: div_mult2_eq [symmetric] mult.commute)
    then have c: "2 * c + 1 < z div 2 ^ j" using Suc.prems(4) by linarith
    show ?thesis
    proof (cases "m \<le> 2 ^ j")
      case True
      have "cons_start C ((2 * c) * 2 ^ j + m - 1) z r
          (subproof C m (take (2 ^ j) L) b @ mth C (drop (2 ^ j) L) # rest) =
        cons_run C (2 * c) (z div 2 ^ j) (mth C (take m (take (2 ^ j) L))) (mth C (take (2 ^ j) L))
          (mth C (drop (2 ^ j) L) # rest)"
        using Suc.prems True c by (intro Suc.IH) (auto simp: min_absorb1)
      then show ?thesis using True n c
        by (simp add: subproof_left [OF Suc.prems(2) m k True] k mth_split l2 [simplified] min_absorb1
            mult.assoc mult.left_commute cons_run_left)
    next
      case False
      have "cons_start C ((2 * c + 1) * 2 ^ j + (m - 2 ^ j) - 1) z r
          (subproof C (m - 2 ^ j) (drop (2 ^ j) L) False @ mth C (take (2 ^ j) L) # rest) =
        cons_run C (2 * c + 1) (z div 2 ^ j) (mth C (take (m - 2 ^ j) (drop (2 ^ j) L))) (mth C (drop (2 ^ j) L))
          (mth C (take (2 ^ j) L) # rest)"
        using Suc.prems False m c by (intro Suc.IH) auto
      moreover have "(2 * c + 1) * 2 ^ j + (m - 2 ^ j) - 1 = c * 2 ^ Suc j + m - 1"
        using False by (simp add: algebra_simps)
      moreover have "mth C (take m L) = node C (mth C (take (2 ^ j) L)) (mth C (take (m - 2 ^ j) (drop (2 ^ j) L)))"
        using False m Suc.prems by (intro mth_take_right) auto
      moreover have "cons_run C (2 * c + 1) (z div 2 ^ j) oh nh (s # p) =
          cons_run C c (z div 2 ^ Suc j) (node C s oh) (node C s nh) p" for oh nh s p
        by (subst cons_run_odd) (simp_all add: l2 [simplified])
      ultimately show ?thesis using n
        by (simp only: subproof_right [OF Suc.prems(2) m k False] mth_split [OF n, unfolded k])
    qed
  qed
qed

lemma cons_start_any:
  assumes "0 < m" "m < length L" "length L \<le> 2 ^ e"
    and "q = 0 \<longrightarrow> b \<and> r = mth C (take m L)" "0 < q \<longrightarrow> \<not> b"
  shows "\<exists>i \<le> e. cons_start C (q * 2 ^ e + m - 1) (q * 2 ^ e + length L - 1) r (subproof C m L b @ rest) =
         cons_run C (q * 2 ^ (e - i)) (q * 2 ^ (e - i)) (mth C (take m L)) (mth C L) rest"
  using assms
proof (induction "length L" arbitrary: L m q e b rest rule: less_induct)
  case less
  have n: "2 \<le> length L" using less.prems by linarith
  obtain j where j: "split_point (length L) = 2 ^ j" "2 ^ j < length L" "length L \<le> 2 * 2 ^ j"
    using split_point_inv [OF n] by blast
  have "(2::nat) ^ j < 2 ^ e" using j less.prems by linarith
  then have je: "j < e" by simp
  define c where "c = q * 2 ^ (e - j)"
  have cX: "c * 2 ^ j = q * 2 ^ e" using je by (simp add: c_def mult.assoc flip: power_add)
  have ev: "even c" using je by (simp add: c_def)
  have cq: "c div 2 = q * 2 ^ (e - Suc j)"
    using je by (simp add: c_def Suc_diff_Suc [symmetric])
  have c0: "c = 0 \<longleftrightarrow> q = 0" by (simp add: c_def)
  have zdiv: "(q * 2 ^ e + length L - 1) div 2 ^ j = c + 1"
    unfolding cX [symmetric] by (rule div_pow_offset [OF j(2,3)])
  show ?case
  proof (cases "m \<le> 2 ^ j")
    case True
    have "cons_start C (c * 2 ^ j + m - 1) (q * 2 ^ e + length L - 1) r
        (subproof C m (take (2 ^ j) L) b @ mth C (drop (2 ^ j) L) # rest) =
      cons_run C c ((q * 2 ^ e + length L - 1) div 2 ^ j) (mth C (take m (take (2 ^ j) L)))
        (mth C (take (2 ^ j) L)) (mth C (drop (2 ^ j) L) # rest)"
      using less.prems True j zdiv ev c0 by (intro cons_start_full) (auto simp: min_absorb1)
    then show ?thesis using True n ev je
      by (intro exI [of _ "Suc j"])
         (simp add: subproof_left [OF less.prems(1,2) j(1)] j(1) mth_split cX zdiv [simplified]
           min_absorb1 cons_run_left flip: cq)
  next
    case False
    let ?R = "drop (2 ^ j) L" and ?l = "mth C (take (2 ^ j) L)"
    have "\<exists>i \<le> j. cons_start C ((c + 1) * 2 ^ j + (m - 2 ^ j) - 1) ((c + 1) * 2 ^ j + length ?R - 1) r
        (subproof C (m - 2 ^ j) ?R False @ ?l # rest) =
      cons_run C ((c + 1) * 2 ^ (j - i)) ((c + 1) * 2 ^ (j - i)) (mth C (take (m - 2 ^ j) ?R)) (mth C ?R) (?l # rest)"
      using less.prems False j by (intro less.hyps) auto
    then obtain i where eq: "cons_start C ((c + 1) * 2 ^ j + (m - 2 ^ j) - 1) ((c + 1) * 2 ^ j + length ?R - 1) r
        (subproof C (m - 2 ^ j) ?R False @ ?l # rest) =
      cons_run C ((c + 1) * 2 ^ (j - i)) ((c + 1) * 2 ^ (j - i)) (mth C (take (m - 2 ^ j) ?R)) (mth C ?R) (?l # rest)"
      by blast
    have "(c + 1) * 2 ^ j + (m - 2 ^ j) - 1 = q * 2 ^ e + m - 1"
      using False cX by (simp add: algebra_simps)
    moreover have "(c + 1) * 2 ^ j + length ?R - 1 = q * 2 ^ e + length L - 1"
      using j cX by (simp add: algebra_simps)
    moreover have old: "mth C (take m L) = node C ?l (mth C (take (m - 2 ^ j) ?R))"
      using False less.prems j by (intro mth_take_right) auto
    moreover have "cons_run C ((c + 1) * 2 ^ t) ((c + 1) * 2 ^ t) oh nh (s # p) =
        cons_run C (c div 2) (c div 2) (node C s oh) (node C s nh) p" for t oh nh s p
      using ev cons_run_pow [of "c + 1" C t oh nh s p] by simp
    ultimately have "cons_start C (q * 2 ^ e + m - 1) (q * 2 ^ e + length L - 1) r (subproof C m L b @ rest) =
        cons_run C (c div 2) (c div 2) (mth C (take m L)) (node C ?l (mth C ?R)) rest"
      using eq by (simp only: subproof_right [OF less.prems(1,2) j(1) False])
    then show ?thesis using n je
      by (intro exI [of _ "Suc j"]) (simp add: j(1) mth_split flip: cq)
  qed
qed

lemma cons_start_subproof:
  assumes "0 < m" "m < length L"
  shows "cons_start C (m - 1) (length L - 1) (mth C (take m L)) (subproof C m L True) =
    Some (mth C (take m L), mth C L, [])"
proof -
  have "length L \<le> 2 ^ length L" by (simp add: less_imp_le)
  from cons_start_any [OF assms this, of 0 True "mth C (take m L)" C "[]"]
  show ?thesis by (auto simp: cons_run_end)
qed

function cons_inputs :: "crypto \<Rightarrow> nat \<Rightarrow> nat \<Rightarrow> bytes \<Rightarrow> bytes list \<Rightarrow> bytes list" where
  "cons_inputs C n l nh p =
     (if odd n then
        (case p of [] \<Rightarrow> [] | s # p' \<Rightarrow> (0x01 # s @ nh) # cons_inputs C (n div 2) (l div 2) (node C s nh) p')
      else if n < l then
        (case p of [] \<Rightarrow> [] | s # p' \<Rightarrow> (0x01 # nh @ s) # cons_inputs C (n div 2) (l div 2) (node C nh s) p')
      else if 0 < n then cons_inputs C (n div 2) (l div 2) nh p
      else [])"
  by pat_completeness auto
termination
  by (relation "measure (\<lambda>(C, n, l, nh, p). n + l)") (auto elim!: oddE)

declare cons_inputs.simps [simp del]

lemma cons_run_unique:
  assumes "blake3_law C"
    and "cons_run C n l o1 w1 p1 = Some (x1, W, [])" "cons_run C n l o2 w2 p2 = Some (x2, W, [])"
    and "length w1 = 32" "length w2 = 32"
    and "\<forall>d \<in> set p1. length d = 32" "\<forall>d \<in> set p2. length d = 32" "n \<le> l"
  shows "w1 = w2 \<and> p1 = p2 \<or> collision C (cons_inputs C n l w1 p1) (cons_inputs C n l w2 p2)"
  using assms(2-)
proof (induction "n + l" arbitrary: n l o1 o2 w1 w2 p1 p2 rule: less_induct)
  case less
  note H32 = assms(1) [unfolded blake3_law_def, rule_format]
  show ?case
  proof (cases "odd n \<or> n < l")
    case True
    define nd where "nd = (\<lambda>s w. if odd n then node C s w else node C w s)"
    define od where "od = (\<lambda>s w. if odd n then node C s w else w)"
    define inp where "inp = (\<lambda>s w. if odd n then 0x01 # s @ w else (0x01::u8) # w @ s)"
    have nd: "nd s w = blake3 C (inp s w)" for s w by (simp add: nd_def inp_def node_def)
    have run: "cons_run C n l x w p = (case p of [] \<Rightarrow> None
        | s # p' \<Rightarrow> cons_run C (n div 2) (l div 2) (od s x) (nd s w) p')" for x w p
      using True by (cases "odd n") (auto simp: cons_run_odd cons_run_left nd_def od_def split: list.splits)
    have inputs: "cons_inputs C n l w (s # p) = inp s w # cons_inputs C (n div 2) (l div 2) (nd s w) p" for w s p
      using True by (subst cons_inputs.simps) (auto simp: nd_def inp_def)
    obtain a q1 where p1: "p1 = a # q1" using less.prems(1) run by (cases p1) auto
    obtain b q2 where p2: "p2 = b # q2" using less.prems(2) run by (cases p2) auto
    have "0 < n \<or> 0 < l" using True odd_pos by auto
    then have "nd a w1 = nd b w2 \<and> q1 = q2 \<or>
        collision C (cons_inputs C (n div 2) (l div 2) (nd a w1) q1) (cons_inputs C (n div 2) (l div 2) (nd b w2) q2)"
      using less.prems p1 p2 H32
      by (intro less.hyps) (auto simp: run nd div_le_mono)
    moreover have "inp a w1 = inp b w2 \<longleftrightarrow> a = b \<and> w1 = w2"
      using less.prems p1 p2 by (auto simp: inp_def)
    ultimately show ?thesis unfolding p1 p2 inputs by (auto simp: collision_def nd)
  next
    case False
    then have e: "even n" "n = l" using less.prems(7) by auto
    show ?thesis
    proof (cases "n = 0")
      case True
      then show ?thesis using less.prems e by (simp add: cons_run_end)
    next
      case F: False
      have "w1 = w2 \<and> p1 = p2 \<or>
          collision C (cons_inputs C (n div 2) (l div 2) w1 p1) (cons_inputs C (n div 2) (l div 2) w2 p2)"
        using less.prems e F by (intro less.hyps) (auto simp: cons_run_same)
      then show ?thesis using e F
        by (simp add: cons_inputs.simps [of C l l])
    qed
  qed
qed

section \<open>The log's proofs verify\<close>

definition wf_tree :: "merkle_tree \<Rightarrow> bool" where
  "wf_tree t \<longleftrightarrow> length (leaves t) < 2 ^ 64 \<and> (\<forall>l \<in> set (leaves t). length l = 32)"

text \<open>A run of \<open>append\<close>s; \<open>None\<close> if one of them is refused.\<close>

fun tree_appends :: "merkle_tree \<Rightarrow> content_id list \<Rightarrow> merkle_tree option" where
  "tree_appends t [] = Some t"
| "tree_appends t (h # hs) = (case tree_append t h of None \<Rightarrow> None | Some (_, t') \<Rightarrow> tree_appends t' hs)"

definition tree_proof :: "crypto \<Rightarrow> merkle_tree \<Rightarrow> u64 \<Rightarrow> inclusion_proof" where
  "tree_proof C t i =
     \<lparr>ip_tree_size = tree_size t, ip_leaf_index = i, ip_leaf_hash = as_content_id (leaves t ! unat i),
      ip_audit_path = map as_content_id (audit_path C (unat i) (leaves t))\<rparr>"

definition inclusion_inputs :: "crypto \<Rightarrow> inclusion_proof \<Rightarrow> bytes list" where
  "inclusion_inputs C p =
     fold_inputs C (unat (ip_leaf_index p)) (unat (ip_tree_size p) - 1) (cid_digest (ip_leaf_hash p))
       (map cid_digest (ip_audit_path p))"

definition consistency_inputs :: "crypto \<Rightarrow> nat \<Rightarrow> nat \<Rightarrow> bytes \<Rightarrow> bytes list \<Rightarrow> bytes list" where
  "consistency_inputs C m n old_root path =
     (let (i, l) = strip_ones (m - 1) (n - 1) in
      if i > 0 then (case path of [] \<Rightarrow> [] | h # p \<Rightarrow> cons_inputs C i l h p)
      else cons_inputs C i l old_root path)"

lemma cid_digest_as_content_id [simp]: "cid_digest (as_content_id d) = d"
  by (simp add: cid_digest_def as_content_id_def)

lemma as_content_id_inject [simp]: "as_content_id a = as_content_id b \<longleftrightarrow> a = b"
  by (simp add: as_content_id_def)

lemma unat_tree_size: "wf_tree t \<Longrightarrow> unat (tree_size t) = length (leaves t)"
  by (simp add: wf_tree_def tree_size_def unat_of_nat)

lemma tree_append_Some:
  "tree_append t h = Some (i, t') \<longleftrightarrow>
   (\<exists>d. digest32 h = Some d \<and> t' = t\<lparr>leaves := leaves t @ [d]\<rparr> \<and> i = tree_size t)"
  by (auto simp: tree_append_def tree_size_def Let_def split: Option.bind_splits)

lemma tree_appends_leaves:
  "tree_appends t hs = Some t' \<Longrightarrow>
   \<exists>ds. hs = map as_content_id ds \<and> (\<forall>d \<in> set ds. length d = 32) \<and> leaves t' = leaves t @ ds"
proof (induction hs arbitrary: t)
  case Nil
  then show ?case by simp
next
  case (Cons h hs)
  then obtain d where d: "digest32 h = Some d" and rest: "tree_appends (t\<lparr>leaves := leaves t @ [d]\<rparr>) hs = Some t'"
    by (auto simp: tree_append_Some split: option.splits)
  from Cons.IH [OF rest] obtain ds where "hs = map as_content_id ds" "\<forall>d \<in> set ds. length d = 32"
    "leaves t' = leaves t @ d # ds" by auto
  then show ?case using digest32_Some [OF d] by (intro exI [of _ "d # ds"]) auto
qed

lemma fold_inclusion_iff:
  "fold_inclusion C p (as_content_id R) \<longleftrightarrow>
    (\<exists>leaf ds. ip_leaf_hash p = as_content_id leaf \<and> length leaf = 32 \<and> length R = 32 \<and>
       unat (ip_leaf_index p) < unat (ip_tree_size p) \<and>
       ip_audit_path p = map as_content_id ds \<and> (\<forall>d \<in> set ds. length d = 32) \<and>
       fold_digests C (unat (ip_leaf_index p)) (unat (ip_tree_size p) - 1) leaf ds = Some (0, R))"
  (is "?f \<longleftrightarrow> ?g")
proof
  assume ?f
  then obtain leaf where leaf: "digest32 (ip_leaf_hash p) = Some leaf" "length R = 32"
    "\<not> ip_leaf_index p \<ge> ip_tree_size p"
    "fold_path C (unat (ip_leaf_index p)) (unat (ip_tree_size p) - 1) leaf (ip_audit_path p) = Some (0, R)"
    by (auto simp: fold_inclusion_def split: option.splits if_splits prod.splits)
  then show ?g using digest32_Some [OF leaf(1)] fold_path_Some_digests [OF leaf(4)]
    by (auto simp: word_le_nat_alt)
next
  assume ?g
  then show ?f
    by (auto simp: fold_inclusion_def fold_path_digests word_le_nat_alt)
qed

lemma tree_root_Some:
  "tree_root C t = Some root \<longleftrightarrow> leaves t \<noteq> [] \<and> root = as_content_id (mth C (leaves t))"
  by (auto simp: tree_root_def)

lemma tree_proof_verifies:
  assumes "blake3_law C" "wf_tree t" "unat i < length (leaves t)"
  shows "fold_inclusion C (tree_proof C t i) (as_content_id (mth C (leaves t)))"
  unfolding fold_inclusion_iff tree_proof_def
  using assms
  by (auto simp: unat_tree_size fold_digests_audit_path [simplified] wf_tree_def
      intro!: exI [of _ "audit_path C (unat i) (leaves t)"] mth_length
      dest: audit_path_length32 [rule_format])

text \<open>A sample log of three leaves.\<close>

definition demo_tree :: "nat \<Rightarrow> merkle_tree" where
  "demo_tree n = \<lparr>leaves = map (\<lambda>i. replicate 32 (of_nat i)) [1..<Suc n]\<rparr>"

lemma demo_tree_simps [simp]:
  "wf_tree (demo_tree 3)" "wf_tree (demo_tree 2)" "tree_size (demo_tree 3) = 3" "tree_size (demo_tree 2) = 2"
  "length (leaves (demo_tree 3)) = 3" "length (leaves (demo_tree 2)) = 2"
  by (simp_all add: demo_tree_def wf_tree_def tree_size_def)

lemma demo_root_simps [simp]:
  "tree_root C (demo_tree 3) = Some (as_content_id (mth C (leaves (demo_tree 3))))"
  "tree_root C (demo_tree 2) = Some (as_content_id (mth C (leaves (demo_tree 2))))"
  by (simp_all add: tree_root_def demo_tree_def)

text \<open>C33. An audit path issued by the log for any of its leaves verifies against the log's root.\<close>

theorem inclusion_path_verifies:
  assumes "blake3_law C" and "wf_tree t"
    and "inclusion_path C t i = Some path" and "tree_root C t = Some root"
  shows "verify_root C \<lparr>ip_tree_size = tree_size t, ip_leaf_index = i,
      ip_leaf_hash = as_content_id (leaves t ! unat i), ip_audit_path = path\<rparr> root = Inr ()"
  using tree_proof_verifies [OF assms(1,2), of i] assms(3,4)
  by (auto simp: verify_root_def tree_proof_def inclusion_path_def tree_root_Some split: if_splits)

theorem inclusion_path_verifies_witness:
  "verify_root toy_crypto \<lparr>ip_tree_size = tree_size (demo_tree 3), ip_leaf_index = 1,
      ip_leaf_hash = as_content_id (leaves (demo_tree 3) ! unat (1 :: u64)),
      ip_audit_path = map as_content_id (audit_path toy_crypto 1 (leaves (demo_tree 3)))\<rparr>
    (as_content_id (mth toy_crypto (leaves (demo_tree 3)))) = Inr ()"
  by (rule inclusion_path_verifies [OF toy_crypto_laws(1)]) (simp_all add: inclusion_path_def)

lemma inclusion_sound:
  assumes "blake3_law C" and "wf_tree t" and "tree_root C t = Some root"
    and "ip_tree_size p = tree_size t" and "verify_root C p root = Inr ()"
  shows "ip_leaf_hash p = as_content_id (leaves t ! unat (ip_leaf_index p)) \<or>
    collision C (inclusion_inputs C p) (inclusion_inputs C (tree_proof C t (ip_leaf_index p)))"
proof -
  let ?i = "unat (ip_leaf_index p)" and ?L = "leaves t"
  have root: "root = as_content_id (mth C ?L)" using assms(3) by (simp add: tree_root_Some)
  have "fold_inclusion C p (as_content_id (mth C ?L))"
    using assms(5) root by (simp add: verify_root_def split: if_splits)
  then obtain leaf ds where p: "ip_leaf_hash p = as_content_id leaf" "length leaf = 32"
    "?i < unat (ip_tree_size p)" "ip_audit_path p = map as_content_id ds" "\<forall>d \<in> set ds. length d = 32"
    "fold_digests C ?i (unat (ip_tree_size p) - 1) leaf ds = Some (0, mth C ?L)"
    unfolding fold_inclusion_iff by blast
  have i: "?i < length ?L" using p(3) assms(2,4) by (simp add: unat_tree_size)
  have "leaf = ?L ! ?i \<and> ds = audit_path C ?i ?L \<or>
      collision C (fold_inputs C ?i (length ?L - 1) leaf ds)
                  (fold_inputs C ?i (length ?L - 1) (?L ! ?i) (audit_path C ?i ?L))"
  proof (rule fold_digests_unique [OF assms(1)])
    show "fold_digests C ?i (length ?L - 1) leaf ds = Some (0, mth C ?L)"
      using p(6) assms(2,4) by (simp add: unat_tree_size)
    show "fold_digests C ?i (length ?L - 1) (?L ! ?i) (audit_path C ?i ?L) = Some (0, mth C ?L)"
      using i by (rule fold_digests_audit_path)
    show "\<forall>d \<in> set (audit_path C ?i ?L). length d = 32"
      using assms(1,2) by (intro audit_path_length32) (auto simp: wf_tree_def)
  qed (use p assms(2) i in \<open>auto simp: wf_tree_def\<close>)
  then show ?thesis using p(1,4) assms(2,4)
    by (auto simp: inclusion_inputs_def tree_proof_def unat_tree_size comp_def)
qed


text \<open>C3. Soundness of inclusion: if a proof for the tree's size verifies against the root of the
  tree, then it proves the leaf the tree really has at that index, or the hash inputs along the
  two paths contain an explicit BLAKE3 collision.\<close>

theorem inclusion_proof_sound:
  assumes "blake3_law C" and "wf_tree t" and "tree_root C t = Some root"
    and "ip_tree_size p = tree_size t" and "verify_root C p root = Inr ()"
  shows "ip_leaf_hash p = as_content_id (leaves t ! unat (ip_leaf_index p)) \<or>
    collision C (inclusion_inputs C p) (inclusion_inputs C (tree_proof C t (ip_leaf_index p)))"
  using assms by (rule inclusion_sound)

theorem inclusion_proof_sound_witness:
  "ip_leaf_hash (tree_proof toy_crypto (demo_tree 3) 2) = as_content_id (leaves (demo_tree 3) ! unat (2 :: u64)) \<or>
   collision toy_crypto (inclusion_inputs toy_crypto (tree_proof toy_crypto (demo_tree 3) 2))
     (inclusion_inputs toy_crypto (tree_proof toy_crypto (demo_tree 3) 2))"
  using inclusion_proof_sound [OF toy_crypto_laws(1), of "demo_tree 3" _ "tree_proof toy_crypto (demo_tree 3) 2"]
    tree_proof_verifies [OF toy_crypto_laws(1), of "demo_tree 3" 2]
  by (simp add: tree_proof_def verify_root_def)

lemma collect_digests_map:
  "\<forall>d \<in> set ds. length d = 32 \<Longrightarrow>
   collect_results (\<lambda>h. ok_or (digest32 h) e) (map as_content_id ds) = Inr ds"
  by (rule collect_results_map) auto

lemma collect_digests_Inr:
  assumes "collect_results (\<lambda>h. ok_or (digest32 h) e) hs = Inr ds"
  shows "hs = map as_content_id ds \<and> (\<forall>d \<in> set ds. length d = 32)"
proof
  show "hs = map as_content_id ds"
    using collect_results_inv [OF assms, of as_content_id] by (auto dest: digest32_Some)
  show "\<forall>d \<in> set ds. length d = 32"
    using collect_results_Inr_set [OF assms] by (auto dest: digest32_Some)
qed

lemma subproof_length32:
  assumes "blake3_law C" "\<forall>l \<in> set L. length l = 32" "0 < m" "m \<le> length L"
  shows "\<forall>d \<in> set (subproof C m L b). length d = 32"
  using assms
proof (induction "length L" arbitrary: L m b rule: less_induct)
  case less
  show ?case
  proof (cases "m = length L")
    case True
    then show ?thesis using less.prems by (subst subproof.simps) (auto intro: mth_length)
  next
    case False
    then have m: "m < length L" and n: "2 \<le> length L" using less.prems by auto
    let ?k = "split_point (length L)"
    note b = split_point_bounds [OF n]
    have sub: "\<forall>l \<in> set (take ?k L). length l = 32" "\<forall>l \<in> set (drop ?k L). length l = 32"
      using less.prems by (auto dest: in_set_takeD in_set_dropD)
    have mth: "length (mth C (take ?k L)) = 32" "length (mth C (drop ?k L)) = 32"
      using less.prems sub b n by (auto intro!: mth_length)
    show ?thesis
    proof (cases "m \<le> ?k")
      case True
      have "\<forall>d \<in> set (subproof C m (take ?k L) b). length d = 32"
        using b less.prems sub True by (intro less.hyps) auto
      then show ?thesis using mth subproof_left [OF less.prems(3) m refl True, of C b "[]"] by simp
    next
      case False
      have "\<forall>d \<in> set (subproof C (m - ?k) (drop ?k L) False). length d = 32"
        using b less.prems sub False by (intro less.hyps) auto
      then show ?thesis using mth subproof_right [OF less.prems(3) m refl False, of C b "[]"] by simp
    qed
  qed
qed

text \<open>C34. A consistency path issued by the log after any run of appends verifies between the old
  and the new signed tree head.\<close>

theorem consistency_path_verifies:
  assumes "blake3_law C" and "wf_tree t'" and "tree_appends t hs = Some t'"
    and "consistency_path C t' (tree_size t) = Some path"
    and "tree_root C t = Some root" and "tree_root C t' = Some root'"
    and "sth_tree_size old = tree_size t" and "sth_root_hash old = root"
    and "sth_tree_size new = tree_size t'" and "sth_root_hash new = root'"
  shows "verify_consistency C old new
      \<lparr>cp_first_size = tree_size t, cp_second_size = tree_size t', cp_proof_path = path\<rparr> = Inr ()"
proof -
  obtain ds where L': "leaves t' = leaves t @ ds" using tree_appends_leaves [OF assms(3)] by blast
  have nonempty: "leaves t \<noteq> []" using assms(5) by (simp add: tree_root_Some)
  have wft: "wf_tree t" using assms(2) L' by (auto simp: wf_tree_def)
  let ?L = "leaves t'" and ?m = "length (leaves t)"
  have m: "0 < ?m" "?m \<le> length ?L" "take ?m ?L = leaves t" using nonempty L' by auto
  have sz: "unat (tree_size t) = ?m" "unat (tree_size t') = length ?L"
    using wft assms(2) by (simp_all add: unat_tree_size)
  have le: "\<not> tree_size t' < tree_size t" "tree_size t \<noteq> 0"
    using sz m by (auto simp: word_less_nat_alt)
  have eq: "tree_size t = tree_size t' \<longleftrightarrow> ds = []"
    using sz L' by (auto simp: word_unat_eq_iff)
  have l32: "length (mth C (leaves t)) = 32" "length (mth C ?L) = 32"
    using assms(1,2) nonempty wft L' by (auto intro!: mth_length simp: wf_tree_def)
  have roots: "root = as_content_id (mth C (leaves t))" "root' = as_content_id (mth C ?L)"
    using assms(5,6) by (simp_all add: tree_root_Some)
  show ?thesis
  proof (cases "ds = []")
    case True
    then show ?thesis using assms(4,7-10) roots l32 L' le eq sz m
      by (auto simp: verify_consistency_def consistency_path_def Let_def)
  next
    case False
    then have lt: "?m < length ?L" using L' by simp
    have path: "path = map as_content_id (subproof C ?m ?L True)"
      using assms(4) sz lt m by (simp add: consistency_path_def split: if_splits)
    have "\<forall>d \<in> set (subproof C ?m ?L True). length d = 32"
      using assms(1,2) m by (intro subproof_length32) (auto simp: wf_tree_def)
    moreover have "cons_fold C ?m (length ?L) (mth C (leaves t)) (mth C ?L) (subproof C ?m ?L True)"
      using cons_start_subproof [OF m(1) lt, of C] m(3) by (simp add: cons_fold_start)
    ultimately show ?thesis using assms(7-10) roots l32 le eq sz False
      by (simp add: verify_consistency_def Let_def path collect_digests_map)
  qed
qed

theorem consistency_path_verifies_witness:
  "verify_consistency toy_crypto
     \<lparr>sth_suite = Classical, sth_log_id = [], sth_tree_size = 2, sth_timestamp = 5,
      sth_root_hash = as_content_id (mth toy_crypto (leaves (demo_tree 2))), sth_sig = []\<rparr>
     \<lparr>sth_suite = Classical, sth_log_id = [], sth_tree_size = 3, sth_timestamp = 6,
      sth_root_hash = as_content_id (mth toy_crypto (leaves (demo_tree 3))), sth_sig = []\<rparr>
     \<lparr>cp_first_size = tree_size (demo_tree 2), cp_second_size = tree_size (demo_tree 3),
      cp_proof_path = map as_content_id (subproof toy_crypto 2 (leaves (demo_tree 3)) True)\<rparr> = Inr ()"
proof (rule consistency_path_verifies [OF toy_crypto_laws(1)])
  show "tree_appends (demo_tree 2) [as_content_id (replicate 32 3)] = Some (demo_tree 3)"
    by (simp add: tree_append_def digest32_as_content_id demo_tree_def upt_rec)
qed (simp_all add: consistency_path_def)

lemma strip_ones_le: "i \<le> l \<Longrightarrow> strip_ones i l = (n, k) \<Longrightarrow> n \<le> k"
proof (induction i l rule: strip_ones.induct)
  case (1 i l)
  then show ?case by (cases "odd i") (auto simp: strip_ones.simps [of i] div_le_mono)
qed

lemma cons_start_unique:
  assumes "blake3_law C" "m \<le> l"
    and "cons_start C (m - 1) (l - 1) r1 p1 = Some (r1, W, [])" "length r1 = 32" "\<forall>d \<in> set p1. length d = 32"
    and "cons_start C (m - 1) (l - 1) r2 p2 = Some (r2, W, [])" "length r2 = 32" "\<forall>d \<in> set p2. length d = 32"
  shows "r1 = r2 \<or> collision C (consistency_inputs C m l r1 p1) (consistency_inputs C m l r2 p2)"
proof -
  obtain n k where nk: "strip_ones (m - 1) (l - 1) = (n, k)" by fastforce
  have "n \<le> k" using assms(2) by (intro strip_ones_le [OF _ nk]) simp
  show ?thesis
  proof (cases "n > 0")
    case True
    then obtain h1 q1 h2 q2 where p: "p1 = h1 # q1" "p2 = h2 # q2"
      using assms(3,6) nk by (auto simp: cons_start_def split: list.splits)
    have r: "cons_run C n k h1 h1 q1 = Some (r1, W, [])" "cons_run C n k h2 h2 q2 = Some (r2, W, [])"
      using assms(3,6) nk True p by (auto simp: cons_start_def)
    have "h1 = h2 \<and> q1 = q2 \<or> collision C (cons_inputs C n k h1 q1) (cons_inputs C n k h2 q2)"
      using assms p \<open>n \<le> k\<close> by (intro cons_run_unique [OF assms(1) r]) auto
    then show ?thesis using r nk True p by (auto simp: consistency_inputs_def)
  next
    case False
    have r: "cons_run C n k r1 r1 p1 = Some (r1, W, [])" "cons_run C n k r2 r2 p2 = Some (r2, W, [])"
      using assms(3,6) nk False by (auto simp: cons_start_def)
    have "r1 = r2 \<and> p1 = p2 \<or> collision C (cons_inputs C n k r1 p1) (cons_inputs C n k r2 p2)"
      using assms \<open>n \<le> k\<close> by (intro cons_run_unique [OF assms(1) r]) auto
    then show ?thesis using nk False by (auto simp: consistency_inputs_def)
  qed
qed

lemma verify_consistency_InrE:
  assumes "verify_consistency C old new p = Inr ()" and "sth_tree_size old \<noteq> 0"
  obtains r R ds where "sth_root_hash old = as_content_id r" "length r = 32"
    "sth_root_hash new = as_content_id R" "sth_tree_size old \<le> sth_tree_size new"
    "sth_tree_size old = sth_tree_size new \<longrightarrow> r = R"
    "cp_proof_path p = map as_content_id ds" "\<forall>d \<in> set ds. length d = 32"
    "sth_tree_size old \<noteq> sth_tree_size new \<longrightarrow>
       cons_start C (unat (sth_tree_size old) - 1) (unat (sth_tree_size new) - 1) r ds = Some (r, R, [])"
proof -
  from assms obtain r R where r: "digest32 (sth_root_hash old) = Some r" "digest32 (sth_root_hash new) = Some R"
    "sth_tree_size old \<le> sth_tree_size new"
    by (auto simp: verify_consistency_def Let_def split: if_splits)
  show thesis
  proof (cases "sth_tree_size old = sth_tree_size new")
    case True
    then show thesis using assms r digest32_Some [OF r(1)] digest32_Some [OF r(2)]
      by (intro that [of r R "[]"]) (auto simp: verify_consistency_def Let_def split: if_splits)
  next
    case False
    then obtain ds where ds: "collect_results (\<lambda>h. ok_or (digest32 h) NotConsistent) (cp_proof_path p) = Inr ds"
      "cons_fold C (unat (sth_tree_size old)) (unat (sth_tree_size new)) r R ds"
      using assms r by (auto simp: verify_consistency_def Let_def split: if_splits)
    then show thesis using False r digest32_Some [OF r(1)] digest32_Some [OF r(2)] collect_digests_Inr [OF ds(1)]
      by (intro that [of r R ds]) (auto simp: cons_fold_start)
  qed
qed

text \<open>C4. Soundness of consistency (append-only): if a proof from a non-empty old head to the head
  of a tree verifies, then the old root is the root over the tree's first \<open>m\<close> leaves, or the hash
  inputs of the two folds contain an explicit BLAKE3 collision.\<close>

theorem consistency_proof_sound:
  assumes "blake3_law C" and "wf_tree t"
    and "sth_tree_size new = tree_size t" and "tree_root C t = Some (sth_root_hash new)"
    and "verify_consistency C old new p = Inr ()" and "sth_tree_size old \<noteq> 0"
    and "m = unat (sth_tree_size old)"
  shows "sth_root_hash old = as_content_id (mth C (take m (leaves t))) \<or>
    collision C (consistency_inputs C m (length (leaves t)) (cid_digest (sth_root_hash old))
                   (map cid_digest (cp_proof_path p)))
                (consistency_inputs C m (length (leaves t)) (mth C (take m (leaves t)))
                   (subproof C m (leaves t) True))"
proof -
  let ?L = "leaves t"
  obtain r R ds where v: "sth_root_hash old = as_content_id r" "length r = 32"
    "sth_root_hash new = as_content_id R" "sth_tree_size old \<le> sth_tree_size new"
    "sth_tree_size old = sth_tree_size new \<longrightarrow> r = R"
    "cp_proof_path p = map as_content_id ds" "\<forall>d \<in> set ds. length d = 32"
    "sth_tree_size old \<noteq> sth_tree_size new \<longrightarrow>
       cons_start C (unat (sth_tree_size old) - 1) (unat (sth_tree_size new) - 1) r ds = Some (r, R, [])"
    using verify_consistency_InrE [OF assms(5,6)] by blast
  have R: "R = mth C ?L" using assms(4) v(3) by (simp add: tree_root_Some)
  have sz: "unat (sth_tree_size new) = length ?L" using assms(2,3) by (simp add: unat_tree_size)
  have m: "0 < m" "m \<le> length ?L" using assms(6) v(4) sz by (auto simp: assms(7) word_le_nat_alt word_unat_eq_iff)
  show ?thesis
  proof (cases "m = length ?L")
    case True
    then have "sth_tree_size old = sth_tree_size new" using sz by (simp add: assms(7) word_unat_eq_iff)
    then show ?thesis using v R True by simp
  next
    case False
    then have lt: "m < length ?L" using m by simp
    then have "sth_tree_size old \<noteq> sth_tree_size new" using sz by (auto simp: assms(7))
    then have "cons_start C (m - 1) (length ?L - 1) r ds = Some (r, mth C ?L, [])"
      using v(8) R sz by (simp add: assms(7))
    moreover have "length (mth C (take m ?L)) = 32"
      using assms(1,2) m by (intro mth_length) (auto simp: wf_tree_def dest: in_set_takeD)
    moreover have "\<forall>d \<in> set (subproof C m ?L True). length d = 32"
      using assms(1,2) m by (intro subproof_length32) (auto simp: wf_tree_def)
    ultimately have "r = mth C (take m ?L) \<or> collision C (consistency_inputs C m (length ?L) r ds)
        (consistency_inputs C m (length ?L) (mth C (take m ?L)) (subproof C m ?L True))"
      using v(2,7) m cons_start_subproof [OF m(1) lt] by (intro cons_start_unique [OF assms(1)]) auto
    then show ?thesis using v by (auto simp: comp_def)
  qed
qed

theorem consistency_proof_sound_witness:
  "as_content_id (replicate 32 1) = as_content_id (mth toy_crypto (take 1 (leaves (demo_tree 2)))) \<or>
   collision toy_crypto
     (consistency_inputs toy_crypto 1 (length (leaves (demo_tree 2))) (replicate 32 1) [replicate 32 2])
     (consistency_inputs toy_crypto 1 (length (leaves (demo_tree 2))) (mth toy_crypto (take 1 (leaves (demo_tree 2))))
        (subproof toy_crypto 1 (leaves (demo_tree 2)) True))"
proof -
  let ?old = "\<lparr>sth_suite = Classical, sth_log_id = [], sth_tree_size = 1, sth_timestamp = 5,
      sth_root_hash = as_content_id (replicate 32 1), sth_sig = []\<rparr>"
  let ?new = "\<lparr>sth_suite = Classical, sth_log_id = [], sth_tree_size = 2, sth_timestamp = 6,
      sth_root_hash = as_content_id (mth toy_crypto (leaves (demo_tree 2))), sth_sig = []\<rparr>"
  let ?p = "\<lparr>cp_first_size = 1, cp_second_size = 2, cp_proof_path = [as_content_id (replicate 32 2)]\<rparr>"
  have "split_point 2 = 1" using split_point_eq [of 0 2] by simp
  then have "mth toy_crypto (leaves (demo_tree 2)) = node toy_crypto (replicate 32 1) (replicate 32 2)"
    using mth_split [of "leaves (demo_tree 2)" toy_crypto] by (simp add: demo_tree_def upt_rec numeral_2_eq_2)
  moreover have "length (node toy_crypto (replicate 32 1) (replicate 32 2)) = 32"
    by (simp add: node_def toy_crypto_def)
  ultimately have "verify_consistency toy_crypto ?old ?new ?p = Inr ()"
    by (simp add: verify_consistency_def digest32_as_content_id cons_fold_def strip_ones.simps cons_loop.simps cons_tail.simps)
  from consistency_proof_sound [OF toy_crypto_laws(1) _ _ _ this _ refl, of "demo_tree 2"]
  show ?thesis by simp
qed

end
