(* ===== verification/Merkle_Tags.thy ===== *)
theory Merkle_Tags
  imports Merkle_Proofs
begin

text \<open>
  Merkle roots over tagged leaves and inner nodes, for any tagging: \<open>pub_mth\<close> is the tree fold of
  \<^verbatim>\<open>pubobj.rs\<close>, which takes the node function as an argument.  The locale \<open>tagging\<close> states what a
  tagging must satisfy (leaf and node preimages can be told apart and read back) and shows once that
  a root then determines the whole list under it, up to an explicit BLAKE3 collision.
\<close>

fun pub_mth :: "(bytes \<Rightarrow> bytes \<Rightarrow> bytes) \<Rightarrow> bytes list \<Rightarrow> bytes" where
  "pub_mth f ls =
     (case ls of
        [] \<Rightarrow> []
      | [l] \<Rightarrow> l
      | _ \<Rightarrow> let k = split_point (length ls) in f (pub_mth f (take k ls)) (pub_mth f (drop k ls)))"

declare pub_mth.simps [simp del]

lemma pub_mth_single [simp]: "pub_mth f [l] = l"
  by (simp add: pub_mth.simps)

lemma pub_mth_split:
  "2 \<le> length ls \<Longrightarrow> pub_mth f ls =
     f (pub_mth f (take (split_point (length ls)) ls)) (pub_mth f (drop (split_point (length ls)) ls))"
  by (subst pub_mth.simps) (auto simp: Let_def split: list.splits)

lemma pub_mth_node: "pub_mth (node C) ls = mth C ls"
proof (induction ls rule: length_induct)
  case (1 ls)
  show ?case
  proof (cases "2 \<le> length ls")
    case True
    then show ?thesis using 1 split_point_bounds [of "length ls"] by (simp add: pub_mth_split mth_split)
  next
    case False
    then consider "ls = []" | l where "ls = [l]" by (cases ls; cases "tl ls") auto
    then show ?thesis by cases (simp_all add: pub_mth.simps mth.simps)
  qed
qed

text \<open>The tree over \<open>hs\<close> with leaf preimages \<open>lp\<close> and node preimages \<open>np\<close>, and everything hashed in it.\<close>

definition tagged_root :: "crypto \<Rightarrow> (bytes \<Rightarrow> bytes) \<Rightarrow> (bytes \<Rightarrow> bytes \<Rightarrow> bytes) \<Rightarrow> bytes list \<Rightarrow> bytes" where
  "tagged_root C lp np hs = pub_mth (\<lambda>l r. blake3 C (np l r)) (map (\<lambda>h. blake3 C (lp h)) hs)"

function tree_inputs :: "crypto \<Rightarrow> (bytes \<Rightarrow> bytes) \<Rightarrow> (bytes \<Rightarrow> bytes \<Rightarrow> bytes) \<Rightarrow> bytes list \<Rightarrow> bytes list" where
  "tree_inputs C lp np hs =
     (if length hs \<le> 1 then map lp hs
      else let k = split_point (length hs) in
        np (tagged_root C lp np (take k hs)) (tagged_root C lp np (drop k hs))
        # tree_inputs C lp np (take k hs) @ tree_inputs C lp np (drop k hs))"
  by pat_completeness auto
termination
  by (relation "measure (\<lambda>(C, lp, np, hs). length hs)") (auto simp: split_point_bounds split_point_rest)

declare tree_inputs.simps [simp del]

lemma tagged_root_single [simp]: "tagged_root C lp np [h] = blake3 C (lp h)"
  by (simp add: tagged_root_def)

lemma tagged_root_split:
  assumes "2 \<le> length hs"
  shows "tagged_root C lp np hs = blake3 C (np (tagged_root C lp np (take (split_point (length hs)) hs))
    (tagged_root C lp np (drop (split_point (length hs)) hs)))"
  using pub_mth_split [of "map (\<lambda>h. blake3 C (lp h)) hs"] assms
  by (simp add: tagged_root_def take_map drop_map)

lemma tree_inputs_single [simp]: "tree_inputs C lp np [h] = [lp h]"
  by (simp add: tree_inputs.simps)

lemma tree_inputs_split:
  "2 \<le> length hs \<Longrightarrow> tree_inputs C lp np hs =
     np (tagged_root C lp np (take (split_point (length hs)) hs)) (tagged_root C lp np (drop (split_point (length hs)) hs))
     # tree_inputs C lp np (take (split_point (length hs)) hs) @ tree_inputs C lp np (drop (split_point (length hs)) hs)"
  by (subst tree_inputs.simps) (simp add: Let_def)

lemma split_parts:
  assumes "2 \<le> length hs"
  shows "take (split_point (length hs)) hs \<noteq> []" "drop (split_point (length hs)) hs \<noteq> []"
    "length (take (split_point (length hs)) hs) < length hs" "length (drop (split_point (length hs)) hs) < length hs"
  using split_point_bounds [OF assms] by auto

lemma tree_cases:
  assumes "hs \<noteq> []"
  obtains (leaf) h where "hs = [h]" | (inner) "2 \<le> length hs"
  using assms by (cases hs; cases "tl hs") auto

text \<open>A root is the hash of the first of its inputs.\<close>

lemma tagged_root_top:
  assumes "hs \<noteq> []"
  shows "tagged_root C lp np hs = blake3 C (hd (tree_inputs C lp np hs))" "tree_inputs C lp np hs \<noteq> []"
  using assms by (cases rule: tree_cases; simp add: tagged_root_split tree_inputs_split)+

lemma tagged_root_length: "blake3_law C \<Longrightarrow> hs \<noteq> [] \<Longrightarrow> length (tagged_root C lp np hs) = 32"
  by (simp add: tagged_root_top(1) blake3_law_def)

lemma collision_mono:
  "collision C a b \<Longrightarrow> set a \<subseteq> set a' \<Longrightarrow> set b \<subseteq> set b' \<Longrightarrow> collision C a' b'"
  by (auto simp: collision_def)

lemma collision_Cons [simp]:
  "x \<noteq> y \<Longrightarrow> blake3 C x = blake3 C y \<Longrightarrow> collision C (x # a) (y # b)"
  by (auto simp: collision_def)

locale tagging =
  fixes lp :: "bytes \<Rightarrow> bytes" and np :: "bytes \<Rightarrow> bytes \<Rightarrow> bytes"
  assumes leaf_inject: "lp h = lp h' \<Longrightarrow> h = h'"
    and node_inject: "np l r = np l' r' \<Longrightarrow> length l = length l' \<Longrightarrow> l = l' \<and> r = r'"
    and leaf_not_node: "lp h \<noteq> np l r"
begin

lemma root_binds:
  assumes law: "blake3_law C"
  shows "hs \<noteq> [] \<Longrightarrow> hs' \<noteq> [] \<Longrightarrow> tagged_root C lp np hs = tagged_root C lp np hs' \<Longrightarrow>
    hs = hs' \<or> collision C (tree_inputs C lp np hs) (tree_inputs C lp np hs')"
proof (induction hs arbitrary: hs' rule: length_induct)
  case (1 hs)
  let ?k = "split_point (length hs)" and ?k' = "split_point (length hs')"
  let ?R = "tagged_root C lp np" and ?I = "tree_inputs C lp np"
  from \<open>hs \<noteq> []\<close> show ?case
  proof (cases rule: tree_cases)
    case (leaf h)
    from \<open>hs' \<noteq> []\<close> show ?thesis
    proof (cases rule: tree_cases)
      case (leaf h')
      show ?thesis using 1(4) leaf_inject [of h h'] \<open>hs = [h]\<close> leaf by (cases "h = h'") (auto simp: collision_def)
    next
      case inner
      then show ?thesis using 1(4) leaf leaf_not_node by (simp add: tagged_root_split tree_inputs_split)
    qed
  next
    case inner
    note parts = split_parts [OF inner]
    from \<open>hs' \<noteq> []\<close> show ?thesis
    proof (cases rule: tree_cases)
      case (leaf h')
      have "np l r \<noteq> lp h'" for l r using leaf_not_node [of h' l r] by (rule not_sym)
      then show ?thesis using 1(4) leaf inner by (simp add: tagged_root_split tree_inputs_split)
    next
      case inner': inner
      note parts' = split_parts [OF inner']
      show ?thesis
      proof (cases "np (?R (take ?k hs)) (?R (drop ?k hs)) = np (?R (take ?k' hs')) (?R (drop ?k' hs'))")
        case True
        then have eq: "?R (take ?k hs) = ?R (take ?k' hs')" "?R (drop ?k hs) = ?R (drop ?k' hs')"
          using node_inject [OF True] tagged_root_length [OF law] parts(1) parts'(1) by auto
        have IH: "take ?k hs = take ?k' hs' \<or> collision C (?I (take ?k hs)) (?I (take ?k' hs'))"
          "drop ?k hs = drop ?k' hs' \<or> collision C (?I (drop ?k hs)) (?I (drop ?k' hs'))"
          using 1(1) parts parts' eq by blast+
        have "collision C (?I hs) (?I hs')" if "collision C (?I (take ?k hs)) (?I (take ?k' hs'))
            \<or> collision C (?I (drop ?k hs)) (?I (drop ?k' hs'))"
          using that inner inner' by (auto simp: tree_inputs_split elim!: collision_mono)
        then show ?thesis using IH append_take_drop_id [of ?k hs] append_take_drop_id [of ?k' hs'] by metis
      next
        case False
        then show ?thesis using 1(4) inner inner' by (simp add: tagged_root_split tree_inputs_split)
      qed
    qed
  qed
qed

end

text \<open>Two taggings whose preimages never agree cannot share a root without a collision.\<close>

lemma roots_apart:
  assumes "hs \<noteq> []" "hs' \<noteq> []" "tagged_root C lp np hs = tagged_root C lp' np' hs'"
    and "\<And>h h' l r l' r'. lp h \<noteq> lp' h' \<and> lp h \<noteq> np' l' r' \<and> np l r \<noteq> lp' h' \<and> np l r \<noteq> np' l' r'"
  shows "collision C (tree_inputs C lp np hs) (tree_inputs C lp' np' hs')"
  using assms(1)
proof (cases rule: tree_cases)
  case (leaf h)
  from assms(2) show ?thesis
    using assms(3,4) leaf by (cases rule: tree_cases) (simp_all add: tagged_root_split tree_inputs_split)
next
  case inner
  from assms(2) show ?thesis
    using assms(3,4) inner by (cases rule: tree_cases) (simp_all add: tagged_root_split tree_inputs_split)
qed

end
