(* ===== verification/Mote_Files.thy ===== *)
theory Mote_Files
  imports Suite_Id Merkle
begin

text \<open>
  The file part of \<open>kotva-core/src/mote.rs\<close>: error codes, delivery tiers, the durability contract,
  attachments, manifests and the inbound spool. Sizes are 64-bit words; the spool's checked addition
  is written out.
\<close>

section \<open>Errors\<close>

datatype mote_error =
    UnknownVersion u8 | MUnsupportedSuite u8 | BadContentAddress | NotForUs | MissingSenderKey
  | MBadSignature | EnvelopeContextMismatch | VouchSubjectMismatch | DecryptFailed | SealFailed | BadKey
  | FileManifestInvalid | FileRetentionExpired | FileUnavailable | SpoolOverflow | SizeTierViolation
  | MBadEncoding cbor_error

definition mote_error_code :: "mote_error \<Rightarrow> u16 option" where
  "mote_error_code e =
     (case e of
        EnvelopeContextMismatch \<Rightarrow> Some 0x0211
      | VouchSubjectMismatch \<Rightarrow> Some 0x0126
      | FileUnavailable \<Rightarrow> Some 0x0809
      | FileManifestInvalid \<Rightarrow> Some 0x080A
      | FileRetentionExpired \<Rightarrow> Some 0x080B
      | SpoolOverflow \<Rightarrow> Some 0x080C
      | SizeTierViolation \<Rightarrow> Some 0x080A
      | _ \<Rightarrow> None)"

section \<open>Tiers\<close>

datatype tier = Private | Fast

definition privacy_rank :: "tier \<Rightarrow> u8" where
  "privacy_rank t = (case t of Private \<Rightarrow> 1 | Fast \<Rightarrow> 0)"

datatype tier_enforcement_error = DowngradeRefused

definition tier_enforcement_error_code :: "tier_enforcement_error \<Rightarrow> u16" where
  "tier_enforcement_error_code e = (case e of DowngradeRefused \<Rightarrow> 0x0310)"

definition tier_enforce :: "tier \<Rightarrow> tier \<Rightarrow> tier_enforcement_error + tier" where
  "tier_enforce required offered =
     (if privacy_rank offered < privacy_rank required then Inl DowngradeRefused else Inr offered)"

datatype file_tier = FileInline | FileNormal | FileLarge

definition file_tier_of :: "u64 \<Rightarrow> file_tier" where
  "file_tier_of sz =
     (if sz \<le> 64 * 1024 then FileInline else if sz \<le> 4 * 1024 * 1024 then FileNormal else FileLarge)"

definition INLINE_TIER_MAX :: u64 where
  "INLINE_TIER_MAX = 64 * 1024"

definition ATTACHED_TIER_MAX :: u64 where
  "ATTACHED_TIER_MAX = 25 * 1024 * 1024"

datatype delivery_tier = Inline | Attached | Referenced

definition classify :: "u64 \<Rightarrow> delivery_tier" where
  "classify sz =
     (if sz \<le> INLINE_TIER_MAX then Inline else if sz \<le> ATTACHED_TIER_MAX then Attached else Referenced)"

section \<open>Durability\<close>

datatype durability_class = OriginHold | RecipientPinned | ClusterReplicated | Pinned | UnknownClass u8

definition dcl_from_u8 :: "u8 \<Rightarrow> durability_class" where
  "dcl_from_u8 b =
     (if b = 0 then OriginHold else if b = 1 then RecipientPinned else if b = 2 then ClusterReplicated
      else if b = 3 then Pinned else UnknownClass b)"

definition dcl_as_u8 :: "durability_class \<Rightarrow> u8" where
  "dcl_as_u8 c =
     (case c of OriginHold \<Rightarrow> 0 | RecipientPinned \<Rightarrow> 1 | ClusterReplicated \<Rightarrow> 2 | Pinned \<Rightarrow> 3 | UnknownClass b \<Rightarrow> b)"

record durability =
  dur_class :: durability_class
  dur_retention :: "u64 option"
  dur_replicas :: "u32 option"
  dur_holder_hint :: "string option"

definition origin_hold :: durability where
  "origin_hold = \<lparr>dur_class = OriginHold, dur_retention = None, dur_replicas = None, dur_holder_hint = None\<rparr>"

definition recipient_pinned :: durability where
  "recipient_pinned =
     \<lparr>dur_class = RecipientPinned, dur_retention = None, dur_replicas = None, dur_holder_hint = None\<rparr>"

definition cluster_replicated :: "u32 \<Rightarrow> durability" where
  "cluster_replicated n =
     \<lparr>dur_class = ClusterReplicated, dur_retention = None, dur_replicas = Some n, dur_holder_hint = None\<rparr>"

definition dur_pinned :: "u64 \<Rightarrow> durability" where
  "dur_pinned retention =
     \<lparr>dur_class = Pinned, dur_retention = Some retention, dur_replicas = None, dur_holder_hint = None\<rparr>"

definition dur_to_cv :: "durability \<Rightarrow> cv" where
  "dur_to_cv x =
     Map ([(1, U64 (ucast (dcl_as_u8 (dur_class x))))]
          @ (case dur_retention x of None \<Rightarrow> [] | Some r \<Rightarrow> [(2, U64 r)])
          @ (case dur_replicas x of None \<Rightarrow> [] | Some n \<Rightarrow> [(3, U64 (ucast n))])
          @ (case dur_holder_hint x of None \<Rightarrow> [] | Some h \<Rightarrow> [(4, Text h)]))"

definition dur_det_cbor :: "durability \<Rightarrow> bytes" where
  "dur_det_cbor x = encode (dur_to_cv x)"

definition class_from_cv :: "cv \<Rightarrow> cbor_error + durability_class" where
  "class_from_cv c = and_then (as_u8 c) (\<lambda>b. Inr (dcl_from_u8 b))"

definition dur_from_cv :: "cv \<Rightarrow> cbor_error + durability" where
  "dur_from_cv = read_fields (
     req_as class_from_cv 1 (\<lambda>cls.
     opt_as as_u64 2 (\<lambda>retention.
     opt_as as_u32 3 (\<lambda>replicas.
     opt_as as_text 4 (\<lambda>hint.
       finish \<lparr>dur_class = cls, dur_retention = retention, dur_replicas = replicas, dur_holder_hint = hint\<rparr>)))))"

definition dur_from_det_cbor :: "bytes \<Rightarrow> cbor_error + durability" where
  "dur_from_det_cbor = from_bytes dur_from_cv"

definition dur_validate :: "durability \<Rightarrow> mote_error + unit" where
  "dur_validate x =
     (case dur_class x of
        UnknownClass _ \<Rightarrow> Inl FileManifestInvalid
      | ClusterReplicated \<Rightarrow>
          (case dur_replicas x of
             Some n \<Rightarrow> if n \<ge> 1 then Inr () else Inl FileManifestInvalid
           | None \<Rightarrow> Inl FileManifestInvalid)
      | Pinned \<Rightarrow> (case dur_retention x of Some _ \<Rightarrow> Inr () | None \<Rightarrow> Inl FileManifestInvalid)
      | OriginHold \<Rightarrow> Inr ()
      | RecipientPinned \<Rightarrow> Inr ())"

definition check_retention :: "u64 \<Rightarrow> durability \<Rightarrow> mote_error + unit" where
  "check_retention now x =
     (case (dur_class x, dur_retention x) of
        (Pinned, Some term) \<Rightarrow> if now \<ge> term then Inl FileRetentionExpired else Inr ()
      | _ \<Rightarrow> Inr ())"

definition check_file_available :: "bool \<Rightarrow> mote_error + unit" where
  "check_file_available reachable = (if reachable then Inr () else Inl FileUnavailable)"

definition chunk_content_id :: "crypto \<Rightarrow> bytes \<Rightarrow> content_id" where
  "chunk_content_id C chunk = content_id_of C chunk"

section \<open>Manifest references and attachments\<close>

record manifest_ref =
  mref_id :: content_id
  mref_size :: u64
  mref_chunks :: u32
  mref_durability :: "durability option"

definition mref_to_cv :: "manifest_ref \<Rightarrow> cv" where
  "mref_to_cv r =
     Map ([(1, hash_cv (mref_id r)), (2, U64 (mref_size r)), (3, U64 (ucast (mref_chunks r)))]
          @ (case mref_durability r of None \<Rightarrow> [] | Some x \<Rightarrow> [(4, dur_to_cv x)]))"

definition mref_from_cv :: "cv \<Rightarrow> cbor_error + manifest_ref" where
  "mref_from_cv = read_fields (
     req_as as_hash 1 (\<lambda>i.
     req_as as_u64 2 (\<lambda>sz.
     req_as as_u32 3 (\<lambda>chunks.
     opt_as dur_from_cv 4 (\<lambda>dur.
       finish \<lparr>mref_id = i, mref_size = sz, mref_chunks = chunks, mref_durability = dur\<rparr>)))))"

definition validate_durability :: "manifest_ref \<Rightarrow> mote_error + unit" where
  "validate_durability r =
     (case (mref_durability r, classify (mref_size r)) of
        (None, Referenced) \<Rightarrow> Inl FileManifestInvalid
      | (Some x, _) \<Rightarrow> dur_validate x
      | (None, _) \<Rightarrow> Inr ())"

record attachment =
  att_name :: string
  att_mime :: string
  att_size :: u64
  att_inline :: "bytes option"
  att_manifest :: "manifest_ref option"
  att_key :: bytes

definition att_to_cv :: "attachment \<Rightarrow> cv" where
  "att_to_cv a =
     Map ([(1, Text (att_name a)), (2, Text (att_mime a)), (3, U64 (att_size a))]
          @ (case att_inline a of None \<Rightarrow> [] | Some i \<Rightarrow> [(4, Bytes i)])
          @ (case att_manifest a of None \<Rightarrow> [] | Some r \<Rightarrow> [(5, mref_to_cv r)])
          @ [(6, Bytes (att_key a))])"

definition att_from_cv :: "cv \<Rightarrow> cbor_error + attachment" where
  "att_from_cv = read_fields (
     req_as as_text 1 (\<lambda>name.
     req_as as_text 2 (\<lambda>mime.
     req_as as_u64 3 (\<lambda>sz.
     opt_as as_bytes 4 (\<lambda>inl.
     opt_as mref_from_cv 5 (\<lambda>manifest.
     req_as as_bytes 6 (\<lambda>key.
       finish \<lparr>att_name = name, att_mime = mime, att_size = sz, att_inline = inl, att_manifest = manifest,
         att_key = key\<rparr>)))))))"

text \<open>\<open>bytes.len() as u64 != self.size\<close>: lengths are below \<open>2^64\<close>.\<close>

definition check_delivery_tier :: "attachment \<Rightarrow> mote_error + unit" where
  "check_delivery_tier a =
     (let tr = classify (att_size a) in
      case (att_inline a, att_manifest a) of
        (Some b, None) \<Rightarrow>
          if tr \<noteq> Inline then Inl SizeTierViolation
          else if of_nat (length b) \<noteq> att_size a then Inl SizeTierViolation else Inr ()
      | (None, Some r) \<Rightarrow> if tr = Inline then Inl SizeTierViolation else validate_durability r
      | _ \<Rightarrow> Inl SizeTierViolation)"

section \<open>Manifests\<close>

record manifest =
  man_id :: content_id
  man_size :: u64
  man_chunk_sz :: u32
  man_chunks :: "content_id list"
  man_suite :: suite

definition man_to_cv :: "manifest \<Rightarrow> cv" where
  "man_to_cv m =
     Map [(1, hash_cv (man_id m)), (2, U64 (man_size m)), (3, U64 (ucast (man_chunk_sz m))),
          (4, Array (map hash_cv (man_chunks m))), (6, suite_cv (man_suite m))]"

definition man_det_cbor :: "manifest \<Rightarrow> bytes" where
  "man_det_cbor m = encode (man_to_cv m)"

text \<open>\<open>merkle_tree_head\<close> over the leaf digests; \<open>None\<close> is the panic on an empty list. \<open>mth\<close> is the same
  recursion, written for the transparency log.\<close>

definition merkle_tree_head :: "crypto \<Rightarrow> bytes list \<Rightarrow> bytes option" where
  "merkle_tree_head C ls = (if ls = [] then None else Some (mth C ls))"

definition chunk_leaf :: "crypto \<Rightarrow> content_id \<Rightarrow> bytes" where
  "chunk_leaf C c = blake3 C (0 # cid_bytes c)"

definition man_merkle_root :: "crypto \<Rightarrow> manifest \<Rightarrow> content_id option" where
  "man_merkle_root C m =
     map_option (\<lambda>root. ContentId (MH_BLAKE3_256 # root)) (merkle_tree_head C (map (chunk_leaf C) (man_chunks m)))"

definition man_from_cv :: "cv \<Rightarrow> cbor_error + manifest" where
  "man_from_cv = read_fields (\<lambda>f.
     if fields_has f 5 then Inl ManifestKeyPresent
     else
       (req_as as_hash 1 (\<lambda>i.
        req_as as_u64 2 (\<lambda>sz.
        req_as as_u32 3 (\<lambda>chunk_sz.
        req_as (as_list as_hash) 4 (\<lambda>chunks f.
          if chunks = [] then Inl ManifestEmptyChunks
          else
            (req_as suite_from_cv 6 (\<lambda>suite.
               finish \<lparr>man_id = i, man_size = sz, man_chunk_sz = chunk_sz, man_chunks = chunks,
                 man_suite = suite\<rparr>)) f))))) f)"

definition man_from_det_cbor :: "bytes \<Rightarrow> cbor_error + manifest" where
  "man_from_det_cbor = from_bytes man_from_cv"

section \<open>The inbound spool\<close>

record inbound_spool =
  sp_used :: u64
  sp_cap :: u64

definition spool_new :: "u64 \<Rightarrow> inbound_spool" where
  "spool_new cap = \<lparr>sp_used = 0, sp_cap = cap\<rparr>"

definition spool_remaining :: "inbound_spool \<Rightarrow> u64" where
  "spool_remaining s = (if sp_cap s \<ge> sp_used s then sp_cap s - sp_used s else 0)"

definition checked_add_u64 :: "u64 \<Rightarrow> u64 \<Rightarrow> u64 option" where
  "checked_add_u64 a b = (if unat a + unat b < 2 ^ 64 then Some (a + b) else None)"

definition spool_admit :: "u64 \<Rightarrow> u64 \<Rightarrow> u64 \<Rightarrow> mote_error + unit" where
  "spool_admit used incoming cap =
     (case checked_add_u64 used incoming of
        Some tot \<Rightarrow> if tot \<le> cap then Inr () else Inl SpoolOverflow
      | None \<Rightarrow> Inl SpoolOverflow)"

definition admit :: "u64 \<Rightarrow> inbound_spool \<Rightarrow> (mote_error + unit) \<times> inbound_spool" where
  "admit incoming s =
     (case checked_add_u64 (sp_used s) incoming of
        Some tot \<Rightarrow> if tot \<le> sp_cap s then (Inr (), s\<lparr>sp_used := tot\<rparr>) else (Inl SpoolOverflow, s)
      | None \<Rightarrow> (Inl SpoolOverflow, s))"

section \<open>Codec laws\<close>

lemma dcl_u8 [simp]: "dcl_as_u8 (dcl_from_u8 b) = b"
  by (auto simp: dcl_from_u8_def dcl_as_u8_def)

lemma dcl_from_as_u8: "dcl_from_u8 (dcl_as_u8 c) = c \<longleftrightarrow> (case c of UnknownClass b \<Rightarrow> b \<notin> {0, 1, 2, 3} | _ \<Rightarrow> True)"
  by (auto simp: dcl_from_u8_def dcl_as_u8_def split: durability_class.split)

definition wf_dur :: "durability \<Rightarrow> bool" where
  "wf_dur x \<longleftrightarrow> pred_option rust_string (dur_holder_hint x) \<and> dcl_from_u8 (dcl_as_u8 (dur_class x)) = dur_class x"

definition wf_mref :: "manifest_ref \<Rightarrow> bool" where
  "wf_mref r \<longleftrightarrow> length (cid_bytes (mref_id r)) < 2 ^ 64 \<and> pred_option wf_dur (mref_durability r)"

definition wf_att :: "attachment \<Rightarrow> bool" where
  "wf_att a \<longleftrightarrow> rust_string (att_name a) \<and> rust_string (att_mime a) \<and>
     pred_option (\<lambda>b. length b < 2 ^ 64) (att_inline a) \<and> pred_option wf_mref (att_manifest a) \<and>
     length (att_key a) < 2 ^ 64"

definition wf_man :: "manifest \<Rightarrow> bool" where
  "wf_man m \<longleftrightarrow> length (cid_bytes (man_id m)) < 2 ^ 64 \<and> man_chunks m \<noteq> [] \<and> length (man_chunks m) < 2 ^ 64 \<and>
     (\<forall>c \<in> set (man_chunks m). length (cid_bytes c) < 2 ^ 64)"

lemma class_from_cv_iff [simp]: "class_from_cv c = Inr x \<longleftrightarrow> (\<exists>b. c = U64 (ucast b) \<and> x = dcl_from_u8 b)"
  by (auto simp: class_from_cv_def)

lemma dur_codec:
  assumes "d < MAX_NESTING_DEPTH"
  shows "cv_object dur_to_cv dur_from_cv wf_dur d"
proof
  fix x
  assume x: "wf_dur x"
  then show "canon (dur_to_cv x)" "fits_depth d (dur_to_cv x)"
    using assms by (cases "dur_retention x"; cases "dur_replicas x"; cases "dur_holder_hint x";
        simp add: dur_to_cv_def wf_dur_def)+
  show "dur_from_cv (dur_to_cv x) = Inr x"
    using x by (cases "dur_retention x"; cases "dur_replicas x"; cases "dur_holder_hint x")
      (simp_all add: dur_from_cv_def dur_to_cv_def wf_dur_def class_from_cv_def wire_simps)
next
  fix c x
  assume v: "canon c" "fits_depth d c" "dur_from_cv c = Inr x"
  have "c = dur_to_cv x \<and> dcl_from_u8 (dcl_as_u8 (dur_class x)) = dur_class x"
    unfolding dur_to_cv_def
    by (rule read_fields_canonE [OF v(3) [unfolded dur_from_cv_def] v(1,2)],
        (auto elim!: req_as_okE opt_as_okE simp del: canon.simps)[1], auto split: option.splits)
  then show "wf_dur x \<and> dur_to_cv x = c"
    using v(1) by (cases "dur_holder_hint x") (auto simp: dur_to_cv_def wf_dur_def)
qed

interpretation dur: wire_object dur_to_cv dur_from_cv wf_dur
  by (simp add: wire_object_def dur_codec MAX_NESTING_DEPTH_def)

lemma mref_codec:
  assumes "Suc d < MAX_NESTING_DEPTH"
  shows "cv_object mref_to_cv mref_from_cv wf_mref d"
proof -
  have dur: "cv_object dur_to_cv dur_from_cv wf_dur (Suc d)" using assms by (rule dur_codec)
  note w = cv_object.axioms(1) [OF dur]
  show ?thesis
  proof
    fix x
    assume x: "wf_mref x"
    then show "canon (mref_to_cv x)" "fits_depth d (mref_to_cv x)"
      using assms cv_writer.canon_to_cv [OF w] cv_writer.fits_to_cv [OF w]
      by (cases "mref_durability x"; simp add: mref_to_cv_def wf_mref_def)+
    show "mref_from_cv (mref_to_cv x) = Inr x"
      using x cv_writer.from_to_cv [OF w] by (cases "mref_durability x")
        (simp_all add: mref_from_cv_def mref_to_cv_def wf_mref_def wire_simps)
  next
    fix c x
    assume v: "canon c" "fits_depth d c" "mref_from_cv c = Inr x"
    have "c = mref_to_cv x \<and> pred_option wf_dur (mref_durability x)"
      unfolding mref_to_cv_def
      by (rule read_fields_canonE [OF v(3) [unfolded mref_from_cv_def] v(1,2)],
          (auto elim!: req_as_okE opt_as_okE dest!: cv_object.to_from_cv [OF dur, rotated 2] simp del: canon.simps)[1],
          auto split: option.splits)
    then show "wf_mref x \<and> mref_to_cv x = c"
      using v(1) by (cases "mref_durability x") (auto simp: mref_to_cv_def wf_mref_def)
  qed
qed

lemma att_codec:
  assumes "Suc (Suc d) < MAX_NESTING_DEPTH"
  shows "cv_object att_to_cv att_from_cv wf_att d"
proof -
  have mref: "cv_object mref_to_cv mref_from_cv wf_mref (Suc d)" using assms by (rule mref_codec)
  note w = cv_object.axioms(1) [OF mref]
  show ?thesis
  proof
    fix x
    assume x: "wf_att x"
    then show "canon (att_to_cv x)" "fits_depth d (att_to_cv x)"
      using assms cv_writer.canon_to_cv [OF w] cv_writer.fits_to_cv [OF w]
      by (cases "att_inline x"; cases "att_manifest x"; simp add: att_to_cv_def wf_att_def)+
    show "att_from_cv (att_to_cv x) = Inr x"
      using x cv_writer.from_to_cv [OF w] by (cases "att_inline x"; cases "att_manifest x")
        (simp_all add: att_from_cv_def att_to_cv_def wf_att_def wire_simps)
  next
    fix c x
    assume v: "canon c" "fits_depth d c" "att_from_cv c = Inr x"
    have "c = att_to_cv x \<and> pred_option wf_mref (att_manifest x)"
      unfolding att_to_cv_def
      by (rule read_fields_canonE [OF v(3) [unfolded att_from_cv_def] v(1,2)],
          (auto elim!: req_as_okE opt_as_okE dest!: cv_object.to_from_cv [OF mref, rotated 2] simp del: canon.simps)[1],
          auto split: option.splits)
    then show "wf_att x \<and> att_to_cv x = c"
      using v(1) by (cases "att_inline x"; cases "att_manifest x") (auto simp: att_to_cv_def wf_att_def)
  qed
qed

lemma as_list_hash_iff [simp]: "as_list as_hash c = Inr hs \<longleftrightarrow> c = Array (map hash_cv hs)"
  by (rule as_list_iff) simp

lemma as_list_hash [wire_simps]: "as_list as_hash (Array (map hash_cv hs)) = Inr hs"
  by simp

lemma man_from_to:
  assumes "wf_man x"
  shows "man_from_cv (man_to_cv x) = Inr x"
  using assms by (simp add: man_from_cv_def man_to_cv_def wf_man_def fields_has_def wire_simps)

interpretation man: wire_object man_to_cv man_from_cv wf_man
proof
  fix x
  assume x: "wf_man x"
  then show "canon (man_to_cv x)" "fits_depth 0 (man_to_cv x)" "man_from_cv (man_to_cv x) = Inr x"
    by (auto simp: man_from_to) (auto simp: man_to_cv_def wf_man_def MAX_NESTING_DEPTH_def)
next
  fix c x
  assume v: "canon c" "fits_depth 0 c" "man_from_cv c = Inr x"
  have "c = man_to_cv x \<and> man_chunks x \<noteq> []"
    unfolding man_to_cv_def
    by (rule read_fields_canonE [OF v(3) [unfolded man_from_cv_def] v(1,2)],
        (auto elim!: req_as_okE opt_as_okE simp del: canon.simps split: if_splits)[1], auto)
  then show "wf_man x \<and> man_to_cv x = c"
    using v(1) by (auto simp: man_to_cv_def wf_man_def)
qed

section \<open>The spool under a run of pushes\<close>

fun admitted :: "u64 list \<Rightarrow> inbound_spool \<Rightarrow> u64 list \<times> inbound_spool" where
  "admitted [] s = ([], s)"
| "admitted (n # ns) s =
     (let (r, s') = admit n s; (adm, s'') = admitted ns s'
      in ((case r of Inl _ \<Rightarrow> adm | Inr _ \<Rightarrow> n # adm), s''))"

lemma checked_add_u64_Some_iff:
  "checked_add_u64 a b = Some t \<longleftrightarrow> unat t = unat a + unat b"
proof
  assume "checked_add_u64 a b = Some t"
  then have "unat a + unat b < 2 ^ 64" "t = a + b" by (auto simp: checked_add_u64_def split: if_splits)
  then show "unat t = unat a + unat b" by (simp add: unat_word_ariths)
next
  assume t: "unat t = unat a + unat b"
  then have "unat a + unat b < 2 ^ 64" using unat_u64_less [of t] by simp
  moreover from this t have "t = a + b" by (simp add: word_unat_eq_iff unat_word_ariths)
  ultimately show "checked_add_u64 a b = Some t" by (simp add: checked_add_u64_def)
qed

lemma checked_add_u64_None_iff: "checked_add_u64 a b = None \<longleftrightarrow> 2 ^ 64 \<le> unat a + unat b"
  by (auto simp: checked_add_u64_def)

lemma admit_cases:
  "(unat (sp_used s) + unat n \<le> unat (sp_cap s) \<and>
      admit n s = (Inr (), s\<lparr>sp_used := sp_used s + n\<rparr>) \<and> unat (sp_used s + n) = unat (sp_used s) + unat n) \<or>
   (unat (sp_cap s) < unat (sp_used s) + unat n \<and> admit n s = (Inl SpoolOverflow, s))"
proof (cases "checked_add_u64 (sp_used s) n")
  case None
  moreover from this have "18446744073709551616 \<le> unat (sp_used s) + unat n" by (simp add: checked_add_u64_None_iff)
  then have "unat (sp_cap s) < unat (sp_used s) + unat n" using unat_u64_less [of "sp_cap s"] by linarith
  ultimately show ?thesis by (simp add: admit_def)
next
  case (Some t)
  then have t: "unat t = unat (sp_used s) + unat n" by (simp add: checked_add_u64_Some_iff)
  from Some have "t = sp_used s + n" by (auto simp: checked_add_u64_def split: if_splits)
  with t Some show ?thesis by (auto simp: admit_def word_le_nat_alt)
qed

lemma admitted_bound:
  assumes "admitted ns s = (adm, s')" and "unat (sp_used s) \<le> unat (sp_cap s)"
  shows "sp_cap s' = sp_cap s \<and> unat (sp_used s') = unat (sp_used s) + sum_list (map unat adm) \<and>
     unat (sp_used s') \<le> unat (sp_cap s)"
  using assms
proof (induction ns arbitrary: s adm s')
  case Nil
  then show ?case by simp
next
  case (Cons n ns)
  obtain adm1 where a: "admitted ns (snd (admit n s)) = (adm1, s')"
    and adm: "adm = (case fst (admit n s) of Inl _ \<Rightarrow> adm1 | Inr _ \<Rightarrow> n # adm1)"
    using Cons.prems(1) by (auto simp: Let_def split: prod.splits)
  from admit_cases [of s n] show ?case
    using Cons.IH [OF a] a adm Cons.prems(2) by (elim disjE conjE) auto
qed

section \<open>Properties\<close>

text \<open>C37. The inbound spool never overfills: after any sequence of pushes the recorded total is the
  exact sum of the admitted sizes and at most the cap, and a further push is admitted if and only if it
  still fits, computed without wrap-around.\<close>

theorem spool_never_overfills:
  assumes "admitted pushes (spool_new cap) = (adm, s)"
  shows "unat (sp_used s) = sum_list (map unat adm) \<and> sp_cap s = cap \<and> sum_list (map unat adm) \<le> unat cap \<and>
    (fst (admit n s) = Inr () \<longleftrightarrow> sum_list (map unat adm) + unat n \<le> unat cap) \<and>
    fst (admit n s) = spool_admit (sp_used s) n cap"
proof -
  have s: "sp_cap s = cap" "unat (sp_used s) = sum_list (map unat adm)" "sum_list (map unat adm) \<le> unat cap"
    using admitted_bound [OF assms] by (simp_all add: spool_new_def)
  moreover have "fst (admit n s) = spool_admit (sp_used s) n cap"
    by (simp add: admit_def spool_admit_def s(1) split: option.splits)
  moreover have "fst (admit n s) = Inr () \<longleftrightarrow> sum_list (map unat adm) + unat n \<le> unat cap"
    using admit_cases [of s n] by (auto simp: s)
  ultimately show ?thesis by blast
qed

theorem spool_never_overfills_witness:
  "unat (sp_used \<lparr>sp_used = 60, sp_cap = 100\<rparr>) = sum_list (map unat [60 :: u64]) \<and>
   fst (admit 41 \<lparr>sp_used = 60, sp_cap = 100\<rparr>) = Inl SpoolOverflow \<and>
   fst (admit 40 \<lparr>sp_used = 60, sp_cap = 100\<rparr>) = Inr ()"
  using spool_never_overfills [of "[60, 50, 0xFFFFFFFFFFFFFFFF]" 100 "[60]" "\<lparr>sp_used = 60, sp_cap = 100\<rparr>" 40]
  by (simp add: admit_def checked_add_u64_def spool_new_def)

text \<open>A file manifest decodes from exactly the canonical bytes of a manifest with at least one chunk
  and no content key, so the Merkle root of a decoded manifest is always defined, and a manifest carrying
  the key field 5 is refused whatever else it holds.\<close>

theorem manifest_decode_exact:
  "(man_from_det_cbor b = Inr m \<longleftrightarrow> wf_man m \<and> b = man_det_cbor m) \<and>
   (wf_man m \<longrightarrow> man_merkle_root C m \<noteq> None) \<and>
   (decode b = Inr (Map f) \<and> fields_has f 5 \<longrightarrow> man_from_det_cbor b = Inl ManifestKeyPresent)"
proof (intro conjI)
  show "man_from_det_cbor b = Inr m \<longleftrightarrow> wf_man m \<and> b = man_det_cbor m"
    by (simp add: man_from_det_cbor_def man_det_cbor_def man.from_bytes_iff)
  show "wf_man m \<longrightarrow> man_merkle_root C m \<noteq> None"
    by (simp add: wf_man_def man_merkle_root_def merkle_tree_head_def)
  show "decode b = Inr (Map f) \<and> fields_has f 5 \<longrightarrow> man_from_det_cbor b = Inl ManifestKeyPresent"
    by (simp add: man_from_det_cbor_def from_bytes_def man_from_cv_def wire_simps)
qed

theorem manifest_decode_exact_witness:
  "man_from_det_cbor (encode (Map [(5, U64 1)])) = Inl ManifestKeyPresent"
  using manifest_decode_exact [of "encode (Map [(5, U64 1)])" undefined undefined "[(5, U64 1)]"]
  by (simp add: decode_iff_canonical MAX_NESTING_DEPTH_def fields_has_def)

end
