(* ===== verification/Mote_Wire.thy ===== *)
theory Mote_Wire
  imports Mote_Files Wire_Laws
begin

text \<open>
  The wire objects of \<open>kotva-core/src/mote.rs\<close>: message kinds, anti-abuse challenges, delivery
  tags, key-package references, headers, payloads and envelopes, each with its canonical form and
  its decoder.  The extension headers are held as the decoded text map.
\<close>

section \<open>Kinds\<close>

datatype kind =
    Mail | Chat | Reaction | Edit | Redact | FileOffer | GroupEvent | Receipt | Presence | Identity | System
  | Deniable | PubAnnounce | FeedHint | FeedSubscribe | FeedUnsubscribe | RtcSignal

definition kind_from_u8 :: "u8 \<Rightarrow> kind option" where
  "kind_from_u8 b =
     (if b = 0x00 then Some Mail
      else if b = 0x01 then Some Chat
      else if b = 0x02 then Some Reaction
      else if b = 0x03 then Some Edit
      else if b = 0x04 then Some Redact
      else if b = 0x05 then Some FileOffer
      else if b = 0x06 then Some GroupEvent
      else if b = 0x07 then Some Receipt
      else if b = 0x08 then Some Presence
      else if b = 0x09 then Some Identity
      else if b = 0x0A then Some System
      else if b = 0x0B then Some Deniable
      else if b = 0x40 then Some PubAnnounce
      else if b = 0x41 then Some FeedHint
      else if b = 0x42 then Some FeedSubscribe
      else if b = 0x43 then Some FeedUnsubscribe
      else if b = 0x44 then Some RtcSignal
      else None)"

definition kind_as_u8 :: "kind \<Rightarrow> u8" where
  "kind_as_u8 k =
     (case k of Mail \<Rightarrow> 0x00 | Chat \<Rightarrow> 0x01 | Reaction \<Rightarrow> 0x02 | Edit \<Rightarrow> 0x03 | Redact \<Rightarrow> 0x04
      | FileOffer \<Rightarrow> 0x05 | GroupEvent \<Rightarrow> 0x06 | Receipt \<Rightarrow> 0x07 | Presence \<Rightarrow> 0x08 | Identity \<Rightarrow> 0x09
      | System \<Rightarrow> 0x0A | Deniable \<Rightarrow> 0x0B | PubAnnounce \<Rightarrow> 0x40 | FeedHint \<Rightarrow> 0x41 | FeedSubscribe \<Rightarrow> 0x42
      | FeedUnsubscribe \<Rightarrow> 0x43 | RtcSignal \<Rightarrow> 0x44)"

definition kind_from_cv :: "cv \<Rightarrow> cbor_error + kind" where
  "kind_from_cv c = and_then (as_u8 c) (\<lambda>b. ok_or (kind_from_u8 b) (UnknownDiscriminant 0))"

section \<open>Challenges\<close>

record arc_token =
  arc_issuer :: bytes
  arc_token :: bytes
  arc_origin :: bytes
  arc_nonce :: "bytes option"

record pow_solution =
  pow_algo :: string
  pow_params :: "u32 \<times> u32 \<times> u32"
  pow_epoch_nonce :: bytes
  pow_solution :: bytes
  pow_difficulty :: u8

record postage_stamp =
  ps_issuer :: bytes
  ps_serial :: bytes
  ps_amount :: u64
  ps_currency :: string
  ps_expiry :: u64
  ps_audience :: "bytes option"
  ps_sig :: bytes

record vouch =
  vch_voucher :: bytes
  vch_subject :: bytes
  vch_recipient :: bytes
  vch_exp :: u64
  vch_sig :: bytes

datatype challenge_response = Arc arc_token | Pow pow_solution | Postage postage_stamp | Vouch vouch

definition challenge_to_cv :: "challenge_response \<Rightarrow> cv" where
  "challenge_to_cv c =
     (case c of
        Arc a \<Rightarrow>
          Map ([(0, U64 1), (1, Bytes (arc_issuer a)), (2, Bytes (arc_token a)), (3, Bytes (arc_origin a))]
               @ (case arc_nonce a of None \<Rightarrow> [] | Some n \<Rightarrow> [(4, Bytes n)]))
      | Pow p \<Rightarrow>
          Map [(0, U64 2), (1, Text (pow_algo p)),
               (2, case pow_params p of (m, t, l) \<Rightarrow> Array [U64 (ucast m), U64 (ucast t), U64 (ucast l)]),
               (3, Bytes (pow_epoch_nonce p)), (4, Bytes (pow_solution p)), (5, U64 (ucast (pow_difficulty p)))]
      | Postage s \<Rightarrow>
          Map ([(0, U64 3), (1, Bytes (ps_issuer s)), (2, Bytes (ps_serial s)), (3, U64 (ps_amount s)),
                (4, Text (ps_currency s)), (5, U64 (ps_expiry s))]
               @ (case ps_audience s of None \<Rightarrow> [] | Some a \<Rightarrow> [(6, Bytes a)])
               @ [(7, Bytes (ps_sig s))])
      | Vouch v \<Rightarrow>
          Map [(0, U64 4), (1, Bytes (vch_voucher v)), (2, Bytes (vch_subject v)), (3, Bytes (vch_recipient v)),
               (4, U64 (vch_exp v)), (5, Bytes (vch_sig v))])"

definition challenge_det_cbor :: "challenge_response \<Rightarrow> bytes" where
  "challenge_det_cbor c = encode (challenge_to_cv c)"

definition params_from_cv :: "cv \<Rightarrow> cbor_error + u32 \<times> u32 \<times> u32" where
  "params_from_cv c =
     and_then (as_array c) (\<lambda>params.
       case params of
         [a, b, l] \<Rightarrow>
           and_then (as_u32 a) (\<lambda>m. and_then (as_u32 b) (\<lambda>t. and_then (as_u32 l) (\<lambda>p. Inr (m, t, p))))
       | _ \<Rightarrow> Inl TypeMismatch)"

definition challenge_from_cv :: "cv \<Rightarrow> cbor_error + challenge_response" where
  "challenge_from_cv = read_fields (
     req_as as_u64 0 (\<lambda>disc.
       if disc = 1 then
         req_as as_bytes 1 (\<lambda>issuer.
         req_as as_bytes 2 (\<lambda>token.
         req_as as_bytes 3 (\<lambda>origin.
         opt_as as_bytes 4 (\<lambda>nonce.
           finish (Arc \<lparr>arc_issuer = issuer, arc_token = token, arc_origin = origin, arc_nonce = nonce\<rparr>)))))
       else if disc = 2 then
         req_as as_text 1 (\<lambda>algo.
         req_as params_from_cv 2 (\<lambda>params.
         req_as as_bytes 3 (\<lambda>epoch_nonce.
         req_as as_bytes 4 (\<lambda>sol.
         req_as as_u8 5 (\<lambda>difficulty.
           finish (Pow \<lparr>pow_algo = algo, pow_params = params, pow_epoch_nonce = epoch_nonce, pow_solution = sol,
             pow_difficulty = difficulty\<rparr>))))))
       else if disc = 3 then
         req_as as_bytes 1 (\<lambda>issuer.
         req_as as_bytes 2 (\<lambda>serial.
         req_as as_u64 3 (\<lambda>amount.
         req_as as_text 4 (\<lambda>currency.
         req_as as_u64 5 (\<lambda>expiry.
         opt_as as_bytes 6 (\<lambda>audience.
         req_as as_bytes 7 (\<lambda>sig.
           finish (Postage \<lparr>ps_issuer = issuer, ps_serial = serial, ps_amount = amount, ps_currency = currency,
             ps_expiry = expiry, ps_audience = audience, ps_sig = sig\<rparr>))))))))
       else if disc = 4 then
         req_as as_bytes 1 (\<lambda>voucher.
         req_as as_bytes 2 (\<lambda>subject.
         req_as as_bytes 3 (\<lambda>recipient.
         req_as as_u64 4 (\<lambda>exp.
         req_as as_bytes 5 (\<lambda>sig.
           finish (Vouch \<lparr>vch_voucher = voucher, vch_subject = subject, vch_recipient = recipient, vch_exp = exp,
             vch_sig = sig\<rparr>))))))
       else (\<lambda>_. Inl (UnknownDiscriminant disc))))"

section \<open>Delivery tags and key packages\<close>

datatype delivery_tag = KeyTag bytes | GroupTag bytes | BlindedTag bytes

definition value_bytes :: "delivery_tag \<Rightarrow> bytes" where
  "value_bytes t = (case t of KeyTag b \<Rightarrow> b | GroupTag b \<Rightarrow> b | BlindedTag b \<Rightarrow> b)"

definition resolves_to_key :: "delivery_tag \<Rightarrow> bytes \<Rightarrow> bool" where
  "resolves_to_key t ik = (case t of KeyTag k \<Rightarrow> k = ik | _ \<Rightarrow> False)"

definition tag_to_cv :: "delivery_tag \<Rightarrow> cv" where
  "tag_to_cv t =
     (let (disc, v) = (case t of KeyTag b \<Rightarrow> (1, b) | GroupTag b \<Rightarrow> (2, b) | BlindedTag b \<Rightarrow> (3, b))
      in Map [(0, U64 disc), (1, Bytes v)])"

definition tag_det_cbor :: "delivery_tag \<Rightarrow> bytes" where
  "tag_det_cbor t = encode (tag_to_cv t)"

definition tag_from_cv :: "cv \<Rightarrow> cbor_error + delivery_tag" where
  "tag_from_cv = read_fields (
     req_as as_u64 0 (\<lambda>disc.
     req_as as_bytes 1 (\<lambda>v f.
       and_then (fields_deny_unknown f) (\<lambda>_.
         if disc = 1 then Inr (KeyTag v)
         else if disc = 2 then Inr (GroupTag v)
         else if disc = 3 then Inr (BlindedTag v)
         else Inl (UnknownDiscriminant disc)))))"

record key_package_ref =
  kpr_reference :: content_id
  kpr_suite :: suite
  kpr_loc :: "string option"

definition kpr_to_cv :: "key_package_ref \<Rightarrow> cv" where
  "kpr_to_cv k =
     Map ([(1, hash_cv (kpr_reference k)), (2, suite_cv (kpr_suite k))]
          @ (case kpr_loc k of None \<Rightarrow> [] | Some l \<Rightarrow> [(3, Text l)]))"

definition kpr_from_cv :: "cv \<Rightarrow> cbor_error + key_package_ref" where
  "kpr_from_cv = read_fields (
     req_as as_hash 1 (\<lambda>reference.
     req_as suite_from_cv 2 (\<lambda>suite.
     opt_as as_text 3 (\<lambda>loc.
       finish \<lparr>kpr_reference = reference, kpr_suite = suite, kpr_loc = loc\<rparr>))))"

section \<open>Headers and payloads\<close>

record headers =
  hd_thread :: "bytes option"
  hd_subject :: "string option"
  hd_mime :: "string option"
  hd_cc :: "bytes list"
  hd_ext :: "(string \<times> cv) list"
  hd_sensitive :: "bool option"

definition headers_default :: headers where
  "headers_default = \<lparr>hd_thread = None, hd_subject = None, hd_mime = None, hd_cc = [], hd_ext = [],
     hd_sensitive = None\<rparr>"

definition hdr_to_cv :: "headers \<Rightarrow> cv" where
  "hdr_to_cv h =
     Map ((case hd_thread h of None \<Rightarrow> [] | Some t \<Rightarrow> [(1, Bytes t)])
          @ (case hd_subject h of None \<Rightarrow> [] | Some s \<Rightarrow> [(2, Text s)])
          @ (case hd_mime h of None \<Rightarrow> [] | Some m \<Rightarrow> [(3, Text m)])
          @ [(4, Array (map Bytes (hd_cc h)))]
          @ (if hd_ext h = [] then [] else [(5, TextMap (hd_ext h))])
          @ (case hd_sensitive h of None \<Rightarrow> [] | Some b \<Rightarrow> [(6, Bool b)]))"

definition ext_from_cv :: "cv \<Rightarrow> cbor_error + (string \<times> cv) list" where
  "ext_from_cv c =
     (case c of
        TextMap m \<Rightarrow> Inr m
      | Map m \<Rightarrow> if m = [] then Inr [] else Inl TypeMismatch
      | _ \<Rightarrow> Inl TypeMismatch)"

definition hdr_from_cv :: "cv \<Rightarrow> cbor_error + headers" where
  "hdr_from_cv = read_fields (
     opt_as as_bytes 1 (\<lambda>thread.
     opt_as as_text 2 (\<lambda>subject.
     opt_as as_text 3 (\<lambda>mime.
     req_as (as_list as_bytes) 4 (\<lambda>cc.
     opt_as ext_from_cv 5 (\<lambda>ext.
     opt_as as_bool 6 (\<lambda>sensitive.
       finish \<lparr>hd_thread = thread, hd_subject = subject, hd_mime = mime, hd_cc = cc,
         hd_ext = (case ext of None \<Rightarrow> [] | Some m \<Rightarrow> m), hd_sensitive = sensitive\<rparr>)))))))"

record payload =
  pl_from :: bytes
  pl_sig :: bytes
  pl_headers :: headers
  pl_body :: bytes
  pl_refs :: "content_id list"
  pl_attach :: "attachment list"
  pl_expires :: "u64 option"

definition payload_to_cv :: "bool \<Rightarrow> payload \<Rightarrow> cv" where
  "payload_to_cv include_sig p =
     Map ([(1, Bytes (pl_from p))]
          @ (if include_sig then [(2, Bytes (pl_sig p))] else [])
          @ [(3, hdr_to_cv (pl_headers p)),
             (4, Bytes (pl_body p)),
             (5, Array (map hash_cv (pl_refs p))),
             (6, Array (map att_to_cv (pl_attach p)))]
          @ (case pl_expires p of None \<Rightarrow> [] | Some e \<Rightarrow> [(7, U64 e)]))"

definition payload_det_cbor :: "payload \<Rightarrow> bytes" where
  "payload_det_cbor p = encode (payload_to_cv True p)"

definition payload_signing_body :: "payload \<Rightarrow> bytes" where
  "payload_signing_body p = encode (payload_to_cv False p)"

definition payload_from_cv :: "cv \<Rightarrow> cbor_error + payload" where
  "payload_from_cv = read_fields (
     req_as as_bytes 1 (\<lambda>frm.
     req_as as_bytes 2 (\<lambda>sig.
     req_as hdr_from_cv 3 (\<lambda>headers.
     req_as as_bytes 4 (\<lambda>body.
     req_as (as_list as_hash) 5 (\<lambda>refs.
     req_as (as_list att_from_cv) 6 (\<lambda>attach.
     opt_as as_u64 7 (\<lambda>expires.
       finish \<lparr>pl_from = frm, pl_sig = sig, pl_headers = headers, pl_body = body, pl_refs = refs,
         pl_attach = attach, pl_expires = expires\<rparr>))))))))"

definition payload_from_det_cbor :: "bytes \<Rightarrow> cbor_error + payload" where
  "payload_from_det_cbor = from_bytes payload_from_cv"

section \<open>Envelopes\<close>

record envelope =
  env_v :: u8
  env_suite :: suite
  env_id :: content_id
  env_to :: delivery_tag
  env_epoch :: "bytes option"
  env_ts :: u64
  env_kind :: kind
  env_keypkg :: "key_package_ref option"
  env_challenge :: "challenge_response option"
  env_ciphertext :: bytes
  env_sender_sig :: "bytes option"
  env_sender_eph :: "bytes option"

definition env_to_cv :: "envelope \<Rightarrow> cv" where
  "env_to_cv e =
     Map ([(1, U64 (ucast (env_v e))), (2, suite_cv (env_suite e)), (3, hash_cv (env_id e)), (4, tag_to_cv (env_to e))]
          @ (case env_epoch e of None \<Rightarrow> [] | Some x \<Rightarrow> [(5, Bytes x)])
          @ [(6, U64 (env_ts e)), (7, U64 (ucast (kind_as_u8 (env_kind e))))]
          @ (case env_keypkg e of None \<Rightarrow> [] | Some k \<Rightarrow> [(8, kpr_to_cv k)])
          @ (case env_challenge e of None \<Rightarrow> [] | Some c \<Rightarrow> [(9, challenge_to_cv c)])
          @ [(10, Bytes (env_ciphertext e))]
          @ (case env_sender_sig e of None \<Rightarrow> [] | Some s \<Rightarrow> [(11, Bytes s)])
          @ (case env_sender_eph e of None \<Rightarrow> [] | Some k \<Rightarrow> [(12, Bytes k)]))"

definition env_det_cbor :: "envelope \<Rightarrow> bytes" where
  "env_det_cbor e = encode (env_to_cv e)"

definition env_from_cv :: "cv \<Rightarrow> cbor_error + envelope" where
  "env_from_cv = read_fields (
     req_as as_u8 1 (\<lambda>v.
     req_as suite_from_cv 2 (\<lambda>suite.
     req_as as_hash 3 (\<lambda>i.
     req_as tag_from_cv 4 (\<lambda>to.
     opt_as as_bytes 5 (\<lambda>epoch.
     req_as as_u64 6 (\<lambda>ts.
     req_as kind_from_cv 7 (\<lambda>kind.
     opt_as kpr_from_cv 8 (\<lambda>keypkg.
     opt_as challenge_from_cv 9 (\<lambda>challenge.
     req_as as_bytes 10 (\<lambda>ciphertext.
     opt_as as_bytes 11 (\<lambda>sender_sig.
     opt_as as_bytes 12 (\<lambda>sender_eph.
       finish \<lparr>env_v = v, env_suite = suite, env_id = i, env_to = to, env_epoch = epoch, env_ts = ts,
         env_kind = kind, env_keypkg = keypkg, env_challenge = challenge, env_ciphertext = ciphertext,
         env_sender_sig = sender_sig, env_sender_eph = sender_eph\<rparr>)))))))))))))"

definition env_from_det_cbor :: "bytes \<Rightarrow> cbor_error + envelope" where
  "env_from_det_cbor = from_bytes env_from_cv"

section \<open>Codec laws\<close>

lemma kind_from_as_u8 [simp]: "kind_from_u8 (kind_as_u8 k) = Some k"
  by (cases k) (simp_all add: kind_from_u8_def kind_as_u8_def)

lemma kind_from_u8_Some: "kind_from_u8 b = Some k \<Longrightarrow> kind_as_u8 k = b"
  by (auto simp: kind_from_u8_def kind_as_u8_def split: if_splits)

lemma kind_as_u8_inject [simp]: "kind_as_u8 a = kind_as_u8 b \<longleftrightarrow> a = b"
  by (metis kind_from_as_u8 option.inject)

lemma kind_from_cv_U64 [wire_simps]: "kind_from_cv (U64 (ucast (kind_as_u8 k))) = Inr k"
  by (simp add: kind_from_cv_def as_u8_U64)

lemma kind_from_cv_iff [simp]: "kind_from_cv c = Inr k \<longleftrightarrow> c = U64 (ucast (kind_as_u8 k))"
  by (auto simp: kind_from_cv_def dest: kind_from_u8_Some)

lemma params_from_cv_iff [simp]:
  "params_from_cv c = Inr p \<longleftrightarrow>
     c = (case p of (m, t, l) \<Rightarrow> Array [U64 (ucast m), U64 (ucast t), U64 (ucast l)])"
proof
  obtain m t l where p: "p = (m, t, l)" by (cases p)
  assume "params_from_cv c = Inr p"
  then obtain xs where c: "c = Array xs" and r: "params_from_cv (Array xs) = Inr p"
    by (auto simp: params_from_cv_def)
  then have "length xs = 3" by (cases xs rule: remdups_adj.cases; auto simp: params_from_cv_def coercion_simps split: list.splits)
  then obtain x y z where "xs = [x, y, z]" by (auto simp: numeral_3_eq_3 length_Suc_conv)
  with r show "c = (case p of (m, t, l) \<Rightarrow> Array [U64 (ucast m), U64 (ucast t), U64 (ucast l)])"
    by (simp add: params_from_cv_def coercion_simps c p)
qed (cases p, simp add: params_from_cv_def coercion_simps as_u32_U64)

fun wf_challenge :: "challenge_response \<Rightarrow> bool" where
  "wf_challenge (Arc a) \<longleftrightarrow> short (arc_issuer a) \<and> short (arc_token a) \<and> short (arc_origin a) \<and> pred_option short (arc_nonce a)"
| "wf_challenge (Pow p) \<longleftrightarrow> rust_string (pow_algo p) \<and> short (pow_epoch_nonce p) \<and> short (pow_solution p)"
| "wf_challenge (Postage s) \<longleftrightarrow> short (ps_issuer s) \<and> short (ps_serial s) \<and> rust_string (ps_currency s) \<and>
     pred_option short (ps_audience s) \<and> short (ps_sig s)"
| "wf_challenge (Vouch v) \<longleftrightarrow> short (vch_voucher v) \<and> short (vch_subject v) \<and> short (vch_recipient v) \<and> short (vch_sig v)"

definition wf_kpr :: "key_package_ref \<Rightarrow> bool" where
  "wf_kpr k \<longleftrightarrow> short (cid_bytes (kpr_reference k)) \<and> pred_option rust_string (kpr_loc k)"

definition wf_env :: "envelope \<Rightarrow> bool" where
  "wf_env e \<longleftrightarrow> short (cid_bytes (env_id e)) \<and> short (value_bytes (env_to e)) \<and> pred_option short (env_epoch e) \<and>
     pred_option wf_kpr (env_keypkg e) \<and> pred_option wf_challenge (env_challenge e) \<and> short (env_ciphertext e) \<and>
     pred_option short (env_sender_sig e) \<and> pred_option short (env_sender_eph e)"

lemma tag_codec:
  assumes "d < MAX_NESTING_DEPTH"
  shows "cv_object tag_to_cv tag_from_cv (\<lambda>t. short (value_bytes t)) d"
proof (rule cv_fieldsI [OF _ tag_from_cv_def assms])
  show "tag_to_cv t = Map [(0, U64 (case t of KeyTag _ \<Rightarrow> 1 | GroupTag _ \<Rightarrow> 2 | BlindedTag _ \<Rightarrow> 3)), (1, Bytes (value_bytes t))]"
    for t by (cases t) (simp_all add: tag_to_cv_def value_bytes_def)
  show "short (value_bytes t) \<Longrightarrow> field_list (Suc d) 0 [(0, U64 (case t of KeyTag _ \<Rightarrow> 1 | GroupTag _ \<Rightarrow> 2 | BlindedTag _ \<Rightarrow> 3)),
      (1, Bytes (value_bytes t))]" for t
    using assms by simp
  show "short (value_bytes t) \<Longrightarrow> req_as as_u64 0 (\<lambda>disc. req_as as_bytes 1 (\<lambda>v f. and_then (fields_deny_unknown f) (\<lambda>_.
      if disc = 1 then Inr (KeyTag v) else if disc = 2 then Inr (GroupTag v) else if disc = 3 then Inr (BlindedTag v)
      else Inl (UnknownDiscriminant disc))))
    [(0, U64 (case t of KeyTag _ \<Rightarrow> 1 | GroupTag _ \<Rightarrow> 2 | BlindedTag _ \<Rightarrow> 3)), (1, Bytes (value_bytes t))] = Inr t" for t
    by (cases t) (simp_all add: wire_simps fields_deny_unknown_def value_bytes_def)
qed (auto simp: value_bytes_def elim!: prim_readE split: if_splits)

lemma kpr_codec:
  assumes "d < MAX_NESTING_DEPTH"
  shows "cv_object kpr_to_cv kpr_from_cv wf_kpr d"
  by (rule cv_fieldsI [OF kpr_to_cv_def kpr_from_cv_def assms])
    (use assms in \<open>auto simp: wf_kpr_def wire_simps elim!: prim_readE\<close>)

lemma params_from_cv_Array [wire_simps]:
  "params_from_cv (case p of (m, t, l) \<Rightarrow> Array [U64 (ucast m), U64 (ucast t), U64 (ucast l)]) = Inr p"
  by simp

lemma reads_params [reads_laws]:
  "reads params_from_cv (\<lambda>p. case p of (m, t, l) \<Rightarrow> Array [U64 (ucast m), U64 (ucast t), U64 (ucast l)]) (\<lambda>_. True) d"
  by (auto simp: reads_def)

definition challenge_fields :: "challenge_response \<Rightarrow> fields" where
  "challenge_fields c = (case challenge_to_cv c of Map m \<Rightarrow> m | _ \<Rightarrow> [])"

lemma challenge_codec:
  assumes "Suc d < MAX_NESTING_DEPTH"
  shows "cv_object challenge_to_cv challenge_from_cv wf_challenge d"
proof (rule cv_fieldsI [OF _ challenge_from_cv_def])
  show "challenge_to_cv c = Map (challenge_fields c)" for c
    by (cases c) (simp_all add: challenge_fields_def challenge_to_cv_def)
  show "field_list (Suc d) 0 (challenge_fields c)" if "wf_challenge c" for c
    using that assms by (cases c) (auto simp: challenge_fields_def challenge_to_cv_def split: prod.split)
qed (use assms in \<open>auto simp: challenge_fields_def challenge_to_cv_def wire_simps simp del: params_from_cv_iff
    elim!: prim_readE reads_params [THEN [2] reading_reqE] split: if_splits challenge_response.split\<close>)

interpretation tag: cv_object tag_to_cv tag_from_cv "\<lambda>t. short (value_bytes t)" 1
  by (rule tag_codec) (simp add: MAX_NESTING_DEPTH_def)

interpretation kpr: cv_object kpr_to_cv kpr_from_cv wf_kpr 1
  by (rule kpr_codec) (simp add: MAX_NESTING_DEPTH_def)

interpretation challenge: cv_object challenge_to_cv challenge_from_cv wf_challenge 1
  by (rule challenge_codec) (simp add: MAX_NESTING_DEPTH_def)

interpretation att: cv_object att_to_cv att_from_cv wf_att 2
  by (rule att_codec) (simp add: MAX_NESTING_DEPTH_def)


lemmas mote_reads [reads_laws] =
  tag.reads_object [unfolded One_nat_def] kpr.reads_object [unfolded One_nat_def]
  challenge.reads_object [unfolded One_nat_def] att.reads_object [unfolded numeral_2_eq_2]

lemma reads_kind [reads_laws]: "reads kind_from_cv (\<lambda>k. U64 (ucast (kind_as_u8 k))) (\<lambda>_. True) d"
  by (auto simp: reads_def)

lemmas mote_readE = mote_reads [THEN [2] reading_reqE] mote_reads [THEN [2] reading_optE]
  reads_kind [THEN [2] reading_reqE]

lemmas mote_laws = tag.canon_to_cv tag.fits_to_cv [simplified] tag.from_to_cv kpr.canon_to_cv kpr.fits_to_cv [simplified]
  kpr.from_to_cv challenge.canon_to_cv challenge.fits_to_cv [simplified] challenge.from_to_cv

interpretation env: wire_object env_to_cv env_from_cv wf_env
proof (unfold wire_object_def, rule cv_fieldsI [OF env_to_cv_def env_from_cv_def])
  show "(0::nat) < MAX_NESTING_DEPTH" by (simp add: MAX_NESTING_DEPTH_def)
qed (auto simp: wf_env_def wire_simps mote_laws pred_option_Some MAX_NESTING_DEPTH_def
    elim!: prim_readE mote_readE)

text \<open>Headers have a second wire form: an explicit empty extension map, which the decoder drops.\<close>

definition hdr_alt_cv :: "headers \<Rightarrow> cv" where
  "hdr_alt_cv h =
     Map ((case hd_thread h of None \<Rightarrow> [] | Some t \<Rightarrow> [(1, Bytes t)])
          @ (case hd_subject h of None \<Rightarrow> [] | Some s \<Rightarrow> [(2, Text s)])
          @ (case hd_mime h of None \<Rightarrow> [] | Some m \<Rightarrow> [(3, Text m)])
          @ [(4, Array (map Bytes (hd_cc h))), (5, Map [])]
          @ (case hd_sensitive h of None \<Rightarrow> [] | Some b \<Rightarrow> [(6, Bool b)]))"

definition wf_hdr :: "headers \<Rightarrow> bool" where
  "wf_hdr h \<longleftrightarrow> pred_option short (hd_thread h) \<and> pred_option rust_string (hd_subject h) \<and>
     pred_option rust_string (hd_mime h) \<and> short (hd_cc h) \<and> (\<forall>k \<in> set (hd_cc h). short k) \<and>
     (hd_ext h = [] \<or> canon (TextMap (hd_ext h)) \<and> fits_depth 2 (TextMap (hd_ext h)))"

definition wf_payload :: "payload \<Rightarrow> bool" where
  "wf_payload p \<longleftrightarrow> short (pl_from p) \<and> short (pl_sig p) \<and> wf_hdr (pl_headers p) \<and> short (pl_body p) \<and>
     short (pl_refs p) \<and> (\<forall>i \<in> set (pl_refs p). short (cid_bytes i)) \<and>
     short (pl_attach p) \<and> (\<forall>a \<in> set (pl_attach p). wf_att a)"

lemma reads_ext [reads_laws]:
  "reads ext_from_cv (\<lambda>m. if m = [] then Map [] else TextMap m)
     (\<lambda>m. m = [] \<or> canon (TextMap m) \<and> fits_depth d (TextMap m)) d"
  by (auto simp: reads_def ext_from_cv_def split: cv.splits if_splits)

lemma hdr_written:
  assumes "wf_hdr h"
  shows "canon (hdr_to_cv h)" "fits_depth 1 (hdr_to_cv h)" "hdr_from_cv (hdr_to_cv h) = Inr h"
    "hd_ext h = [] \<Longrightarrow> canon (hdr_alt_cv h)" "hd_ext h = [] \<Longrightarrow> fits_depth 1 (hdr_alt_cv h)"
    "hd_ext h = [] \<Longrightarrow> hdr_from_cv (hdr_alt_cv h) = Inr h"
proof -
  show "canon (hdr_to_cv h)" "hd_ext h = [] \<Longrightarrow> canon (hdr_alt_cv h)"
    using assms by (auto simp: hdr_to_cv_def hdr_alt_cv_def wf_hdr_def split: option.split)
  show "fits_depth 1 (hdr_to_cv h)" "hd_ext h = [] \<Longrightarrow> fits_depth 1 (hdr_alt_cv h)"
    using assms by (auto simp: hdr_to_cv_def hdr_alt_cv_def wf_hdr_def MAX_NESTING_DEPTH_def option.pred_set
        numeral_2_eq_2)
  show "hdr_from_cv (hdr_to_cv h) = Inr h"
    by (cases "hd_ext h = []")
      (simp_all add: hdr_from_cv_def hdr_to_cv_def ext_from_cv_def wire_simps)
  show "hd_ext h = [] \<Longrightarrow> hdr_from_cv (hdr_alt_cv h) = Inr h"
    by (simp add: hdr_from_cv_def hdr_alt_cv_def ext_from_cv_def wire_simps)
qed

lemmas ext_readE = reads_ext [THEN [2] reading_optE]

lemma hdr_read:
  assumes v: "canon c" "fits_depth 1 c" "hdr_from_cv c = Inr h"
  shows "wf_hdr h \<and> (c = hdr_to_cv h \<or> hd_ext h = [] \<and> c = hdr_alt_cv h)"
proof -
  have "\<exists>e. c = Map ((case hd_thread h of None \<Rightarrow> [] | Some t \<Rightarrow> [(1, Bytes t)])
          @ (case hd_subject h of None \<Rightarrow> [] | Some s \<Rightarrow> [(2, Text s)])
          @ (case hd_mime h of None \<Rightarrow> [] | Some m \<Rightarrow> [(3, Text m)])
          @ [(4, Array (map Bytes (hd_cc h)))]
          @ (case e of None \<Rightarrow> [] | Some m \<Rightarrow> [(5, if m = [] then Map [] else TextMap m)])
          @ (case hd_sensitive h of None \<Rightarrow> [] | Some b \<Rightarrow> [(6, Bool b)])) \<and>
        (hd_ext h = (case e of None \<Rightarrow> [] | Some m \<Rightarrow> m) \<and> wf_hdr h)"
  proof (rule read_fields_canon_exE [OF v(3) [unfolded hdr_from_cv_def] v(1,2)], goal_cases)
    case (1 m)
    then show ?case
      by (auto elim!: prim_readE ext_readE simp del: canon.simps)
        (intro exI conjI, rule refl, rule refl, auto simp: wf_hdr_def numeral_2_eq_2 split: option.split)
  next
    case (2 e)
    show ?case by (auto split: option.split)
  qed
  then show ?thesis
    by (auto simp: hdr_to_cv_def hdr_alt_cv_def split: option.splits)
qed

definition payload_alt_cv :: "payload \<Rightarrow> cv" where
  "payload_alt_cv p =
     Map ([(1, Bytes (pl_from p)), (2, Bytes (pl_sig p)), (3, hdr_alt_cv (pl_headers p)), (4, Bytes (pl_body p)),
           (5, Array (map hash_cv (pl_refs p))), (6, Array (map att_to_cv (pl_attach p)))]
          @ (case pl_expires p of None \<Rightarrow> [] | Some e \<Rightarrow> [(7, U64 e)]))"

lemma payload_written:
  assumes p: "wf_payload p"
  shows "canon (payload_to_cv b p)" "fits_depth 0 (payload_to_cv b p)"
    "payload_from_cv (payload_to_cv True p) = Inr p"
    "hd_ext (pl_headers p) = [] \<Longrightarrow> canon (payload_alt_cv p)"
    "hd_ext (pl_headers p) = [] \<Longrightarrow> fits_depth 0 (payload_alt_cv p)"
    "hd_ext (pl_headers p) = [] \<Longrightarrow> payload_from_cv (payload_alt_cv p) = Inr p"
proof -
  note h = hdr_written [of "pl_headers p", simplified]
  have wf: "wf_hdr (pl_headers p)" "\<forall>a \<in> set (pl_attach p). wf_att a" using p by (auto simp: wf_payload_def)
  have att: "as_list att_from_cv (Array (map att_to_cv (pl_attach p))) = Inr (pl_attach p)"
    using wf(2) by (rule att.list_from_to)
  show "canon (payload_to_cv b p)" "hd_ext (pl_headers p) = [] \<Longrightarrow> canon (payload_alt_cv p)"
    using p h by (auto simp: payload_to_cv_def payload_alt_cv_def wf_payload_def att.canon_to_cv split: option.split)
  show "fits_depth 0 (payload_to_cv b p)" "hd_ext (pl_headers p) = [] \<Longrightarrow> fits_depth 0 (payload_alt_cv p)"
    using p h by (auto simp: payload_to_cv_def payload_alt_cv_def wf_payload_def MAX_NESTING_DEPTH_def
        att.fits_to_cv [unfolded numeral_2_eq_2] split: option.split)
  show "payload_from_cv (payload_to_cv True p) = Inr p"
    using wf h by (simp add: payload_from_cv_def payload_to_cv_def wire_simps att)
  show "hd_ext (pl_headers p) = [] \<Longrightarrow> payload_from_cv (payload_alt_cv p) = Inr p"
    using wf h by (simp add: payload_from_cv_def payload_alt_cv_def wire_simps att)
qed

interpretation payload: wire_writer "payload_to_cv True" payload_from_cv wf_payload
  by unfold_locales (rule payload_written; assumption)+

lemmas att_list_readE = att.reads_object [unfolded numeral_2_eq_2, THEN reads_list, THEN [2] reading_reqE]

lemma payload_read:
  assumes v: "canon c" "fits_depth 0 c" "payload_from_cv c = Inr p"
  shows "wf_payload p \<and> (c = payload_to_cv True p \<or> hd_ext (pl_headers p) = [] \<and> c = payload_alt_cv p)"
proof -
  have "\<exists>hv. c = Map ([(1, Bytes (pl_from p)), (2, Bytes (pl_sig p)), (3, hv), (4, Bytes (pl_body p)),
           (5, Array (map hash_cv (pl_refs p))), (6, Array (map att_to_cv (pl_attach p)))]
          @ (case pl_expires p of None \<Rightarrow> [] | Some e \<Rightarrow> [(7, U64 e)])) \<and>
        (wf_payload p \<and> (hv = hdr_to_cv (pl_headers p) \<or> hd_ext (pl_headers p) = [] \<and> hv = hdr_alt_cv (pl_headers p)))"
  proof (rule read_fields_canon_exE [OF v(3) [unfolded payload_from_cv_def] v(1,2)], goal_cases)
    case (1 m)
    then show ?case
      by (auto elim!: prim_readE att_list_readE reading_anyE [of _ _ _ hdr_from_cv]
          dest!: hdr_read [simplified, rotated 2] simp: wf_payload_def simp del: canon.simps)
  next
    case (2 e)
    show ?case by (auto split: option.split)
  qed
  then show ?thesis
    by (auto simp: payload_to_cv_def payload_alt_cv_def)
qed

lemma payload_from_det_cbor_iff:
  "payload_from_det_cbor b = Inr p \<longleftrightarrow> wf_payload p \<and>
     (b = payload_det_cbor p \<or> hd_ext (pl_headers p) = [] \<and> b = encode (payload_alt_cv p))"
proof
  assume "payload_from_det_cbor b = Inr p"
  then obtain c where c: "decode b = Inr c" "payload_from_cv c = Inr p"
    by (auto simp: payload_from_det_cbor_def from_bytes_def)
  then have "canon c" "fits_depth 0 c" "b = encode c" by (auto simp: decode_iff_canonical)
  with payload_read [OF this(1,2) c(2)]
  show "wf_payload p \<and> (b = payload_det_cbor p \<or> hd_ext (pl_headers p) = [] \<and> b = encode (payload_alt_cv p))"
    by (auto simp: payload_det_cbor_def)
next
  assume p: "wf_payload p \<and> (b = payload_det_cbor p \<or> hd_ext (pl_headers p) = [] \<and> b = encode (payload_alt_cv p))"
  then have "\<exists>c. b = encode c \<and> canon c \<and> fits_depth 0 c \<and> payload_from_cv c = Inr p"
    using payload_written [of p] by (auto simp: payload_det_cbor_def)
  then show "payload_from_det_cbor b = Inr p"
    by (auto simp: payload_from_det_cbor_def from_bytes_def decode_iff_canonical)
qed

section \<open>Properties\<close>

text \<open>An envelope decodes from exactly the canonical bytes of a well-formed envelope: decoding inverts
  encoding and no second byte string decodes to the same envelope.\<close>

theorem envelope_decode_exact:
  "env_from_det_cbor b = Inr e \<longleftrightarrow> wf_env e \<and> b = env_det_cbor e"
  by (simp add: env_from_det_cbor_def env_det_cbor_def env.from_bytes_iff)

text \<open>A payload decodes from its canonical bytes and, when it has no extension headers, from one further
  byte string, which carries an explicit empty extension map that re-encoding drops.\<close>

theorem payload_decode_exact:
  "(payload_from_det_cbor b = Inr p \<longleftrightarrow> wf_payload p \<and>
     (b = payload_det_cbor p \<or> hd_ext (pl_headers p) = [] \<and> b = encode (payload_alt_cv p))) \<and>
   (wf_payload p \<and> hd_ext (pl_headers p) = [] \<longrightarrow> payload_det_cbor p \<noteq> encode (payload_alt_cv p))"
proof -
  have "payload_to_cv True p \<noteq> payload_alt_cv p" if "hd_ext (pl_headers p) = []"
    using that by (auto simp: payload_to_cv_def payload_alt_cv_def hdr_to_cv_def hdr_alt_cv_def split: option.splits)
  then show ?thesis
    using payload_from_det_cbor_iff payload_written [of p] encode_inj by (auto simp: payload_det_cbor_def)
qed

theorem payload_decode_exact_witness:
  "payload_det_cbor \<lparr>pl_from = [1], pl_sig = [2], pl_headers = headers_default, pl_body = [3], pl_refs = [],
     pl_attach = [], pl_expires = None\<rparr> \<noteq>
   encode (payload_alt_cv \<lparr>pl_from = [1], pl_sig = [2], pl_headers = headers_default, pl_body = [3], pl_refs = [],
     pl_attach = [], pl_expires = None\<rparr>)"
  using payload_decode_exact [of "[]" "\<lparr>pl_from = [1], pl_sig = [2], pl_headers = headers_default, pl_body = [3],
      pl_refs = [], pl_attach = [], pl_expires = None\<rparr>"]
  by (simp add: wf_payload_def wf_hdr_def headers_default_def)

end
