(* ===== verification/Identity.thy ===== *)
theory Identity
  imports Kt Merkle
begin

text \<open>
  The published identity (\<^verbatim>\<open>identity.rs\<close>, first half): device capabilities, \<open>DeviceCert\<close>,
  \<open>KeyPackageBundleRef\<close>, \<open>Identity\<close> with its multi-suite signatures and hash chain, and the
  key-transparency binding of an identity (\<open>identity_leaf_for\<close>, \<open>verify_identity\<close> of
  \<^verbatim>\<open>kt.rs\<close>).

  A \<open>BTreeMap<u8, Vec<u8>>\<close> is its list of entries in ascending key order; \<open>btree_insert\<close> is
  \<open>insert\<close> and \<open>map_of\<close> is \<open>get\<close>.
\<close>

section \<open>Device capabilities\<close>

datatype device_cap = CapSend | CapRecv | CapRelay | CapMix | CapGateway | CapAdmin

fun dcap_as_str :: "device_cap \<Rightarrow> string" where
  "dcap_as_str CapSend = ''send''"
| "dcap_as_str CapRecv = ''recv''"
| "dcap_as_str CapRelay = ''relay''"
| "dcap_as_str CapMix = ''mix''"
| "dcap_as_str CapGateway = ''gateway''"
| "dcap_as_str CapAdmin = ''admin''"

definition dcap_from_str :: "string \<Rightarrow> cbor_error + device_cap" where
  "dcap_from_str s =
     (if s = ''send'' then Inr CapSend
      else if s = ''recv'' then Inr CapRecv
      else if s = ''relay'' then Inr CapRelay
      else if s = ''mix'' then Inr CapMix
      else if s = ''gateway'' then Inr CapGateway
      else if s = ''admin'' then Inr CapAdmin
      else Inl TypeMismatch)"

definition dcap_from_cv :: "cv \<Rightarrow> cbor_error + device_cap" where
  "dcap_from_cv c = and_then (as_text c) dcap_from_str"

definition dcap_cv :: "device_cap \<Rightarrow> cv" where
  "dcap_cv c = Text (dcap_as_str c)"

lemma dcap_from_str_iff: "dcap_from_str s = Inr c \<longleftrightarrow> s = dcap_as_str c"
proof
  assume "dcap_from_str s = Inr c"
  then show "s = dcap_as_str c" unfolding dcap_from_str_def by (simp split: if_splits)
next
  assume "s = dcap_as_str c"
  then show "dcap_from_str s = Inr c" by (cases c) (simp_all add: dcap_from_str_def)
qed

lemma dcap_from_cv_iff [simp]: "dcap_from_cv v = Inr c \<longleftrightarrow> v = dcap_cv c"
  by (auto simp: dcap_from_cv_def dcap_cv_def dcap_from_str_iff)

lemma dcap_list_iff [simp]: "as_list dcap_from_cv v = Inr cs \<longleftrightarrow> v = Array (map dcap_cv cs)"
  by (rule as_list_iff) simp

lemma dcap_list [wire_simps]: "as_list dcap_from_cv (Array (map dcap_cv cs)) = Inr cs"
  by simp

lemma dcap_cv_canon [simp]: "canon (dcap_cv c)" "fits_depth d (dcap_cv c) \<longleftrightarrow> d \<le> 64" "dcap_cv a = dcap_cv b \<longleftrightarrow> a = b"
  by (cases c; simp add: dcap_cv_def rust_string_def as_bytes_of_def;
      cases a; cases b; simp add: dcap_cv_def)+

section \<open>Key-package references\<close>

record key_package_bundle_ref =
  kp_loc :: string
  kp_id :: content_id
  kp_suites :: "suite list option"

definition kp_new :: "string \<Rightarrow> content_id \<Rightarrow> key_package_bundle_ref" where
  "kp_new loc i = \<lparr>kp_loc = loc, kp_id = i, kp_suites = None\<rparr>"

definition kp_to_cv :: "key_package_bundle_ref \<Rightarrow> cv" where
  "kp_to_cv k =
     Map ([(1, Text (kp_loc k)), (2, hash_cv (kp_id k))]
          @ (case kp_suites k of None \<Rightarrow> [] | Some s \<Rightarrow> [(3, Array (map suite_cv s))]))"

definition kp_from_cv :: "cv \<Rightarrow> cbor_error + key_package_bundle_ref" where
  "kp_from_cv = read_fields (
     req_as as_text 1 (\<lambda>loc.
     req_as as_hash 2 (\<lambda>i.
     opt_as (as_list suite_from_cv) 3 (\<lambda>suites.
       finish \<lparr>kp_loc = loc, kp_id = i, kp_suites = suites\<rparr>))))"

definition wf_kp :: "key_package_bundle_ref \<Rightarrow> bool" where
  "wf_kp k \<longleftrightarrow> rust_string (kp_loc k) \<and> length (cid_bytes (kp_id k)) < 2 ^ 64 \<and>
     (case kp_suites k of None \<Rightarrow> True | Some s \<Rightarrow> length s < 2 ^ 64)"

interpretation kp: cv_object kp_to_cv kp_from_cv wf_kp 1
proof
  fix k
  assume "wf_kp k"
  then show "canon (kp_to_cv k)" "fits_depth 1 (kp_to_cv k)"
    by (auto simp: kp_to_cv_def wf_kp_def split: option.splits)
  show "kp_from_cv (kp_to_cv k) = Inr k"
    by (cases "kp_suites k") (simp_all add: kp_from_cv_def kp_to_cv_def wire_simps)
next
  fix v k
  assume v: "canon v" "fits_depth 1 v" "kp_from_cv v = Inr k"
  have "v = kp_to_cv k \<and> True"
    unfolding kp_to_cv_def
    by (rule read_fields_canonE [OF v(3) [unfolded kp_from_cv_def] v(1,2)])
      (auto elim!: req_as_okE opt_as_okE split: option.splits)
  then show "wf_kp k \<and> kp_to_cv k = v"
    using v(1) by (auto simp: kp_to_cv_def wf_kp_def split: option.splits)
qed

section \<open>Device certificates\<close>

record device_cert =
  dc_suite :: suite
  dc_ik :: bytes
  dc_device_key :: bytes
  dc_label :: string
  dc_created :: u64
  dc_expires :: "u64 option"
  dc_caps :: "device_cap list"
  dc_sig :: bytes

definition DEVICE_CERT_DS :: bytes where
  "DEVICE_CERT_DS = ds_tag ''DMTAP-v0/device-cert''"

definition dc_to_cv :: "bool \<Rightarrow> device_cert \<Rightarrow> cv" where
  "dc_to_cv include_sig c =
     Map ([(1, suite_cv (dc_suite c)),
           (2, Bytes (dc_ik c)),
           (3, Bytes (dc_device_key c)),
           (4, Text (dc_label c)),
           (5, U64 (dc_created c))]
          @ (case dc_expires c of None \<Rightarrow> [] | Some e \<Rightarrow> [(6, U64 e)])
          @ [(7, Array (map dcap_cv (dc_caps c)))]
          @ (if include_sig then [(8, Bytes (dc_sig c))] else []))"

definition dc_det_cbor :: "device_cert \<Rightarrow> bytes" where
  "dc_det_cbor c = encode (dc_to_cv True c)"

definition dc_signing_body :: "device_cert \<Rightarrow> bytes" where
  "dc_signing_body c = encode (dc_to_cv False c)"

definition dc_from_cv :: "cv \<Rightarrow> cbor_error + device_cert" where
  "dc_from_cv = read_fields (
     req_as suite_from_cv 1 (\<lambda>suite.
     req_as as_bytes 2 (\<lambda>ik.
     req_as as_bytes 3 (\<lambda>device_key.
     req_as as_text 4 (\<lambda>label.
     req_as as_u64 5 (\<lambda>created.
     opt_as as_u64 6 (\<lambda>expires.
     req_as (as_list dcap_from_cv) 7 (\<lambda>caps.
     req_as as_bytes 8 (\<lambda>sig.
       finish \<lparr>dc_suite = suite, dc_ik = ik, dc_device_key = device_key, dc_label = label,
         dc_created = created, dc_expires = expires, dc_caps = caps, dc_sig = sig\<rparr>)))))))))"

definition dc_from_det_cbor :: "bytes \<Rightarrow> identity_error + device_cert" where
  "dc_from_det_cbor b = map_err BadEncoding (from_bytes dc_from_cv b)"

definition dc_issue :: "crypto \<Rightarrow> identity_key \<Rightarrow> bytes \<Rightarrow> string \<Rightarrow> u64 \<Rightarrow> u64 option \<Rightarrow>
    device_cap list \<Rightarrow> device_cert" where
  "dc_issue C ik device_key label created expires caps =
     (let c = \<lparr>dc_suite = Classical, dc_ik = key_public C ik, dc_device_key = device_key,
                dc_label = label, dc_created = created, dc_expires = expires, dc_caps = caps, dc_sig = []\<rparr>
      in c\<lparr>dc_sig := sign_domain C ik DEVICE_CERT_DS (dc_signing_body c)\<rparr>)"

definition dc_verify :: "crypto \<Rightarrow> device_cert \<Rightarrow> identity_error + unit" where
  "dc_verify C c =
     (if \<not> is_supported (dc_suite c) then Inl (UnsupportedSuite (suite_as_u8 (dc_suite c)))
      else verify_domain C (dc_ik c) DEVICE_CERT_DS (dc_signing_body c) (dc_sig c))"

definition wf_dc :: "device_cert \<Rightarrow> bool" where
  "wf_dc c \<longleftrightarrow> length (dc_ik c) < 2 ^ 64 \<and> length (dc_device_key c) < 2 ^ 64 \<and> rust_string (dc_label c) \<and>
     length (dc_caps c) < 2 ^ 64 \<and> length (dc_sig c) < 2 ^ 64"

text \<open>Certificates stand alone, inside an identity's device list, and inside a subscription
  revocation, so the contract holds at every small depth.\<close>

lemma dc_cv_object:
  assumes "d \<le> 60"
  shows "cv_object (dc_to_cv True) dc_from_cv wf_dc d"
proof
  fix c
  assume "wf_dc c"
  then show "canon (dc_to_cv True c)" "fits_depth d (dc_to_cv True c)"
    using assms by (auto simp: dc_to_cv_def wf_dc_def split: option.splits)
  show "dc_from_cv (dc_to_cv True c) = Inr c"
    by (cases "dc_expires c") (simp_all add: dc_from_cv_def dc_to_cv_def wire_simps)
next
  fix v c
  assume v: "canon v" "fits_depth d v" "dc_from_cv v = Inr c"
  have "v = dc_to_cv True c \<and> True"
    unfolding dc_to_cv_def
    by (rule read_fields_canonE [OF v(3) [unfolded dc_from_cv_def] v(1,2)])
      (auto elim!: req_as_okE opt_as_okE split: option.splits)
  then show "wf_dc c \<and> dc_to_cv True c = v"
    using v(1) by (auto simp: dc_to_cv_def wf_dc_def)
qed

interpretation dc: signed_object "dc_to_cv True" dc_from_cv wf_dc "dc_to_cv False" "dc_sig_update (\<lambda>_. [])"
proof (rule signed_objectI [OF dc_cv_object])
  fix c
  assume "wf_dc c"
  then show "canon (dc_to_cv False c)" "fits_depth 0 (dc_to_cv False c)"
    by (auto simp: dc_to_cv_def wf_dc_def split: option.splits)
next
  fix x y
  assume "dc_to_cv False x = dc_to_cv False y"
  then show "x\<lparr>dc_sig := []\<rparr> = y\<lparr>dc_sig := []\<rparr>"
    by (cases x; cases y) (auto simp: dc_to_cv_def inj_map_eq_map inj_def split: option.splits)
qed simp

section \<open>Identities\<close>

record identity =
  id_suites :: "suite list"
  id_iks :: "(u8 \<times> bytes) list"
  id_version :: u64
  id_devices :: "device_cert list"
  id_keypkgs :: key_package_bundle_ref
  id_recovery :: content_id
  id_names :: "string list"
  id_prev :: "content_id option"
  id_ts :: u64
  id_sig :: "bytes list"

definition IDENTITY_DS :: bytes where
  "IDENTITY_DS = ds_tag ''DMTAP-v0/identity''"

definition iks_to_cv :: "(u8 \<times> bytes) list \<Rightarrow> cv" where
  "iks_to_cv iks = Map (map (\<lambda>(k, v). (ucast k, Bytes v)) iks)"

fun iks_loop :: "(u64 \<times> cv) list \<Rightarrow> (u8 \<times> bytes) list \<Rightarrow> cbor_error + (u8 \<times> bytes) list" where
  "iks_loop [] m = Inr m"
| "iks_loop ((k, v) # ps) m =
     (if k \<le> 0xFF then and_then (as_bytes v) (\<lambda>b. iks_loop ps (btree_insert (ucast k) b m)) else Inl IntRange)"

definition iks_from_cv :: "cv \<Rightarrow> cbor_error + (u8 \<times> bytes) list" where
  "iks_from_cv c = and_then (fields_from_cv c) (\<lambda>inner. iks_loop (fields_into_pairs inner) [])"

definition id_to_cv :: "bool \<Rightarrow> identity \<Rightarrow> cv" where
  "id_to_cv include_sig i =
     Map ([(1, Array (map suite_cv (id_suites i))),
           (2, iks_to_cv (id_iks i)),
           (3, U64 (id_version i)),
           (4, Array (map (dc_to_cv True) (id_devices i))),
           (5, kp_to_cv (id_keypkgs i)),
           (6, hash_cv (id_recovery i)),
           (7, Array (map Text (id_names i)))]
          @ (case id_prev i of None \<Rightarrow> [] | Some p \<Rightarrow> [(8, hash_cv p)])
          @ [(9, U64 (id_ts i))]
          @ (if include_sig then [(10, Array (map Bytes (id_sig i)))] else []))"

definition id_signing_body :: "identity \<Rightarrow> bytes" where
  "id_signing_body i = encode (id_to_cv False i)"

definition id_det_cbor :: "identity \<Rightarrow> bytes" where
  "id_det_cbor i = encode (id_to_cv True i)"

definition id_from_cv :: "cv \<Rightarrow> cbor_error + identity" where
  "id_from_cv = read_fields (
     req_as (as_list suite_from_cv) 1 (\<lambda>suites.
     req_as iks_from_cv 2 (\<lambda>iks.
     req_as as_u64 3 (\<lambda>version.
     req_as (as_list dc_from_cv) 4 (\<lambda>devices.
     req_as kp_from_cv 5 (\<lambda>keypkgs.
     req_as as_hash 6 (\<lambda>recovery.
     req_as (as_list as_text) 7 (\<lambda>names.
     opt_as as_hash 8 (\<lambda>prev.
     req_as as_u64 9 (\<lambda>ts.
     req_as (as_list as_bytes) 10 (\<lambda>sig.
       finish \<lparr>id_suites = suites, id_iks = iks, id_version = version, id_devices = devices,
         id_keypkgs = keypkgs, id_recovery = recovery, id_names = names, id_prev = prev, id_ts = ts,
         id_sig = sig\<rparr>)))))))))))"

definition id_from_det_cbor :: "bytes \<Rightarrow> identity_error + identity" where
  "id_from_det_cbor b = map_err BadEncoding (from_bytes id_from_cv b)"

definition create_classical :: "crypto \<Rightarrow> identity_key \<Rightarrow> u64 \<Rightarrow> device_cert list \<Rightarrow> key_package_bundle_ref \<Rightarrow>
    content_id \<Rightarrow> string list \<Rightarrow> content_id option \<Rightarrow> u64 \<Rightarrow> identity" where
  "create_classical C ik version devices keypkgs recovery names prev ts =
     (let i = \<lparr>id_suites = [Classical], id_iks = btree_insert (suite_as_u8 Classical) (key_public C ik) [],
                id_version = version, id_devices = devices, id_keypkgs = keypkgs, id_recovery = recovery,
                id_names = names, id_prev = prev, id_ts = ts, id_sig = []\<rparr>
      in i\<lparr>id_sig := [sign_domain C ik IDENTITY_DS (id_signing_body i)]\<rparr>)"

definition id_content_id :: "crypto \<Rightarrow> identity \<Rightarrow> content_id" where
  "id_content_id C i = content_id_of C (id_det_cbor i)"

text \<open>The three loops of \<open>Identity::verify\<close>; the signature of the \<open>i\<close>-th suite is \<open>sig[i]\<close>.\<close>

definition id_verify_suite :: "crypto \<Rightarrow> identity \<Rightarrow> suite \<times> bytes \<Rightarrow> identity_error + unit" where
  "id_verify_suite C i = (\<lambda>(s, sg).
     if \<not> is_supported s then Inl (UnsupportedSuite (suite_as_u8 s))
     else and_then (ok_or (map_of (id_iks i) (suite_as_u8 s)) (IdMalformed ''missing key for a declared suite''))
            (\<lambda>key. verify_domain C key IDENTITY_DS (id_signing_body i) sg))"

definition id_verify_device :: "crypto \<Rightarrow> identity \<Rightarrow> device_cert \<Rightarrow> identity_error + unit" where
  "id_verify_device C i cert =
     and_then (ok_or (map_of (id_iks i) (suite_as_u8 (dc_suite cert)))
                (IdMalformed ''device cert for a suite this identity lacks'')) (\<lambda>expected_ik.
       if dc_ik cert \<noteq> expected_ik then Inl (IdMalformed ''device cert IK != identity IK'')
       else dc_verify C cert)"

definition id_verify :: "crypto \<Rightarrow> identity \<Rightarrow> content_id option \<Rightarrow> identity_error + unit" where
  "id_verify C i pinned =
     (if id_suites i = [] then Inl (IdMalformed ''empty suite set'')
      else if length (id_sig i) \<noteq> length (id_suites i) then Inl (IdMalformed ''sig count != suite count'')
      else and_then (try_for_each (id_verify_suite C i) (zip (id_suites i) (id_sig i))) (\<lambda>_.
           and_then (try_for_each (id_verify_device C i) (id_devices i)) (\<lambda>_.
             if id_version i = 0 \<and> id_prev i \<noteq> None then Inl BrokenChain
             else if id_version i > 0 \<and> id_prev i = None then Inl BrokenChain
             else (case (pinned, id_prev i) of
                     (Some p, Some prev) \<Rightarrow> if p \<noteq> prev then Inl BrokenChain else Inr ()
                   | _ \<Rightarrow> Inr ()))))"

section \<open>Transparency of identities\<close>

definition identity_leaf_for :: "crypto \<Rightarrow> identity \<Rightarrow> string \<Rightarrow> content_id option" where
  "identity_leaf_for C i name =
     Option.bind (map_of (id_iks i) (suite_as_u8 Classical)) (\<lambda>ik.
       Some (identity_leaf_hash C name ik (id_version i) (id_content_id C i)))"

definition verify_identity :: "crypto \<Rightarrow> inclusion_proof \<Rightarrow> signed_tree_head \<Rightarrow> identity \<Rightarrow> string \<Rightarrow>
    kt_error + unit" where
  "verify_identity C p sth i name =
     and_then (ok_or (identity_leaf_for C i name) LeafHashMismatch) (\<lambda>expected.
       if ip_leaf_hash p \<noteq> expected then Inl LeafHashMismatch else verify_against C p sth)"

section \<open>Codec laws of identities\<close>

definition wf_iks :: "(u8 \<times> bytes) list \<Rightarrow> bool" where
  "wf_iks iks \<longleftrightarrow> length iks < 2 ^ 64 \<and> sorted_wrt (<) (map fst iks) \<and> (\<forall>(k, v) \<in> set iks. length v < 2 ^ 64)"

definition wf_id :: "identity \<Rightarrow> bool" where
  "wf_id i \<longleftrightarrow> length (id_suites i) < 2 ^ 64 \<and> wf_iks (id_iks i) \<and>
     length (id_devices i) < 2 ^ 64 \<and> (\<forall>c \<in> set (id_devices i). wf_dc c) \<and> wf_kp (id_keypkgs i) \<and>
     length (cid_bytes (id_recovery i)) < 2 ^ 64 \<and>
     length (id_names i) < 2 ^ 64 \<and> (\<forall>n \<in> set (id_names i). rust_string n) \<and> wf_hash_opt (id_prev i) \<and>
     length (id_sig i) < 2 ^ 64 \<and> (\<forall>s \<in> set (id_sig i). length s < 2 ^ 64)"

lemma ucast_u8_less_iff: "(ucast (a :: u8) :: u64) < ucast b \<longleftrightarrow> a < b"
  by (simp add: word_less_nat_alt)

lemma iks_loop_iff:
  assumes "sorted_wrt (<) (map fst ps)" and "\<forall>k \<in> fst ` set m. \<forall>k' \<in> fst ` set ps. ucast k < k'"
  shows "iks_loop ps m = Inr r \<longleftrightarrow> (\<exists>l. r = m @ l \<and> ps = map (\<lambda>(k, v). (ucast k, Bytes v)) l)"
  using assms
proof (induction ps arbitrary: m)
  case Nil
  then show ?case by auto
next
  case (Cons p ps)
  obtain k v where p: "p = (k, v)" by fastforce
  show ?case
  proof (cases "k \<le> 0xFF \<and> (\<exists>b. v = Bytes b)")
    case False
    then show ?thesis
      by (auto simp: p as_bytes_def u8_as_u64_le split: cv.splits)
  next
    case True
    then obtain b where v: "v = Bytes b" by blast
    let ?k = "ucast k :: u8"
    have k: "ucast ?k = k" using True by (simp add: u64_cast_small)
    have "\<forall>k' \<in> fst ` set m. k' < ?k"
      using Cons.prems(2) k by (auto simp: p simp flip: ucast_u8_less_iff)
    then have ins: "btree_insert ?k b m = m @ [(?k, b)]" by (rule btree_insert_last)
    have "iks_loop (p # ps) m = Inr r \<longleftrightarrow> (\<exists>l. r = (m @ [(?k, b)]) @ l \<and> ps = map (\<lambda>(k, v). (ucast k, Bytes v)) l)"
      using True Cons.prems Cons.IH [of "m @ [(?k, b)]"] k by (auto simp: p v ins coercion_simps)
    also have "\<dots> \<longleftrightarrow> (\<exists>l. r = m @ l \<and> p # ps = map (\<lambda>(k, v). (ucast k, Bytes v)) l)"
      using k by (auto simp: p v Cons_eq_map_conv)
    finally show ?thesis .
  qed
qed

lemma iks_from_cv_iff:
  assumes "canon c"
  shows "iks_from_cv c = Inr iks \<longleftrightarrow> c = iks_to_cv iks"
  using assms
  by (cases c) (auto simp: iks_from_cv_def fields_from_cv_def fields_into_pairs_def iks_to_cv_def iks_loop_iff)

lemma canon_iks [simp]: "canon (iks_to_cv iks) \<longleftrightarrow> wf_iks iks"
proof -
  have "sorted_wrt (<) (map (fst \<circ> (\<lambda>(k, v). (ucast k :: u64, Bytes v))) iks) \<longleftrightarrow> sorted_wrt (<) (map fst iks)"
    by (simp add: sorted_wrt_map comp_def case_prod_unfold ucast_u8_less_iff)
  then show ?thesis by (auto simp: iks_to_cv_def wf_iks_def)
qed

lemma iks_from_to [wire_simps]: "wf_iks iks \<Longrightarrow> iks_from_cv (iks_to_cv iks) = Inr iks"
  using iks_from_cv_iff [of "iks_to_cv iks" iks] by simp

lemma iks_to_cv_inject [simp]: "iks_to_cv a = iks_to_cv b \<longleftrightarrow> a = b"
proof -
  have "inj (\<lambda>(k :: u8, v). (ucast k :: u64, Bytes v))"
    by (auto simp: inj_def) (metis ucast_ucast_u8_u64)
  then show ?thesis by (simp add: iks_to_cv_def inj_map_eq_map)
qed

lemma fits_iks [simp]: "d < 64 \<Longrightarrow> fits_depth d (iks_to_cv iks)"
  by (auto simp: iks_to_cv_def)


interpretation dev: cv_object "dc_to_cv True" dc_from_cv wf_dc 2
  by (rule dc_cv_object) simp

lemma devs_to_from:
  assumes "as_list dc_from_cv v = Inr xs" "canon v" "fits_depth (Suc 0) v"
  shows "length xs < 2 ^ 64 \<and> (\<forall>x \<in> set xs. wf_dc x) \<and> v = Array (map (dc_to_cv True) xs)"
  using dev.list_to_from [of v xs 1] assms by simp

lemma kp_to_from: "kp_from_cv c = Inr x \<Longrightarrow> canon c \<Longrightarrow> fits_depth (Suc 0) c \<Longrightarrow> wf_kp x \<and> c = kp_to_cv x"
  using kp.to_from_cv [of c x] by simp

lemma iks_to_from: "iks_from_cv c = Inr x \<Longrightarrow> canon c \<Longrightarrow> wf_iks x \<and> c = iks_to_cv x"
  using iks_from_cv_iff [of c x] by auto

interpretation id: signed_object "id_to_cv True" id_from_cv wf_id "id_to_cv False" "id_sig_update (\<lambda>_. [])"
proof
  fix i
  assume wf: "wf_id i"
  have "canon (Array (map (dc_to_cv True) (id_devices i)))" "fits_depth (Suc 0) (Array (map (dc_to_cv True) (id_devices i)))"
    "canon (kp_to_cv (id_keypkgs i))" "fits_depth (Suc 0) (kp_to_cv (id_keypkgs i))"
    using wf dev.list_canon [of "id_devices i"] dev.list_fits [of "id_devices i" 1]
      kp.canon_to_cv [of "id_keypkgs i"] kp.fits_to_cv [of "id_keypkgs i"] by (simp_all add: wf_id_def)
  with wf show "canon (id_to_cv True i)" "fits_depth 0 (id_to_cv True i)"
    "canon (id_to_cv False i)" "fits_depth 0 (id_to_cv False i)"
    by (cases "id_prev i"; simp add: id_to_cv_def wf_id_def wf_hash_opt_def)+
  show "id_from_cv (id_to_cv True i) = Inr i"
    using wf dev.list_from_to [of "id_devices i"] kp.from_to_cv [of "id_keypkgs i"]
    by (cases "id_prev i") (simp_all add: id_from_cv_def id_to_cv_def wf_id_def wire_simps)
next
  fix v i
  assume v: "canon v" "fits_depth 0 v" "id_from_cv v = Inr i"
  have "v = id_to_cv True i \<and> (\<forall>c \<in> set (id_devices i). wf_dc c) \<and> wf_kp (id_keypkgs i) \<and> length (id_devices i) < 2 ^ 64"
    unfolding id_to_cv_def
    by (rule read_fields_canonE [OF v(3) [unfolded id_from_cv_def] v(1,2)],
        ((erule (1) req_as_okE)+, erule (1) opt_as_okE; ((erule (1) req_as_okE)+,
          auto dest!: devs_to_from kp_to_from iks_to_from simp del: canon.simps fits_depth.simps))[1],
        auto split: option.splits)
  then show "wf_id i \<and> id_to_cv True i = v"
    using v(1) by (auto simp: id_to_cv_def wf_id_def wf_hash_opt_def split: option.splits)
next
  fix x y
  assume "wf_id x" "wf_id y" "id_to_cv False x = id_to_cv False y"
  then show "x\<lparr>id_sig := []\<rparr> = y\<lparr>id_sig := []\<rparr>"
    using dev.list_inj [of "id_devices x" "id_devices y"] kp.to_cv_inj [of "id_keypkgs x" "id_keypkgs y"]
    by (cases x; cases y) (auto simp: id_to_cv_def wf_id_def split: option.splits)
qed

end
