(* ===== verification/Recovery.thy ===== *)
theory Recovery
  imports Identity
begin

text \<open>
  Recovery policies (\<^verbatim>\<open>identity.rs\<close>, second part): recovery methods, threshold predicates,
  \<open>RecoveryPolicy\<close> with its rollback guard, the weakening detectors and the guard
  \<open>authorize_recovery_change\<close> (guardian quorum, veto, 72-hour window).

  Counters are machine integers: \<open>count_quorum\<close> returns a \<open>usize\<close>, modelled as a natural number
  (a list length), which the code casts to \<open>u32\<close>.
\<close>

definition RECOVERY_POLICY_DS :: bytes where
  "RECOVERY_POLICY_DS = ds_tag ''DMTAP-v0/recovery-policy''"

section \<open>Recovery methods\<close>

datatype recovery_method =
    Phrase (recovery_key: bytes)
  | Device (device_key: bytes) (label: string)
  | Social (guardians: "bytes list") (sthreshold: u8)

fun rm_to_cv :: "recovery_method \<Rightarrow> cv" where
  "rm_to_cv (Phrase rk) = Map [(0, U64 1), (1, Bytes rk)]"
| "rm_to_cv (Device dk l) = Map [(0, U64 2), (1, Bytes dk), (2, Text l)]"
| "rm_to_cv (Social gs t) = Map [(0, U64 3), (1, Array (map Bytes gs)), (2, U64 (ucast t))]"

definition rm_from_cv :: "cv \<Rightarrow> cbor_error + recovery_method" where
  "rm_from_cv = read_fields (
     req_as as_u64 0 (\<lambda>disc.
       if disc = 1 then req_as as_bytes 1 (\<lambda>rk. finish (Phrase rk))
       else if disc = 2 then req_as as_bytes 1 (\<lambda>dk. req_as as_text 2 (\<lambda>l. finish (Device dk l)))
       else if disc = 3 then
         req_as (as_list as_bytes) 1 (\<lambda>gs. req_as as_u8 2 (\<lambda>t. finish (Social gs t)))
       else (\<lambda>_. Inl (UnknownDiscriminant disc))))"

section \<open>Thresholds\<close>

datatype method_predicate = PPhrase | PDevices u8 | PGuardians u8 | PIk

record threshold =
  any_of :: "method_predicate list"

fun mp_kind :: "method_predicate \<Rightarrow> u8" where
  "mp_kind PPhrase = 0"
| "mp_kind (PDevices _) = 1"
| "mp_kind (PGuardians _) = 2"
| "mp_kind PIk = 3"

fun mp_count :: "method_predicate \<Rightarrow> u8" where
  "mp_count (PDevices n) = n"
| "mp_count (PGuardians n) = n"
| "mp_count PPhrase = 1"
| "mp_count PIk = 1"

definition at_least_as_strong_as :: "threshold \<Rightarrow> threshold \<Rightarrow> bool" where
  "at_least_as_strong_as self other =
     list_all (\<lambda>p. list_all (\<lambda>q. mp_count q \<ge> mp_count p)
                     (filter (\<lambda>q. mp_kind q = mp_kind p) (any_of self))) (any_of other)"

fun mp_method :: "method_predicate \<Rightarrow> string \<times> u64" where
  "mp_method PPhrase = (''phrase'', 1)"
| "mp_method (PDevices n) = (''device'', ucast n)"
| "mp_method (PGuardians n) = (''social'', ucast n)"
| "mp_method PIk = (''ik'', 1)"

definition mp_to_cv :: "method_predicate \<Rightarrow> cv" where
  "mp_to_cv p = (case mp_method p of (m, n) \<Rightarrow> Map [(1, Text m), (2, U64 n)])"

definition mp_of :: "string \<Rightarrow> u64 \<Rightarrow> cbor_error + method_predicate" where
  "mp_of m cnt =
     (if cnt \<le> 0xFF then
        (let n = ucast cnt :: u8 in
         if n < 1 then Inl IntRange
         else if m = ''phrase'' then Inr PPhrase
         else if m = ''device'' then Inr (PDevices n)
         else if m = ''social'' then Inr (PGuardians n)
         else if m = ''ik'' then (if n = 1 then Inr PIk else Inl IntRange)
         else Inl TypeMismatch)
      else Inl IntRange)"

definition mp_from_cv :: "cv \<Rightarrow> cbor_error + method_predicate" where
  "mp_from_cv = read_fields (
     req_as as_text 1 (\<lambda>m.
     req_as as_u64 2 (\<lambda>cnt f.
       and_then (fields_deny_unknown f) (\<lambda>_. mp_of m cnt))))"

definition th_to_cv :: "threshold \<Rightarrow> cv" where
  "th_to_cv t = Map [(1, Array (map mp_to_cv (any_of t)))]"

definition th_from_cv :: "cv \<Rightarrow> cbor_error + threshold" where
  "th_from_cv = read_fields (req_as (as_list mp_from_cv) 1 (\<lambda>ps. finish \<lparr>any_of = ps\<rparr>))"

section \<open>Policies\<close>

record recovery_policy =
  rp_suite :: suite
  rp_ik :: bytes
  rp_version :: u64
  rp_methods :: "recovery_method list"
  rp_recover_threshold :: threshold
  rp_rotate_threshold :: threshold
  rp_prev :: "content_id option"
  rp_ts :: u64
  rp_sig :: bytes

definition rp_to_cv :: "bool \<Rightarrow> recovery_policy \<Rightarrow> cv" where
  "rp_to_cv include_sig p =
     Map ([(1, suite_cv (rp_suite p)),
           (2, Bytes (rp_ik p)),
           (3, U64 (rp_version p)),
           (4, Array (map rm_to_cv (rp_methods p))),
           (5, th_to_cv (rp_recover_threshold p)),
           (6, th_to_cv (rp_rotate_threshold p))]
          @ (case rp_prev p of None \<Rightarrow> [] | Some h \<Rightarrow> [(7, hash_cv h)])
          @ [(8, U64 (rp_ts p))]
          @ (if include_sig then [(9, Bytes (rp_sig p))] else []))"

definition rp_signing_body :: "recovery_policy \<Rightarrow> bytes" where
  "rp_signing_body p = encode (rp_to_cv False p)"

definition rp_det_cbor :: "recovery_policy \<Rightarrow> bytes" where
  "rp_det_cbor p = encode (rp_to_cv True p)"

definition rp_from_cv :: "cv \<Rightarrow> cbor_error + recovery_policy" where
  "rp_from_cv = read_fields (
     req_as suite_from_cv 1 (\<lambda>suite.
     req_as as_bytes 2 (\<lambda>ik.
     req_as as_u64 3 (\<lambda>version.
     req_as (as_list rm_from_cv) 4 (\<lambda>methods.
     req_as th_from_cv 5 (\<lambda>recover_threshold.
     req_as th_from_cv 6 (\<lambda>rotate_threshold.
     opt_as as_hash 7 (\<lambda>prev.
     req_as as_u64 8 (\<lambda>ts.
     req_as as_bytes 9 (\<lambda>sig.
       finish \<lparr>rp_suite = suite, rp_ik = ik, rp_version = version, rp_methods = methods,
         rp_recover_threshold = recover_threshold, rp_rotate_threshold = rotate_threshold, rp_prev = prev,
         rp_ts = ts, rp_sig = sig\<rparr>))))))))))"

definition rp_from_det_cbor :: "bytes \<Rightarrow> identity_error + recovery_policy" where
  "rp_from_det_cbor b = map_err BadEncoding (from_bytes rp_from_cv b)"

definition rp_sign :: "crypto \<Rightarrow> identity_key \<Rightarrow> recovery_policy \<Rightarrow> recovery_policy" where
  "rp_sign C ik p = p\<lparr>rp_sig := sign_domain C ik RECOVERY_POLICY_DS (rp_signing_body p)\<rparr>"

definition rp_verify :: "crypto \<Rightarrow> recovery_policy \<Rightarrow> identity_error + unit" where
  "rp_verify C p =
     (if \<not> is_supported (rp_suite p) then Inl (UnsupportedSuite (suite_as_u8 (rp_suite p)))
      else if any_of (rp_rotate_threshold p) = [] then Inl (IdMalformed ''rotate_threshold must not be empty'')
      else if \<not> at_least_as_strong_as (rp_rotate_threshold p) (rp_recover_threshold p)
      then Inl RecoveryThresholdInvalid
      else verify_domain C (rp_ik p) RECOVERY_POLICY_DS (rp_signing_body p) (rp_sig p))"

datatype recovery_guard_error =
  WeakeningUnquorumed | VetoWindowActive | Vetoed | IncompleteHistory | StaleRollback

fun recovery_guard_error_code :: "recovery_guard_error \<Rightarrow> u16" where
  "recovery_guard_error_code WeakeningUnquorumed = 0x010E"
| "recovery_guard_error_code IncompleteHistory = 0x010E"
| "recovery_guard_error_code VetoWindowActive = 0x010F"
| "recovery_guard_error_code Vetoed = 0x010F"
| "recovery_guard_error_code StaleRollback = 0x0105"

definition check_rollback :: "recovery_policy \<Rightarrow> u64 option \<Rightarrow> recovery_guard_error + unit" where
  "check_rollback p last_pinned =
     (case last_pinned of
        Some v \<Rightarrow> if rp_version p \<le> v then Inl StaleRollback else Inr ()
      | None \<Rightarrow> Inr ())"

definition rp_content_id :: "crypto \<Rightarrow> recovery_policy \<Rightarrow> content_id" where
  "rp_content_id C p = content_id_of C (rp_det_cbor p)"

section \<open>Guardian signatures\<close>

definition RECOVERY_VETO_WINDOW_MS :: u64 where
  "RECOVERY_VETO_WINDOW_MS = 72 * 60 * 60 * 1000"

definition RECOVERY_APPROVAL_DS :: bytes where
  "RECOVERY_APPROVAL_DS = ds_tag ''DMTAP-v0/recovery-approval''"

definition RECOVERY_VETO_DS :: bytes where
  "RECOVERY_VETO_DS = ds_tag ''DMTAP-v0/recovery-veto''"

record guardian_approval =
  ga_guardian :: bytes
  ga_sig :: bytes

definition sign_recovery_approval :: "crypto \<Rightarrow> identity_key \<Rightarrow> recovery_policy \<Rightarrow> guardian_approval" where
  "sign_recovery_approval C g nxt =
     \<lparr>ga_guardian = key_public C g,
      ga_sig = sign_domain C g RECOVERY_APPROVAL_DS (cid_bytes (rp_content_id C nxt))\<rparr>"

definition sign_recovery_veto :: "crypto \<Rightarrow> identity_key \<Rightarrow> recovery_policy \<Rightarrow> guardian_approval" where
  "sign_recovery_veto C g nxt =
     \<lparr>ga_guardian = key_public C g,
      ga_sig = sign_domain C g RECOVERY_VETO_DS (cid_bytes (rp_content_id C nxt))\<rparr>"

text \<open>The loop of \<open>count_quorum\<close>: the guardians counted so far.\<close>

fun quorum_loop :: "crypto \<Rightarrow> bytes list \<Rightarrow> bytes \<Rightarrow> bytes \<Rightarrow> guardian_approval list \<Rightarrow> bytes list \<Rightarrow> bytes list" where
  "quorum_loop C gs ds preimage [] counted = counted"
| "quorum_loop C gs ds preimage (s # sigs) counted =
     (if \<not> List.member gs (ga_guardian s) then quorum_loop C gs ds preimage sigs counted
      else if List.member counted (ga_guardian s) then quorum_loop C gs ds preimage sigs counted
      else if verify_domain C (ga_guardian s) ds preimage (ga_sig s) = Inr ()
      then quorum_loop C gs ds preimage sigs (counted @ [ga_guardian s])
      else quorum_loop C gs ds preimage sigs counted)"

definition count_quorum :: "crypto \<Rightarrow> bytes list \<Rightarrow> guardian_approval list \<Rightarrow> bytes \<Rightarrow> bytes \<Rightarrow> nat" where
  "count_quorum C gs sigs ds preimage = length (quorum_loop C gs ds preimage sigs [])"

section \<open>Weakening\<close>

fun predicate_count :: "method_predicate \<Rightarrow> u32" where
  "predicate_count PPhrase = 1"
| "predicate_count PIk = 1"
| "predicate_count (PDevices n) = ucast n"
| "predicate_count (PGuardians n) = ucast n"

text \<open>\<open>Iterator::min\<close> with \<open>unwrap_or(0)\<close>\<close>

fun iter_min :: "'a::linorder list \<Rightarrow> 'a option" where
  "iter_min [] = None"
| "iter_min (x # xs) = (case iter_min xs of None \<Rightarrow> Some x | Some y \<Rightarrow> Some (min x y))"

definition threshold_min :: "threshold \<Rightarrow> u32" where
  "threshold_min t = (case iter_min (map predicate_count (any_of t)) of None \<Rightarrow> 0 | Some m \<Rightarrow> m)"

fun method_at_least_as_strong :: "recovery_method \<Rightarrow> recovery_method \<Rightarrow> bool" where
  "method_at_least_as_strong (Phrase a) (Phrase b) = (a = b)"
| "method_at_least_as_strong (Device ka la) (Device kb lb) = (la = lb \<and> ka = kb)"
| "method_at_least_as_strong (Social pg pt) (Social cg ct) = (ct \<ge> pt \<and> list_all (\<lambda>g. List.member cg g) pg)"
| "method_at_least_as_strong _ _ = False"

definition recovery_change_is_weakening :: "recovery_policy \<Rightarrow> recovery_policy \<Rightarrow> bool" where
  "recovery_change_is_weakening prev nxt =
     (list_ex (\<lambda>pm. \<not> list_ex (\<lambda>nm. method_at_least_as_strong pm nm) (rp_methods nxt)) (rp_methods prev) \<or>
      threshold_min (rp_recover_threshold nxt) < threshold_min (rp_recover_threshold prev) \<or>
      threshold_min (rp_rotate_threshold nxt) < threshold_min (rp_rotate_threshold prev))"

definition recovery_change_is_weakening_vs_history :: "recovery_policy list \<Rightarrow> recovery_policy \<Rightarrow> bool" where
  "recovery_change_is_weakening_vs_history history nxt =
     (if history = [] then False
      else
        (let prev = last history in
         if recovery_change_is_weakening prev nxt then True
         else
           (let evicted = filter (\<lambda>m. \<not> list_ex (\<lambda>pm. pm = m) (rp_methods prev))
                            (concat (map rp_methods history))
            in list_ex (\<lambda>nm. list_ex (\<lambda>em. em = nm) evicted) (rp_methods nxt))))"

text \<open>The loop of \<open>verify_policy_chain\<close> over \<open>history.windows(2)\<close>.\<close>

fun chain_links :: "crypto \<Rightarrow> recovery_policy list \<Rightarrow> recovery_guard_error + unit" where
  "chain_links C (a # b # rest) =
     (if rp_prev b \<noteq> Some (rp_content_id C a) \<or> rp_version b \<le> rp_version a then Inl IncompleteHistory
      else chain_links C (b # rest))"
| "chain_links C _ = Inr ()"

definition verify_policy_chain :: "crypto \<Rightarrow> recovery_policy list \<Rightarrow> recovery_guard_error + unit" where
  "verify_policy_chain C history =
     (case history of
        [] \<Rightarrow> Inl IncompleteHistory
      | first # _ \<Rightarrow> if rp_prev first \<noteq> None then Inl IncompleteHistory else chain_links C history)"

text \<open>\<open>u64::saturating_add\<close>\<close>

definition saturating_add :: "u64 \<Rightarrow> u64 \<Rightarrow> u64" where
  "saturating_add a b = (if unat a + unat b < 2 ^ 64 then a + b else - 1)"

definition authorize_recovery_change :: "crypto \<Rightarrow> recovery_policy list \<Rightarrow> recovery_policy \<Rightarrow> bytes list \<Rightarrow>
    guardian_approval list \<Rightarrow> guardian_approval list \<Rightarrow> u64 \<Rightarrow> u64 \<Rightarrow> recovery_guard_error + unit" where
  "authorize_recovery_change C history nxt gs approvals vetoes announced_at now =
     and_then (verify_policy_chain C history) (\<lambda>_.
       if history = [] then Inl IncompleteHistory
       else
         (let prev = last history in
          if \<not> recovery_change_is_weakening_vs_history history nxt then Inr ()
          else
            (let n = length gs;
                 preimage = cid_bytes (rp_content_id C nxt);
                 approve_q = of_nat (count_quorum C gs approvals RECOVERY_APPROVAL_DS preimage) :: u32;
                 majority_min = of_nat n div 2 + 1 :: u32;
                 policy_min = threshold_min (rp_rotate_threshold prev);
                 required = max majority_min policy_min
             in
             if approve_q < required then Inl WeakeningUnquorumed
             else if count_quorum C gs vetoes RECOVERY_VETO_DS preimage * 2 > n then Inl Vetoed
             else if now < saturating_add announced_at RECOVERY_VETO_WINDOW_MS then Inl VetoWindowActive
             else Inr ())))"

section \<open>Codec laws\<close>

fun wf_rm :: "recovery_method \<Rightarrow> bool" where
  "wf_rm (Phrase rk) = (length rk < 2 ^ 64)"
| "wf_rm (Device dk l) = (length dk < 2 ^ 64 \<and> rust_string l)"
| "wf_rm (Social gs t) = (length gs < 2 ^ 64 \<and> (\<forall>g \<in> set gs. length g < 2 ^ 64))"

definition wf_th :: "threshold \<Rightarrow> bool" where
  "wf_th t \<longleftrightarrow> length (any_of t) < 2 ^ 64 \<and> (\<forall>p \<in> set (any_of t). mp_count p \<ge> 1)"

definition wf_rp :: "recovery_policy \<Rightarrow> bool" where
  "wf_rp p \<longleftrightarrow> length (rp_ik p) < 2 ^ 64 \<and> length (rp_methods p) < 2 ^ 64 \<and> (\<forall>m \<in> set (rp_methods p). wf_rm m) \<and>
     wf_th (rp_recover_threshold p) \<and> wf_th (rp_rotate_threshold p) \<and> wf_hash_opt (rp_prev p) \<and> length (rp_sig p) < 2 ^ 64"

interpretation rm: cv_object rm_to_cv rm_from_cv wf_rm 2
proof
  fix m
  assume "wf_rm m"
  then show "canon (rm_to_cv m)" "fits_depth 2 (rm_to_cv m)" by (cases m; simp)+
  show "rm_from_cv (rm_to_cv m) = Inr m" by (cases m) (simp_all add: rm_from_cv_def wire_simps)
next
  fix v m
  assume v: "canon v" "fits_depth 2 v" "rm_from_cv v = Inr m"
  let ?l = "case m of Phrase rk \<Rightarrow> [(0, U64 1), (1, Bytes rk)] | Device dk l \<Rightarrow> [(0, U64 2), (1, Bytes dk), (2, Text l)]
     | Social gs t \<Rightarrow> [(0, U64 3), (1, Array (map Bytes gs)), (2, U64 (ucast t))]"
  have "v = Map ?l \<and> True"
    by (rule read_fields_canonE [OF v(3) [unfolded rm_from_cv_def] v(1,2)])
      (auto elim!: req_as_okE split: if_splits recovery_method.splits)
  then have "v = rm_to_cv m" by (cases m) simp_all
  then show "wf_rm m \<and> rm_to_cv m = v" using v(1) by (cases m) auto
qed

lemma mp_to_cv_simps [simp]: "canon (mp_to_cv p)" "fits_depth d (mp_to_cv p) \<longleftrightarrow> d < 64"
  by (cases p; auto simp: mp_to_cv_def rust_string_def as_bytes_of_def)+

lemma mp_of_method: "mp_count p \<ge> 1 \<Longrightarrow> case_prod mp_of (mp_method p) = Inr p"
  by (cases p) (auto simp: mp_of_def u8_as_u64_le Let_def)

lemma mp_from_to: "mp_count p \<ge> 1 \<Longrightarrow> mp_from_cv (mp_to_cv p) = Inr p"
  using mp_of_method [of p]
  by (cases "mp_method p") (simp add: mp_from_cv_def mp_to_cv_def wire_simps fields_deny_unknown_def)

interpretation th: cv_writer th_to_cv th_from_cv wf_th 1
proof
  fix t
  assume "wf_th t"
  then show "canon (th_to_cv t)" "fits_depth 1 (th_to_cv t)" "th_from_cv (th_to_cv t) = Inr t"
    by (auto simp: th_to_cv_def th_from_cv_def wf_th_def wire_simps mp_from_to)
qed

interpretation rp: signed_writer "rp_to_cv True" rp_from_cv wf_rp "rp_to_cv False" "rp_sig_update (\<lambda>_. [])"
proof
  fix p
  assume wf: "wf_rp p"
  have "canon (Array (map rm_to_cv (rp_methods p)))" "fits_depth (Suc 0) (Array (map rm_to_cv (rp_methods p)))"
    using wf rm.list_canon [of "rp_methods p"] rm.list_fits [of "rp_methods p" 1] by (simp_all add: wf_rp_def)
  moreover have "canon (th_to_cv t)" "fits_depth (Suc 0) (th_to_cv t)" if "wf_th t" for t
    using th.canon_to_cv [OF that] th.fits_to_cv [OF that] by simp_all
  ultimately show "canon (rp_to_cv True p)" "fits_depth 0 (rp_to_cv True p)"
    "canon (rp_to_cv False p)" "fits_depth 0 (rp_to_cv False p)"
    using wf by (cases "rp_prev p"; simp add: rp_to_cv_def wf_rp_def wf_hash_opt_def)+
  show "rp_from_cv (rp_to_cv True p) = Inr p"
    using wf rm.list_from_to [of "rp_methods p"] th.from_to_cv
    by (cases "rp_prev p") (simp_all add: rp_from_cv_def rp_to_cv_def wf_rp_def wire_simps)
next
  fix x y
  assume "wf_rp x" "wf_rp y" "rp_to_cv False x = rp_to_cv False y"
  then show "x\<lparr>rp_sig := []\<rparr> = y\<lparr>rp_sig := []\<rparr>"
    using rm.list_inj [of "rp_methods x" "rp_methods y"] th.to_cv_inj
    by (cases x; cases y) (auto simp: rp_to_cv_def wf_rp_def split: option.splits)
qed

end
