(* ===== verification/Pub_Object.thy ===== *)
theory Pub_Object
  imports Wire_Err Merkle_Tags Mote_Wire Recovery
begin

text \<open>
  The public objects of \<^verbatim>\<open>pubobj.rs\<close>: plaintext-addressed manifests, signed announcements, feed
  entries and feed heads, with their canonical bytes, their decoders (whose error type is
  \<open>PubError\<close>) and their verification.  A panic of the tree fold on an empty list is the value \<open>None\<close>.
  Topic labels are valid UTF-8 strings, kept as their bytes: the characters the grammar forbids are all
  ASCII, so the byte scan below is the character scan of the code.
\<close>

datatype pub_error = PubUnsupportedVersion | PubManifestKeyPresent | PubManifestTypeMismatch | PubAnnounceSigInvalid
  | PubAnnounceIdMismatch | PubFeedSigInvalid | PubFeedRollback | PubFeedChainBroken | PubManifestHashMismatch
  | PubChunkHashMismatch | PubSupersedeInvalid | PubNotServed | PubServeQuota | PubSubscriptionSigInvalid
  | PubSubscriptionExpired | PubSubscriptionRevoked | PubSubscriptionRevokeInvalid | PubSubscribeQuota
  | PubHintRateLimited | PubCbor cbor_error

fun pub_error_code :: "pub_error \<Rightarrow> u16" where
  "pub_error_code PubUnsupportedVersion = 0x0901"
| "pub_error_code PubManifestKeyPresent = 0x0902"
| "pub_error_code PubManifestTypeMismatch = 0x0903"
| "pub_error_code PubAnnounceSigInvalid = 0x0904"
| "pub_error_code PubAnnounceIdMismatch = 0x0905"
| "pub_error_code PubFeedSigInvalid = 0x0906"
| "pub_error_code PubFeedRollback = 0x0907"
| "pub_error_code PubFeedChainBroken = 0x0908"
| "pub_error_code PubManifestHashMismatch = 0x0909"
| "pub_error_code PubChunkHashMismatch = 0x090A"
| "pub_error_code PubSupersedeInvalid = 0x090B"
| "pub_error_code PubNotServed = 0x090C"
| "pub_error_code PubServeQuota = 0x090D"
| "pub_error_code PubSubscriptionSigInvalid = 0x090E"
| "pub_error_code PubSubscriptionExpired = 0x090F"
| "pub_error_code PubSubscriptionRevoked = 0x0910"
| "pub_error_code PubSubscriptionRevokeInvalid = 0x0911"
| "pub_error_code PubSubscribeQuota = 0x0912"
| "pub_error_code PubHintRateLimited = 0x0913"
| "pub_error_code (PubCbor _) = 0x0900"

fun pub_error_name :: "pub_error \<Rightarrow> string" where
  "pub_error_name PubUnsupportedVersion = ''ERR_PUB_UNSUPPORTED_VERSION''"
| "pub_error_name PubManifestKeyPresent = ''ERR_PUB_MANIFEST_KEY_PRESENT''"
| "pub_error_name PubManifestTypeMismatch = ''ERR_PUB_MANIFEST_TYPE_MISMATCH''"
| "pub_error_name PubAnnounceSigInvalid = ''ERR_PUB_ANNOUNCE_SIG_INVALID''"
| "pub_error_name PubAnnounceIdMismatch = ''ERR_PUB_ANNOUNCE_ID_MISMATCH''"
| "pub_error_name PubFeedSigInvalid = ''ERR_PUB_FEED_SIG_INVALID''"
| "pub_error_name PubFeedRollback = ''ERR_PUB_FEED_ROLLBACK''"
| "pub_error_name PubFeedChainBroken = ''ERR_PUB_FEED_CHAIN_BROKEN''"
| "pub_error_name PubManifestHashMismatch = ''ERR_PUB_MANIFEST_HASH_MISMATCH''"
| "pub_error_name PubChunkHashMismatch = ''ERR_PUB_CHUNK_HASH_MISMATCH''"
| "pub_error_name PubSupersedeInvalid = ''ERR_PUB_SUPERSEDE_INVALID''"
| "pub_error_name PubNotServed = ''ERR_PUB_NOT_SERVED''"
| "pub_error_name PubServeQuota = ''ERR_PUB_SERVE_QUOTA''"
| "pub_error_name PubSubscriptionSigInvalid = ''ERR_PUB_SUBSCRIPTION_SIG_INVALID''"
| "pub_error_name PubSubscriptionExpired = ''ERR_PUB_SUBSCRIPTION_EXPIRED''"
| "pub_error_name PubSubscriptionRevoked = ''ERR_PUB_SUBSCRIPTION_REVOKED''"
| "pub_error_name PubSubscriptionRevokeInvalid = ''ERR_PUB_SUBSCRIPTION_REVOKE_INVALID''"
| "pub_error_name PubSubscribeQuota = ''ERR_PUB_SUBSCRIBE_QUOTA''"
| "pub_error_name PubHintRateLimited = ''ERR_PUB_HINT_RATE_LIMITED''"
| "pub_error_name (PubCbor _) = ''ERR_PUB_CBOR''"

definition PUB_MANIFEST_DS :: bytes where "PUB_MANIFEST_DS = ds_tag ''DMTAP-PUB-v0/manifest''"
definition PUB_ANNOUNCE_DS :: bytes where "PUB_ANNOUNCE_DS = ds_tag ''DMTAP-PUB-v0/announce''"
definition PUB_FEED_DS :: bytes where "PUB_FEED_DS = ds_tag ''DMTAP-PUB-v0/feed''"

definition PUB_V0 :: u8 where "PUB_V0 = 0"

section \<open>Plaintext addresses\<close>

definition chunk_hash :: "crypto \<Rightarrow> bytes \<Rightarrow> content_id" where
  "chunk_hash C plaintext = content_id_of C plaintext"

definition pub_leaf_pre :: "bytes \<Rightarrow> bytes" where
  "pub_leaf_pre h = PUB_MANIFEST_DS @ [0x00] @ h"

definition pub_leaf :: "crypto \<Rightarrow> bytes \<Rightarrow> bytes" where
  "pub_leaf C h = blake3 C (pub_leaf_pre h)"

definition pub_node_pre :: "bytes \<Rightarrow> bytes \<Rightarrow> bytes" where
  "pub_node_pre l r = PUB_MANIFEST_DS @ [0x01] @ l @ r"

definition pub_node :: "crypto \<Rightarrow> bytes \<Rightarrow> bytes \<Rightarrow> bytes" where
  "pub_node C l r = blake3 C (pub_node_pre l r)"

definition pub_manifest_root :: "crypto \<Rightarrow> content_id list \<Rightarrow> content_id option" where
  "pub_manifest_root C chunks =
     (let ls = map (\<lambda>c. pub_leaf C (cid_bytes c)) chunks in
      if ls = [] then None else Some (ContentId (MH_BLAKE3_256 # pub_mth (pub_node C) ls)))"

definition sealed_leaf_pre :: "bytes \<Rightarrow> bytes" where
  "sealed_leaf_pre h = 0x00 # h"

definition sealed_node_pre :: "bytes \<Rightarrow> bytes \<Rightarrow> bytes" where
  "sealed_node_pre l r = 0x01 # l @ r"

definition sealed_style_root :: "crypto \<Rightarrow> content_id list \<Rightarrow> content_id option" where
  "sealed_style_root C chunks =
     (let ls = map (\<lambda>c. blake3 C (sealed_leaf_pre (cid_bytes c))) chunks in
      if ls = [] then None
      else Some (ContentId (MH_BLAKE3_256 # pub_mth (\<lambda>l r. blake3 C (sealed_node_pre l r)) ls)))"

definition pub_suite :: "cv \<Rightarrow> pub_error + suite" where
  "pub_suite c =
     and_then (map_err PubCbor (as_u8 c)) (\<lambda>b.
     and_then (ok_or (suite_from_u8 b) PubUnsupportedVersion) (\<lambda>s.
       if \<not> is_supported s then Inl PubUnsupportedVersion else Inr s))"

definition TOPIC_LABEL_MAX_BYTES :: nat where "TOPIC_LABEL_MAX_BYTES = 128"

definition topic_char_forbidden :: "char \<Rightarrow> bool" where
  "topic_char_forbidden c \<longleftrightarrow> of_char c < (0x20 :: nat) \<or> c = CHR ''/'' \<or> of_char c = (0x7F :: nat)"

definition validate_topic_label :: "string \<Rightarrow> pub_error + unit" where
  "validate_topic_label lbl =
     (if length lbl > TOPIC_LABEL_MAX_BYTES then Inl (PubCbor TypeMismatch)
      else if list_ex topic_char_forbidden lbl then Inl (PubCbor TypeMismatch)
      else Inr ())"

section \<open>Manifests\<close>

record pub_manifest =
  pm_id :: content_id
  pm_size :: u64
  pm_chunk_sz :: u32
  pm_chunks :: "content_id list"
  pm_suite :: suite

definition pm_new :: "crypto \<Rightarrow> u64 \<Rightarrow> u32 \<Rightarrow> content_id list \<Rightarrow> suite \<Rightarrow> pub_manifest option" where
  "pm_new C sz chunk_sz chunks s =
     map_option (\<lambda>i. \<lparr>pm_id = i, pm_size = sz, pm_chunk_sz = chunk_sz, pm_chunks = chunks, pm_suite = s\<rparr>)
       (pub_manifest_root C chunks)"

definition pm_to_cv :: "pub_manifest \<Rightarrow> cv" where
  "pm_to_cv m = Map [(1, hash_cv (pm_id m)), (2, U64 (pm_size m)), (3, U64 (ucast (pm_chunk_sz m))),
     (4, Array (map hash_cv (pm_chunks m))), (6, suite_cv (pm_suite m))]"

definition pm_det_cbor :: "pub_manifest \<Rightarrow> bytes" where
  "pm_det_cbor m = encode (pm_to_cv m)"

definition pm_merkle_root :: "crypto \<Rightarrow> pub_manifest \<Rightarrow> content_id option" where
  "pm_merkle_root C m = pub_manifest_root C (pm_chunks m)"

definition pm_verify :: "crypto \<Rightarrow> pub_manifest \<Rightarrow> pub_error + unit" where
  "pm_verify C m =
     (if pm_chunks m = [] then Inl (PubCbor ManifestEmptyChunks)
      else if Some (pm_id m) \<noteq> pm_merkle_root C m then Inl PubManifestHashMismatch
      else Inr ())"

definition pm_from_cv :: "cv \<Rightarrow> pub_error + pub_manifest" where
  "pm_from_cv = wread PubCbor (\<lambda>f.
     if fields_has f 5 then Inl PubManifestKeyPresent
     else
       (wreq PubCbor (lift_err PubCbor as_hash) 1 (\<lambda>i.
        wreq PubCbor (lift_err PubCbor as_u64) 2 (\<lambda>sz.
        wreq PubCbor (lift_err PubCbor as_u32) 3 (\<lambda>chunk_sz.
        wreq PubCbor (lift_err PubCbor (as_list as_hash)) 4 (\<lambda>chunks f.
          if chunks = [] then Inl (PubCbor ManifestEmptyChunks)
          else
            wreq PubCbor pub_suite 6 (\<lambda>s.
              wfinish PubCbor (Inr \<lparr>pm_id = i, pm_size = sz, pm_chunk_sz = chunk_sz, pm_chunks = chunks,
                pm_suite = s\<rparr>)) f))))) f)"

definition pm_from_det_cbor :: "bytes \<Rightarrow> pub_error + pub_manifest" where
  "pm_from_det_cbor = wfrom_bytes PubCbor pm_from_cv"

section \<open>Announcements\<close>

record pub_announce =
  pa_v :: u8
  pa_suite :: suite
  pa_publisher :: bytes
  pa_roots :: "content_id list"
  pa_meta :: "(string \<times> cv) list"
  pa_supersedes :: "content_id option"
  pa_ts :: u64
  pa_signer :: bytes
  pa_sig :: bytes

definition pa_to_cv :: "bool \<Rightarrow> pub_announce \<Rightarrow> cv" where
  "pa_to_cv include_sig a = Map (
     [(1, U64 (ucast (pa_v a))), (2, suite_cv (pa_suite a)), (3, Bytes (pa_publisher a)),
      (4, Array (map hash_cv (pa_roots a))), (5, TextMap (pa_meta a))]
     @ (case pa_supersedes a of None \<Rightarrow> [] | Some s \<Rightarrow> [(6, hash_cv s)])
     @ [(7, U64 (pa_ts a)), (8, Bytes (pa_signer a))]
     @ (if include_sig then [(9, Bytes (pa_sig a))] else []))"

definition pa_signing_preimage :: "pub_announce \<Rightarrow> bytes" where
  "pa_signing_preimage a = encode (pa_to_cv False a)"

definition pa_det_cbor :: "pub_announce \<Rightarrow> bytes" where
  "pa_det_cbor a = encode (pa_to_cv True a)"

definition announce_id :: "crypto \<Rightarrow> pub_announce \<Rightarrow> content_id" where
  "announce_id C a = content_id_of C (pa_det_cbor a)"

definition pa_sign :: "crypto \<Rightarrow> identity_key \<Rightarrow> pub_announce \<Rightarrow> pub_announce" where
  "pa_sign C k a = a\<lparr>pa_sig := sign_domain C k PUB_ANNOUNCE_DS (pa_signing_preimage a)\<rparr>"

definition pa_verify :: "crypto \<Rightarrow> pub_announce \<Rightarrow> content_id \<Rightarrow> pub_error + unit" where
  "pa_verify C a fetched_by =
     (if pa_v a \<noteq> PUB_V0 \<or> \<not> is_supported (pa_suite a) then Inl PubUnsupportedVersion
      else if announce_id C a \<noteq> fetched_by then Inl PubAnnounceIdMismatch
      else
        and_then (map_err (\<lambda>_. PubAnnounceSigInvalid)
          (verify_domain C (pa_signer a) PUB_ANNOUNCE_DS (pa_signing_preimage a) (pa_sig a))) (\<lambda>_.
        if pa_signer a \<noteq> pa_publisher a then Inl PubAnnounceSigInvalid else Inr ()))"

definition pa_verify_with_cert :: "crypto \<Rightarrow> pub_announce \<Rightarrow> content_id \<Rightarrow> device_cert \<Rightarrow> pub_error + unit" where
  "pa_verify_with_cert C a fetched_by cert =
     (if pa_v a \<noteq> PUB_V0 \<or> \<not> is_supported (pa_suite a) then Inl PubUnsupportedVersion
      else if announce_id C a \<noteq> fetched_by then Inl PubAnnounceIdMismatch
      else
        and_then (map_err (\<lambda>_. PubAnnounceSigInvalid)
          (verify_domain C (pa_signer a) PUB_ANNOUNCE_DS (pa_signing_preimage a) (pa_sig a))) (\<lambda>_.
        if pa_signer a = pa_publisher a then Inr ()
        else
          and_then (map_err (\<lambda>_. PubAnnounceSigInvalid) (dc_verify C cert)) (\<lambda>_.
          if dc_ik cert \<noteq> pa_publisher a \<or> dc_device_key cert \<noteq> pa_signer a then Inl PubAnnounceSigInvalid
          else Inr ())))"

definition pa_from_cv :: "cv \<Rightarrow> pub_error + pub_announce" where
  "pa_from_cv = wread PubCbor (
     wreq PubCbor (lift_err PubCbor as_u8) 1 (\<lambda>v f.
       if v \<noteq> PUB_V0 then Inl PubUnsupportedVersion
       else
         (wreq PubCbor pub_suite 2 (\<lambda>s.
          wreq PubCbor (lift_err PubCbor as_bytes) 3 (\<lambda>publisher.
          wreq PubCbor (lift_err PubCbor (as_list as_hash)) 4 (\<lambda>roots f.
            if roots = [] then Inl (PubCbor TypeMismatch)
            else
              (wreq PubCbor (lift_err PubCbor ext_from_cv) 5 (\<lambda>meta.
               wopt (lift_err PubCbor as_hash) 6 (\<lambda>supersedes.
               wreq PubCbor (lift_err PubCbor as_u64) 7 (\<lambda>ts.
               wreq PubCbor (lift_err PubCbor as_bytes) 8 (\<lambda>signer.
               wreq PubCbor (lift_err PubCbor as_bytes) 9 (\<lambda>sig.
                 wfinish PubCbor (Inr \<lparr>pa_v = v, pa_suite = s, pa_publisher = publisher, pa_roots = roots,
                   pa_meta = meta, pa_supersedes = supersedes, pa_ts = ts, pa_signer = signer, pa_sig = sig\<rparr>)))))))
                f)))) f))"

definition pa_from_det_cbor :: "bytes \<Rightarrow> pub_error + pub_announce" where
  "pa_from_det_cbor = wfrom_bytes PubCbor pa_from_cv"

definition check_supersede :: "bytes \<Rightarrow> bytes \<Rightarrow> pub_error + unit" where
  "check_supersede predecessor_pub successor_pub =
     (if predecessor_pub = successor_pub then Inr () else Inl PubSupersedeInvalid)"

definition verify_chunk :: "crypto \<Rightarrow> bytes \<Rightarrow> content_id \<Rightarrow> pub_error + unit" where
  "verify_chunk C plaintext listed_h =
     (if chunk_hash C plaintext = listed_h then Inr () else Inl PubChunkHashMismatch)"

section \<open>Serving\<close>

record serve_policy =
  declined :: "content_id list"
  max_object_size :: "u64 option"
  per_publisher_quota :: "u64 option"

definition serve_admit :: "serve_policy \<Rightarrow> content_id \<Rightarrow> u64 \<Rightarrow> u64 \<Rightarrow> pub_error + unit" where
  "serve_admit p i sz already_stored =
     (if list_ex (\<lambda>d. d = i) (declined p) then Inl PubNotServed
      else if (case max_object_size p of Some mx \<Rightarrow> sz > mx | None \<Rightarrow> False) then Inl PubServeQuota
      else if (case per_publisher_quota p of Some quota \<Rightarrow> saturating_add already_stored sz > quota | None \<Rightarrow> False)
      then Inl PubServeQuota
      else Inr ())"

section \<open>Feed entries and heads\<close>

record feed_entry =
  fe_seq :: u64
  fe_announce :: content_id
  fe_prev :: "content_id option"
  fe_ts :: u64

definition fe_to_cv :: "feed_entry \<Rightarrow> cv" where
  "fe_to_cv e = Map ([(1, U64 (fe_seq e)), (2, hash_cv (fe_announce e))]
     @ (case fe_prev e of None \<Rightarrow> [] | Some p \<Rightarrow> [(3, hash_cv p)])
     @ [(4, U64 (fe_ts e))])"

definition fe_det_cbor :: "feed_entry \<Rightarrow> bytes" where
  "fe_det_cbor e = encode (fe_to_cv e)"

definition entry_id :: "crypto \<Rightarrow> feed_entry \<Rightarrow> content_id" where
  "entry_id C e = content_id_of C (fe_det_cbor e)"

text \<open>The structural rule of an entry: genesis carries no \<open>prev\<close>, everything else does.\<close>

definition check_genesis :: "u64 \<Rightarrow> content_id option \<Rightarrow> pub_error + unit" where
  "check_genesis seq prev =
     (case (seq = 0, prev) of
        (True, Some _) \<Rightarrow> Inl PubFeedChainBroken
      | (False, None) \<Rightarrow> Inl PubFeedChainBroken
      | _ \<Rightarrow> Inr ())"

definition fe_from_cv :: "cv \<Rightarrow> pub_error + feed_entry" where
  "fe_from_cv = wread PubCbor (
     wreq PubCbor (lift_err PubCbor as_u64) 1 (\<lambda>seq.
     wreq PubCbor (lift_err PubCbor as_hash) 2 (\<lambda>announce.
     wopt (lift_err PubCbor as_hash) 3 (\<lambda>prev.
     wreq PubCbor (lift_err PubCbor as_u64) 4 (\<lambda>ts.
       wfinish PubCbor (and_then (check_genesis seq prev) (\<lambda>_.
         Inr \<lparr>fe_seq = seq, fe_announce = announce, fe_prev = prev, fe_ts = ts\<rparr>)))))))"

definition fe_from_det_cbor :: "bytes \<Rightarrow> pub_error + feed_entry" where
  "fe_from_det_cbor = wfrom_bytes PubCbor fe_from_cv"

record feed_head =
  fh_v :: u8
  fh_suite :: suite
  fh_publisher :: bytes
  fh_seq :: u64
  fh_tip :: content_id
  fh_ts :: u64
  fh_signer :: bytes
  fh_sig :: bytes
  fh_topic :: string

definition fh_to_cv :: "bool \<Rightarrow> feed_head \<Rightarrow> cv" where
  "fh_to_cv include_sig h = Map (
     [(1, U64 (ucast (fh_v h))), (2, suite_cv (fh_suite h)), (3, Bytes (fh_publisher h)), (4, U64 (fh_seq h)),
      (5, hash_cv (fh_tip h)), (6, U64 (fh_ts h)), (7, Bytes (fh_signer h))]
     @ (if include_sig then [(8, Bytes (fh_sig h))] else [])
     @ (if fh_topic h = [] then [] else [(64, Text (fh_topic h))]))"

definition fh_signing_preimage :: "feed_head \<Rightarrow> bytes" where
  "fh_signing_preimage h = encode (fh_to_cv False h)"

definition fh_det_cbor :: "feed_head \<Rightarrow> bytes" where
  "fh_det_cbor h = encode (fh_to_cv True h)"

definition fh_sign :: "crypto \<Rightarrow> identity_key \<Rightarrow> feed_head \<Rightarrow> feed_head" where
  "fh_sign C k h = h\<lparr>fh_sig := sign_domain C k PUB_FEED_DS (fh_signing_preimage h)\<rparr>"

definition fh_verify :: "crypto \<Rightarrow> feed_head \<Rightarrow> pub_error + unit" where
  "fh_verify C h =
     (if fh_v h \<noteq> PUB_V0 \<or> \<not> is_supported (fh_suite h) then Inl PubUnsupportedVersion
      else
        and_then (map_err (\<lambda>_. PubFeedSigInvalid)
          (verify_domain C (fh_signer h) PUB_FEED_DS (fh_signing_preimage h) (fh_sig h))) (\<lambda>_.
        if fh_signer h \<noteq> fh_publisher h then Inl PubFeedSigInvalid else Inr ()))"

definition fh_verify_with_cert :: "crypto \<Rightarrow> feed_head \<Rightarrow> device_cert \<Rightarrow> pub_error + unit" where
  "fh_verify_with_cert C h cert =
     (if fh_v h \<noteq> PUB_V0 \<or> \<not> is_supported (fh_suite h) then Inl PubUnsupportedVersion
      else
        and_then (map_err (\<lambda>_. PubFeedSigInvalid)
          (verify_domain C (fh_signer h) PUB_FEED_DS (fh_signing_preimage h) (fh_sig h))) (\<lambda>_.
        if fh_signer h = fh_publisher h then Inr ()
        else
          and_then (map_err (\<lambda>_. PubFeedSigInvalid) (dc_verify C cert)) (\<lambda>_.
          if dc_ik cert \<noteq> fh_publisher h \<or> dc_device_key cert \<noteq> fh_signer h then Inl PubFeedSigInvalid
          else Inr ())))"

definition topic_from_cv :: "cv \<Rightarrow> pub_error + string" where
  "topic_from_cv c =
     and_then (map_err PubCbor (as_text c)) (\<lambda>t.
       if t = [] then Inl (PubCbor TypeMismatch)
       else and_then (validate_topic_label t) (\<lambda>_. Inr t))"

definition fh_from_cv :: "cv \<Rightarrow> pub_error + feed_head" where
  "fh_from_cv = wread PubCbor (
     wreq PubCbor (lift_err PubCbor as_u8) 1 (\<lambda>v f.
       if v \<noteq> PUB_V0 then Inl PubUnsupportedVersion
       else
         (wreq PubCbor pub_suite 2 (\<lambda>s.
          wreq PubCbor (lift_err PubCbor as_bytes) 3 (\<lambda>publisher.
          wreq PubCbor (lift_err PubCbor as_u64) 4 (\<lambda>seq.
          wreq PubCbor (lift_err PubCbor as_hash) 5 (\<lambda>tip.
          wreq PubCbor (lift_err PubCbor as_u64) 6 (\<lambda>ts.
          wreq PubCbor (lift_err PubCbor as_bytes) 7 (\<lambda>signer.
          wreq PubCbor (lift_err PubCbor as_bytes) 8 (\<lambda>sig.
          wopt topic_from_cv 64 (\<lambda>topic.
            wfinish PubCbor (Inr \<lparr>fh_v = v, fh_suite = s, fh_publisher = publisher, fh_seq = seq, fh_tip = tip,
              fh_ts = ts, fh_signer = signer, fh_sig = sig,
              fh_topic = (case topic of None \<Rightarrow> [] | Some t \<Rightarrow> t)\<rparr>)))))))))) f))"

definition fh_from_det_cbor :: "bytes \<Rightarrow> pub_error + feed_head" where
  "fh_from_det_cbor = wfrom_bytes PubCbor fh_from_cv"

section \<open>Addresses bind content\<close>

interpretation pub_tree: tagging pub_leaf_pre pub_node_pre
  by unfold_locales (auto simp: pub_leaf_pre_def pub_node_pre_def)

interpretation sealed_tree: tagging sealed_leaf_pre sealed_node_pre
  by unfold_locales (auto simp: sealed_leaf_pre_def sealed_node_pre_def)

definition pub_inputs :: "crypto \<Rightarrow> content_id list \<Rightarrow> bytes list" where
  "pub_inputs C cs = tree_inputs C pub_leaf_pre pub_node_pre (map cid_bytes cs)"

definition sealed_inputs :: "crypto \<Rightarrow> content_id list \<Rightarrow> bytes list" where
  "sealed_inputs C cs = tree_inputs C sealed_leaf_pre sealed_node_pre (map cid_bytes cs)"

lemma pub_manifest_root_tagged:
  "pub_manifest_root C cs = (if cs = [] then None
     else Some (ContentId (MH_BLAKE3_256 # tagged_root C pub_leaf_pre pub_node_pre (map cid_bytes cs))))"
proof -
  have "pub_node C = (\<lambda>l r. blake3 C (pub_node_pre l r))" by (simp add: fun_eq_iff pub_node_def)
  then show ?thesis by (simp add: pub_manifest_root_def tagged_root_def pub_leaf_def comp_def)
qed

lemma sealed_style_root_tagged:
  "sealed_style_root C cs = (if cs = [] then None
     else Some (ContentId (MH_BLAKE3_256 # tagged_root C sealed_leaf_pre sealed_node_pre (map cid_bytes cs))))"
  by (simp add: sealed_style_root_def tagged_root_def comp_def)

text \<open>The sealed-style root is the root of the sealed manifest of \<^verbatim>\<open>mote.rs\<close>.\<close>

lemma sealed_style_root_is_manifest_root:
  "man_chunks m = cs \<Longrightarrow> sealed_style_root C cs = man_merkle_root C m"
proof -
  have "(\<lambda>l r. blake3 C (sealed_node_pre l r)) = node C"
    by (simp add: fun_eq_iff node_def sealed_node_pre_def)
  then show "man_chunks m = cs \<Longrightarrow> ?thesis"
    by (auto simp: sealed_style_root_def man_merkle_root_def merkle_tree_head_def pub_mth_node chunk_leaf_def [abs_def]
        sealed_leaf_pre_def)
qed

lemma cid_bytes_map_inject [simp]: "map cid_bytes xs = map cid_bytes ys \<longleftrightarrow> xs = ys"
  by (rule inj_map_eq_map) (metis content_id.expand injI)

lemma pub_root_binds:
  assumes "blake3_law C" "pub_manifest_root C cs = Some r" "pub_manifest_root C cs' = Some r"
  shows "cs = cs' \<or> collision C (pub_inputs C cs) (pub_inputs C cs')"
proof -
  have "cs \<noteq> []" "cs' \<noteq> []" "tagged_root C pub_leaf_pre pub_node_pre (map cid_bytes cs) =
      tagged_root C pub_leaf_pre pub_node_pre (map cid_bytes cs')"
    using assms(2,3) by (auto simp: pub_manifest_root_tagged split: if_splits)
  then show ?thesis using pub_tree.root_binds [OF assms(1), of "map cid_bytes cs" "map cid_bytes cs'"]
    by (simp add: pub_inputs_def)
qed

lemma pub_root_not_sealed:
  assumes "pub_manifest_root C cs = Some r" "sealed_style_root C cs' = Some r"
  shows "collision C (pub_inputs C cs) (sealed_inputs C cs')"
proof -
  have "PUB_MANIFEST_DS = 0x44 # tl PUB_MANIFEST_DS" by (simp add: PUB_MANIFEST_DS_def ds_tag_def as_bytes_of_def)
  then obtain t where ds: "PUB_MANIFEST_DS = 0x44 # t" ..
  then show ?thesis
    using assms unfolding pub_inputs_def sealed_inputs_def
    by (intro roots_apart)
      (auto simp: pub_manifest_root_tagged sealed_style_root_tagged ds pub_leaf_pre_def pub_node_pre_def sealed_leaf_pre_def
        sealed_node_pre_def split: if_splits)
qed

section \<open>Codecs\<close>

lemma pub_suite_suite_cv [wire_simps]: "is_supported s \<Longrightarrow> pub_suite (suite_cv s) = Inr s"
  by (auto simp: pub_suite_def suite_cv_def suite_from_u8_Some_iff)

lemma reads_pub_suite: "reads pub_suite suite_cv is_supported d"
  by (auto simp: reads_def pub_suite_def suite_cv_def suite_from_u8_Some_iff split: if_splits)

lemma reads_topic: "reads topic_from_cv Text (\<lambda>t. rust_string t \<and> t \<noteq> [] \<and> validate_topic_label t = Inr ()) d"
  by (auto simp: reads_def topic_from_cv_def rust_string_def split: if_splits)

lemmas pub_readE = prim_wreadE reads_pub_suite [THEN [2] reading_wreqE] reads_topic [THEN [2] reading_woptE]

lemma reading_guard: "reading d m l (\<lambda>f. if p f then Inl e else rd f) r \<Longrightarrow> reading d m l rd r"
  by (auto simp: reading_def split: if_splits)

definition wf_pm :: "pub_manifest \<Rightarrow> bool" where
  "wf_pm m \<longleftrightarrow> short (cid_bytes (pm_id m)) \<and> short (pm_chunks m) \<and> (\<forall>c \<in> set (pm_chunks m). short (cid_bytes c)) \<and>
     pm_chunks m \<noteq> [] \<and> is_supported (pm_suite m)"

lemma pm_cv_object: "cv_object pm_to_cv (\<lambda>c. forget (pm_from_cv c)) wf_pm 0"
proof (rule err_fieldsI [OF pm_to_cv_def pm_from_cv_def], goal_cases)
  case (4 m x)
  show ?case using reading_guard [OF 4] by (auto simp: wf_pm_def reading_test elim!: pub_readE)
qed (auto simp: wf_pm_def wire_simps MAX_NESTING_DEPTH_def fields_has_def)

definition wf_fe :: "feed_entry \<Rightarrow> bool" where
  "wf_fe e \<longleftrightarrow> short (cid_bytes (fe_announce e)) \<and> pred_option (\<lambda>i. short (cid_bytes i)) (fe_prev e) \<and>
     (fe_seq e = 0 \<longleftrightarrow> fe_prev e = None)"

lemma check_genesis_Inr_iff [simp]: "check_genesis seq prev = Inr u \<longleftrightarrow> (seq = 0 \<longleftrightarrow> prev = None)"
  by (simp add: check_genesis_def split: option.splits bool.splits)

lemma check_genesis_Inr [wire_simps]: "(seq = 0 \<longleftrightarrow> prev = None) \<Longrightarrow> check_genesis seq prev = Inr ()"
  by simp

lemma fe_cv_object: "cv_object fe_to_cv (\<lambda>c. forget (fe_from_cv c)) wf_fe 0"
  by (rule err_fieldsI [OF fe_to_cv_def fe_from_cv_def])
    (auto simp: wf_fe_def wire_simps MAX_NESTING_DEPTH_def elim!: pub_readE)

interpretation fe: wire_object fe_to_cv "\<lambda>c. forget (fe_from_cv c)" wf_fe
  by (rule wire_object.intro [OF fe_cv_object])

definition wf_fh :: "feed_head \<Rightarrow> bool" where
  "wf_fh h \<longleftrightarrow> fh_v h = PUB_V0 \<and> is_supported (fh_suite h) \<and> short (fh_publisher h) \<and> short (cid_bytes (fh_tip h)) \<and>
     short (fh_signer h) \<and> short (fh_sig h) \<and> rust_string (fh_topic h) \<and> validate_topic_label (fh_topic h) = Inr ()"

definition topic_field :: "string \<Rightarrow> string option" where
  "topic_field t = (if t = [] then None else Some t)"

lemma topic_field_simps [simp]:
  "topic_field [] = None" "(case topic_field t of None \<Rightarrow> [] | Some t \<Rightarrow> t) = t"
  "topic_field t = Some u \<longleftrightarrow> t = u \<and> t \<noteq> []"
  by (auto simp: topic_field_def)

lemma fh_to_cv_fields:
  "fh_to_cv include_sig h = Map (
     [(1, U64 (ucast (fh_v h))), (2, suite_cv (fh_suite h)), (3, Bytes (fh_publisher h)), (4, U64 (fh_seq h)),
      (5, hash_cv (fh_tip h)), (6, U64 (fh_ts h)), (7, Bytes (fh_signer h))]
     @ (if include_sig then [(8, Bytes (fh_sig h))] else [])
     @ (case topic_field (fh_topic h) of None \<Rightarrow> [] | Some t \<Rightarrow> [(64, Text t)]))"
  by (simp add: fh_to_cv_def topic_field_def)

lemma topic_Nil [simp]: "validate_topic_label [] = Inr ()" "rust_string []"
  by (simp_all add: validate_topic_label_def rust_string_def as_bytes_of_def)

lemma topic_from_cv_Text: "topic_from_cv (Text t) = Inr u \<longleftrightarrow> u = t \<and> t \<noteq> [] \<and> validate_topic_label t = Inr ()"
  by (auto simp: topic_from_cv_def split: if_splits)

lemma fh_cv_object: "cv_object (fh_to_cv True) (\<lambda>c. forget (fh_from_cv c)) wf_fh 0"
proof (rule err_fieldsI [OF fh_to_cv_fields fh_from_cv_def], goal_cases)
  case (4 m x)
  then show ?case by (auto simp: wf_fh_def reading_test topic_field_def elim!: pub_readE split: option.splits)
next
  case (3 x)
  then show ?case
    by (cases "fh_topic x = []") (simp_all add: wf_fh_def wire_simps topic_from_cv_Text topic_field_def)
qed (auto simp: wf_fh_def MAX_NESTING_DEPTH_def pred_option_Some rust_string_def)

definition wf_meta :: "(string \<times> cv) list \<Rightarrow> bool" where
  "wf_meta m \<longleftrightarrow> m = [] \<or> canon (TextMap m) \<and> fits_depth 1 (TextMap m)"

definition meta_cv :: "(string \<times> cv) list \<Rightarrow> cv" where
  "meta_cv m = (if m = [] then Map [] else TextMap m)"

lemma wf_meta_cv [simp]: "wf_meta m \<Longrightarrow> canon (meta_cv m)" "wf_meta m \<Longrightarrow> fits_depth (Suc 0) (meta_cv m)"
  by (auto simp: wf_meta_def meta_cv_def MAX_NESTING_DEPTH_def)

lemma ext_from_meta_cv [wire_simps]: "ext_from_cv (meta_cv m) = Inr m"
  by (simp add: ext_from_cv_def meta_cv_def)

lemma reads_meta: "reads ext_from_cv meta_cv wf_meta (Suc 0)"
  using reads_ext [of "Suc 0"] by (simp add: reads_def wf_meta_def meta_cv_def)

lemmas meta_readE = reads_meta [THEN reads_lift [THEN iffD2], THEN [2] reading_wreqE]

definition pa_norm :: "bool \<Rightarrow> pub_announce \<Rightarrow> cv" where
  "pa_norm include_sig a = Map (
     [(1, U64 (ucast (pa_v a))), (2, suite_cv (pa_suite a)), (3, Bytes (pa_publisher a)),
      (4, Array (map hash_cv (pa_roots a))), (5, meta_cv (pa_meta a))]
     @ (case pa_supersedes a of None \<Rightarrow> [] | Some s \<Rightarrow> [(6, hash_cv s)])
     @ [(7, U64 (pa_ts a)), (8, Bytes (pa_signer a))]
     @ (if include_sig then [(9, Bytes (pa_sig a))] else []))"

definition wf_pa :: "pub_announce \<Rightarrow> bool" where
  "wf_pa a \<longleftrightarrow> pa_v a = PUB_V0 \<and> is_supported (pa_suite a) \<and> short (pa_publisher a) \<and>
     pa_roots a \<noteq> [] \<and> short (pa_roots a) \<and> (\<forall>r \<in> set (pa_roots a). short (cid_bytes r)) \<and>
     wf_meta (pa_meta a) \<and>
     pred_option (\<lambda>i. short (cid_bytes i)) (pa_supersedes a) \<and> short (pa_signer a) \<and> short (pa_sig a)"

lemma pa_norm_cv:
  assumes "wf_pa a"
  shows "encode (pa_to_cv b a) = encode (pa_norm b a)"
proof -
  have "norm_cv (TextMap (pa_meta a)) = meta_cv (pa_meta a)"
    using assms norm_canon [of "TextMap (pa_meta a)"] by (auto simp: wf_pa_def wf_meta_def meta_cv_def)
  then have "norm_cv (pa_to_cv b a) = pa_norm b a"
    by (simp add: pa_to_cv_def pa_norm_def comp_def split: option.split)
  then show ?thesis by (metis encode_norm_cv)
qed

lemma pa_cv_object: "cv_object (pa_norm True) (\<lambda>c. forget (pa_from_cv c)) wf_pa 0"
proof (rule err_fieldsI [OF pa_norm_def pa_from_cv_def], goal_cases)
  case (4 m x)
  then show ?case by (auto simp: wf_pa_def reading_test elim!: pub_readE meta_readE)
next
  case (3 x)
  then show ?case by (simp add: wf_pa_def wire_simps)
next
  case (2 x)
  then show ?case by (auto simp: wf_pa_def)
qed (simp add: MAX_NESTING_DEPTH_def)

interpretation pm: wire_object pm_to_cv "\<lambda>c. forget (pm_from_cv c)" wf_pm
  by (rule wire_object.intro [OF pm_cv_object])

lemma fh_signed: "signed_object (fh_to_cv True) (\<lambda>c. forget (fh_from_cv c)) wf_fh (fh_to_cv False) (\<lambda>h. h\<lparr>fh_sig := []\<rparr>)"
  by (rule signed_fieldsI [OF fh_cv_object fh_to_cv_fields fh_to_cv_fields, where s = "(8, Bytes [])"])
    (auto simp: wf_fh_def MAX_NESTING_DEPTH_def pred_option_Some rust_string_def)

interpretation fh: signed_object "fh_to_cv True" "\<lambda>c. forget (fh_from_cv c)" wf_fh "fh_to_cv False" "\<lambda>h. h\<lparr>fh_sig := []\<rparr>"
  by (rule fh_signed)

lemma pa_signed: "signed_object (pa_norm True) (\<lambda>c. forget (pa_from_cv c)) wf_pa (pa_norm False) (\<lambda>a. a\<lparr>pa_sig := []\<rparr>)"
  by (rule signed_fieldsI [OF pa_cv_object pa_norm_def pa_norm_def, where s = "(9, Bytes [])"])
    (auto simp: wf_pa_def MAX_NESTING_DEPTH_def)

interpretation pa: signed_object "pa_norm True" "\<lambda>c. forget (pa_from_cv c)" wf_pa "pa_norm False" "\<lambda>a. a\<lparr>pa_sig := []\<rparr>"
  by (rule pa_signed)

text \<open>C11. Every public object decodes from exactly the canonical bytes of a well-formed object: no two
  byte strings give the same manifest, announcement, feed entry or feed head, and every well-formed object reads back.\<close>

theorem pub_objects_decode_exact:
  "(pm_from_det_cbor b = Inr m \<longleftrightarrow> wf_pm m \<and> b = pm_det_cbor m) \<and>
   (pa_from_det_cbor b = Inr a \<longleftrightarrow> wf_pa a \<and> b = pa_det_cbor a) \<and>
   (fe_from_det_cbor b = Inr e \<longleftrightarrow> wf_fe e \<and> b = fe_det_cbor e) \<and>
   (fh_from_det_cbor b = Inr h \<longleftrightarrow> wf_fh h \<and> b = fh_det_cbor h)"
  by (auto simp: pm_from_det_cbor_def pa_from_det_cbor_def fe_from_det_cbor_def fh_from_det_cbor_def
      pm_det_cbor_def pa_det_cbor_def fe_det_cbor_def fh_det_cbor_def pa_norm_cv
      wfrom_bytes_iff [OF pm_cv_object] wfrom_bytes_iff [OF pa_cv_object] wfrom_bytes_iff [OF fe_cv_object]
      wfrom_bytes_iff [OF fh_cv_object])

lemma content_id_of_binds: "content_id_of C a = content_id_of C b \<Longrightarrow> a = b \<or> collision C [a] [b]"
  by (auto simp: content_id_of_def collision_def)

lemma verify_chunk_Inr_iff [simp]: "verify_chunk C p h = Inr u \<longleftrightarrow> h = content_id_of C p"
  by (auto simp: verify_chunk_def chunk_hash_def split: if_splits)

lemma chunks_bind:
  "map (content_id_of C) ps = map (content_id_of C) qs \<Longrightarrow> ps = qs \<or> collision C ps qs"
proof (induction ps arbitrary: qs)
  case (Cons p ps)
  then obtain q rest where q: "qs = q # rest" "content_id_of C p = content_id_of C q"
    "map (content_id_of C) ps = map (content_id_of C) rest" by (cases qs) auto
  then show ?case using Cons.IH [OF q(3)] content_id_of_binds [OF q(2)] by (auto simp: collision_def)
qed simp

lemma chunks_listed: "list_all2 (\<lambda>p h. h = content_id_of C p) ps hs \<longleftrightarrow> hs = map (content_id_of C) ps"
  by (auto simp: list_all2_conv_all_nth intro!: nth_equalityI)

text \<open>C10. A public address determines the content: if two verified manifests have the same address
  and each plaintext chunk passed its check against its manifest, then the two chunk lists are equal, or
  the hashed inputs of the two fetches contain an explicit BLAKE3 collision.  A public root is never the
  root of a sealed manifest, up to such a collision.\<close>

theorem pub_address_determines_content:
  assumes "blake3_law C" "pm_verify C m = Inr ()" "pm_verify C m' = Inr ()" "pm_id m = pm_id m'"
    and "list_all2 (\<lambda>p h. verify_chunk C p h = Inr ()) ps (pm_chunks m)"
    and "list_all2 (\<lambda>p h. verify_chunk C p h = Inr ()) ps' (pm_chunks m')"
  shows "(ps = ps' \<or> collision C (ps @ pub_inputs C (pm_chunks m)) (ps' @ pub_inputs C (pm_chunks m'))) \<and>
    (man_merkle_root C s = Some (pm_id m) \<longrightarrow> collision C (pub_inputs C (pm_chunks m)) (sealed_inputs C (man_chunks s)))"
proof
  have r: "pub_manifest_root C (pm_chunks m) = Some (pm_id m)" "pub_manifest_root C (pm_chunks m') = Some (pm_id m)"
    using assms(2-4) by (auto simp: pm_verify_def pm_merkle_root_def split: if_splits)
  have "pm_chunks m = pm_chunks m' \<or> collision C (pub_inputs C (pm_chunks m)) (pub_inputs C (pm_chunks m'))"
    by (rule pub_root_binds [OF assms(1) r])
  moreover have "pm_chunks m = pm_chunks m' \<Longrightarrow> ps = ps' \<or> collision C ps ps'"
    using assms(5,6) by (intro chunks_bind) (simp add: chunks_listed)
  ultimately show "ps = ps' \<or> collision C (ps @ pub_inputs C (pm_chunks m)) (ps' @ pub_inputs C (pm_chunks m'))"
    unfolding collision_def set_append by blast
  show "man_merkle_root C s = Some (pm_id m) \<longrightarrow> collision C (pub_inputs C (pm_chunks m)) (sealed_inputs C (man_chunks s))"
    using pub_root_not_sealed [OF r(1), of "man_chunks s"] sealed_style_root_is_manifest_root [of s "man_chunks s" C] by simp
qed

definition demo_pm :: pub_manifest where
  "demo_pm = the (pm_new toy_crypto 3 2 (map (chunk_hash toy_crypto) [[1, 2], [3]]) Classical)"

theorem pub_address_determines_content_witness:
  "[[1, 2], [3]] = [[1, 2], [3 :: u8]] \<or> collision toy_crypto ([[1, 2], [3]] @ pub_inputs toy_crypto (pm_chunks demo_pm))
     ([[1, 2], [3]] @ pub_inputs toy_crypto (pm_chunks demo_pm))"
  by (rule pub_address_determines_content [THEN conjunct1])
    (simp_all add: toy_crypto_laws demo_pm_def pm_new_def pm_verify_def pm_merkle_root_def pub_manifest_root_tagged chunk_hash_def)

end
