(* ===== verification/Rust_Num.thy ===== *)
theory Rust_Num
  imports Merkle Recovery
begin

text \<open>
  Arithmetic of \<open>u64\<close> beyond wrapping addition: saturating operations and \<open>abs_diff\<close>, read as
  operations on natural numbers; and the power-of-two loop \<open>split_point\<close> of \<^verbatim>\<open>kt.rs\<close> on machine words.
\<close>

definition saturating_sub :: "u64 \<Rightarrow> u64 \<Rightarrow> u64" where
  "saturating_sub a b = (if b \<le> a then a - b else 0)"

definition saturating_mul :: "u64 \<Rightarrow> u64 \<Rightarrow> u64" where
  "saturating_mul a b = (if unat a * unat b < 2 ^ 64 then a * b else - 1)"

definition abs_diff :: "u64 \<Rightarrow> u64 \<Rightarrow> u64" where
  "abs_diff a b = (if a < b then b - a else a - b)"

lemma unat_u64_max: "unat (- 1 :: u64) = 2 ^ 64 - 1"
  by (simp add: unsigned_minus_1_eq_mask mask_eq_exp_minus_1)

lemma unat_u64_le: "unat (x :: u64) \<le> 2 ^ 64 - 1"
proof -
  have "unat x < 18446744073709551616" by (rule order_less_le_trans [OF unsigned_less]) simp
  then have "unat x \<le> 18446744073709551615" by linarith
  then show ?thesis by simp
qed

lemma unat_saturating_add: "unat (saturating_add a b) = min (unat a + unat b) (2 ^ 64 - 1)"
proof (cases "unat a + unat b < 2 ^ 64")
  case True
  then have "unat (a + b) = unat a + unat b" by (simp add: unat_word_ariths)
  then show ?thesis using True by (simp add: saturating_add_def)
next
  case False
  then show ?thesis using unat_u64_max by (simp add: saturating_add_def)
qed

lemma unat_saturating_mul: "unat (saturating_mul a b) = min (unat a * unat b) (2 ^ 64 - 1)"
proof (cases "unat a * unat b < 2 ^ 64")
  case True
  then have "unat (a * b) = unat a * unat b" by (simp add: unat_word_ariths)
  then show ?thesis using True by (simp add: saturating_mul_def)
next
  case False
  then show ?thesis using unat_u64_max by (simp add: saturating_mul_def)
qed

lemma unat_saturating_sub: "unat (saturating_sub a b) = unat a - unat b"
  by (auto simp: saturating_sub_def unat_sub word_le_nat_alt)

lemma unat_abs_diff: "unat (abs_diff a b) = (unat a - unat b) + (unat b - unat a)"
  by (auto simp: abs_diff_def unat_sub word_le_nat_alt word_less_nat_alt)

section \<open>The split point on machine words\<close>

text \<open>\<open>while k << 1 < n { k <<= 1 }\<close> with the shift of a 64-bit \<open>usize\<close>, which drops the top bit.\<close>

partial_function (option) split_loop :: "u64 \<Rightarrow> u64 \<Rightarrow> u64 option" where
  "split_loop n k = (if push_bit 1 k < n then split_loop n (push_bit 1 k) else Some k)"

definition split_point_u64 :: "u64 \<Rightarrow> u64 option" where
  "split_point_u64 n = split_loop n 1"

lemma push_bit_1_unat: "unat k < 2 ^ 63 \<Longrightarrow> unat (push_bit 1 k :: u64) = 2 * unat k"
  by (simp add: push_bit_eq_mult unat_word_ariths)

lemma split_loop_correct:
  assumes "unat n \<le> 2 ^ 63" "unat k < unat n" "0 < unat k"
  shows "\<exists>r. split_loop n k = Some r \<and> unat r = while (\<lambda>k. 2 * k < unat n) (\<lambda>k. 2 * k) (unat k)"
  using assms
proof (induction "unat n - unat k" arbitrary: k rule: less_induct)
  case less
  have k: "unat (push_bit 1 k) = 2 * unat k" using less.prems by (intro push_bit_1_unat) simp
  show ?case
  proof (cases "2 * unat k < unat n")
    case True
    then have "\<exists>r. split_loop n (push_bit 1 k) = Some r \<and>
        unat r = while (\<lambda>k. 2 * k < unat n) (\<lambda>k. 2 * k) (unat (push_bit 1 k))"
      using less.prems k by (intro less.hyps) simp_all
    moreover have "while (\<lambda>k. 2 * k < unat n) (\<lambda>k. 2 * k) (unat k) = while (\<lambda>k. 2 * k < unat n) (\<lambda>k. 2 * k) (2 * unat k)"
      using True by (subst while_unfold) simp
    ultimately show ?thesis using True k by (subst split_loop.simps) (simp add: word_less_nat_alt)
  next
    case False
    then show ?thesis using k by (subst split_loop.simps) (simp add: word_less_nat_alt while_unfold)
  qed
qed

text \<open>C21. The split-point loop terminates on every length a slice can have: for \<open>2 \<le> n \<le> 2^63\<close> the
  64-bit loop returns, and its result is the largest power of two below \<open>n\<close>.\<close>

theorem split_point_terminates:
  assumes "2 \<le> unat n" "unat n \<le> 2 ^ 63"
  shows "\<exists>r. split_point_u64 n = Some r \<and> unat r = split_point (unat n) \<and>
    (\<exists>j. unat r = 2 ^ j) \<and> unat r < unat n \<and> unat n \<le> 2 * unat r"
proof -
  obtain r where r: "split_loop n 1 = Some r" "unat r = split_point (unat n)"
    using split_loop_correct [of n 1] assms by (auto simp: split_point_def)
  then show ?thesis using split_point_inv [OF assms(1)] by (auto simp: split_point_u64_def)
qed

theorem split_point_terminates_witness:
  "\<exists>r. split_point_u64 6 = Some r \<and> unat r = split_point 6 \<and> (\<exists>j. unat r = 2 ^ j) \<and> unat r < 6 \<and> 6 \<le> 2 * unat r"
  using split_point_terminates [of 6] by simp

end
