(* ===== verification/Cbor_Props.thy ===== *)
theory Cbor_Props
  imports Cbor "HOL-Library.Multiset"
begin

text \<open>
  The properties of the codec of \<^verbatim>\<open>cbor.rs\<close>: the decoder accepts exactly the canonical encodings,
  the encoder sorts what it is given, nesting is bounded, and what happens to duplicate keys.
\<close>

text \<open>C5. The decoder is exact: it accepts a byte string with value \<open>v\<close> if and only if \<open>v\<close> is a
  canonical value within the nesting bound and the string is its encoding.  Re-encoding therefore
  gives back the input, and no second encoding of a value is accepted.\<close>

theorem cbor_decode_exact:
  "decode b = Inr v \<longleftrightarrow> canon v \<and> fits_depth 0 v \<and> b = encode v"
  by (rule decode_iff_canonical)

lemma enc_Map_sort:
  "enc (Map (sort_key fst m)) = enc (Map m)" if "distinct (map fst m)"
proof -
  let ?f = "\<lambda>(k, v). (write_head 0 k, v :: cv)"
  have "sort_key fst (map ?f m) = map ?f (sort_key fst m)"
  proof (rule properties_for_sort_key)
    show "mset (map ?f (sort_key fst m)) = mset (map ?f m)" by simp
    have "sorted_wrt (\<lambda>a b. fst a \<le> fst b) (sort_key fst m)" using sorted_sort_key [of fst m] by (simp add: sorted_wrt_map)
    then show "sorted (map fst (map ?f (sort_key fst m)))"
      unfolding sorted_wrt_map map_map
      by (rule sorted_wrt_mono_rel [rotated]) (auto simp: write_head_less_iff le_less)
    fix k
    assume "k \<in> set (map ?f (sort_key fst m))"
    then obtain a v where a: "k = (write_head 0 a, v)" "(a, v) \<in> set m" by auto
    have inj: "write_head 0 x = write_head 0 y \<longleftrightarrow> x = y" for x y
      by (metis less_irrefl linorder_neqE write_head_less_iff)
    have one: "filter (\<lambda>p. fst p = a) m' = [(a, v)]" if "distinct (map fst m')" "(a, v) \<in> set m'" for m'
      using that by (induction m') (auto simp: filter_empty_conv rev_image_eqI)
    show "filter (\<lambda>x. fst k = fst x) (map ?f (sort_key fst m)) = filter (\<lambda>x. fst k = fst x) (map ?f m)"
      using one [of m] one [of "sort_key fst m"] a that
      by (simp add: filter_map comp_def case_prod_unfold inj eq_commute [of a] distinct_map)
  qed
  moreover have "sort_key fst (map ?f (sort_key fst m)) = map ?f (sort_key fst m)"
    using \<open>sort_key fst (map ?f m) = map ?f (sort_key fst m)\<close> by (metis sort_key_id_if_sorted sorted_sort_key)
  ultimately show ?thesis by simp
qed

text \<open>The encoder sorts: a map given with distinct keys in any order is encoded as the map with
  its entries in ascending key order, and decodes to it.\<close>

theorem encode_sorts_map:
  assumes "distinct (map fst m)" and "length m < 2 ^ 64" and "\<forall>(k, v) \<in> set m. canon v \<and> fits_depth 1 v"
  shows "encode (Map m) = encode (Map (sort_key fst m)) \<and> decode (encode (Map m)) = Inr (Map (sort_key fst m))"
proof -
  have e: "encode (Map m) = encode (Map (sort_key fst m))"
    using enc_Map_sort [OF assms(1)] by (simp add: encode_def)
  have "sorted_wrt (<) (map fst (sort_key fst m))"
    using assms(1) sorted_sort_key [of fst m] by (simp add: strict_sorted_iff distinct_map)
  then have "canon (Map (sort_key fst m))" "fits_depth 0 (Map (sort_key fst m))"
    using assms(2,3) by (auto simp: MAX_NESTING_DEPTH_def)
  then show ?thesis using e by (simp add: decode_iff_canonical)
qed

theorem encode_sorts_map_witness:
  "decode (encode (Map [(3, Bool True), (1, U64 7)])) = Inr (Map [(1, U64 7), (3, Bool True)])"
proof -
  let ?m = "[(3 :: u64, Bool True), (1, U64 7)]"
  have "sort_key fst ?m = [(1, U64 7), (3, Bool True)]" by (simp add: word_le_nat_alt)
  moreover have "decode (encode (Map ?m)) = Inr (Map (sort_key fst ?m))"
    by (rule conjunct2 [OF encode_sorts_map]) (simp_all add: MAX_NESTING_DEPTH_def)
  ultimately show ?thesis by (simp only:)
qed

lemma cbor_value_deep:
  assumes "n + d = 65"
  shows "cbor_value d (replicate n 0x81 @ s) = Inl Malformed"
  using assms
proof (induction n arbitrary: d)
  case 0
  then show ?case by (simp add: cbor_value.simps MAX_NESTING_DEPTH_def)
next
  case (Suc n)
  have wh: "write_head 4 1 = [0x81]" by (simp add: write_head_def)
  have "replicate (Suc n) 0x81 @ s = write_head 4 1 @ replicate n 0x81 @ s" by (simp add: wh)
  moreover have "cbor_value d (write_head 4 1 @ replicate n 0x81 @ s) = Inl Malformed"
    using Suc.prems Suc.IH [of "Suc d"] 
    by (subst cbor_value_head) (simp_all add: MAX_NESTING_DEPTH_def cbor_elems.simps)
  ultimately show ?case by (simp only:)
qed

text \<open>Recursion is bounded: input that opens 65 nested arrays is rejected as malformed,
  whatever follows.\<close>

theorem deep_nesting_rejected:
  "decode (replicate 65 0x81 @ s) = Inl Malformed"
  using cbor_value_deep [of 65 0 s] by (simp add: decode_def)

text \<open>A map value with a repeated key is representable and is encoded, but its encoding is
  rejected by the decoder: \<open>encode\<close> is not total onto decodable bytes.\<close>

theorem duplicate_key_not_decodable:
  assumes "canon v" "fits_depth 1 v"
  shows "decode (encode (Map [(k, v), (k, w)])) = Inl (DuplicateKey k)"
proof -
  let ?r2 = "write_head 0 k @ enc w"
  let ?r1 = "enc v @ ?r2"
  have enc: "encode (Map [(k, v), (k, w)]) = write_head 5 2 @ write_head 0 k @ ?r1"
    by (simp add: encode_def)
  have v: "cbor_value (Suc 0) ?r1 = Inr (v, ?r2)"
    using assms by (intro cbor_value_enc) auto
  have k: "cbor_value (Suc 0) (write_head 0 k @ s) = Inr (U64 k, s)" for s
    by (simp add: cbor_value_head MAX_NESTING_DEPTH_def)
  have "cbor_value 0 (write_head 5 2 @ write_head 0 k @ ?r1) = Inl (DuplicateKey k)"
    by (subst cbor_value_head) (simp_all add: MAX_NESTING_DEPTH_def cbor_entries.simps k v Let_def)
  then show ?thesis by (simp add: enc decode_def)
qed

theorem duplicate_key_not_decodable_witness:
  "decode (encode (Map [(1, U64 2), (1, U64 3)])) = Inl (DuplicateKey 1)"
  by (rule duplicate_key_not_decodable) (simp_all add: MAX_NESTING_DEPTH_def)

end
