(* ===== verification/Wire_Order.thy ===== *)
theory Wire_Order
  imports Wire_Laws Cbor_Props
begin

text \<open>
  Objects whose \<open>to_cv\<close> does not list its keys in ascending order: the encoder sorts, so the bytes are
  those of the map with ascending keys, also inside arrays and other maps.
\<close>

lemma enc_Map_cong:
  assumes "map (\<lambda>(k, v). (k, enc v)) m = map (\<lambda>(k, v). (k, enc v)) m'"
  shows "enc (Map m) = enc (Map m')"
proof -
  let ?s = "\<lambda>m. sort_key fst (map (\<lambda>(k, v). (write_head 0 k, v)) m)"
  have "map (\<lambda>(k, v). (write_head 0 k, enc v)) m = map (\<lambda>(k, v). (write_head 0 k, enc v)) m'"
    using arg_cong [OF assms, of "map (\<lambda>(k, b). (write_head 0 k, b))"] by (simp add: case_prod_unfold comp_def)
  then have "map (\<lambda>(k, v). (k, enc v)) (?s m) = map (\<lambda>(k, v). (k, enc v)) (?s m')"
    using sort_key_fst_map_snd [of "write_head 0" enc m] sort_key_fst_map_snd [of "write_head 0" enc m'] by simp
  then have "concat (map (\<lambda>(k, v). k @ enc v) (?s m)) = concat (map (\<lambda>(k, v). k @ enc v) (?s m'))"
    by (drule_tac f = "\<lambda>x. concat (map (\<lambda>(k, b). k @ b) x)" in arg_cong) (simp add: case_prod_unfold comp_def)
  moreover have "length m = length m'" using map_eq_imp_length_eq [OF assms] .
  ultimately show ?thesis by simp
qed

lemma enc_Map_mset:
  assumes "mset m = mset l" "sorted_wrt (<) (map fst l)"
  shows "enc (Map m) = enc (Map l)"
proof -
  have "distinct (map fst m)"
    using assms strict_sorted_iff [of "map fst l"] mset_eq_imp_distinct_iff [of "map fst m" "map fst l"] by simp
  moreover have "sort_key fst m = l"
  proof (rule strict_sorted_pairs_unique)
    show "sorted_wrt (<) (map fst (sort_key fst m))"
      using calculation sorted_sort_key [of fst m] by (simp add: strict_sorted_iff distinct_map)
    show "set (sort_key fst m) = set l" using arg_cong [OF assms(1), of set_mset] by simp
  qed (rule assms(2))
  ultimately show ?thesis using enc_Map_sort by metis
qed

section \<open>Objects that are one of several maps\<close>

definition map_fields :: "cv \<Rightarrow> fields" where
  "map_fields c = (case c of Map m \<Rightarrow> m | _ \<Rightarrow> [])"

lemma reading_if: "reading d m l (if b then p else q) r \<longleftrightarrow> (if b then reading d m l p r else reading d m l q r)"
  by simp

end
