(* ===== verification/Cad.thy ===== *)
theory Cad
  imports Pub_Object Rust_Num Wire_Order
begin

text \<open>
  The CAD profile of \<^verbatim>\<open>cad.rs\<close>: artifact metadata and assembly structures with their codecs (unsigned maps,
  unknown keys are ignored), the profile rules, and the bill-of-materials walk over the assembly graph.
  The walk recurses into whatever \<open>resolve\<close> returns, so it is a partial function whose result is
  \<open>None\<close> when it does not return; the plain addition of quantities wraps, as in a release build.
\<close>

datatype cad_error =
  MissingLicense | NoFormats | CanonicalSourceCardinality | MeshCanonicalSource | DerivedMissingProvenance | MissingLengthUnit |
  DeprecatedMissingReason | BadRefKind | Cycle | Structural string | CadCbor cbor_error

definition KIND_ASSEMBLY :: u64 where "KIND_ASSEMBLY = 2"
definition FORMAT_GLTF_MESH :: u64 where "FORMAT_GLTF_MESH = 3"
definition CANONICAL_SOURCE :: u64 where "CANONICAL_SOURCE = 1"
definition DERIVED_RENDITION :: u64 where "DERIVED_RENDITION = 2"
definition ROLE_STRUCTURE :: u64 where "ROLE_STRUCTURE = 3"
definition REF_PIN :: u64 where "REF_PIN = 1"
definition REF_TRACK :: u64 where "REF_TRACK = 2"

section \<open>Units and formats\<close>

record units =
  un_length_unit :: string
  un_angle_unit :: "string option"
  un_mass_unit :: "string option"

definition un_to_cv :: "units \<Rightarrow> cv" where
  "un_to_cv u = Map (
     [(1, Text (un_length_unit u))]
     @ (case un_angle_unit u of None \<Rightarrow> [] | Some a \<Rightarrow> [(2, Text a)])
     @ (case un_mass_unit u of None \<Rightarrow> [] | Some m \<Rightarrow> [(3, Text m)]))"

abbreviation cad_text :: "cv \<Rightarrow> cad_error + string" where "cad_text \<equiv> lift_err CadCbor as_text"
abbreviation cad_u64 :: "cv \<Rightarrow> cad_error + u64" where "cad_u64 \<equiv> lift_err CadCbor as_u64"
abbreviation cad_hash :: "cv \<Rightarrow> cad_error + content_id" where "cad_hash \<equiv> lift_err CadCbor as_hash"

definition un_from_fields :: "cv \<Rightarrow> cad_error + units" where
  "un_from_fields = wread CadCbor (
     wopt cad_text 1 (\<lambda>length_unit.
       case length_unit of
         None \<Rightarrow> (\<lambda>_. Inl MissingLengthUnit)
       | Some lu \<Rightarrow>
           if lu = [] then (\<lambda>_. Inl MissingLengthUnit)
           else
             wopt cad_text 2 (\<lambda>angle_unit.
             wopt cad_text 3 (\<lambda>mass_unit.
               (\<lambda>_. Inr \<lparr>un_length_unit = lu, un_angle_unit = angle_unit, un_mass_unit = mass_unit\<rparr>)))))"

record artifact_format =
  af_format_id :: u64
  af_manifest_root :: content_id
  af_role :: u64
  af_derived_from_format :: "content_id option"
  af_format_version :: "string option"

definition af_to_cv :: "artifact_format \<Rightarrow> cv" where
  "af_to_cv f = Map (
     [(1, U64 (af_format_id f)), (2, hash_cv (af_manifest_root f)), (3, U64 (af_role f))]
     @ (case af_derived_from_format f of None \<Rightarrow> [] | Some d \<Rightarrow> [(4, hash_cv d)])
     @ (case af_format_version f of None \<Rightarrow> [] | Some v \<Rightarrow> [(5, Text v)]))"

definition af_from_cv :: "cv \<Rightarrow> cad_error + artifact_format" where
  "af_from_cv = wread CadCbor (
     wreq CadCbor cad_u64 1 (\<lambda>format_id.
     wreq CadCbor cad_hash 2 (\<lambda>manifest_root.
     wreq CadCbor cad_u64 3 (\<lambda>role.
     wopt cad_hash 4 (\<lambda>derived_from_format.
     wopt cad_text 5 (\<lambda>format_version.
       (\<lambda>_. Inr \<lparr>af_format_id = format_id, af_manifest_root = manifest_root, af_role = role,
         af_derived_from_format = derived_from_format, af_format_version = format_version\<rparr>)))))))"

definition cad_list :: "(cv \<Rightarrow> cad_error + 'x) \<Rightarrow> cv \<Rightarrow> cad_error + 'x list" where
  "cad_list f c = and_then (map_err CadCbor (as_array c)) (collect_results f)"

section \<open>Artifact metadata\<close>

record artifact_metadata =
  am_name :: string
  am_description :: string
  am_artifact_kind :: u64
  am_formats :: "artifact_format list"
  am_units :: units
  am_tags :: "string list"
  am_license :: string
  am_deprecated :: bool
  am_deprecation_reason :: "string option"
  am_derived_from :: "content_id option"

definition am_to_cv :: "artifact_metadata \<Rightarrow> cv" where
  "am_to_cv a = Map (
     [(1, Text (am_name a)), (2, Text (am_description a)), (3, U64 (am_artifact_kind a)),
      (4, Array (map af_to_cv (am_formats a))), (5, un_to_cv (am_units a))]
     @ (if am_tags a \<noteq> [] then [(6, Array (map Text (am_tags a)))] else [])
     @ [(7, Text (am_license a))]
     @ (if am_deprecated a then [(8, Bool True)] else [])
     @ (case am_deprecation_reason a of None \<Rightarrow> [] | Some r \<Rightarrow> [(9, Text r)])
     @ (case am_derived_from a of None \<Rightarrow> [] | Some d \<Rightarrow> [(10, hash_cv d)]))"

definition am_det_cbor :: "artifact_metadata \<Rightarrow> bytes" where
  "am_det_cbor a = encode (am_to_cv a)"

definition am_from_cv :: "cv \<Rightarrow> cad_error + artifact_metadata" where
  "am_from_cv = wread CadCbor (
     wreq CadCbor cad_text 1 (\<lambda>name.
     wreq CadCbor cad_text 2 (\<lambda>description.
     wreq CadCbor cad_u64 3 (\<lambda>artifact_kind.
     wreq CadCbor (cad_list af_from_cv) 4 (\<lambda>formats.
     wreq CadCbor un_from_fields 5 (\<lambda>units.
     wopt (cad_list cad_text) 6 (\<lambda>tags.
     wopt cad_text 7 (\<lambda>license.
       case license of
         None \<Rightarrow> (\<lambda>_. Inl MissingLicense)
       | Some lic \<Rightarrow>
           if lic = [] then (\<lambda>_. Inl MissingLicense)
           else
             wopt (lift_err CadCbor as_bool) 8 (\<lambda>deprecated.
             wopt cad_text 9 (\<lambda>deprecation_reason.
             wopt cad_hash 10 (\<lambda>derived_from.
               (\<lambda>_. Inr \<lparr>am_name = name, am_description = description, am_artifact_kind = artifact_kind,
                 am_formats = formats, am_units = units, am_tags = (case tags of Some t \<Rightarrow> t | None \<Rightarrow> []), am_license = lic,
                 am_deprecated = (case deprecated of Some b \<Rightarrow> b | None \<Rightarrow> False),
                 am_deprecation_reason = deprecation_reason, am_derived_from = derived_from\<rparr>))))))))))))"

definition am_from_det_cbor :: "bytes \<Rightarrow> cad_error + artifact_metadata" where
  "am_from_det_cbor = wfrom_bytes CadCbor am_from_cv"

definition format_check :: "artifact_format \<Rightarrow> cad_error + unit" where
  "format_check f =
     (if af_format_id f = FORMAT_GLTF_MESH \<and> af_role f = CANONICAL_SOURCE then Inl MeshCanonicalSource
      else if af_role f = DERIVED_RENDITION \<and> af_derived_from_format f = None then Inl DerivedMissingProvenance
      else Inr ())"

definition am_validate :: "artifact_metadata \<Rightarrow> cad_error + unit" where
  "am_validate a =
     (if am_formats a = [] then Inl NoFormats
      else
        and_then (try_for_each format_check (am_formats a)) (\<lambda>_.
          if (if am_artifact_kind a = KIND_ASSEMBLY
              then length (filter (\<lambda>f. af_role f = ROLE_STRUCTURE) (am_formats a)) \<noteq> 1
              else length (filter (\<lambda>f. af_role f = CANONICAL_SOURCE) (am_formats a)) \<noteq> 1)
          then Inl CanonicalSourceCardinality
          else if am_deprecated a \<and> (case am_deprecation_reason a of None \<Rightarrow> [] | Some r \<Rightarrow> r) = [] then Inl DeprecatedMissingReason
          else Inr ()))"

definition parse_and_validate :: "bytes \<Rightarrow> cad_error + artifact_metadata" where
  "parse_and_validate b = and_then (am_from_det_cbor b) (\<lambda>md. and_then (am_validate md) (\<lambda>_. Inr md))"

definition deprecate :: "artifact_metadata \<Rightarrow> string \<Rightarrow> artifact_metadata" where
  "deprecate prior reason = prior\<lparr>am_deprecated := True, am_deprecation_reason := Some reason\<rparr>"

definition deletion_is_not_an_operation :: "pub_error + unit" where
  "deletion_is_not_an_operation = Inl PubNotServed"

section \<open>Assemblies\<close>

record assembly_child =
  ac_ref_kind :: u64
  ac_reference :: content_id
  ac_quantity :: u64
  ac_transform :: "bytes option"

definition ac_to_cv :: "assembly_child \<Rightarrow> cv" where
  "ac_to_cv c = Map (
     [(1, U64 (ac_ref_kind c)), (2, hash_cv (ac_reference c)), (3, U64 (ac_quantity c))]
     @ (case ac_transform c of None \<Rightarrow> [] | Some t \<Rightarrow> [(4, Bytes t)]))"

definition ac_from_cv :: "cv \<Rightarrow> cad_error + assembly_child" where
  "ac_from_cv = wread CadCbor (
     wreq CadCbor cad_u64 1 (\<lambda>ref_kind.
       if ref_kind \<noteq> REF_PIN \<and> ref_kind \<noteq> REF_TRACK then (\<lambda>_. Inl BadRefKind)
       else
         wreq CadCbor cad_hash 2 (\<lambda>reference.
         wreq CadCbor cad_u64 3 (\<lambda>quantity.
           if quantity < 1 then (\<lambda>_. Inl (Structural ''assembly child quantity must be >= 1''))
           else
             wopt (lift_err CadCbor as_bytes) 4 (\<lambda>transform.
               (\<lambda>_. Inr \<lparr>ac_ref_kind = ref_kind, ac_reference = reference, ac_quantity = quantity,
                 ac_transform = transform\<rparr>))))))"

record assembly_structure =
  as_children :: "assembly_child list"

definition as_det_cbor :: "assembly_structure \<Rightarrow> bytes" where
  "as_det_cbor s = encode (Map [(1, Array (map ac_to_cv (as_children s)))])"

definition as_from_cv :: "cv \<Rightarrow> cad_error + assembly_structure" where
  "as_from_cv = wread CadCbor (
     wreq CadCbor (cad_list ac_from_cv) 1 (\<lambda>children.
       if children = [] then (\<lambda>_. Inl (Structural ''assembly must have >= 1 child''))
       else (\<lambda>_. Inr \<lparr>as_children = children\<rparr>)))"

definition as_from_det_cbor :: "bytes \<Rightarrow> cad_error + assembly_structure" where
  "as_from_det_cbor = wfrom_bytes CadCbor as_from_cv"

type_synonym bom = "bytes \<rightharpoonup> u64"

definition bom_add :: "bytes \<Rightarrow> u64 \<Rightarrow> bom \<Rightarrow> bom" where
  "bom_add key effective b = b(key \<mapsto> (case b key of Some v \<Rightarrow> v | None \<Rightarrow> 0) + effective)"

partial_function (option) bom_recurse ::
  "(content_id \<Rightarrow> assembly_structure option) \<Rightarrow> assembly_child list \<Rightarrow> u64 \<Rightarrow> bytes list \<Rightarrow> bom \<Rightarrow> (cad_error + bom) option"
where [code]:
  "bom_recurse resolve cs multiplier path b =
     (case cs of
        [] \<Rightarrow> Some (Inr b)
      | child # cs' \<Rightarrow>
          (let key = cid_bytes (ac_reference child) in
           if key \<in> set path then Some (Inl Cycle)
           else
             (let effective = saturating_mul multiplier (ac_quantity child) in
              (case resolve (ac_reference child) of
                 Some sub \<Rightarrow>
                   Option.bind (bom_recurse resolve (as_children sub) effective (path @ [key]) b) (\<lambda>res.
                     case res of
                       Inl e \<Rightarrow> Some (Inl e)
                     | Inr b' \<Rightarrow> bom_recurse resolve cs' multiplier path b')
               | None \<Rightarrow> bom_recurse resolve cs' multiplier path (bom_add key effective b)))))"

definition walk_bom :: "(content_id \<Rightarrow> assembly_structure option) \<Rightarrow> assembly_structure \<Rightarrow> (cad_error + bom) option" where
  "walk_bom resolve root = bom_recurse resolve (as_children root) 1 [] Map.empty"

section \<open>The walk\<close>

lemma bom_Nil [simp]: "bom_recurse R [] m p b = Some (Inr b)"
  by (subst bom_recurse.simps) simp

lemma bom_Cons:
  "bom_recurse R (c # cs) m p b =
     (if cid_bytes (ac_reference c) \<in> set p then Some (Inl Cycle)
      else case R (ac_reference c) of
        Some sub \<Rightarrow>
          Option.bind (bom_recurse R (as_children sub) (saturating_mul m (ac_quantity c)) (p @ [cid_bytes (ac_reference c)]) b) (\<lambda>res.
            case res of Inl e \<Rightarrow> Some (Inl e) | Inr b' \<Rightarrow> bom_recurse R cs m p b')
      | None \<Rightarrow> bom_recurse R cs m p (bom_add (cid_bytes (ac_reference c)) (saturating_mul m (ac_quantity c)) b))"
  by (subst bom_recurse.simps) (simp add: Let_def)

text \<open>\<open>uses R r s\<close>: the assembly \<open>r\<close> has a child \<open>s\<close>.  An assembly is cyclic if a cycle is reachable from it.\<close>

definition uses :: "(content_id \<Rightarrow> assembly_structure option) \<Rightarrow> content_id \<Rightarrow> content_id \<Rightarrow> bool" where
  "uses R r s \<longleftrightarrow> (\<exists>sub. R r = Some sub \<and> s \<in> ac_reference ` set (as_children sub))"

definition cyclic :: "(content_id \<Rightarrow> assembly_structure option) \<Rightarrow> assembly_structure \<Rightarrow> bool" where
  "cyclic R root \<longleftrightarrow> (\<exists>r \<in> ac_reference ` set (as_children root). \<exists>x. (uses R)\<^sup>*\<^sup>* r x \<and> (uses R)\<^sup>+\<^sup>+ x x)"

abbreviation assemblies :: "(content_id \<Rightarrow> assembly_structure option) \<Rightarrow> bytes set" where
  "assemblies R \<equiv> cid_bytes ` {r. R r \<noteq> None}"

lemma assemblies_less:
  assumes "finite (assemblies R)" "R r = Some s" "cid_bytes r \<notin> set p"
  shows "card (assemblies R - set (p @ [cid_bytes r])) < card (assemblies R - set p)"
  by (rule psubset_card_mono) (use assms in \<open>auto simp: image_iff\<close>)

lemma bom_returns:
  assumes "finite (assemblies R)"
  shows "\<exists>res. bom_recurse R cs m p b = Some res"
proof (induction "card (assemblies R - set p)" arbitrary: cs m p b rule: less_induct)
  case less
  show ?case
  proof (induction cs arbitrary: b)
    case (Cons c cs)
    show ?case
    proof (cases "cid_bytes (ac_reference c) \<in> set p \<or> R (ac_reference c) = None")
      case True
      then show ?thesis using Cons by (auto simp: bom_Cons)
    next
      case False
      then obtain sub where s: "R (ac_reference c) = Some sub" "cid_bytes (ac_reference c) \<notin> set p" by auto
      obtain res where "bom_recurse R (as_children sub) (saturating_mul m (ac_quantity c)) (p @ [cid_bytes (ac_reference c)]) b = Some res"
        using less [OF assemblies_less [OF assms s]] by blast
      then show ?thesis using s Cons by (cases res) (auto simp: bom_Cons)
    qed
  qed simp
qed

text \<open>A walk that succeeds has been at every child, with its path, so the paths below it never repeat.\<close>

definition walked :: "(content_id \<Rightarrow> assembly_structure option) \<Rightarrow> bytes list \<Rightarrow> content_id \<Rightarrow> bool" where
  "walked R p r \<longleftrightarrow> (\<exists>cs m b b'. bom_recurse R cs m p b = Some (Inr b') \<and> r \<in> ac_reference ` set cs)"

lemma bom_Cons_InrE:
  assumes "bom_recurse R (c # cs) m p b = Some (Inr b')"
  obtains (leaf) "cid_bytes (ac_reference c) \<notin> set p" "R (ac_reference c) = None"
      "bom_recurse R cs m p (bom_add (cid_bytes (ac_reference c)) (saturating_mul m (ac_quantity c)) b) = Some (Inr b')"
  | (sub) sub b1 where "cid_bytes (ac_reference c) \<notin> set p" "R (ac_reference c) = Some sub"
      "bom_recurse R (as_children sub) (saturating_mul m (ac_quantity c)) (p @ [cid_bytes (ac_reference c)]) b = Some (Inr b1)"
      "bom_recurse R cs m p b1 = Some (Inr b')"
proof (cases "R (ac_reference c)")
  case None
  then show thesis using assms by (intro leaf) (auto simp: bom_Cons split: if_splits)
next
  case (Some s)
  then obtain r where r: "cid_bytes (ac_reference c) \<notin> set p"
    "bom_recurse R (as_children s) (saturating_mul m (ac_quantity c)) (p @ [cid_bytes (ac_reference c)]) b = Some r"
    "(case r of Inl e \<Rightarrow> Some (Inl e) | Inr b1 \<Rightarrow> bom_recurse R cs m p b1) = Some (Inr b')"
    using assms by (auto simp: bom_Cons bind_eq_Some_conv split: if_splits)
  then show thesis using Some by (cases r) (auto intro: sub)
qed

lemma bom_children:
  assumes "bom_recurse R cs m p b = Some (Inr b')" "c \<in> set cs"
  shows "cid_bytes (ac_reference c) \<notin> set p \<and>
    (\<forall>sub. R (ac_reference c) = Some sub \<longrightarrow>
      (\<exists>m1 b1 b2. bom_recurse R (as_children sub) m1 (p @ [cid_bytes (ac_reference c)]) b1 = Some (Inr b2)))"
  using assms
proof (induction cs arbitrary: b)
  case (Cons d cs)
  from Cons.prems(1) show ?case
    by (cases rule: bom_Cons_InrE) (use Cons in fastforce)+
qed simp

lemma walked_step:
  assumes "walked R p r" "uses R r s"
  shows "walked R (p @ [cid_bytes r]) s"
  using assms bom_children unfolding walked_def uses_def by (fastforce simp: image_iff)

lemma walked_fresh: "walked R p r \<Longrightarrow> cid_bytes r \<notin> set p"
  using bom_children unfolding walked_def by fastforce

lemma walked_reach:
  assumes "(uses R)\<^sup>*\<^sup>* r s" "walked R p r"
  shows "\<exists>q. walked R (p @ q) s \<and> (r \<noteq> s \<longrightarrow> cid_bytes r \<in> set q)"
  using assms
proof (induction rule: rtranclp_induct)
  case base
  then show ?case by (intro exI [of _ "[]"]) simp
next
  case (step y z)
  then obtain q where q: "walked R (p @ q) y" "r \<noteq> y \<longrightarrow> cid_bytes r \<in> set q" by blast
  show ?case using walked_step [OF q(1) step(2)] q(2) by (intro exI [of _ "q @ [cid_bytes y]"]) auto
qed

lemma walked_acyclic:
  assumes "walked R p r" "(uses R)\<^sup>*\<^sup>* r x"
  shows "\<not> (uses R)\<^sup>+\<^sup>+ x x"
proof
  assume "(uses R)\<^sup>+\<^sup>+ x x"
  then obtain y where y: "uses R x y" "(uses R)\<^sup>*\<^sup>* y x" by (meson tranclpD)
  obtain q where "walked R (p @ q) x" using walked_reach [OF assms(2,1)] by blast
  from walked_step [OF this y(1)] obtain q' where "walked R (((p @ q) @ [cid_bytes x]) @ q') x"
    using walked_reach [OF y(2)] by blast
  then show False using walked_fresh by fastforce
qed

text \<open>A walk that fails has met a reference on its path.\<close>

lemma bom_fails:
  assumes "bom_recurse R cs m p b = Some res"
  shows "\<forall>e. res = Inl e \<longrightarrow> e = Cycle \<and>
    (\<exists>r \<in> ac_reference ` set cs. \<exists>x. (uses R)\<^sup>*\<^sup>* r x \<and> ((uses R)\<^sup>+\<^sup>+ x x \<or> cid_bytes x \<in> set p))"
proof (rule bom_recurse.raw_induct [OF _ assms], intro allI impI, goal_cases)
  case (1 rec R cs m p b res e)
  note IH = 1(1) [rule_format]
  note body = 1(2) [unfolded 1(3)]
  show ?case
  proof (cases cs)
    case Nil
    then show ?thesis using body by simp
  next
    case (Cons c cs')
    let ?k = "cid_bytes (ac_reference c)"
    consider (path) "?k \<in> set p" "e = Cycle"
      | (leaf) b' where "rec R cs' m p b' = Some (Inl e)"
      | (sub) sub where "R (ac_reference c) = Some sub"
          "rec R (as_children sub) (saturating_mul m (ac_quantity c)) (p @ [?k]) b = Some (Inl e)"
    proof (cases "R (ac_reference c)")
      case None
      then have "?k \<in> set p \<and> e = Cycle \<or>
          rec R cs' m p (bom_add ?k (saturating_mul m (ac_quantity c)) b) = Some (Inl e)"
        using body by (simp add: Cons Let_def split: if_splits)
      then show ?thesis using path leaf by metis
    next
      case (Some s)
      have "?k \<in> set p \<and> e = Cycle \<or>
          Option.bind (rec R (as_children s) (saturating_mul m (ac_quantity c)) (p @ [?k]) b) (\<lambda>res.
             case res of Inl e \<Rightarrow> Some (Inl e) | Inr b' \<Rightarrow> rec R cs' m p b') = Some (Inl e)"
        using body Some by (simp add: Cons Let_def split: if_splits)
      then show ?thesis
      proof
        assume "?k \<in> set p \<and> e = Cycle"
        then show ?thesis using path by blast
      next
        assume "Option.bind (rec R (as_children s) (saturating_mul m (ac_quantity c)) (p @ [?k]) b) (\<lambda>res.
             case res of Inl e \<Rightarrow> Some (Inl e) | Inr b' \<Rightarrow> rec R cs' m p b') = Some (Inl e)"
        then obtain r where r: "rec R (as_children s) (saturating_mul m (ac_quantity c)) (p @ [?k]) b = Some r"
          "(case r of Inl e \<Rightarrow> Some (Inl e) | Inr b' \<Rightarrow> rec R cs' m p b') = Some (Inl e)"
          unfolding bind_eq_Some_conv by blast
        then show ?thesis using Some sub leaf by (cases r) auto
      qed
    qed
    then show ?thesis
    proof cases
      case path
      then show ?thesis by (auto simp: Cons)
    next
      case leaf
      then show ?thesis using IH [OF leaf refl] by (auto simp: Cons)
    next
      case sub
      obtain d x where d: "e = Cycle" "d \<in> set (as_children sub)" "(uses R)\<^sup>*\<^sup>* (ac_reference d) x"
        "(uses R)\<^sup>+\<^sup>+ x x \<or> cid_bytes x \<in> set (p @ [?k])"
        using IH [OF sub(2) refl] by auto
      have u: "uses R (ac_reference c) (ac_reference d)" using sub(1) d(2) by (auto simp: uses_def)
      then have x: "(uses R)\<^sup>*\<^sup>* (ac_reference c) x" "(uses R)\<^sup>+\<^sup>+ (ac_reference c) x" using d(3) by auto
      show ?thesis
      proof (cases "cid_bytes x = ?k")
        case True
        then have "x = ac_reference c" by (metis content_id.expand)
        then show ?thesis using d(1) x(2) by (auto simp: Cons)
      next
        case False
        then show ?thesis using d(1,4) x(1) by (auto simp: Cons)
      qed
    qed
  qed
qed

section \<open>The quantities\<close>

text \<open>The reference: how often a part is needed, over unbounded numbers and without paths, up to a depth.\<close>

fun demand :: "(content_id \<Rightarrow> assembly_structure option) \<Rightarrow> nat \<Rightarrow> assembly_child list \<Rightarrow> bytes \<Rightarrow> nat" where
  "demand R 0 cs k = 0"
| "demand R (Suc n) cs k =
     (\<Sum>c\<leftarrow>cs. unat (ac_quantity c) *
        (case R (ac_reference c) of
           Some sub \<Rightarrow> demand R n (as_children sub) k
         | None \<Rightarrow> if cid_bytes (ac_reference c) = k then 1 else 0))"

lemma demand_Nil [simp]: "demand R n [] k = 0"
  by (cases n) simp_all

lemma demand_Cons:
  "demand R (Suc n) (c # cs) k = unat (ac_quantity c) *
     (case R (ac_reference c) of
        Some sub \<Rightarrow> demand R n (as_children sub) k
      | None \<Rightarrow> if cid_bytes (ac_reference c) = k then 1 else 0) + demand R (Suc n) cs k"
  by simp

declare demand.simps(2) [simp del]

definition wf_assembly :: "assembly_structure \<Rightarrow> bool" where
  "wf_assembly s \<longleftrightarrow> as_children s \<noteq> [] \<and> (\<forall>c \<in> set (as_children s). 1 \<le> ac_quantity c)"

definition bom_count :: "bom \<Rightarrow> bytes \<Rightarrow> nat" where
  "bom_count b k = (case b k of Some v \<Rightarrow> unat v | None \<Rightarrow> 0)"

lemma quantity_pos: "1 \<le> ac_quantity c \<Longrightarrow> 1 \<le> unat (ac_quantity c)"
  by (simp add: word_le_nat_alt)

lemma demand_part:
  assumes "\<forall>r s. R r = Some s \<longrightarrow> wf_assembly s" "finite (assemblies R)"
    and "bom_recurse R cs m p b = Some (Inr b')" "cs \<noteq> []" "\<forall>c \<in> set cs. 1 \<le> ac_quantity c" "card (assemblies R - set p) < n"
  shows "\<exists>k. 1 \<le> demand R n cs k"
  using assms(3-)
proof (induction n arbitrary: cs m p b b')
  case (Suc n)
  obtain c cs' where c: "cs = c # cs'" using Suc.prems(2) by (cases cs) auto
  have q: "1 \<le> unat (ac_quantity c)" using Suc.prems(3) by (intro quantity_pos) (simp add: c)
  from Suc.prems(1) [unfolded c] show ?case
  proof (cases rule: bom_Cons_InrE)
    case leaf
    then show ?thesis using q by (intro exI [of _ "cid_bytes (ac_reference c)"]) (simp add: c demand_Cons)
  next
    case (sub s b1)
    have w: "as_children s \<noteq> []" "\<forall>c \<in> set (as_children s). 1 \<le> ac_quantity c" using assms(1) sub(2) by (auto simp: wf_assembly_def)
    have "card (assemblies R - set (p @ [cid_bytes (ac_reference c)])) < n"
      using assemblies_less [OF assms(2) sub(2,1)] Suc.prems(4) by simp
    then obtain k where "1 \<le> demand R n (as_children s) k" using Suc.IH [OF sub(3) w] by blast
    then have "1 * 1 \<le> unat (ac_quantity c) * demand R n (as_children s) k" using q by (intro mult_le_mono)
    then show ?thesis using sub(2) by (intro exI [of _ k]) (simp add: c demand_Cons trans_le_add1 del: One_nat_def)
  qed
qed simp

lemma unat_effective:
  "unat m * unat q < 2 ^ 64 \<Longrightarrow> unat (saturating_mul m q) = unat m * unat q"
  by (simp add: unat_saturating_mul)

lemma bom_count_add:
  assumes "bom_count b k + unat e < 2 ^ 64"
  shows "bom_count (bom_add k e b) j = bom_count b j + (if j = k then unat e else 0)"
  using assms by (auto simp: bom_count_def bom_add_def unat_word_ariths split: option.splits)

lemma bom_counts:
  assumes wf: "\<forall>r s. R r = Some s \<longrightarrow> wf_assembly s" and fin: "finite (assemblies R)"
    and "bom_recurse R cs m p b = Some (Inr b')" "\<forall>c \<in> set cs. 1 \<le> ac_quantity c" "card (assemblies R - set p) < n"
    and "\<forall>k. bom_count b k + unat m * demand R n cs k < 2 ^ 64"
  shows "\<forall>k. bom_count b' k = bom_count b k + unat m * demand R n cs k \<and> (k \<in> dom b' \<longleftrightarrow> k \<in> dom b \<or> demand R n cs k \<noteq> 0)"
  using assms(3-)
proof (induction n arbitrary: cs m p b b')
  case (Suc n)
  show ?case using Suc.prems
  proof (induction cs arbitrary: b)
    case (Cons c cs)
    let ?k = "cid_bytes (ac_reference c)" and ?q = "unat (ac_quantity c)"
    note small = Cons.prems(4) [rule_format]
    have q: "1 \<le> ?q" using Cons.prems(2) by (intro quantity_pos) simp
    from Cons.prems(1) show ?case
    proof (cases rule: bom_Cons_InrE)
      case leaf
      let ?b = "bom_add ?k (saturating_mul m (ac_quantity c)) b"
      have d: "demand R (Suc n) (c # cs) k = (if k = ?k then ?q else 0) + demand R (Suc n) cs k" for k
        using leaf(2) by (simp add: demand_Cons)
      have lt: "bom_count b ?k + unat m * ?q < 2 ^ 64" using small [of ?k] by (simp add: d distrib_left)
      then have e: "unat (saturating_mul m (ac_quantity c)) = unat m * ?q" by (intro unat_effective) simp
      have cnt: "bom_count ?b j = bom_count b j + (if j = ?k then unat m * ?q else 0)" for j
        using bom_count_add [of b ?k "saturating_mul m (ac_quantity c)" j] lt by (simp add: e)
      have "\<forall>k. bom_count ?b k + unat m * demand R (Suc n) cs k < 2 ^ 64"
      proof
        show "bom_count ?b k + unat m * demand R (Suc n) cs k < 2 ^ 64" for k
          using small [of k] by (cases "k = ?k") (simp_all add: cnt d distrib_left add.assoc)
      qed
      moreover have "dom ?b = insert ?k (dom b)" by (simp add: bom_add_def)
      ultimately show ?thesis
        using Cons.IH [OF leaf(3) _ Cons.prems(3)] Cons.prems(2) q by (auto simp: cnt d distrib_left split: if_splits)
    next
      case (sub s b1)
      let ?d = "demand R n (as_children s)"
      have d: "demand R (Suc n) (c # cs) k = ?q * ?d k + demand R (Suc n) cs k" for k
        using sub(2) by (simp add: demand_Cons)
      have w: "as_children s \<noteq> []" "\<forall>c \<in> set (as_children s). 1 \<le> ac_quantity c" using wf sub(2) by (auto simp: wf_assembly_def)
      have less: "card (assemblies R - set (p @ [?k])) < n"
        using assemblies_less [OF fin sub(2,1)] Cons.prems(3) by simp
      obtain k where k: "1 \<le> ?d k" using demand_part [OF wf fin sub(3) w less] by blast
      have "unat m * ?q \<le> unat m * (?q * ?d k)" using k by simp
      moreover have "unat m * (?q * ?d k) < 2 ^ 64" using small [of k] by (simp add: d distrib_left)
      ultimately have "unat m * ?q < 2 ^ 64" by (rule le_less_trans)
      then have e: "unat (saturating_mul m (ac_quantity c)) = unat m * ?q" by (rule unat_effective)
      have "\<forall>k. bom_count b k + unat (saturating_mul m (ac_quantity c)) * ?d k < 2 ^ 64"
      proof
        show "bom_count b k + unat (saturating_mul m (ac_quantity c)) * ?d k < 2 ^ 64" for k
          using small [of k] by (simp add: e d distrib_left mult.assoc)
      qed
      from Suc.IH [OF sub(3) w(2) less this] have b1: "bom_count b1 k = bom_count b k + unat m * (?q * ?d k)"
        "k \<in> dom b1 \<longleftrightarrow> k \<in> dom b \<or> ?d k \<noteq> 0" for k by (simp_all add: e mult.assoc)
      have "\<forall>k. bom_count b1 k + unat m * demand R (Suc n) cs k < 2 ^ 64"
        using small by (simp add: b1 d distrib_left add.assoc)
      from Cons.IH [OF sub(4) _ Cons.prems(3) this] Cons.prems(2) show ?thesis
        using q by (auto simp: b1 d distrib_left)
    qed
  qed simp
qed simp

text \<open>C15. The bill of materials: over finitely many assemblies the walk always returns.  It reports a cycle exactly if a
  cycle is reachable from the root, and otherwise lists exactly the parts that are needed, each with the sum
  over all paths of the products of the quantities, as long as these fit into 64 bits.\<close>

theorem bom_walk_correct:
  assumes "finite {r. resolve r \<noteq> None}" "wf_assembly root" "\<forall>r s. resolve r = Some s \<longrightarrow> wf_assembly s"
  shows "if cyclic resolve root then walk_bom resolve root = Some (Inl Cycle)
    else \<exists>b. walk_bom resolve root = Some (Inr b) \<and>
      (let need = demand resolve (Suc (card {r. resolve r \<noteq> None})) (as_children root) in
       (\<forall>k. need k < 2 ^ 64) \<longrightarrow> (\<forall>k. b k = (if need k = 0 then None else Some (of_nat (need k)))))"
proof -
  have fin: "finite (assemblies resolve)" using assms(1) by simp
  obtain res where res: "walk_bom resolve root = Some res" unfolding walk_bom_def using bom_returns [OF fin] by blast
  show ?thesis
  proof (cases res)
    case (Inl e)
    then have "e = Cycle" "cyclic resolve root"
      using bom_fails [OF res [unfolded walk_bom_def]] by (auto simp: cyclic_def)
    then show ?thesis using res Inl by simp
  next
    case (Inr b)
    have run: "bom_recurse resolve (as_children root) 1 [] Map.empty = Some (Inr b)" using res Inr by (simp add: walk_bom_def)
    have "walked resolve [] r" if "r \<in> ac_reference ` set (as_children root)" for r
      using run that by (auto simp: walked_def)
    then have acyclic: "\<not> cyclic resolve root" using walked_acyclic by (fastforce simp: cyclic_def)
    let ?need = "demand resolve (Suc (card {r. resolve r \<noteq> None})) (as_children root)"
    have "card (assemblies resolve - set []) < Suc (card {r. resolve r \<noteq> None})"
      using card_image_le [OF assms(1), of cid_bytes] by simp
    note counts = bom_counts [OF assms(3) fin run _ this]
    have "b k = (if ?need k = 0 then None else Some (of_nat (?need k)))" if small: "\<forall>k. ?need k < 2 ^ 64" for k
    proof -
      have "bom_count b k = ?need k \<and> (k \<in> dom b \<longleftrightarrow> ?need k \<noteq> 0)"
        using counts assms(2) small by (simp add: wf_assembly_def bom_count_def)
      then show ?thesis by (cases "b k") (auto simp: bom_count_def split: if_splits, metis of_nat_unat ucast_id)
    qed
    then show ?thesis using res Inr acyclic by (simp add: Let_def)
  qed
qed

definition demo_child :: "u8 \<Rightarrow> u64 \<Rightarrow> assembly_child" where
  "demo_child r q = \<lparr>ac_ref_kind = REF_PIN, ac_reference = ContentId [r], ac_quantity = q, ac_transform = None\<rparr>"

definition demo_resolve :: "content_id \<Rightarrow> assembly_structure option" where
  "demo_resolve r = (if r = ContentId [1] then Some \<lparr>as_children = [demo_child 2 4]\<rparr> else None)"

theorem bom_walk_correct_witness:
  "(let root = \<lparr>as_children = [demo_child 1 3, demo_child 2 5]\<rparr> in
    if cyclic demo_resolve root then walk_bom demo_resolve root = Some (Inl Cycle)
    else \<exists>b. walk_bom demo_resolve root = Some (Inr b) \<and>
      (let need = demand demo_resolve (Suc (card {r. demo_resolve r \<noteq> None})) (as_children root) in
       (\<forall>k. need k < 2 ^ 64) \<longrightarrow> (\<forall>k. b k = (if need k = 0 then None else Some (of_nat (need k))))))"
  unfolding Let_def [of "\<lparr>as_children = [demo_child 1 3, demo_child 2 5]\<rparr>"]
  by (rule bom_walk_correct) (auto simp: demo_resolve_def demo_child_def wf_assembly_def)

text \<open>The demand of that example: three sub-assemblies with four parts each, and five more.\<close>

lemma demo_demand: "demand demo_resolve (Suc (Suc 0)) [demo_child 1 3, demo_child 2 5] [2] = 17"
  by (simp add: demand.simps demo_resolve_def demo_child_def)

text \<open>Beyond 64 bits the accumulated quantity wraps: twice \<open>2^63\<close> of a part is listed as none of it.\<close>

lemma bom_wraps:
  "walk_bom (\<lambda>_. None) \<lparr>as_children = [demo_child 2 (2 ^ 63), demo_child 2 (2 ^ 63)]\<rparr> = Some (Inr [[2] \<mapsto> 0])"
proof -
  have "(18446744073709551616 :: u64) = 0" by (simp add: word_eq_iff_unsigned)
  note z = this
  show ?thesis by (simp add: walk_bom_def bom_Cons demo_child_def bom_add_def saturating_mul_def) (simp only: z)
qed

section \<open>Metadata\<close>

text \<open>What validation promises: the profile rules on formats, sources and deprecation.\<close>

lemma am_validate_iff:
  "am_validate a = Inr () \<longleftrightarrow>
     am_formats a \<noteq> [] \<and>
     (\<forall>f \<in> set (am_formats a). \<not> (af_format_id f = FORMAT_GLTF_MESH \<and> af_role f = CANONICAL_SOURCE) \<and>
        (af_role f = DERIVED_RENDITION \<longrightarrow> af_derived_from_format f \<noteq> None)) \<and>
     length (filter (\<lambda>f. af_role f = (if am_artifact_kind a = KIND_ASSEMBLY then ROLE_STRUCTURE else CANONICAL_SOURCE)) (am_formats a)) = 1 \<and>
     (am_deprecated a \<longrightarrow> (\<exists>r. am_deprecation_reason a = Some r \<and> r \<noteq> []))"
  by (auto simp: am_validate_def format_check_def split: option.splits if_splits)

lemma deprecate_valid: "am_validate a = Inr () \<Longrightarrow> am_validate (deprecate a r) = Inr () \<longleftrightarrow> r \<noteq> []"
  by (simp add: am_validate_iff deprecate_def)

section \<open>Codecs\<close>

definition wf_un :: "units \<Rightarrow> bool" where
  "wf_un u \<longleftrightarrow> un_length_unit u \<noteq> [] \<and> rust_string (un_length_unit u) \<and> pred_option rust_string (un_angle_unit u) \<and>
     pred_option rust_string (un_mass_unit u)"

definition wf_af :: "artifact_format \<Rightarrow> bool" where
  "wf_af f \<longleftrightarrow> short (cid_bytes (af_manifest_root f)) \<and> pred_option (\<lambda>d. short (cid_bytes d)) (af_derived_from_format f) \<and>
     pred_option rust_string (af_format_version f)"

definition wf_am :: "artifact_metadata \<Rightarrow> bool" where
  "wf_am a \<longleftrightarrow> rust_string (am_name a) \<and> rust_string (am_description a) \<and> short (am_formats a) \<and>
     (\<forall>f \<in> set (am_formats a). wf_af f) \<and> wf_un (am_units a) \<and> short (am_tags a) \<and> (\<forall>t \<in> set (am_tags a). rust_string t) \<and>
     am_license a \<noteq> [] \<and> rust_string (am_license a) \<and> pred_option rust_string (am_deprecation_reason a) \<and>
     pred_option (\<lambda>d. short (cid_bytes d)) (am_derived_from a)"

lemma cad_list_map [wire_simps]:
  "(\<And>x. x \<in> set xs \<Longrightarrow> f (g x) = Inr x) \<Longrightarrow> cad_list f (Array (map g xs)) = Inr xs"
  by (simp add: cad_list_def as_array_def)

lemma un_written:
  assumes "wf_un u"
  shows "canon (un_to_cv u)" "fits_depth (Suc 0) (un_to_cv u)" "un_from_fields (un_to_cv u) = Inr u"
proof -
  have f: "field_list (Suc (Suc 0)) 0 (map_fields (un_to_cv u))"
    using assms by (auto simp: un_to_cv_def map_fields_def wf_un_def MAX_NESTING_DEPTH_def pred_option_Some)
  show "canon (un_to_cv u)" "fits_depth (Suc 0) (un_to_cv u)"
    using field_list_Map [OF f] by (simp_all add: un_to_cv_def map_fields_def MAX_NESTING_DEPTH_def)
  show "un_from_fields (un_to_cv u) = Inr u"
    using assms by (simp add: un_from_fields_def un_to_cv_def wf_un_def wire_simps)
qed

lemma af_written:
  assumes "wf_af f"
  shows "canon (af_to_cv f)" "fits_depth (Suc (Suc 0)) (af_to_cv f)" "af_from_cv (af_to_cv f) = Inr f"
proof -
  have f: "field_list (Suc (Suc (Suc 0))) 0 (map_fields (af_to_cv f))"
    using assms by (auto simp: af_to_cv_def map_fields_def wf_af_def MAX_NESTING_DEPTH_def pred_option_Some)
  show "canon (af_to_cv f)" "fits_depth (Suc (Suc 0)) (af_to_cv f)"
    using field_list_Map [OF f] by (simp_all add: af_to_cv_def map_fields_def MAX_NESTING_DEPTH_def)
  show "af_from_cv (af_to_cv f) = Inr f"
    using assms by (simp add: af_from_cv_def af_to_cv_def wf_af_def wire_simps)
qed

lemma am_written:
  assumes "wf_am a"
  shows "canon (am_to_cv a)" "fits_depth 0 (am_to_cv a)" "am_from_cv (am_to_cv a) = Inr a"
proof -
  have f: "field_list (Suc 0) 0 (map_fields (am_to_cv a))"
    using assms by (auto simp: am_to_cv_def map_fields_def wf_am_def MAX_NESTING_DEPTH_def pred_option_Some un_written af_written)
  show "canon (am_to_cv a)" "fits_depth 0 (am_to_cv a)"
    using field_list_Map [OF f] by (simp_all add: am_to_cv_def map_fields_def MAX_NESTING_DEPTH_def)
  have w: "\<And>f. f \<in> set (am_formats a) \<Longrightarrow> af_from_cv (af_to_cv f) = Inr f" "un_from_fields (un_to_cv (am_units a)) = Inr (am_units a)"
    "am_license a \<noteq> []"
    using assms by (auto simp: wf_am_def af_written un_written)
  show "am_from_cv (am_to_cv a) = Inr a"
    by (cases "am_tags a = []"; cases "am_deprecated a"; cases "am_deprecation_reason a"; cases "am_derived_from a")
      (simp_all add: am_from_cv_def am_to_cv_def wire_simps w)
qed

lemma am_round_trip: "wf_am a \<Longrightarrow> am_from_det_cbor (am_det_cbor a) = Inr a"
  using decode_iff_canonical [of "am_det_cbor a" "am_to_cv a"] am_written [of a]
  by (simp add: am_from_det_cbor_def wfrom_bytes_def am_det_cbor_def)

definition wf_ac :: "assembly_child \<Rightarrow> bool" where
  "wf_ac c \<longleftrightarrow> (ac_ref_kind c = REF_PIN \<or> ac_ref_kind c = REF_TRACK) \<and> 1 \<le> ac_quantity c \<and>
     short (cid_bytes (ac_reference c)) \<and> pred_option short (ac_transform c)"

lemma ac_written:
  assumes "wf_ac c"
  shows "canon (ac_to_cv c)" "fits_depth (Suc (Suc 0)) (ac_to_cv c)" "ac_from_cv (ac_to_cv c) = Inr c"
proof -
  have f: "field_list (Suc (Suc (Suc 0))) 0 (map_fields (ac_to_cv c))"
    using assms by (auto simp: ac_to_cv_def map_fields_def wf_ac_def MAX_NESTING_DEPTH_def pred_option_Some)
  show "canon (ac_to_cv c)" "fits_depth (Suc (Suc 0)) (ac_to_cv c)"
    using field_list_Map [OF f] by (simp_all add: ac_to_cv_def map_fields_def MAX_NESTING_DEPTH_def)
  show "ac_from_cv (ac_to_cv c) = Inr c"
    using assms by (auto simp: ac_from_cv_def ac_to_cv_def wf_ac_def wire_simps not_less)
qed

lemma as_round_trip:
  assumes "as_children s \<noteq> []" "short (as_children s)" "\<forall>c \<in> set (as_children s). wf_ac c"
  shows "as_from_det_cbor (as_det_cbor s) = Inr s"
proof -
  let ?v = "Map [(1, Array (map ac_to_cv (as_children s)))]"
  have "canon ?v" "fits_depth 0 ?v" using assms by (auto simp: ac_written MAX_NESTING_DEPTH_def)
  then have "decode (as_det_cbor s) = Inr ?v" by (simp add: decode_iff_canonical as_det_cbor_def)
  moreover have "as_from_cv ?v = Inr s" using assms by (simp add: as_from_cv_def wire_simps ac_written)
  ultimately show ?thesis by (simp add: as_from_det_cbor_def wfrom_bytes_def)
qed

text \<open>What is decoded as an assembly satisfies the precondition of the walk.\<close>

lemma wreq_InrE:
  assumes "wreq w conv k cont f = Inr r"
  obtains x f' where "cont x f' = Inr r"
  using assms by (auto simp: wreq_def split: prod.splits)

lemma wopt_InrE:
  assumes "wopt conv k cont f = Inr r"
  obtains x f' where "cont x f' = Inr r"
  using assms by (cases "fields_take k f"; cases "fst (fields_take k f)") (auto simp: wopt_def)

lemma ac_from_cv_quantity: "ac_from_cv v = Inr c \<Longrightarrow> 1 \<le> ac_quantity c"
  by (auto simp: ac_from_cv_def word_less_1 word_le_nat_alt Suc_le_eq unat_gt_0 elim!: wreq_InrE wopt_InrE split: if_splits)

lemma decoded_assembly_wf:
  assumes "as_from_det_cbor b = Inr s"
  shows "wf_assembly s"
proof -
  obtain v cs where v: "collect_results ac_from_cv v = Inr cs" "cs \<noteq> []" "s = \<lparr>as_children = cs\<rparr>"
    using assms
    by (auto simp: as_from_det_cbor_def wfrom_bytes_def as_from_cv_def wreq_def cad_list_def split: if_splits prod.splits)
  have "1 \<le> ac_quantity c" if "c \<in> set cs" for c
    using collect_results_Inr_set [OF v(1)] that ac_from_cv_quantity by blast
  then show ?thesis using v(2,3) by (simp add: wf_assembly_def)
qed

end
