(* ===== verification/Capability.thy ===== *)
theory Capability
  imports Kt
begin

text \<open>
  Delegated capabilities (\<^verbatim>\<open>capability.rs\<close>): the objects \<open>Capability\<close>,
  \<open>CapabilityToken\<close>, \<open>CapabilityRevocation\<close>, \<open>CapabilityAnnouncement\<close>, the delegation-chain
  checks \<open>verify_chain\<close>, \<open>verify_chain_rooted\<close>, \<open>verify_at\<close>, and the announcement tracker
  \<open>CapsVersionTracker\<close>.

  An empty caveats map \<open>TextMap []\<close> is encoded as the empty integer map, so the codec laws are
  stated for \<open>norm_cv\<close> of the objects' maps, which has the same bytes.
\<close>

definition CAP_TOKEN_DS :: bytes where
  "CAP_TOKEN_DS = ds_tag ''DMTAP-v0/cap-token''"

definition CAP_REVOCATION_DS :: bytes where
  "CAP_REVOCATION_DS = ds_tag ''DMTAP-v0/cap-revocation''"

definition CAP_ANNOUNCE_DS :: bytes where
  "CAP_ANNOUNCE_DS = ds_tag ''DMTAP-v0/cap-announce''"

datatype capability_error =
    CapBadSignature | AttenuationViolation | CapBrokenChain | WindowNotNested | UntrustedRoot
  | NotYetValid | Expired | Revoked | AnnounceRollback

fun capability_error_code :: "capability_error \<Rightarrow> u16" where
  "capability_error_code CapBadSignature = 0x0508"
| "capability_error_code AttenuationViolation = 0x0508"
| "capability_error_code CapBrokenChain = 0x0508"
| "capability_error_code WindowNotNested = 0x0508"
| "capability_error_code UntrustedRoot = 0x0508"
| "capability_error_code NotYetValid = 0x0508"
| "capability_error_code Expired = 0x0508"
| "capability_error_code Revoked = 0x050B"
| "capability_error_code AnnounceRollback = 0x030A"

section \<open>Capabilities and attenuation\<close>

record capability =
  cap_resource :: string
  cap_ability :: string
  cap_caveats :: "cv option"

text \<open>\<open>str::strip_prefix\<close>\<close>

fun strip_prefix :: "string \<Rightarrow> string \<Rightarrow> string option" where
  "strip_prefix [] s = Some s"
| "strip_prefix (p # ps) [] = None"
| "strip_prefix (p # ps) (c # cs) = (if p = c then strip_prefix ps cs else None)"

definition starts_with_slash :: "string \<Rightarrow> bool" where
  "starts_with_slash s = (case s of [] \<Rightarrow> False | c # _ \<Rightarrow> c = CHR ''/'')"

definition scope_covers :: "string \<Rightarrow> string \<Rightarrow> bool" where
  "scope_covers parent child \<longleftrightarrow>
     parent = child \<or>
     (case strip_prefix parent child of None \<Rightarrow> False | Some rest \<Rightarrow> starts_with_slash rest)"

definition caveats_tightened :: "cv option \<Rightarrow> cv option \<Rightarrow> bool" where
  "caveats_tightened parent child =
     (case parent of
        None \<Rightarrow> True
      | Some (TextMap parent_pairs) \<Rightarrow>
          (case child of
             Some (TextMap child_pairs) \<Rightarrow>
               list_all (\<lambda>(k, v). list_ex (\<lambda>(ck, cval). ck = k \<and> cval = v) child_pairs) parent_pairs
           | Some _ \<Rightarrow> False
           | None \<Rightarrow> parent_pairs = [])
      | Some _ \<Rightarrow> False)"

definition capability_covers :: "capability \<Rightarrow> capability \<Rightarrow> bool" where
  "capability_covers parent child \<longleftrightarrow>
     scope_covers (cap_resource parent) (cap_resource child) \<and>
     scope_covers (cap_ability parent) (cap_ability child) \<and>
     caveats_tightened (cap_caveats parent) (cap_caveats child)"

definition cap_to_cv :: "capability \<Rightarrow> cv" where
  "cap_to_cv c =
     Map ([(1, Text (cap_resource c)), (2, Text (cap_ability c))]
          @ (case cap_caveats c of None \<Rightarrow> [] | Some v \<Rightarrow> [(3, v)]))"

definition caveats_from_cv :: "cv \<Rightarrow> cbor_error + cv" where
  "caveats_from_cv c =
     (case c of
        TextMap m \<Rightarrow> Inr (TextMap m)
      | Map m \<Rightarrow> if m = [] then Inr (TextMap []) else Inl TypeMismatch
      | _ \<Rightarrow> Inl TypeMismatch)"

definition cap_from_cv :: "cv \<Rightarrow> cbor_error + capability" where
  "cap_from_cv = read_fields (
     req_as as_text 1 (\<lambda>resource.
     req_as as_text 2 (\<lambda>ability.
     opt_as caveats_from_cv 3 (\<lambda>caveats.
       finish \<lparr>cap_resource = resource, cap_ability = ability, cap_caveats = caveats\<rparr>))))"

section \<open>Tokens\<close>

record capability_token =
  tok_suite :: suite
  tok_iss :: bytes
  tok_aud :: bytes
  tok_caps :: "capability list"
  tok_nbf :: u64
  tok_exp :: u64
  tok_nonce :: bytes
  tok_prnt :: "content_id option"
  tok_sig :: bytes

definition tok_to_cv :: "bool \<Rightarrow> capability_token \<Rightarrow> cv" where
  "tok_to_cv include_sig t =
     Map ([(1, suite_cv (tok_suite t)),
           (2, Bytes (tok_iss t)),
           (3, Bytes (tok_aud t)),
           (4, Array (map cap_to_cv (tok_caps t))),
           (5, U64 (tok_nbf t)),
           (6, U64 (tok_exp t)),
           (7, Bytes (tok_nonce t))]
          @ (case tok_prnt t of None \<Rightarrow> [] | Some p \<Rightarrow> [(8, hash_cv p)])
          @ (if include_sig then [(9, Bytes (tok_sig t))] else []))"

definition tok_det_cbor :: "capability_token \<Rightarrow> bytes" where
  "tok_det_cbor t = encode (tok_to_cv True t)"

definition tok_signing_body :: "capability_token \<Rightarrow> bytes" where
  "tok_signing_body t = encode (tok_to_cv False t)"

definition tok_from_cv :: "cv \<Rightarrow> cbor_error + capability_token" where
  "tok_from_cv = read_fields (
     req_as suite_from_cv 1 (\<lambda>suite.
     req_as as_bytes 2 (\<lambda>iss.
     req_as as_bytes 3 (\<lambda>aud.
     req_as (as_list cap_from_cv) 4 (\<lambda>caps f.
       if caps = [] then Inl TypeMismatch
       else
         (req_as as_u64 5 (\<lambda>nbf.
          req_as as_u64 6 (\<lambda>exp.
          req_as as_bytes 7 (\<lambda>nonce.
          opt_as as_hash 8 (\<lambda>prnt.
          req_as as_bytes 9 (\<lambda>sig.
            finish \<lparr>tok_suite = suite, tok_iss = iss, tok_aud = aud, tok_caps = caps, tok_nbf = nbf,
              tok_exp = exp, tok_nonce = nonce, tok_prnt = prnt, tok_sig = sig\<rparr>)))))) f)))))"

definition tok_from_det_cbor :: "bytes \<Rightarrow> cbor_error + capability_token" where
  "tok_from_det_cbor = from_bytes tok_from_cv"

definition tok_issue :: "crypto \<Rightarrow> identity_key \<Rightarrow> bytes \<Rightarrow> capability list \<Rightarrow> u64 \<Rightarrow> u64 \<Rightarrow> bytes \<Rightarrow>
    content_id option \<Rightarrow> capability_token" where
  "tok_issue C iss aud caps nbf exp nonce prnt =
     (let t = \<lparr>tok_suite = Classical, tok_iss = key_public C iss, tok_aud = aud, tok_caps = caps,
                tok_nbf = nbf, tok_exp = exp, tok_nonce = nonce, tok_prnt = prnt, tok_sig = []\<rparr>
      in t\<lparr>tok_sig := sign_domain C iss CAP_TOKEN_DS (tok_signing_body t)\<rparr>)"

definition tok_verify :: "crypto \<Rightarrow> capability_token \<Rightarrow> identity_error + unit" where
  "tok_verify C t =
     (if \<not> is_supported (tok_suite t) then Inl (UnsupportedSuite (suite_as_u8 (tok_suite t)))
      else verify_domain C (tok_iss t) CAP_TOKEN_DS (tok_signing_body t) (tok_sig t))"

definition tok_content_id :: "crypto \<Rightarrow> capability_token \<Rightarrow> content_id" where
  "tok_content_id C t = content_id_of C (tok_det_cbor t)"

text \<open>The loop of \<open>verify_chain\<close> over the ancestors, nearest parent first.\<close>

fun verify_links :: "crypto \<Rightarrow> capability_token \<Rightarrow> capability_token list \<Rightarrow> capability_error + unit" where
  "verify_links C child [] = (if tok_prnt child \<noteq> None then Inl CapBrokenChain else Inr ())"
| "verify_links C child (parent # chain) =
     and_then (map_err (\<lambda>_. CapBadSignature) (tok_verify C parent)) (\<lambda>_.
       if tok_prnt child \<noteq> Some (tok_content_id C parent) then Inl CapBrokenChain
       else if tok_iss child \<noteq> tok_aud parent then Inl CapBrokenChain
       else if tok_nbf child < tok_nbf parent \<or> tok_exp child > tok_exp parent then Inl WindowNotNested
       else if \<not> list_all (\<lambda>c. list_ex (\<lambda>p. capability_covers p c) (tok_caps parent)) (tok_caps child)
       then Inl AttenuationViolation
       else verify_links C parent chain)"

definition verify_chain :: "crypto \<Rightarrow> capability_token \<Rightarrow> capability_token list \<Rightarrow> capability_error + unit" where
  "verify_chain C t chain =
     and_then (map_err (\<lambda>_. CapBadSignature) (tok_verify C t)) (\<lambda>_. verify_links C t chain)"

definition verify_chain_rooted :: "crypto \<Rightarrow> capability_token \<Rightarrow> capability_token list \<Rightarrow> bytes \<Rightarrow>
    capability_error + unit" where
  "verify_chain_rooted C t chain trusted_root =
     and_then (verify_chain C t chain) (\<lambda>_.
       let root_iss = (if chain = [] then tok_iss t else tok_iss (last chain)) in
       if root_iss \<noteq> trusted_root then Inl UntrustedRoot else Inr ())"

definition verify_at :: "crypto \<Rightarrow> capability_token \<Rightarrow> u64 \<Rightarrow> content_id list \<Rightarrow> capability_error + unit" where
  "verify_at C t now revocations =
     and_then (map_err (\<lambda>_. CapBadSignature) (tok_verify C t)) (\<lambda>_.
       if now < tok_nbf t then Inl NotYetValid
       else if now \<ge> tok_exp t then Inl Expired
       else if list_ex (\<lambda>r. r = tok_content_id C t) revocations then Inl Revoked
       else Inr ())"

section \<open>Revocations\<close>

record capability_revocation =
  rev_suite :: suite
  rev_iss :: bytes
  rev_token :: content_id
  rev_ts :: u64
  rev_sig :: bytes

definition rev_to_cv :: "bool \<Rightarrow> capability_revocation \<Rightarrow> cv" where
  "rev_to_cv include_sig r =
     Map ([(1, suite_cv (rev_suite r)),
           (2, Bytes (rev_iss r)),
           (3, hash_cv (rev_token r)),
           (4, U64 (rev_ts r))]
          @ (if include_sig then [(5, Bytes (rev_sig r))] else []))"

definition rev_det_cbor :: "capability_revocation \<Rightarrow> bytes" where
  "rev_det_cbor r = encode (rev_to_cv True r)"

definition rev_signing_body :: "capability_revocation \<Rightarrow> bytes" where
  "rev_signing_body r = encode (rev_to_cv False r)"

definition rev_from_cv :: "cv \<Rightarrow> cbor_error + capability_revocation" where
  "rev_from_cv = read_fields (
     req_as suite_from_cv 1 (\<lambda>suite.
     req_as as_bytes 2 (\<lambda>iss.
     req_as as_hash 3 (\<lambda>token.
     req_as as_u64 4 (\<lambda>ts.
     req_as as_bytes 5 (\<lambda>sig.
       finish \<lparr>rev_suite = suite, rev_iss = iss, rev_token = token, rev_ts = ts, rev_sig = sig\<rparr>))))))"

definition rev_from_det_cbor :: "bytes \<Rightarrow> cbor_error + capability_revocation" where
  "rev_from_det_cbor = from_bytes rev_from_cv"

definition rev_issue :: "crypto \<Rightarrow> identity_key \<Rightarrow> content_id \<Rightarrow> u64 \<Rightarrow> capability_revocation" where
  "rev_issue C iss token ts =
     (let r = \<lparr>rev_suite = Classical, rev_iss = key_public C iss, rev_token = token, rev_ts = ts, rev_sig = []\<rparr>
      in r\<lparr>rev_sig := sign_domain C iss CAP_REVOCATION_DS (rev_signing_body r)\<rparr>)"

definition rev_verify :: "crypto \<Rightarrow> capability_revocation \<Rightarrow> identity_error + unit" where
  "rev_verify C r =
     (if \<not> is_supported (rev_suite r) then Inl (UnsupportedSuite (suite_as_u8 (rev_suite r)))
      else verify_domain C (rev_iss r) CAP_REVOCATION_DS (rev_signing_body r) (rev_sig r))"

definition rev_verify_authorized :: "crypto \<Rightarrow> capability_revocation \<Rightarrow> bytes list \<Rightarrow> identity_error + unit" where
  "rev_verify_authorized C r authorized_issuers =
     and_then (rev_verify C r) (\<lambda>_.
       if list_ex (\<lambda>k. k = rev_iss r) authorized_issuers then Inr () else Inl BadSignature)"

section \<open>Announcements and their tracker\<close>

record capability_announcement =
  ann_suite :: suite
  ann_iss :: bytes
  ann_caps_version :: u64
  ann_caps :: "capability list"
  ann_ts :: u64
  ann_sig :: bytes

definition ann_to_cv :: "bool \<Rightarrow> capability_announcement \<Rightarrow> cv" where
  "ann_to_cv include_sig a =
     Map ([(1, suite_cv (ann_suite a)),
           (2, Bytes (ann_iss a)),
           (3, U64 (ann_caps_version a)),
           (4, Array (map cap_to_cv (ann_caps a))),
           (5, U64 (ann_ts a))]
          @ (if include_sig then [(6, Bytes (ann_sig a))] else []))"

definition ann_det_cbor :: "capability_announcement \<Rightarrow> bytes" where
  "ann_det_cbor a = encode (ann_to_cv True a)"

definition ann_signing_body :: "capability_announcement \<Rightarrow> bytes" where
  "ann_signing_body a = encode (ann_to_cv False a)"

definition ann_from_cv :: "cv \<Rightarrow> cbor_error + capability_announcement" where
  "ann_from_cv = read_fields (
     req_as suite_from_cv 1 (\<lambda>suite.
     req_as as_bytes 2 (\<lambda>iss.
     req_as as_u64 3 (\<lambda>caps_version.
     req_as (as_list cap_from_cv) 4 (\<lambda>caps.
     req_as as_u64 5 (\<lambda>ts.
     req_as as_bytes 6 (\<lambda>sig.
       finish \<lparr>ann_suite = suite, ann_iss = iss, ann_caps_version = caps_version, ann_caps = caps,
         ann_ts = ts, ann_sig = sig\<rparr>)))))))"

definition ann_from_det_cbor :: "bytes \<Rightarrow> cbor_error + capability_announcement" where
  "ann_from_det_cbor = from_bytes ann_from_cv"

definition ann_issue :: "crypto \<Rightarrow> identity_key \<Rightarrow> u64 \<Rightarrow> capability list \<Rightarrow> u64 \<Rightarrow> capability_announcement" where
  "ann_issue C iss caps_version caps ts =
     (let a = \<lparr>ann_suite = Classical, ann_iss = key_public C iss, ann_caps_version = caps_version,
                ann_caps = caps, ann_ts = ts, ann_sig = []\<rparr>
      in a\<lparr>ann_sig := sign_domain C iss CAP_ANNOUNCE_DS (ann_signing_body a)\<rparr>)"

definition ann_verify :: "crypto \<Rightarrow> capability_announcement \<Rightarrow> identity_error + unit" where
  "ann_verify C a =
     (if \<not> is_supported (ann_suite a) then Inl (UnsupportedSuite (suite_as_u8 (ann_suite a)))
      else verify_domain C (ann_iss a) CAP_ANNOUNCE_DS (ann_signing_body a) (ann_sig a))"

record caps_version_tracker =
  seen :: "bytes \<rightharpoonup> u64"

definition tracker_new :: caps_version_tracker where
  "tracker_new = \<lparr>seen = Map.empty\<rparr>"

definition tracker_last_version :: "caps_version_tracker \<Rightarrow> bytes \<Rightarrow> u64 option" where
  "tracker_last_version tr peer = seen tr peer"

definition tracker_accept :: "crypto \<Rightarrow> caps_version_tracker \<Rightarrow> capability_announcement \<Rightarrow>
    capability_error + caps_version_tracker" where
  "tracker_accept C tr ann =
     and_then (map_err (\<lambda>_. CapBadSignature) (ann_verify C ann)) (\<lambda>_.
       case seen tr (ann_iss ann) of
         Some last_v \<Rightarrow>
           if ann_caps_version ann \<le> last_v then Inl AnnounceRollback
           else Inr (tr\<lparr>seen := (seen tr)(ann_iss ann \<mapsto> ann_caps_version ann)\<rparr>)
       | None \<Rightarrow> Inr (tr\<lparr>seen := (seen tr)(ann_iss ann \<mapsto> ann_caps_version ann)\<rparr>))"


section \<open>Rust type invariants\<close>

definition wf_caveats :: "cv option \<Rightarrow> bool" where
  "wf_caveats cvt =
     (case cvt of
        None \<Rightarrow> True
      | Some (TextMap m) \<Rightarrow> m = [] \<or> canon (TextMap m) \<and> fits_depth 3 (TextMap m)
      | Some _ \<Rightarrow> False)"

definition wf_cap :: "capability \<Rightarrow> bool" where
  "wf_cap c \<longleftrightarrow> rust_string (cap_resource c) \<and> rust_string (cap_ability c) \<and> wf_caveats (cap_caveats c)"

definition wf_caps :: "capability list \<Rightarrow> bool" where
  "wf_caps cs \<longleftrightarrow> length cs < 2 ^ 64 \<and> (\<forall>c \<in> set cs. wf_cap c)"

definition wf_tok :: "capability_token \<Rightarrow> bool" where
  "wf_tok t \<longleftrightarrow> length (tok_iss t) < 2 ^ 64 \<and> length (tok_aud t) < 2 ^ 64 \<and> length (tok_nonce t) < 2 ^ 64 \<and>
     length (tok_sig t) < 2 ^ 64 \<and> wf_hash_opt (tok_prnt t) \<and> tok_caps t \<noteq> [] \<and> wf_caps (tok_caps t)"

definition wf_rev :: "capability_revocation \<Rightarrow> bool" where
  "wf_rev r \<longleftrightarrow> length (rev_iss r) < 2 ^ 64 \<and> length (cid_bytes (rev_token r)) < 2 ^ 64 \<and> length (rev_sig r) < 2 ^ 64"

definition wf_ann :: "capability_announcement \<Rightarrow> bool" where
  "wf_ann a \<longleftrightarrow> length (ann_iss a) < 2 ^ 64 \<and> wf_caps (ann_caps a) \<and> length (ann_sig a) < 2 ^ 64"

section \<open>Codec laws\<close>

abbreviation cap_wire :: "capability \<Rightarrow> cv" where
  "cap_wire c \<equiv> norm_cv (cap_to_cv c)"

lemma wf_caveats_SomeE:
  assumes "wf_caveats (Some v)"
  obtains "v = TextMap []" | m where "v = TextMap m" "m \<noteq> []" "canon v" "fits_depth 3 v" "norm_cv v = v"
proof (cases v)
  case (TextMap m)
  then show ?thesis
    using assms that norm_canon [of v] by (cases "m = []") (simp_all add: wf_caveats_def)
qed (use assms in \<open>simp_all add: wf_caveats_def\<close>)

lemma caveats_from_cv_norm: "wf_caveats (Some v) \<Longrightarrow> caveats_from_cv (norm_cv v) = Inr v"
  by (erule wf_caveats_SomeE) (simp_all add: caveats_from_cv_def)

lemma norm_caveats_canon:
  "wf_caveats (Some v) \<Longrightarrow> canon (norm_cv v) \<and> fits_depth 3 (norm_cv v)"
  by (erule wf_caveats_SomeE) simp_all

lemma caveats_from_cv_Inr:
  assumes "caveats_from_cv v = Inr w" "canon v" "fits_depth 3 v"
  shows "wf_caveats (Some w) \<and> norm_cv w = v"
proof (cases v)
  case (TextMap m)
  then have "w = v" using assms(1) by (simp add: caveats_from_cv_def)
  then show ?thesis using assms(2,3) TextMap norm_canon [OF assms(2)] by (simp add: wf_caveats_def del: norm_cv.simps)
qed (use assms in \<open>auto simp: caveats_from_cv_def wf_caveats_def split: if_splits\<close>)

lemma cap_wire_eq:
  "cap_wire c = Map ([(1, Text (cap_resource c)), (2, Text (cap_ability c))]
     @ (case cap_caveats c of None \<Rightarrow> [] | Some v \<Rightarrow> [(3, norm_cv v)]))"
  by (simp add: cap_to_cv_def split: option.splits)

interpretation cap: cv_object cap_wire cap_from_cv wf_cap 2
proof
  fix c
  assume wf: "wf_cap c"
  then show "canon (cap_wire c)" "fits_depth 2 (cap_wire c)"
    using norm_caveats_canon by (auto simp: cap_wire_eq wf_cap_def split: option.splits)
  show "cap_from_cv (cap_wire c) = Inr c"
    using wf by (cases "cap_caveats c")
      (simp_all add: cap_wire_eq cap_from_cv_def wf_cap_def caveats_from_cv_norm wire_simps)
next
  fix v c
  assume v: "canon v" "fits_depth 2 v" "cap_from_cv v = Inr c"
  have "v = Map ([(1, Text (cap_resource c)), (2, Text (cap_ability c))]
      @ (case cap_caveats c of None \<Rightarrow> [] | Some w \<Rightarrow> [(3, norm_cv w)])) \<and> wf_caveats (cap_caveats c)"
    by (rule read_fields_canonE [OF v(3) [unfolded cap_from_cv_def] v(1,2)])
      (auto simp: wf_caveats_def simp del: canon.simps elim!: req_as_okE opt_as_okE dest!: caveats_from_cv_Inr
        split: option.splits)
  then show "wf_cap c \<and> cap_wire c = v"
    using v(1) by (auto simp: cap_wire_eq wf_cap_def)
qed

lemma wf_caps_canon [simp]:
  "wf_caps cs \<Longrightarrow> canon (Array (map cap_wire cs))" "wf_caps cs \<Longrightarrow> fits_depth (Suc 0) (Array (map cap_wire cs))"
  using cap.list_canon [of cs] cap.list_fits [of cs 1] by (simp_all add: wf_caps_def)

lemma caps_from_to [wire_simps]: "wf_caps cs \<Longrightarrow> as_list cap_from_cv (Array (map cap_wire cs)) = Inr cs"
  by (rule cap.list_from_to) (simp add: wf_caps_def)

lemma caps_to_from:
  "as_list cap_from_cv v = Inr cs \<Longrightarrow> canon v \<Longrightarrow> fits_depth (Suc 0) v \<Longrightarrow> wf_caps cs \<and> v = Array (map cap_wire cs)"
  using cap.list_to_from [of v cs 1] by (simp add: wf_caps_def)

definition tok_wire :: "bool \<Rightarrow> capability_token \<Rightarrow> cv" where
  "tok_wire include_sig t =
     Map ([(1, suite_cv (tok_suite t)), (2, Bytes (tok_iss t)), (3, Bytes (tok_aud t)),
           (4, Array (map cap_wire (tok_caps t))), (5, U64 (tok_nbf t)), (6, U64 (tok_exp t)),
           (7, Bytes (tok_nonce t))]
          @ (case tok_prnt t of None \<Rightarrow> [] | Some p \<Rightarrow> [(8, hash_cv p)])
          @ (if include_sig then [(9, Bytes (tok_sig t))] else []))"

lemma norm_tok_to_cv: "norm_cv (tok_to_cv b t) = tok_wire b t"
  by (simp add: tok_to_cv_def tok_wire_def split: option.splits)

interpretation tok: signed_object "tok_wire True" tok_from_cv wf_tok "tok_wire False" "tok_sig_update (\<lambda>_. [])"
proof
  fix t
  assume wf: "wf_tok t"
  then show "canon (tok_wire True t)" "fits_depth 0 (tok_wire True t)"
    "canon (tok_wire False t)" "fits_depth 0 (tok_wire False t)"
    by (auto simp: tok_wire_def wf_tok_def wf_hash_opt_def simp del: canon.simps(5) fits_depth.simps(1)
        split: option.splits)
  show "tok_from_cv (tok_wire True t) = Inr t"
    using wf by (cases "tok_prnt t") (simp_all add: tok_from_cv_def tok_wire_def wf_tok_def wire_simps)
next
  fix v t
  assume v: "canon v" "fits_depth 0 v" "tok_from_cv v = Inr t"
  have "v = tok_wire True t \<and> tok_caps t \<noteq> [] \<and> wf_caps (tok_caps t)"
    unfolding tok_wire_def
    by (rule read_fields_canonE [OF v(3) [unfolded tok_from_cv_def] v(1,2)])
      (auto elim!: req_as_okE opt_as_okE dest!: caps_to_from split: option.splits if_splits)
  then show "wf_tok t \<and> tok_wire True t = v"
    using v(1) by (auto simp: tok_wire_def wf_tok_def wf_hash_opt_def split: option.splits)
next
  fix x y
  assume "wf_tok x" "wf_tok y" "tok_wire False x = tok_wire False y"
  then show "x\<lparr>tok_sig := []\<rparr> = y\<lparr>tok_sig := []\<rparr>"
    using cap.list_inj [of "tok_caps x" "tok_caps y"]
    by (cases x; cases y) (auto simp: tok_wire_def wf_tok_def wf_caps_def split: option.splits)
qed


interpretation rev: signed_object "rev_to_cv True" rev_from_cv wf_rev "rev_to_cv False" "rev_sig_update (\<lambda>_. [])"
proof
  fix r
  assume wf: "wf_rev r"
  then show "canon (rev_to_cv True r)" "fits_depth 0 (rev_to_cv True r)"
    "canon (rev_to_cv False r)" "fits_depth 0 (rev_to_cv False r)"
    by (simp_all add: rev_to_cv_def wf_rev_def)
  show "rev_from_cv (rev_to_cv True r) = Inr r"
    by (simp add: rev_from_cv_def rev_to_cv_def wire_simps)
next
  fix v r
  assume v: "canon v" "fits_depth 0 v" "rev_from_cv v = Inr r"
  have "v = rev_to_cv True r \<and> True"
    unfolding rev_to_cv_def
    by (rule read_fields_canonE [OF v(3) [unfolded rev_from_cv_def] v(1,2)]) (auto elim!: req_as_okE)
  then show "wf_rev r \<and> rev_to_cv True r = v"
    using v(1) by (auto simp: rev_to_cv_def wf_rev_def)
next
  fix x y
  assume "rev_to_cv False x = rev_to_cv False y"
  then show "x\<lparr>rev_sig := []\<rparr> = y\<lparr>rev_sig := []\<rparr>"
    by (cases x; cases y) (simp add: rev_to_cv_def)
qed

definition ann_wire :: "bool \<Rightarrow> capability_announcement \<Rightarrow> cv" where
  "ann_wire include_sig a =
     Map ([(1, suite_cv (ann_suite a)), (2, Bytes (ann_iss a)), (3, U64 (ann_caps_version a)),
           (4, Array (map cap_wire (ann_caps a))), (5, U64 (ann_ts a))]
          @ (if include_sig then [(6, Bytes (ann_sig a))] else []))"

lemma norm_ann_to_cv: "norm_cv (ann_to_cv b a) = ann_wire b a"
  by (simp add: ann_to_cv_def ann_wire_def)

interpretation ann: signed_object "ann_wire True" ann_from_cv wf_ann "ann_wire False" "ann_sig_update (\<lambda>_. [])"
proof
  fix a
  assume wf: "wf_ann a"
  then show "canon (ann_wire True a)" "fits_depth 0 (ann_wire True a)"
    "canon (ann_wire False a)" "fits_depth 0 (ann_wire False a)"
    by (simp_all add: ann_wire_def wf_ann_def del: canon.simps(5) fits_depth.simps(1))
  show "ann_from_cv (ann_wire True a) = Inr a"
    using wf by (simp add: ann_from_cv_def ann_wire_def wf_ann_def wire_simps)
next
  fix v a
  assume v: "canon v" "fits_depth 0 v" "ann_from_cv v = Inr a"
  have "v = ann_wire True a \<and> wf_caps (ann_caps a)"
    unfolding ann_wire_def
    by (rule read_fields_canonE [OF v(3) [unfolded ann_from_cv_def] v(1,2)])
      (auto elim!: req_as_okE dest!: caps_to_from)
  then show "wf_ann a \<and> ann_wire True a = v"
    using v(1) by (auto simp: ann_wire_def wf_ann_def)
next
  fix x y
  assume "wf_ann x" "wf_ann y" "ann_wire False x = ann_wire False y"
  then show "x\<lparr>ann_sig := []\<rparr> = y\<lparr>ann_sig := []\<rparr>"
    using cap.list_inj [of "ann_caps x" "ann_caps y"]
    by (cases x; cases y) (simp add: ann_wire_def wf_ann_def wf_caps_def)
qed

end
