(* ===== verification/Capability_Chain.thy ===== *)
theory Capability_Chain
  imports Capability Rollback
begin

text \<open>
  What the delegation checks of \<^verbatim>\<open>capability.rs\<close> guarantee: attenuation is a preorder, a verified
  chain never widens a grant from its root to its leaf and is fixed by the leaf's bytes, a
  correctly issued delegation verifies, and the announcement tracker never accepts an old
  version.
\<close>

section \<open>Attenuation is a preorder\<close>

lemma strip_prefix_Some_iff: "strip_prefix p s = Some r \<longleftrightarrow> s = p @ r"
  by (induction p s rule: strip_prefix.induct) auto

text \<open>\<open>scope_covers\<close> is the path-prefix order: the child is the parent or lies below it.\<close>

lemma scope_covers_iff: "scope_covers p c \<longleftrightarrow> c = p \<or> (\<exists>r. c = p @ CHR ''/'' # r)"
proof -
  have "starts_with_slash r \<longleftrightarrow> (\<exists>r'. r = CHR ''/'' # r')" for r
    by (cases r) (auto simp: starts_with_slash_def)
  then have "(\<exists>r. strip_prefix p c = Some r \<and> starts_with_slash r) \<longleftrightarrow> (\<exists>r. c = p @ CHR ''/'' # r)"
    by (auto simp: strip_prefix_Some_iff)
  then show ?thesis by (auto simp: scope_covers_def split: option.splits)
qed

lemma scope_covers_refl [simp]: "scope_covers s s"
  by (simp add: scope_covers_iff)

lemma scope_covers_trans: "scope_covers a b \<Longrightarrow> scope_covers b c \<Longrightarrow> scope_covers a c"
  by (auto simp: scope_covers_iff)

lemma scope_covers_antisym: "scope_covers a b \<Longrightarrow> scope_covers b a \<Longrightarrow> a = b"
  by (auto simp: scope_covers_iff)

definition caveat_pairs :: "cv option \<Rightarrow> (string \<times> cv) set" where
  "caveat_pairs c = (case c of Some (TextMap m) \<Rightarrow> set m | _ \<Rightarrow> {})"

lemma wf_caveatsE:
  assumes "wf_caveats c"
  obtains "c = None" | m where "c = Some (TextMap m)"
  using assms by (auto simp: wf_caveats_def split: option.splits cv.splits)

lemma caveats_tightened_iff:
  assumes "wf_caveats p" and "wf_caveats c"
  shows "caveats_tightened p c \<longleftrightarrow> caveat_pairs p \<subseteq> caveat_pairs c"
  using assms by (elim wf_caveatsE) (auto simp: caveats_tightened_def caveat_pairs_def list_all_iff list_ex_iff)

lemma capability_covers_refl: "wf_cap c \<Longrightarrow> capability_covers c c"
  by (simp add: capability_covers_def wf_cap_def caveats_tightened_iff)

lemma capability_covers_trans:
  assumes "wf_cap a" "wf_cap b" "wf_cap c" "capability_covers a b" "capability_covers b c"
  shows "capability_covers a c"
proof -
  have "caveats_tightened (cap_caveats a) (cap_caveats c)"
    using assms by (simp add: capability_covers_def wf_cap_def caveats_tightened_iff) blast
  then show ?thesis
    using assms(4,5) scope_covers_trans by (simp add: capability_covers_def) blast
qed

section \<open>What a verified chain is\<close>

definition grants_within :: "capability_token \<Rightarrow> capability_token \<Rightarrow> bool" where
  "grants_within child parent \<longleftrightarrow>
     tok_nbf parent \<le> tok_nbf child \<and> tok_exp child \<le> tok_exp parent \<and>
     (\<forall>c \<in> set (tok_caps child). \<exists>p \<in> set (tok_caps parent). capability_covers p c)"

definition delegates :: "crypto \<Rightarrow> capability_token \<Rightarrow> capability_token \<Rightarrow> bool" where
  "delegates C child parent \<longleftrightarrow>
     tok_prnt child = Some (tok_content_id C parent) \<and> tok_iss child = tok_aud parent \<and>
     grants_within child parent"

lemma verify_links_Inr_iff:
  "verify_links C t chain = Inr () \<longleftrightarrow>
     (\<forall>p \<in> set chain. tok_verify C p = Inr ()) \<and> successively (delegates C) (t # chain) \<and>
     tok_prnt (last (t # chain)) = None"
proof (induction chain arbitrary: t)
  case (Cons p chain)
  then show ?case
    by (auto simp: delegates_def grants_within_def list_all_iff list_ex_iff not_less split: if_splits)
qed (auto split: if_splits)

lemma verify_chain_Inr_iff:
  "verify_chain C t chain = Inr () \<longleftrightarrow>
     (\<forall>p \<in> set (t # chain). tok_verify C p = Inr ()) \<and> successively (delegates C) (t # chain) \<and>
     tok_prnt (last (t # chain)) = None"
  by (auto simp: verify_chain_def verify_links_Inr_iff)

lemma grants_within_refl: "wf_tok t \<Longrightarrow> grants_within t t"
  by (auto simp: grants_within_def wf_tok_def wf_caps_def intro!: capability_covers_refl)

lemma grants_within_trans:
  assumes "wf_tok a" "wf_tok b" "wf_tok c" "grants_within a b" "grants_within b c"
  shows "grants_within a c"
proof -
  have "\<exists>z \<in> set (tok_caps c). capability_covers z x" if "x \<in> set (tok_caps a)" for x
  proof -
    from that obtain y where y: "y \<in> set (tok_caps b)" "capability_covers y x"
      using assms(4) by (auto simp: grants_within_def)
    with assms(5) obtain z where "z \<in> set (tok_caps c)" "capability_covers z y"
      by (auto simp: grants_within_def)
    with that y assms(1-3) show ?thesis
      by (metis capability_covers_trans wf_caps_def wf_tok_def)
  qed
  with assms(4,5) show ?thesis by (auto simp: grants_within_def)
qed

lemma chain_grants_within:
  assumes "successively (delegates C) (t # chain)" "\<forall>x \<in> set (t # chain). wf_tok x" "a \<in> set (t # chain)"
  shows "grants_within t a"
  using assms
proof (induction chain arbitrary: t)
  case Nil
  then show ?case by (auto intro: grants_within_refl)
next
  case (Cons p chain)
  show ?case
  proof (cases "a = t")
    case True
    then show ?thesis using Cons.prems by (auto intro: grants_within_refl)
  next
    case False
    then have "grants_within p a" "grants_within t p"
      using Cons by (auto simp: delegates_def)
    then show ?thesis using Cons.prems by (auto intro: grants_within_trans)
  qed
qed

section \<open>Issued tokens\<close>

lemma tok_issue_simps [simp]:
  "tok_iss (tok_issue C k aud caps nbf exp nonce prnt) = key_public C k"
  "tok_aud (tok_issue C k aud caps nbf exp nonce prnt) = aud"
  "tok_caps (tok_issue C k aud caps nbf exp nonce prnt) = caps"
  "tok_nbf (tok_issue C k aud caps nbf exp nonce prnt) = nbf"
  "tok_exp (tok_issue C k aud caps nbf exp nonce prnt) = exp"
  "tok_nonce (tok_issue C k aud caps nbf exp nonce prnt) = nonce"
  "tok_prnt (tok_issue C k aud caps nbf exp nonce prnt) = prnt"
  "tok_suite (tok_issue C k aud caps nbf exp nonce prnt) = Classical"
  by (simp_all add: tok_issue_def Let_def)

lemma tok_verify_issue:
  assumes "ed25519_law C" "length k = 32"
  shows "tok_verify C (tok_issue C k aud caps nbf exp nonce prnt) = Inr ()"
  using verify_sign_domain [OF assms]
  by (simp add: tok_verify_def tok_issue_def Let_def is_supported_def tok_signing_body_def tok_to_cv_def)

lemma length_tok_sig_issue:
  "ed25519_law C \<Longrightarrow> length k = 32 \<Longrightarrow> length (tok_sig (tok_issue C k aud caps nbf exp nonce prnt)) = 64"
  by (simp add: tok_issue_def Let_def sign_domain_def ed25519_law_def)

section \<open>A sample delegation\<close>

text \<open>A mailbox grant and its delegation with a narrower resource, one caveat and a shorter window.\<close>

definition demo_cap :: capability where
  "demo_cap = \<lparr>cap_resource = ''mail'', cap_ability = ''read'', cap_caveats = None\<rparr>"

definition demo_subcap :: capability where
  "demo_subcap = \<lparr>cap_resource = ''mail/inbox'', cap_ability = ''read'',
     cap_caveats = Some (TextMap [(''max'', U64 5)])\<rparr>"

definition demo_root :: capability_token where
  "demo_root = tok_issue toy_crypto (replicate 32 1) (replicate 32 2) [demo_cap] 10 100 [7] None"

definition demo_child :: capability_token where
  "demo_child = tok_issue toy_crypto (replicate 32 2) (replicate 32 3) [demo_subcap] 20 90 [8]
     (Some (tok_content_id toy_crypto demo_root))"

lemma demo_wf: "wf_tok demo_root" "wf_tok demo_child"
proof -
  have "wf_caveats (cap_caveats demo_subcap)"
    by (simp add: demo_subcap_def wf_caveats_def rust_string_def as_bytes_of_def utf8_cont_def)
  then have "wf_caps [demo_cap]" "wf_caps [demo_subcap]"
    by (simp_all add: wf_caps_def wf_cap_def demo_cap_def demo_subcap_def wf_caveats_def rust_string_def as_bytes_of_def)
  then show "wf_tok demo_root" "wf_tok demo_child"
    by (simp_all add: demo_root_def demo_child_def wf_tok_def wf_hash_opt_def length_tok_sig_issue toy_crypto_laws
        tok_content_id_def content_id_of_def) (simp_all add: toy_crypto_def key_public_def)
qed

lemma demo_chain: "verify_chain_rooted toy_crypto demo_child [demo_root] (replicate 32 1) = Inr ()"
proof -
  have "capability_covers demo_cap demo_subcap"
    by (simp add: capability_covers_def demo_cap_def demo_subcap_def scope_covers_def starts_with_slash_def caveats_tightened_def)
  then have "verify_chain toy_crypto demo_child [demo_root] = Inr ()"
    by (simp add: verify_chain_Inr_iff demo_root_def demo_child_def tok_verify_issue toy_crypto_laws
        delegates_def grants_within_def) (simp add: toy_crypto_def key_public_def)
  then show ?thesis
    by (simp add: verify_chain_rooted_def) (simp add: demo_root_def toy_crypto_def key_public_def)
qed

lemma demo_ids: "tok_content_id toy_crypto demo_child \<noteq> tok_content_id toy_crypto demo_root"
  by (simp add: tok_content_id_def content_id_of_def tok_det_cbor_def encode_def tok_to_cv_def enc_Map_sorted
      toy_crypto_def toy_hash_def write_head_def) (simp add: demo_root_def demo_child_def enc_Map_sorted write_head_def)

section \<open>Properties\<close>

text \<open>C25. A token whose delegation chain verifies carries no right its chain does not: for every
  token of the chain, the validity window of the leaf lies inside that token's window and each of
  the leaf's capabilities is covered by one of that token's capabilities.  Every token of the chain
  is correctly signed, and the rooted variant also pins the issuer of the last one.\<close>

theorem verify_chain_attenuates:
  assumes "verify_chain_rooted C t chain root = Inr ()" and "\<forall>x \<in> set (t # chain). wf_tok x"
  shows "(\<forall>a \<in> set (t # chain). tok_verify C a = Inr () \<and> tok_nbf a \<le> tok_nbf t \<and> tok_exp t \<le> tok_exp a \<and>
           (\<forall>c \<in> set (tok_caps t). \<exists>p \<in> set (tok_caps a). capability_covers p c)) \<and>
         tok_iss (last (t # chain)) = root \<and> tok_prnt (last (t # chain)) = None"
proof -
  have v: "verify_chain C t chain = Inr ()" "tok_iss (last (t # chain)) = root"
    using assms(1) by (auto simp: verify_chain_rooted_def Let_def split: if_splits)
  moreover have "\<forall>a \<in> set (t # chain). grants_within t a"
    using v(1) assms(2) chain_grants_within [of C t chain] by (auto simp only: verify_chain_Inr_iff)
  ultimately show ?thesis by (auto simp only: verify_chain_Inr_iff grants_within_def)
qed

theorem verify_chain_attenuates_witness:
  "tok_iss (last [demo_child, demo_root]) = replicate 32 1 \<and> tok_verify toy_crypto demo_root = Inr () \<and>
   capability_covers demo_cap demo_subcap"
proof -
  have "tok_caps demo_child = [demo_subcap]" "tok_caps demo_root = [demo_cap]"
    by (simp_all add: demo_child_def demo_root_def)
  then show ?thesis using verify_chain_attenuates [OF demo_chain] demo_wf by simp
qed

text \<open>The leaf's bytes fix its chain: two chains that verify for the same token are equal, or
  two of their tokens with different encodings have the same BLAKE3 digest.\<close>

theorem verify_chain_unique:
  assumes "verify_chain C t ch1 = Inr ()" "verify_chain C t ch2 = Inr ()" "\<forall>x \<in> set (ch1 @ ch2). wf_tok x"
  shows "ch1 = ch2 \<or> (\<exists>p \<in> set ch1. \<exists>q \<in> set ch2. tok_det_cbor p \<noteq> tok_det_cbor q \<and>
           blake3 C (tok_det_cbor p) = blake3 C (tok_det_cbor q))"
  using assms
proof (induction ch1 arbitrary: t ch2)
  case Nil
  then show ?case by (cases ch2) (auto simp: verify_chain_Inr_iff delegates_def)
next
  case (Cons p ch1)
  then obtain q ch2' where ch2: "ch2 = q # ch2'" by (cases ch2) (auto simp: verify_chain_Inr_iff delegates_def)
  have "blake3 C (tok_det_cbor p) = blake3 C (tok_det_cbor q)"
    using Cons.prems by (auto simp: ch2 verify_chain_Inr_iff delegates_def tok_content_id_def content_id_of_def)
  moreover have "p = q" if "tok_det_cbor p = tok_det_cbor q"
    using tok.det_cbor_inj [of p q] that Cons.prems(3) encode_norm_cv [of "tok_to_cv True p"]
      encode_norm_cv [of "tok_to_cv True q"]
    by (simp add: ch2 tok_det_cbor_def norm_tok_to_cv)
  moreover have "ch1 = ch2' \<or> (\<exists>p \<in> set ch1. \<exists>q \<in> set ch2'. tok_det_cbor p \<noteq> tok_det_cbor q \<and>
           blake3 C (tok_det_cbor p) = blake3 C (tok_det_cbor q))" if "p = q"
    using Cons.prems that by (intro Cons.IH [of p]) (auto simp: ch2 verify_chain_Inr_iff)
  ultimately show ?case by (auto simp: ch2)
qed

lemma demo_chain': "verify_chain toy_crypto demo_child [demo_root] = Inr ()"
  using demo_chain by (simp add: verify_chain_rooted_def)

theorem verify_chain_unique_witness:
  "[demo_root] = [demo_root] \<or> (\<exists>p \<in> set [demo_root]. \<exists>q \<in> set [demo_root].
     tok_det_cbor p \<noteq> tok_det_cbor q \<and> blake3 toy_crypto (tok_det_cbor p) = blake3 toy_crypto (tok_det_cbor q))"
  by (rule verify_chain_unique [OF demo_chain' demo_chain']) (simp add: demo_wf)

text \<open>Delegation works: when a verified token is delegated by its audience, with a window
  inside the parent's and capabilities covered by the parent's, the issued child verifies
  against the parent's chain extended by the parent.\<close>

theorem delegation_verifies:
  assumes "ed25519_law C" and "length k = 32" and "verify_chain_rooted C parent chain root = Inr ()"
    and "key_public C k = tok_aud parent" and "tok_nbf parent \<le> nbf" and "exp \<le> tok_exp parent"
    and "\<forall>c \<in> set caps. \<exists>p \<in> set (tok_caps parent). capability_covers p c"
  shows "verify_chain_rooted C (tok_issue C k aud caps nbf exp nonce (Some (tok_content_id C parent)))
           (parent # chain) root = Inr ()"
proof -
  let ?t = "tok_issue C k aud caps nbf exp nonce (Some (tok_content_id C parent))"
  have "verify_chain C parent chain = Inr ()" "tok_iss (last (parent # chain)) = root"
    using assms(3) by (auto simp: verify_chain_rooted_def Let_def split: if_splits)
  moreover have "delegates C ?t parent"
    using assms(4-7) by (auto simp: delegates_def grants_within_def)
  moreover have "tok_verify C ?t = Inr ()"
    by (rule tok_verify_issue [OF assms(1,2)])
  ultimately have "verify_chain C ?t (parent # chain) = Inr ()"
    by (simp add: verify_chain_Inr_iff)
  with \<open>tok_iss (last (parent # chain)) = root\<close> show ?thesis
    by (simp add: verify_chain_rooted_def Let_def)
qed

theorem delegation_verifies_witness:
  "verify_chain_rooted toy_crypto
     (tok_issue toy_crypto (replicate 32 3) [9] [demo_subcap] 30 80 [] (Some (tok_content_id toy_crypto demo_child)))
     [demo_child, demo_root] (replicate 32 1) = Inr ()"
  by (rule delegation_verifies [OF toy_crypto_laws(2) _ demo_chain])
    (use capability_covers_refl [of demo_subcap] demo_wf(2) in
      \<open>simp_all add: demo_child_def key_public_def toy_crypto_def wf_tok_def wf_caps_def\<close>)

text \<open>A token that is valid at a given time rests on a chain that is valid at that time: when
  the chain verifies and \<open>verify_at\<close> accepts the leaf at \<open>now\<close>, every token of the chain has begun
  and none has expired.\<close>

theorem valid_leaf_valid_chain:
  assumes "verify_chain C t chain = Inr ()" and "\<forall>x \<in> set (t # chain). wf_tok x"
    and "verify_at C t now revs = Inr ()"
  shows "tok_content_id C t \<notin> set revs \<and> (\<forall>a \<in> set (t # chain). tok_nbf a \<le> now \<and> now < tok_exp a)"
proof -
  have "\<forall>a \<in> set (t # chain). grants_within t a"
    using assms(1,2) chain_grants_within [of C t chain] by (auto simp only: verify_chain_Inr_iff)
  moreover have "tok_nbf t \<le> now" "now < tok_exp t" "tok_content_id C t \<notin> set revs"
    using assms(3) by (auto simp: verify_at_def list_ex_iff not_less split: if_splits)
  ultimately show ?thesis unfolding grants_within_def by (meson order_trans order_less_le_trans)
qed

lemma demo_valid_at: "verify_at toy_crypto demo_child 50 [] = Inr ()"
  by (simp add: verify_at_def demo_child_def tok_verify_issue toy_crypto_laws)

theorem valid_leaf_valid_chain_witness:
  "tok_nbf demo_root \<le> 50 \<and> 50 < tok_exp demo_root"
  using valid_leaf_valid_chain [OF demo_chain' _ demo_valid_at] demo_wf by simp

text \<open>Revoking ancestors has no effect on \<open>verify_at\<close>: adding the content addresses of other
  tokens to the revocation set, the ancestors of a verified chain included, never changes its
  answer for the leaf.\<close>

theorem verify_at_ignores_ancestors:
  assumes "verify_chain C t chain = Inr ()" and "tok_content_id C t \<notin> tok_content_id C ` set chain"
  shows "verify_at C t now (map (tok_content_id C) chain @ revs) = verify_at C t now revs"
  using assms(2) by (auto simp: verify_at_def list_ex_iff)

theorem verify_at_ignores_ancestors_witness:
  "verify_at toy_crypto demo_child 50 [tok_content_id toy_crypto demo_root] = Inr ()"
  using verify_at_ignores_ancestors [OF demo_chain', of 50 "[]"] demo_ids demo_valid_at by simp

section \<open>Announcements\<close>

lemma ann_verify_issue:
  assumes "ed25519_law C" "length k = 32"
  shows "ann_verify C (ann_issue C k v caps ts) = Inr ()"
  using verify_sign_domain [OF assms]
  by (simp add: ann_verify_def ann_issue_def Let_def is_supported_def ann_signing_body_def ann_to_cv_def)

definition demo_announcement :: "u64 \<Rightarrow> capability_announcement" where
  "demo_announcement v = ann_issue toy_crypto (replicate 32 1) v [demo_cap] 0"

lemma demo_announcement_verifies: "ann_verify toy_crypto (demo_announcement v) = Inr ()"
  by (simp add: demo_announcement_def ann_verify_issue toy_crypto_laws)

lemma demo_announcement_fields:
  "ann_iss (demo_announcement v) = key_public toy_crypto (replicate 32 1)"
  "ann_caps_version (demo_announcement v) = v"
  by (simp_all add: demo_announcement_def ann_issue_def Let_def)

lemma tracker_accept_Inr_iff:
  "tracker_accept C tr a = Inr tr' \<longleftrightarrow>
     ann_verify C a = Inr () \<and> (\<forall>f. seen tr (ann_iss a) = Some f \<longrightarrow> f < ann_caps_version a) \<and>
     tr' = tr\<lparr>seen := (seen tr)(ann_iss a \<mapsto> ann_caps_version a)\<rparr>"
  by (auto simp: tracker_accept_def not_le split: option.splits if_splits)

interpretation tracker: version_floor
  seen "tracker_accept C" ann_iss ann_caps_version "\<lambda>a. ann_verify C a = Inr ()" "(\<le>)" for C
  by unfold_locales (auto simp: tracker_accept_Inr_iff not_le)

text \<open>No rollback: once an announcement of a peer is accepted, no announcement of that peer
  with the same or a lower version is accepted later, whatever was offered in between.\<close>

theorem announcement_no_rollback:
  assumes "tracker_accept C tr a = Inr tr1" and "ann_iss b = ann_iss a"
    and "ann_caps_version b \<le> ann_caps_version a"
  shows "\<nexists>tr2. tracker_accept C (run_accepts (tracker_accept C) tr1 anns) b = Inr tr2"
  using assms by (rule tracker.no_rollback)

theorem announcement_no_rollback_witness:
  "\<nexists>tr2. tracker_accept toy_crypto
     (run_accepts (tracker_accept toy_crypto)
        (tracker_new\<lparr>seen := [key_public toy_crypto (replicate 32 1) \<mapsto> 3]\<rparr>) [demo_announcement 5])
     (demo_announcement 2) = Inr tr2"
  by (rule announcement_no_rollback [of _ tracker_new "demo_announcement 3"])
    (simp_all add: tracker_accept_Inr_iff demo_announcement_verifies tracker_new_def demo_announcement_fields)

section \<open>Wire formats\<close>

lemma encode_tok_wire: "encode (tok_wire b t) = encode (tok_to_cv b t)"
  using encode_norm_cv [of "tok_to_cv b t"] by (simp add: norm_tok_to_cv)

lemma encode_ann_wire: "encode (ann_wire b a) = encode (ann_to_cv b a)"
  using encode_norm_cv [of "ann_to_cv b a"] by (simp add: norm_ann_to_cv)

text \<open>The token decoder accepts exactly the encodings of well-formed tokens: a byte string
  decodes to \<open>t\<close> if and only if \<open>t\<close> is well-formed and the string is its \<open>det_cbor\<close>; the same
  holds for revocations and announcements.\<close>

theorem capability_objects_decode_iff:
  "(tok_from_det_cbor b = Inr t \<longleftrightarrow> wf_tok t \<and> b = tok_det_cbor t) \<and>
   (rev_from_det_cbor b = Inr r \<longleftrightarrow> wf_rev r \<and> b = rev_det_cbor r) \<and>
   (ann_from_det_cbor b = Inr a \<longleftrightarrow> wf_ann a \<and> b = ann_det_cbor a)"
  using tok.from_bytes_iff rev.from_bytes_iff ann.from_bytes_iff
  by (simp add: tok_from_det_cbor_def tok_det_cbor_def encode_tok_wire rev_from_det_cbor_def rev_det_cbor_def
      ann_from_det_cbor_def ann_det_cbor_def encode_ann_wire)

text \<open>What is signed is the whole token: two well-formed tokens with the same signing body
  agree on every field but the signature.\<close>

theorem token_signing_body_binds:
  assumes "wf_tok x" "wf_tok y" "tok_signing_body x = tok_signing_body y"
  shows "x\<lparr>tok_sig := []\<rparr> = y\<lparr>tok_sig := []\<rparr>"
  using tok.signing_body_binds [OF assms(1,2)] assms(3) by (simp add: tok_signing_body_def encode_tok_wire)

theorem token_signing_body_binds_witness:
  "(demo_root\<lparr>tok_sig := [1]\<rparr>)\<lparr>tok_sig := []\<rparr> = demo_root\<lparr>tok_sig := []\<rparr>"
  by (rule token_signing_body_binds)
    (use demo_wf(1) in \<open>simp_all add: wf_tok_def tok_signing_body_def tok_to_cv_def\<close>)

end
