(* ===== verification/Deniable.thy ===== *)
theory Deniable
  imports Wire_Order Mote_Wire
begin

text \<open>
  The objects of the deniable 1:1 mode, \<^verbatim>\<open>deniable.rs\<close>: the prekey bundle with its three signatures over
  public keys, the unsigned transport frames (a choice on key 0) and the unsigned payload.  The bundle
  writes its signature (key 10) after the keys 11 and 12; \<open>pb_wire\<close> is the same map with ascending keys.
\<close>

definition DENIABLE_PREKEYS_DS :: bytes where "DENIABLE_PREKEYS_DS = ds_tag ''DMTAP-v0/deniable-prekeys''"
definition DENIABLE_SPK_DS :: bytes where "DENIABLE_SPK_DS = ds_tag ''DMTAP-v0/deniable-spk''"
definition DENIABLE_IDK_DS :: bytes where "DENIABLE_IDK_DS = ds_tag ''DMTAP-v0/deniable-idk''"

record deniable_prekey_bundle =
  pb_suite :: suite
  pb_ik :: bytes
  pb_idk :: bytes
  pb_idk_sig :: bytes
  pb_spk :: bytes
  pb_spk_sig :: bytes
  pb_opks :: "bytes list"
  pb_last_kem :: "bytes option"
  pb_okems :: "bytes list option"
  pb_version :: u64
  pb_ts :: u64
  pb_sig :: bytes

definition pb_to_cv :: "bool \<Rightarrow> deniable_prekey_bundle \<Rightarrow> cv" where
  "pb_to_cv include_sig b = Map (
     [(1, suite_cv (pb_suite b)), (2, Bytes (pb_ik b)), (3, Bytes (pb_spk b)), (4, Bytes (pb_spk_sig b)),
      (5, Array (map Bytes (pb_opks b)))]
     @ (case pb_last_kem b of None \<Rightarrow> [] | Some k \<Rightarrow> [(6, Bytes k)])
     @ (case pb_okems b of None \<Rightarrow> [] | Some ks \<Rightarrow> [(7, Array (map Bytes ks))])
     @ [(8, U64 (pb_version b)), (9, U64 (pb_ts b)), (11, Bytes (pb_idk b)), (12, Bytes (pb_idk_sig b))]
     @ (if include_sig then [(10, Bytes (pb_sig b))] else []))"

definition pb_det_cbor :: "deniable_prekey_bundle \<Rightarrow> bytes" where
  "pb_det_cbor b = encode (pb_to_cv True b)"

definition pb_signing_body :: "deniable_prekey_bundle \<Rightarrow> bytes" where
  "pb_signing_body b = encode (pb_to_cv False b)"

definition pb_from_cv :: "cv \<Rightarrow> cbor_error + deniable_prekey_bundle" where
  "pb_from_cv = read_fields (
     req_as suite_from_cv 1 (\<lambda>s.
     req_as as_bytes 2 (\<lambda>ik.
     req_as as_bytes 3 (\<lambda>spk.
     req_as as_bytes 4 (\<lambda>spk_sig.
     req_as (as_list as_bytes) 5 (\<lambda>opks.
     opt_as as_bytes 6 (\<lambda>last_kem.
     opt_as (as_list as_bytes) 7 (\<lambda>okems.
     req_as as_u64 8 (\<lambda>version.
     req_as as_u64 9 (\<lambda>ts.
     req_as as_bytes 10 (\<lambda>sig.
     req_as as_bytes 11 (\<lambda>idk.
     req_as as_bytes 12 (\<lambda>idk_sig.
       finish \<lparr>pb_suite = s, pb_ik = ik, pb_idk = idk, pb_idk_sig = idk_sig, pb_spk = spk, pb_spk_sig = spk_sig,
         pb_opks = opks, pb_last_kem = last_kem, pb_okems = okems, pb_version = version, pb_ts = ts,
         pb_sig = sig\<rparr>)))))))))))))"

definition pb_from_det_cbor :: "bytes \<Rightarrow> cbor_error + deniable_prekey_bundle" where
  "pb_from_det_cbor = from_bytes pb_from_cv"

definition pb_issue :: "crypto \<Rightarrow> identity_key \<Rightarrow> bytes \<Rightarrow> bytes \<Rightarrow> bytes list \<Rightarrow> u64 \<Rightarrow> u64 \<Rightarrow> deniable_prekey_bundle" where
  "pb_issue C device idk spk opks version ts =
     (let idk_sig = sign_domain C device DENIABLE_IDK_DS idk;
          spk_sig = sign_domain C device DENIABLE_SPK_DS spk;
          b = \<lparr>pb_suite = Classical, pb_ik = key_public C device, pb_idk = idk, pb_idk_sig = idk_sig, pb_spk = spk,
               pb_spk_sig = spk_sig, pb_opks = opks, pb_last_kem = None, pb_okems = None, pb_version = version,
               pb_ts = ts, pb_sig = []\<rparr>
      in b\<lparr>pb_sig := sign_domain C device DENIABLE_PREKEYS_DS (pb_signing_body b)\<rparr>)"

definition pb_verify :: "crypto \<Rightarrow> deniable_prekey_bundle \<Rightarrow> identity_error + unit" where
  "pb_verify C b =
     (if \<not> is_supported (pb_suite b) then Inl (UnsupportedSuite (suite_as_u8 (pb_suite b)))
      else
        and_then (verify_domain C (pb_ik b) DENIABLE_IDK_DS (pb_idk b) (pb_idk_sig b)) (\<lambda>_.
        and_then (verify_domain C (pb_ik b) DENIABLE_SPK_DS (pb_spk b) (pb_spk_sig b)) (\<lambda>_.
          verify_domain C (pb_ik b) DENIABLE_PREKEYS_DS (pb_signing_body b) (pb_sig b))))"

record deniable_message =
  dm_dh :: bytes
  dm_pn :: u32
  dm_n :: u32
  dm_ct :: bytes

definition dm_to_cv :: "deniable_message \<Rightarrow> cv" where
  "dm_to_cv m = Map
     [(0, U64 2), (1, Bytes (dm_dh m)), (2, U64 (ucast (dm_pn m))), (3, U64 (ucast (dm_n m))), (4, Bytes (dm_ct m))]"

definition dm_from_fields :: "(deniable_message \<Rightarrow> fields \<Rightarrow> cbor_error + 'r) \<Rightarrow> fields \<Rightarrow> cbor_error + 'r" where
  "dm_from_fields ok =
     req_as as_bytes 1 (\<lambda>dh.
     req_as as_u32 2 (\<lambda>pn.
     req_as as_u32 3 (\<lambda>n.
     req_as as_bytes 4 (\<lambda>ct.
       ok \<lparr>dm_dh = dh, dm_pn = pn, dm_n = n, dm_ct = ct\<rparr>))))"

definition dm_from_cv :: "cv \<Rightarrow> cbor_error + deniable_message" where
  "dm_from_cv = read_fields (
     req_as as_u64 0 (\<lambda>disc f.
       if disc \<noteq> 2 then Inl (UnknownDiscriminant disc) else dm_from_fields finish f))"

record deniable_init =
  di_suite :: suite
  di_ik_a :: bytes
  di_idk_a :: bytes
  di_idk_a_cert :: bytes
  di_ek_a :: bytes
  di_spk_ref :: content_id
  di_opk_ref :: "content_id option"
  di_kem_ct :: "bytes option"
  di_kem_ref :: "content_id option"
  di_msg :: deniable_message

definition di_to_cv :: "deniable_init \<Rightarrow> cv" where
  "di_to_cv i = Map (
     [(0, U64 1), (1, suite_cv (di_suite i)), (2, Bytes (di_ik_a i)), (3, Bytes (di_ek_a i)), (4, hash_cv (di_spk_ref i))]
     @ (case di_opk_ref i of None \<Rightarrow> [] | Some r \<Rightarrow> [(5, hash_cv r)])
     @ (case di_kem_ct i of None \<Rightarrow> [] | Some c \<Rightarrow> [(6, Bytes c)])
     @ (case di_kem_ref i of None \<Rightarrow> [] | Some r \<Rightarrow> [(7, hash_cv r)])
     @ [(8, dm_to_cv (di_msg i)), (9, Bytes (di_idk_a i)), (10, Bytes (di_idk_a_cert i))])"

definition di_from_fields :: "(deniable_init \<Rightarrow> fields \<Rightarrow> cbor_error + 'r) \<Rightarrow> fields \<Rightarrow> cbor_error + 'r" where
  "di_from_fields ok =
     req_as suite_from_cv 1 (\<lambda>s.
     req_as as_bytes 2 (\<lambda>ik_a.
     req_as as_bytes 3 (\<lambda>ek_a.
     req_as as_hash 4 (\<lambda>spk_ref.
     opt_as as_hash 5 (\<lambda>opk_ref.
     opt_as as_bytes 6 (\<lambda>kem_ct.
     opt_as as_hash 7 (\<lambda>kem_ref.
     req_as dm_from_cv 8 (\<lambda>msg.
     req_as as_bytes 9 (\<lambda>idk_a.
     req_as as_bytes 10 (\<lambda>idk_a_cert.
       ok \<lparr>di_suite = s, di_ik_a = ik_a, di_idk_a = idk_a, di_idk_a_cert = idk_a_cert, di_ek_a = ek_a,
         di_spk_ref = spk_ref, di_opk_ref = opk_ref, di_kem_ct = kem_ct, di_kem_ref = kem_ref, di_msg = msg\<rparr>))))))))))"

definition di_verify :: "crypto \<Rightarrow> deniable_init \<Rightarrow> identity_error + unit" where
  "di_verify C i =
     (if \<not> is_supported (di_suite i) then Inl (UnsupportedSuite (suite_as_u8 (di_suite i)))
      else verify_domain C (di_ik_a i) DENIABLE_IDK_DS (di_idk_a i) (di_idk_a_cert i))"

datatype deniable_frame = FrameInit deniable_init | FrameMessage deniable_message

fun fr_to_cv :: "deniable_frame \<Rightarrow> cv" where
  "fr_to_cv (FrameInit i) = di_to_cv i"
| "fr_to_cv (FrameMessage m) = dm_to_cv m"

definition fr_det_cbor :: "deniable_frame \<Rightarrow> bytes" where
  "fr_det_cbor f = encode (fr_to_cv f)"

definition fr_from_cv :: "cv \<Rightarrow> cbor_error + deniable_frame" where
  "fr_from_cv = read_fields (
     req_as as_u64 0 (\<lambda>disc.
       if disc = 1 then di_from_fields (\<lambda>i. finish (FrameInit i))
       else if disc = 2 then dm_from_fields (\<lambda>m. finish (FrameMessage m))
       else (\<lambda>_. Inl (UnknownDiscriminant disc))))"

definition fr_from_det_cbor :: "bytes \<Rightarrow> cbor_error + deniable_frame" where
  "fr_from_det_cbor = from_bytes fr_from_cv"

record deniable_payload =
  dp_from :: bytes
  dp_kind :: kind
  dp_headers :: headers
  dp_body :: bytes
  dp_refs :: "content_id list"
  dp_attach :: "attachment list"
  dp_expires :: "u64 option"

definition dp_to_cv :: "deniable_payload \<Rightarrow> cv" where
  "dp_to_cv p = Map (
     [(1, Bytes (dp_from p)), (2, U64 (ucast (kind_as_u8 (dp_kind p)))), (3, hdr_to_cv (dp_headers p)), (4, Bytes (dp_body p)),
      (5, Array (map hash_cv (dp_refs p))), (6, Array (map att_to_cv (dp_attach p)))]
     @ (case dp_expires p of None \<Rightarrow> [] | Some e \<Rightarrow> [(7, U64 e)]))"

definition dp_det_cbor :: "deniable_payload \<Rightarrow> bytes" where
  "dp_det_cbor p = encode (dp_to_cv p)"

definition dp_from_cv :: "cv \<Rightarrow> cbor_error + deniable_payload" where
  "dp_from_cv = read_fields (
     req_as as_bytes 1 (\<lambda>from.
     req_as kind_from_cv 2 (\<lambda>kind.
     req_as hdr_from_cv 3 (\<lambda>headers.
     req_as as_bytes 4 (\<lambda>body.
     req_as (as_list as_hash) 5 (\<lambda>refs.
     req_as (as_list att_from_cv) 6 (\<lambda>attach.
     opt_as as_u64 7 (\<lambda>expires.
       finish \<lparr>dp_from = from, dp_kind = kind, dp_headers = headers, dp_body = body, dp_refs = refs, dp_attach = attach,
         dp_expires = expires\<rparr>))))))))"

definition dp_from_det_cbor :: "bytes \<Rightarrow> cbor_error + deniable_payload" where
  "dp_from_det_cbor = from_bytes dp_from_cv"

section \<open>Codecs\<close>

definition pb_wire :: "bool \<Rightarrow> deniable_prekey_bundle \<Rightarrow> cv" where
  "pb_wire include_sig b = Map (
     [(1, suite_cv (pb_suite b)), (2, Bytes (pb_ik b)), (3, Bytes (pb_spk b)), (4, Bytes (pb_spk_sig b)),
      (5, Array (map Bytes (pb_opks b)))]
     @ (case pb_last_kem b of None \<Rightarrow> [] | Some k \<Rightarrow> [(6, Bytes k)])
     @ (case pb_okems b of None \<Rightarrow> [] | Some ks \<Rightarrow> [(7, Array (map Bytes ks))])
     @ [(8, U64 (pb_version b)), (9, U64 (pb_ts b))]
     @ (if include_sig then [(10, Bytes (pb_sig b))] else [])
     @ [(11, Bytes (pb_idk b)), (12, Bytes (pb_idk_sig b))])"

lemma enc_pb_wire: "enc (pb_to_cv i b) = enc (pb_wire i b)"
  unfolding pb_to_cv_def pb_wire_def
  by (rule enc_Map_mset) (simp_all add: word_less_nat_alt split: option.splits)

definition wf_pb :: "deniable_prekey_bundle \<Rightarrow> bool" where
  "wf_pb b \<longleftrightarrow> short (pb_ik b) \<and> short (pb_idk b) \<and> short (pb_idk_sig b) \<and> short (pb_spk b) \<and> short (pb_spk_sig b) \<and>
     short (pb_opks b) \<and> (\<forall>k \<in> set (pb_opks b). short k) \<and> pred_option short (pb_last_kem b) \<and>
     pred_option (\<lambda>ks. short ks \<and> (\<forall>k \<in> set ks. short k)) (pb_okems b) \<and> short (pb_sig b)"

lemma pb_cv_object: "cv_object (pb_wire True) pb_from_cv wf_pb 0"
  by (rule cv_fieldsI [OF pb_wire_def pb_from_cv_def])
    (auto simp: wf_pb_def wire_simps MAX_NESTING_DEPTH_def pred_option_Some elim!: prim_readE)

lemma pb_signed: "signed_object (pb_wire True) pb_from_cv wf_pb (pb_wire False) (\<lambda>b. b\<lparr>pb_sig := []\<rparr>)"
  by (rule signed_fieldsI [OF pb_cv_object pb_wire_def pb_wire_def, where s = "(10, Bytes [])"])
    (auto simp: wf_pb_def MAX_NESTING_DEPTH_def pred_option_Some)

interpretation pb: signed_object "pb_wire True" pb_from_cv wf_pb "pb_wire False" "\<lambda>b. b\<lparr>pb_sig := []\<rparr>"
  by (rule pb_signed)

definition wf_dm :: "deniable_message \<Rightarrow> bool" where
  "wf_dm m \<longleftrightarrow> short (dm_dh m) \<and> short (dm_ct m)"

lemma dm_cv_object: "cv_object dm_to_cv dm_from_cv wf_dm 1"
proof (rule cv_fieldsI [OF dm_to_cv_def dm_from_cv_def], goal_cases)
  case (4 m x)
  then show ?case by (auto simp: wf_dm_def dm_from_fields_def reading_test elim!: prim_readE)
qed (auto simp: wf_dm_def dm_from_fields_def wire_simps MAX_NESTING_DEPTH_def)

lemma wf_dm_written [simp]:
  "wf_dm m \<Longrightarrow> canon (dm_to_cv m)" "wf_dm m \<Longrightarrow> fits_depth (Suc 0) (dm_to_cv m)" "wf_dm m \<Longrightarrow> dm_from_cv (dm_to_cv m) = Inr m"
  using cv_object.axioms(1) [OF dm_cv_object]
  by (simp_all add: cv_writer.canon_to_cv cv_writer.fits_to_cv cv_writer.from_to_cv)

lemmas dm_readE = cv_object.reads_object [OF dm_cv_object, unfolded One_nat_def, THEN [2] reading_reqE]

definition wf_di :: "deniable_init \<Rightarrow> bool" where
  "wf_di i \<longleftrightarrow> short (di_ik_a i) \<and> short (di_idk_a i) \<and> short (di_idk_a_cert i) \<and> short (di_ek_a i) \<and>
     short (cid_bytes (di_spk_ref i)) \<and> pred_option (\<lambda>r. short (cid_bytes r)) (di_opk_ref i) \<and>
     pred_option short (di_kem_ct i) \<and> pred_option (\<lambda>r. short (cid_bytes r)) (di_kem_ref i) \<and> wf_dm (di_msg i)"

fun wf_fr :: "deniable_frame \<Rightarrow> bool" where
  "wf_fr (FrameInit i) \<longleftrightarrow> wf_di i"
| "wf_fr (FrameMessage m) \<longleftrightarrow> wf_dm m"

lemma fr_fields: "fr_to_cv f = Map (map_fields (fr_to_cv f))"
  by (cases f) (simp_all add: map_fields_def di_to_cv_def dm_to_cv_def)

lemma fr_cv_object: "cv_object fr_to_cv fr_from_cv wf_fr 0"
proof (rule cv_fieldsI [OF fr_fields fr_from_cv_def], goal_cases)
  case (2 x)
  then show ?case
    by (cases x) (auto simp: map_fields_def di_to_cv_def dm_to_cv_def wf_di_def wf_dm_def MAX_NESTING_DEPTH_def pred_option_Some
        simp del: wf_dm_written intro: wf_dm_written)
next
  case (3 x)
  then show ?case
  proof (cases x)
    case (FrameInit i)
    then show ?thesis using 3 by (simp add: map_fields_def di_to_cv_def wf_di_def di_from_fields_def wire_simps)
  next
    case (FrameMessage m)
    then show ?thesis by (simp add: map_fields_def dm_to_cv_def dm_from_fields_def wire_simps)
  qed
next
  case (4 m x)
  then show ?case
    by (auto simp: reading_if di_from_fields_def dm_from_fields_def map_fields_def di_to_cv_def dm_to_cv_def wf_di_def wf_dm_def
        elim!: prim_readE dm_readE split: if_splits)
qed (simp add: MAX_NESTING_DEPTH_def)

interpretation fr: wire_object fr_to_cv fr_from_cv wf_fr
  by (rule wire_object.intro [OF fr_cv_object])

definition wf_dp :: "deniable_payload \<Rightarrow> bool" where
  "wf_dp p \<longleftrightarrow> short (dp_from p) \<and> wf_hdr (dp_headers p) \<and> short (dp_body p) \<and> short (dp_refs p) \<and>
     (\<forall>i \<in> set (dp_refs p). short (cid_bytes i)) \<and> short (dp_attach p) \<and> (\<forall>a \<in> set (dp_attach p). wf_att a)"

definition dp_form :: "deniable_payload \<Rightarrow> cv \<Rightarrow> cv" where
  "dp_form p h = Map (
     [(1, Bytes (dp_from p)), (2, U64 (ucast (kind_as_u8 (dp_kind p)))), (3, h), (4, Bytes (dp_body p)),
      (5, Array (map hash_cv (dp_refs p))), (6, Array (map att_to_cv (dp_attach p)))]
     @ (case dp_expires p of None \<Rightarrow> [] | Some e \<Rightarrow> [(7, U64 e)]))"

lemma dp_form_written:
  assumes "wf_dp p" "canon h" "fits_depth 1 h" "hdr_from_cv h = Inr (dp_headers p)"
  shows "canon (dp_form p h)" "fits_depth 0 (dp_form p h)" "dp_from_cv (dp_form p h) = Inr p"
proof -
  have att: "as_list att_from_cv (Array (map att_to_cv (dp_attach p))) = Inr (dp_attach p)"
    using assms(1) by (intro att.list_from_to) (simp add: wf_dp_def)
  show "canon (dp_form p h)"
    using assms by (auto simp: dp_form_def wf_dp_def att.canon_to_cv split: option.split)
  show "fits_depth 0 (dp_form p h)"
    using assms by (auto simp: dp_form_def wf_dp_def MAX_NESTING_DEPTH_def att.fits_to_cv [unfolded numeral_2_eq_2]
        split: option.split)
  show "dp_from_cv (dp_form p h) = Inr p"
    using assms by (simp add: dp_from_cv_def dp_form_def wire_simps att)
qed

lemma dp_read:
  assumes v: "canon c" "fits_depth 0 c" "dp_from_cv c = Inr p"
  shows "wf_dp p \<and> (\<exists>h. c = dp_form p h \<and> (h = hdr_to_cv (dp_headers p) \<or> hd_ext (dp_headers p) = [] \<and> h = hdr_alt_cv (dp_headers p)))"
proof -
  have "\<exists>h. c = dp_form p h \<and>
      (wf_dp p \<and> (h = hdr_to_cv (dp_headers p) \<or> hd_ext (dp_headers p) = [] \<and> h = hdr_alt_cv (dp_headers p)))"
    unfolding dp_form_def
  proof (rule read_fields_canon_exE [OF v(3) [unfolded dp_from_cv_def] v(1,2)], goal_cases)
    case (1 m)
    then show ?case
      by (auto elim!: prim_readE mote_readE att_list_readE reading_anyE [of _ _ _ hdr_from_cv]
          dest!: hdr_read [simplified, rotated 2] simp: wf_dp_def simp del: canon.simps)
  next
    case (2 e)
    show ?case by (auto split: option.split)
  qed
  then show ?thesis by blast
qed

lemma dp_decode_iff:
  "dp_from_det_cbor b = Inr p \<longleftrightarrow> wf_dp p \<and>
     (b = dp_det_cbor p \<or> hd_ext (dp_headers p) = [] \<and> b = encode (dp_form p (hdr_alt_cv (dp_headers p))))"
proof
  assume "dp_from_det_cbor b = Inr p"
  then obtain c where c: "decode b = Inr c" "dp_from_cv c = Inr p" by (auto simp: dp_from_det_cbor_def from_bytes_def)
  then have "canon c" "fits_depth 0 c" "b = encode c" by (auto simp: decode_iff_canonical)
  with dp_read [OF this(1,2) c(2)] show "wf_dp p \<and>
     (b = dp_det_cbor p \<or> hd_ext (dp_headers p) = [] \<and> b = encode (dp_form p (hdr_alt_cv (dp_headers p))))"
    by (auto simp: dp_det_cbor_def dp_to_cv_def dp_form_def)
next
  assume b: "wf_dp p \<and> (b = dp_det_cbor p \<or> hd_ext (dp_headers p) = [] \<and> b = encode (dp_form p (hdr_alt_cv (dp_headers p))))"
  then have "wf_hdr (dp_headers p)" by (simp add: wf_dp_def)
  note h = hdr_written [OF this]
  have d: "dp_to_cv p = dp_form p (hdr_to_cv (dp_headers p))" by (simp add: dp_to_cv_def dp_form_def)
  have "\<exists>c. b = encode c \<and> canon c \<and> fits_depth 0 c \<and> dp_from_cv c = Inr p"
    using b h dp_form_written [of p] unfolding dp_det_cbor_def d by blast
  then show "dp_from_det_cbor b = Inr p"
    by (auto simp: dp_from_det_cbor_def from_bytes_def decode_iff_canonical)
qed

section \<open>Properties\<close>

text \<open>The objects of the deniable mode are read exactly: prekey bundles and transport frames decode from their
  canonical bytes only, and a payload whose bytes carry any key besides its seven fields, such as a
  smuggled signature, does not decode.\<close>

lemma deniable_objects_exact:
  "(pb_from_det_cbor b = Inr x \<longleftrightarrow> wf_pb x \<and> b = pb_det_cbor x) \<and>
   (fr_from_det_cbor b = Inr f \<longleftrightarrow> wf_fr f \<and> b = fr_det_cbor f) \<and>
   ((\<exists>p. dp_from_det_cbor b = Inr p) \<longrightarrow> (\<exists>m. decode b = Inr (Map m) \<and> (\<forall>k \<in> fst ` set m. 1 \<le> k \<and> k \<le> 7)))"
proof (intro conjI impI)
  show "pb_from_det_cbor b = Inr x \<longleftrightarrow> wf_pb x \<and> b = pb_det_cbor x"
    by (simp add: pb_from_det_cbor_def pb_det_cbor_def pb.from_bytes_iff encode_def enc_pb_wire)
  show "fr_from_det_cbor b = Inr f \<longleftrightarrow> wf_fr f \<and> b = fr_det_cbor f"
    by (simp add: fr_from_det_cbor_def fr_det_cbor_def fr.from_bytes_iff)
  assume "\<exists>p. dp_from_det_cbor b = Inr p"
  then obtain p c where c: "decode b = Inr c" "dp_from_cv c = Inr p"
    by (auto simp: dp_from_det_cbor_def from_bytes_def)
  then obtain h where "c = dp_form p h" using dp_read [of c p] by (auto simp: decode_iff_canonical)
  then show "\<exists>m. decode b = Inr (Map m) \<and> (\<forall>k \<in> fst ` set m. 1 \<le> k \<and> k \<le> 7)"
    using c(1) by (auto simp: dp_form_def word_le_nat_alt split: option.splits)
qed

text \<open>A verified bundle certifies its two public keys and its whole body under the identity key, and an
  issued one verifies.\<close>

lemma pb_verify_iff:
  "pb_verify C b = Inr () \<longleftrightarrow> is_supported (pb_suite b) \<and>
     verify_domain C (pb_ik b) DENIABLE_IDK_DS (pb_idk b) (pb_idk_sig b) = Inr () \<and>
     verify_domain C (pb_ik b) DENIABLE_SPK_DS (pb_spk b) (pb_spk_sig b) = Inr () \<and>
     verify_domain C (pb_ik b) DENIABLE_PREKEYS_DS (pb_signing_body b) (pb_sig b) = Inr ()"
  by (auto simp: pb_verify_def)

lemma pb_issue_verifies:
  assumes "ed25519_law C" "length k = 32"
  shows "pb_verify C (pb_issue C k idk spk opks v ts) = Inr ()"
  using verify_sign_domain [OF assms]
  by (simp add: pb_verify_iff pb_issue_def Let_def pb_signing_body_def pb_to_cv_def)

lemma bundle_binds:
  assumes "wf_pb x" "wf_pb y" "pb_signing_body x = pb_signing_body y"
  shows "x\<lparr>pb_sig := []\<rparr> = y\<lparr>pb_sig := []\<rparr>"
  using pb.signing_body_binds [OF assms(1,2)] assms(3) by (simp add: pb_signing_body_def encode_def enc_pb_wire)

end
