(* ===== verification/Directory.thy ===== *)
theory Directory
  imports Wire_Laws
begin

text \<open>
  The organisation directory of \<^verbatim>\<open>directory.rs\<close>: entries, the signed directory object and its
  verification against a pinned authority.
\<close>

definition DOMAIN_DIRECTORY_DS :: bytes where
  "DOMAIN_DIRECTORY_DS = ds_tag ''DMTAP-v0/domain-directory''"

datatype visibility = VisPublic | VisMembersOnly

fun vis_as_str :: "visibility \<Rightarrow> string" where
  "vis_as_str VisPublic = ''public''"
| "vis_as_str VisMembersOnly = ''members-only''"

definition vis_from_str :: "string \<Rightarrow> cbor_error + visibility" where
  "vis_from_str s =
     (if s = ''public'' then Inr VisPublic else if s = ''members-only'' then Inr VisMembersOnly else Inl TypeMismatch)"

datatype custody = Sovereign | OrgManaged

fun cust_as_str :: "custody \<Rightarrow> string" where
  "cust_as_str Sovereign = ''sovereign''"
| "cust_as_str OrgManaged = ''org-managed''"

definition cust_from_str :: "string \<Rightarrow> cbor_error + custody" where
  "cust_from_str s =
     (if s = ''sovereign'' then Inr Sovereign else if s = ''org-managed'' then Inr OrgManaged else Inl TypeMismatch)"

record dir_entry =
  de_name :: string
  de_ik :: bytes
  de_id :: content_id
  de_custody :: custody
  de_roles :: "string list option"
  de_added :: u64

definition de_to_cv :: "dir_entry \<Rightarrow> cv" where
  "de_to_cv e = Map (
     [(1, Text (de_name e)), (2, Bytes (de_ik e)), (3, hash_cv (de_id e)), (4, Text (cust_as_str (de_custody e)))]
     @ (case de_roles e of None \<Rightarrow> [] | Some r \<Rightarrow> [(5, Array (map Text r))])
     @ [(6, U64 (de_added e))])"

definition cust_from_cv :: "cv \<Rightarrow> cbor_error + custody" where
  "cust_from_cv c = and_then (as_text c) cust_from_str"

definition vis_from_cv :: "cv \<Rightarrow> cbor_error + visibility" where
  "vis_from_cv c = and_then (as_text c) vis_from_str"

definition de_from_cv :: "cv \<Rightarrow> cbor_error + dir_entry" where
  "de_from_cv = read_fields (
     req_as as_text 1 (\<lambda>name.
     req_as as_bytes 2 (\<lambda>ik.
     req_as as_hash 3 (\<lambda>i.
     req_as cust_from_cv 4 (\<lambda>custody.
     opt_as (as_list as_text) 5 (\<lambda>roles.
     req_as as_u64 6 (\<lambda>added.
       finish \<lparr>de_name = name, de_ik = ik, de_id = i, de_custody = custody, de_roles = roles, de_added = added\<rparr>)))))))"

record domain_directory =
  dd_suite :: suite
  dd_domain :: string
  dd_authority :: bytes
  dd_version :: u64
  dd_visibility :: visibility
  dd_entries :: "dir_entry list"
  dd_prev :: "content_id option"
  dd_ts :: u64
  dd_sig :: bytes

definition dd_to_cv :: "bool \<Rightarrow> domain_directory \<Rightarrow> cv" where
  "dd_to_cv include_sig d = Map (
     [(1, suite_cv (dd_suite d)), (2, Text (dd_domain d)), (3, Bytes (dd_authority d)), (4, U64 (dd_version d)),
      (5, Text (vis_as_str (dd_visibility d))), (6, Array (map de_to_cv (dd_entries d)))]
     @ (case dd_prev d of None \<Rightarrow> [] | Some p \<Rightarrow> [(7, hash_cv p)])
     @ [(8, U64 (dd_ts d))]
     @ (if include_sig then [(9, Bytes (dd_sig d))] else []))"

definition dd_det_cbor :: "domain_directory \<Rightarrow> bytes" where
  "dd_det_cbor d = encode (dd_to_cv True d)"

definition dd_signing_body :: "domain_directory \<Rightarrow> bytes" where
  "dd_signing_body d = encode (dd_to_cv False d)"

definition dd_from_cv :: "cv \<Rightarrow> cbor_error + domain_directory" where
  "dd_from_cv = read_fields (
     req_as suite_from_cv 1 (\<lambda>s.
     req_as as_text 2 (\<lambda>domain.
     req_as as_bytes 3 (\<lambda>authority.
     req_as as_u64 4 (\<lambda>version.
     req_as vis_from_cv 5 (\<lambda>vis.
     req_as (as_list de_from_cv) 6 (\<lambda>entries.
     opt_as as_hash 7 (\<lambda>prev.
     req_as as_u64 8 (\<lambda>ts.
     req_as as_bytes 9 (\<lambda>sig.
       finish \<lparr>dd_suite = s, dd_domain = domain, dd_authority = authority, dd_version = version, dd_visibility = vis,
         dd_entries = entries, dd_prev = prev, dd_ts = ts, dd_sig = sig\<rparr>))))))))))"

definition dd_from_det_cbor :: "bytes \<Rightarrow> cbor_error + domain_directory" where
  "dd_from_det_cbor = from_bytes dd_from_cv"

definition dd_issue :: "crypto \<Rightarrow> identity_key \<Rightarrow> string \<Rightarrow> u64 \<Rightarrow> visibility \<Rightarrow> dir_entry list \<Rightarrow> content_id option \<Rightarrow>
    u64 \<Rightarrow> domain_directory" where
  "dd_issue C authority domain version vis entries prev ts =
     (let d = \<lparr>dd_suite = Classical, dd_domain = domain, dd_authority = key_public C authority, dd_version = version,
                dd_visibility = vis, dd_entries = entries, dd_prev = prev, dd_ts = ts, dd_sig = []\<rparr>
      in d\<lparr>dd_sig := sign_domain C authority DOMAIN_DIRECTORY_DS (dd_signing_body d)\<rparr>)"

definition dd_verify :: "crypto \<Rightarrow> domain_directory \<Rightarrow> identity_error + unit" where
  "dd_verify C d =
     (if \<not> is_supported (dd_suite d) then Inl (UnsupportedSuite (suite_as_u8 (dd_suite d)))
      else verify_domain C (dd_authority d) DOMAIN_DIRECTORY_DS (dd_signing_body d) (dd_sig d))"

datatype domain_directory_error = DdSigInvalid | DdAuthorityMismatch

fun domain_directory_error_code :: "domain_directory_error \<Rightarrow> u16" where
  "domain_directory_error_code DdSigInvalid = 0x0113"
| "domain_directory_error_code DdAuthorityMismatch = 0x0113"

definition dd_verify_pinned :: "crypto \<Rightarrow> domain_directory \<Rightarrow> bytes \<Rightarrow> domain_directory_error + unit" where
  "dd_verify_pinned C d pinned_authority =
     and_then (map_err (\<lambda>_. DdSigInvalid) (dd_verify C d)) (\<lambda>_.
       if dd_authority d \<noteq> pinned_authority then Inl DdAuthorityMismatch else Inr ())"

section \<open>Codec\<close>

lemma enum_from_str_iff: "cust_from_str s = Inr x \<longleftrightarrow> s = cust_as_str x" "vis_from_str s = Inr v \<longleftrightarrow> s = vis_as_str v"
proof -
  show "cust_from_str s = Inr x \<longleftrightarrow> s = cust_as_str x" by (cases x) (simp_all add: cust_from_str_def)
  show "vis_from_str s = Inr v \<longleftrightarrow> s = vis_as_str v" by (cases v) (simp_all add: vis_from_str_def)
qed

lemma enum_from_cv_Inr_iff [simp]:
  "cust_from_cv c = Inr x \<longleftrightarrow> c = Text (cust_as_str x)" "vis_from_cv c = Inr v \<longleftrightarrow> c = Text (vis_as_str v)"
  by (simp_all add: cust_from_cv_def vis_from_cv_def enum_from_str_iff)

lemma reads_enum:
  "reads cust_from_cv (\<lambda>x. Text (cust_as_str x)) (\<lambda>_. True) d" "reads vis_from_cv (\<lambda>x. Text (vis_as_str x)) (\<lambda>_. True) d"
  by (simp_all add: reads_def)

lemma enum_from_cv [wire_simps]:
  "cust_from_cv (Text (cust_as_str x)) = Inr x" "vis_from_cv (Text (vis_as_str v)) = Inr v"
  by simp_all

lemma enum_str [simp]: "rust_string (cust_as_str x)" "rust_string (vis_as_str v)"
proof -
  show "rust_string (cust_as_str x)" by (cases x) (simp_all add: rust_string_def as_bytes_of_def)
  show "rust_string (vis_as_str v)" by (cases v) (simp_all add: rust_string_def as_bytes_of_def)
qed

definition wf_de :: "dir_entry \<Rightarrow> bool" where
  "wf_de e \<longleftrightarrow> rust_string (de_name e) \<and> short (de_ik e) \<and> short (cid_bytes (de_id e)) \<and>
     pred_option (\<lambda>r. short r \<and> (\<forall>t \<in> set r. rust_string t)) (de_roles e)"

lemmas dir_readE = prim_readE reads_enum [THEN [2] reading_reqE]

lemma de_cv_object: "cv_object de_to_cv de_from_cv wf_de 2"
  by (rule cv_fieldsI [OF de_to_cv_def de_from_cv_def])
    (auto simp: wf_de_def wire_simps MAX_NESTING_DEPTH_def pred_option_Some elim!: dir_readE)

lemmas reads_entries = cv_object.reads_object [OF de_cv_object, unfolded numeral_2_eq_2, THEN reads_list, THEN [2] reading_reqE]

lemma wf_de_written [simp]:
  "wf_de e \<Longrightarrow> canon (de_to_cv e)" "wf_de e \<Longrightarrow> fits_depth (Suc (Suc 0)) (de_to_cv e)" "wf_de e \<Longrightarrow> de_from_cv (de_to_cv e) = Inr e"
  using cv_object.axioms(1) [OF de_cv_object [unfolded numeral_2_eq_2]]
  by (simp_all add: cv_writer.canon_to_cv cv_writer.fits_to_cv cv_writer.from_to_cv)

definition wf_dd :: "domain_directory \<Rightarrow> bool" where
  "wf_dd d \<longleftrightarrow> rust_string (dd_domain d) \<and> short (dd_authority d) \<and> short (dd_entries d) \<and>
     (\<forall>e \<in> set (dd_entries d). wf_de e) \<and> pred_option (\<lambda>i. short (cid_bytes i)) (dd_prev d) \<and> short (dd_sig d)"

lemma dd_cv_object: "cv_object (dd_to_cv True) dd_from_cv wf_dd 0"
  by (rule cv_fieldsI [OF dd_to_cv_def dd_from_cv_def])
    (auto simp: wf_dd_def wire_simps MAX_NESTING_DEPTH_def pred_option_Some elim!: dir_readE reads_entries)

lemma dd_signed: "signed_object (dd_to_cv True) dd_from_cv wf_dd (dd_to_cv False) (\<lambda>d. d\<lparr>dd_sig := []\<rparr>)"
  by (rule signed_fieldsI [OF dd_cv_object dd_to_cv_def dd_to_cv_def, where s = "(9, Bytes [])"])
    (auto simp: wf_dd_def MAX_NESTING_DEPTH_def pred_option_Some)

interpretation dd: signed_object "dd_to_cv True" dd_from_cv wf_dd "dd_to_cv False" "\<lambda>d. d\<lparr>dd_sig := []\<rparr>"
  by (rule dd_signed)

lemma dd_decode_exact: "dd_from_det_cbor b = Inr d \<longleftrightarrow> wf_dd d \<and> b = dd_det_cbor d"
  by (simp add: dd_from_det_cbor_def dd_det_cbor_def dd.from_bytes_iff)

lemma dd_verify_pinned_iff:
  "dd_verify_pinned C d p = Inr () \<longleftrightarrow>
     is_supported (dd_suite d) \<and> dd_authority d = p \<and>
     verify_domain C p DOMAIN_DIRECTORY_DS (dd_signing_body d) (dd_sig d) = Inr ()"
  by (auto simp: dd_verify_pinned_def dd_verify_def)

lemma dd_issue_verifies:
  assumes "ed25519_law C" "length k = 32"
  shows "dd_verify_pinned C (dd_issue C k domain v vis es prev ts) (key_public C k) = Inr ()"
  using verify_sign_domain [OF assms]
  by (simp add: dd_verify_pinned_iff dd_issue_def Let_def dd_signing_body_def dd_to_cv_def)

end
