(* ===== verification/Identity_Kt.thy ===== *)
theory Identity_Kt
  imports Identity Merkle_Proofs
begin

text \<open>
  What verifying an identity and its transparency proof guarantees: a verified identity is signed
  by one classical key that also certifies every device; an identity created by its key verifies;
  a tree head shows at most one identity per index.
\<close>

section \<open>What a verified identity is\<close>

lemma id_verify_suite_Inr_iff:
  "id_verify_suite C i (s, sg) = Inr () \<longleftrightarrow>
     s = Classical \<and> (\<exists>ik. map_of (id_iks i) 1 = Some ik \<and> verify_domain C ik IDENTITY_DS (id_signing_body i) sg = Inr ())"
  by (auto simp: id_verify_suite_def split: if_splits)

lemma dc_verify_Inr_iff:
  "dc_verify C c = Inr () \<longleftrightarrow>
     dc_suite c = Classical \<and> verify_domain C (dc_ik c) DEVICE_CERT_DS (dc_signing_body c) (dc_sig c) = Inr ()"
  by (auto simp: dc_verify_def split: if_splits)

lemma id_verify_device_Inr_iff:
  "id_verify_device C i c = Inr () \<longleftrightarrow> map_of (id_iks i) 1 = Some (dc_ik c) \<and> dc_verify C c = Inr ()"
  by (auto simp: id_verify_device_def dc_verify_Inr_iff split: if_splits)

definition chain_ok :: "identity \<Rightarrow> content_id option \<Rightarrow> bool" where
  "chain_ok i pinned \<longleftrightarrow> (id_version i = 0 \<longleftrightarrow> id_prev i = None) \<and>
     (id_prev i \<noteq> None \<longrightarrow> pinned \<noteq> None \<longrightarrow> id_prev i = pinned)"

lemma id_verify_Inr_iff:
  "id_verify C i pinned = Inr () \<longleftrightarrow>
     id_suites i \<noteq> [] \<and> length (id_sig i) = length (id_suites i) \<and>
     (\<forall>(s, sg) \<in> set (zip (id_suites i) (id_sig i)). id_verify_suite C i (s, sg) = Inr ()) \<and>
     (\<forall>c \<in> set (id_devices i). id_verify_device C i c = Inr ()) \<and> chain_ok i pinned"
proof -
  have "(if id_version i = 0 \<and> id_prev i \<noteq> None then Inl BrokenChain
         else if id_version i > 0 \<and> id_prev i = None then Inl BrokenChain
         else (case (pinned, id_prev i) of
                 (Some p, Some prev) \<Rightarrow> if p \<noteq> prev then Inl BrokenChain else Inr ()
               | _ \<Rightarrow> Inr ())) = Inr () \<longleftrightarrow> chain_ok i pinned"
    by (auto simp: chain_ok_def word_gt_0 split: option.splits)
  then show ?thesis by (auto simp: id_verify_def split: if_splits)
qed

section \<open>Sample data\<close>

definition demo_device :: device_cert where
  "demo_device = dc_issue toy_crypto (replicate 32 1) (replicate 32 9) ''phone'' 5 None [CapSend, CapRecv]"

definition demo_identity :: identity where
  "demo_identity = create_classical toy_crypto (replicate 32 1) 0 [demo_device]
     (kp_new ''loc'' (ContentId [1])) (ContentId [2]) [''alice''] None 7"

lemma dc_issue_simps [simp]:
  "dc_suite (dc_issue C k dk l cr ex caps) = Classical" "dc_ik (dc_issue C k dk l cr ex caps) = key_public C k"
  by (simp_all add: dc_issue_def Let_def)

lemma dc_verify_issue:
  assumes "ed25519_law C" "length k = 32"
  shows "dc_verify C (dc_issue C k dk l cr ex caps) = Inr ()"
  using verify_sign_domain [OF assms]
  by (simp add: dc_verify_def dc_issue_def Let_def dc_signing_body_def dc_to_cv_def)

section \<open>Properties\<close>

text \<open>C29. A verified identity uses supported suites only, has one key for them, carries valid signatures of that
  key over everything but the signatures, and lists only devices that this key certified.  If its version is above
  0 it names its predecessor, which is the pinned version when one is supplied; if its version is 0 it names none,
  and then the pin plays no part.\<close>

theorem identity_verify_sound:
  assumes "id_verify C i pinned = Inr ()"
  shows "\<exists>ik. map_of (id_iks i) (suite_as_u8 Classical) = Some ik \<and> set (id_suites i) = {Classical} \<and>
           length (id_sig i) = length (id_suites i) \<and>
           (\<forall>sg \<in> set (id_sig i). verify_domain C ik IDENTITY_DS (id_signing_body i) sg = Inr ()) \<and>
           (\<forall>c \<in> set (id_devices i). dc_ik c = ik \<and> dc_verify C c = Inr ()) \<and>
           (if id_version i = 0 then id_prev i = None \<and> id_verify C i None = Inr ()
            else \<exists>prev. id_prev i = Some prev \<and> (\<forall>pin. pinned = Some pin \<longrightarrow> prev = pin))"
proof -
  have v: "id_suites i \<noteq> []" "length (id_sig i) = length (id_suites i)"
    "\<forall>(s, sg) \<in> set (zip (id_suites i) (id_sig i)). id_verify_suite C i (s, sg) = Inr ()"
    "\<forall>c \<in> set (id_devices i). id_verify_device C i c = Inr ()" "chain_ok i pinned"
    using assms by (simp_all add: id_verify_Inr_iff)
  have in1: "\<exists>sg. (s, sg) \<in> set (zip (id_suites i) (id_sig i))" if "s \<in> set (id_suites i)" for s
    using that v(2) by (metis in_set_impl_in_set_zip1)
  have in2: "\<exists>s. (s, sg) \<in> set (zip (id_suites i) (id_sig i))" if "sg \<in> set (id_sig i)" for sg
    using that v(2) by (metis in_set_impl_in_set_zip2)
  from v(1) obtain s0 where "s0 \<in> set (id_suites i)" by (cases "id_suites i") auto
  with in1 v(3) obtain ik where ik: "map_of (id_iks i) 1 = Some ik" by (fastforce simp: id_verify_suite_Inr_iff)
  have "set (id_suites i) = {Classical}"
    using v(1,3) in1 by (force simp: id_verify_suite_Inr_iff neq_Nil_conv)
  moreover have "\<forall>sg \<in> set (id_sig i). verify_domain C ik IDENTITY_DS (id_signing_body i) sg = Inr ()"
    using in2 v(3) ik by (fastforce simp: id_verify_suite_Inr_iff)
  moreover have "\<forall>c \<in> set (id_devices i). dc_ik c = ik \<and> dc_verify C c = Inr ()"
    using v(4) ik by (auto simp: id_verify_device_Inr_iff)
  moreover have "if id_version i = 0 then id_prev i = None \<and> id_verify C i None = Inr ()
      else \<exists>prev. id_prev i = Some prev \<and> (\<forall>pin. pinned = Some pin \<longrightarrow> prev = pin)"
    using assms by (auto simp: id_verify_Inr_iff chain_ok_def)
  ultimately show ?thesis using ik v(2) by auto
qed

lemma demo_identity_verifies: "id_verify toy_crypto demo_identity None = Inr ()"
proof -
  have "id_signing_body demo_identity = id_signing_body (demo_identity\<lparr>id_sig := []\<rparr>)"
    by (simp add: id_signing_body_def id_to_cv_def)
  then show ?thesis
    using verify_sign_domain [OF toy_crypto_laws(2), of "replicate 32 1"]
    by (simp add: id_verify_Inr_iff demo_identity_def create_classical_def Let_def id_verify_suite_Inr_iff
        id_verify_device_Inr_iff demo_device_def dc_verify_issue toy_crypto_laws chain_ok_def)
qed

theorem identity_verify_sound_witness:
  "\<exists>ik. map_of (id_iks demo_identity) (suite_as_u8 Classical) = Some ik \<and> set (id_suites demo_identity) = {Classical}"
  using identity_verify_sound [OF demo_identity_verifies] by blast

text \<open>An identity created by its key verifies: with devices certified by the same key, a
  previous version exactly when the version is not 0, and a pin that matches it.\<close>

theorem create_classical_verifies:
  assumes "ed25519_law C" and "length k = 32"
    and "\<forall>c \<in> set devices. dc_ik c = key_public C k \<and> dc_verify C c = Inr ()"
    and "version = 0 \<longleftrightarrow> prev = None" and "prev = None \<or> pinned = None \<or> pinned = prev"
  shows "id_verify C (create_classical C k version devices kp recovery names prev ts) pinned = Inr ()"
proof -
  let ?i = "create_classical C k version devices kp recovery names prev ts"
  have "id_signing_body ?i = id_signing_body (?i\<lparr>id_sig := []\<rparr>)"
    by (simp add: id_signing_body_def id_to_cv_def)
  then have "id_verify_suite C ?i (Classical, hd (id_sig ?i)) = Inr ()"
    using verify_sign_domain [OF assms(1,2)]
    by (simp add: id_verify_suite_Inr_iff create_classical_def Let_def)
  moreover have "\<forall>c \<in> set devices. id_verify_device C ?i c = Inr ()"
    using assms(3) by (simp add: id_verify_device_Inr_iff create_classical_def Let_def)
  ultimately show ?thesis
    using assms(4,5) by (auto simp: id_verify_Inr_iff chain_ok_def create_classical_def Let_def)
qed

theorem create_classical_verifies_witness:
  "id_verify toy_crypto (create_classical toy_crypto (replicate 32 1) 3 [demo_device] (kp_new ''loc'' (ContentId [1]))
     (ContentId [2]) [] (Some (ContentId [4])) 8) (Some (ContentId [4])) = Inr ()"
  by (rule create_classical_verifies [OF toy_crypto_laws(2)])
    (simp_all add: demo_device_def dc_verify_issue toy_crypto_laws)

text \<open>A pin does not constrain a genesis identity: for an identity without a previous version,
  \<open>verify\<close> gives the same answer with any pinned id as with none.\<close>

theorem genesis_ignores_pin:
  assumes "id_prev i = None"
  shows "id_verify C i (Some p) = id_verify C i None"
  using assms by (simp add: id_verify_def)

theorem genesis_ignores_pin_witness:
  "id_verify toy_crypto demo_identity (Some (ContentId [9])) = Inr ()"
  using genesis_ignores_pin [of demo_identity toy_crypto "ContentId [9]"] demo_identity_verifies
  by (simp add: demo_identity_def create_classical_def Let_def)

text \<open>The decoders of device certificates and identities accept exactly the encodings of
  well-formed objects.\<close>

theorem identity_objects_decode_iff:
  "(dc_from_det_cbor b = Inr c \<longleftrightarrow> wf_dc c \<and> b = dc_det_cbor c) \<and>
   (id_from_det_cbor b = Inr i \<longleftrightarrow> wf_id i \<and> b = id_det_cbor i)"
  using dc.from_bytes_iff id.from_bytes_iff
  by (simp add: dc_from_det_cbor_def dc_det_cbor_def id_from_det_cbor_def id_det_cbor_def)

section \<open>One identity per log index\<close>

definition leaf_data :: "string \<Rightarrow> bytes \<Rightarrow> u64 \<Rightarrow> content_id \<Rightarrow> bytes" where
  "leaf_data name ik version i = 0x00 # encode (Array [Text name, Bytes ik, U64 version, hash_cv i])"

lemma identity_leaf_hash_eq: "identity_leaf_hash C n ik v i = ContentId (MH_BLAKE3_256 # blake3 C (leaf_data n ik v i))"
  by (simp add: identity_leaf_hash_def leaf_data_def Let_def)

lemma leaf_data_inj:
  assumes "leaf_data n ik v i = leaf_data n' ik' v' i'"
    and "rust_string n" "rust_string n'" "length ik < 2 ^ 64" "length ik' < 2 ^ 64"
    and "length (cid_bytes i) < 2 ^ 64" "length (cid_bytes i') < 2 ^ 64"
  shows "n = n' \<and> ik = ik' \<and> v = v' \<and> i = i'"
proof -
  have "Array [Text n, Bytes ik, U64 v, hash_cv i] = Array [Text n', Bytes ik', U64 v', hash_cv i']"
    using assms by (intro encode_inj) (simp_all add: leaf_data_def)
  then show ?thesis by simp
qed

lemma content_id_of_inj_or:
  "content_id_of C a = content_id_of C b \<Longrightarrow> a = b \<or> collision C [a] [b]"
  by (auto simp: content_id_of_def collision_def)

text \<open>The bytes hashed when an identity is bound to a leaf, from its encoding up to the root.\<close>

definition binding_inputs :: "crypto \<Rightarrow> inclusion_proof \<Rightarrow> identity \<Rightarrow> string \<Rightarrow> bytes \<Rightarrow> bytes list" where
  "binding_inputs C p i name ik =
     id_det_cbor i # leaf_data name ik (id_version i) (id_content_id C i) # inclusion_inputs C p"

lemma verify_identity_Inr:
  assumes "verify_identity C p sth i name = Inr ()"
  obtains ik where "map_of (id_iks i) 1 = Some ik"
    "ip_leaf_hash p = ContentId (MH_BLAKE3_256 # blake3 C (leaf_data name ik (id_version i) (id_content_id C i)))"
    "ip_tree_size p = sth_tree_size sth" "verify_root C p (sth_root_hash sth) = Inr ()"
  using assms
  by (auto simp: verify_identity_def identity_leaf_for_def identity_leaf_hash_eq verify_against_def
      split: if_splits option.splits Option.bind_splits)

text \<open>C26. The log cannot show two identities at one place: if two identities verify under the same
  head of a tree at the same index, they and their names are the same, or the bytes hashed on the
  way (including the tree's own) contain an explicit BLAKE3 collision.\<close>

theorem one_identity_per_index:
  assumes "blake3_law C" and "wf_tree t" and "sth_tree_size sth = tree_size t"
    and "tree_root C t = Some (sth_root_hash sth)" and "ip_leaf_index p = ip_leaf_index p'"
    and "verify_identity C p sth i name = Inr ()" and "verify_identity C p' sth i' name' = Inr ()"
    and "wf_id i" "wf_id i'" "rust_string name" "rust_string name'"
    and "map_of (id_iks i) 1 = Some ik" "map_of (id_iks i') 1 = Some ik'"
  shows "(i = i' \<and> name = name') \<or>
         collision C (binding_inputs C p i name ik) (binding_inputs C p' i' name' ik') \<or>
         collision C (inclusion_inputs C p) (inclusion_inputs C (tree_proof C t (ip_leaf_index p))) \<or>
         collision C (inclusion_inputs C p') (inclusion_inputs C (tree_proof C t (ip_leaf_index p')))"
proof -
  let ?l = "leaf_data name ik (id_version i) (id_content_id C i)"
  let ?l' = "leaf_data name' ik' (id_version i') (id_content_id C i')"
  let ?coll = "collision C (binding_inputs C p i name ik) (binding_inputs C p' i' name' ik')"
  have p: "ip_leaf_hash p = ContentId (MH_BLAKE3_256 # blake3 C ?l)" "ip_tree_size p = tree_size t"
    "verify_root C p (sth_root_hash sth) = Inr ()"
    using assms(3,6,12) by (auto elim!: verify_identity_Inr)
  have p': "ip_leaf_hash p' = ContentId (MH_BLAKE3_256 # blake3 C ?l')" "ip_tree_size p' = tree_size t"
    "verify_root C p' (sth_root_hash sth) = Inr ()"
    using assms(3,7,13) by (auto elim!: verify_identity_Inr)
  have "ip_leaf_hash p = ip_leaf_hash p' \<or>
      collision C (inclusion_inputs C p) (inclusion_inputs C (tree_proof C t (ip_leaf_index p))) \<or>
      collision C (inclusion_inputs C p') (inclusion_inputs C (tree_proof C t (ip_leaf_index p')))"
    using inclusion_sound [OF assms(1,2,4) p(2,3)] inclusion_sound [OF assms(1,2,4) p'(2,3)] assms(5) by auto
  moreover have "(i = i' \<and> name = name') \<or> ?coll" if "ip_leaf_hash p = ip_leaf_hash p'"
  proof (cases "?l = ?l'")
    case False
    then show ?thesis using that p(1) p'(1) by (auto simp: collision_def binding_inputs_def)
  next
    case True
    have lens: "length ik < 2 ^ 64" "length ik' < 2 ^ 64"
      using assms(8,9,12,13) by (auto simp: wf_id_def wf_iks_def dest!: map_of_SomeD)
    have "length (cid_bytes (id_content_id C x)) < 2 ^ 64" for x
      using assms(1) by (simp add: id_content_id_def content_id_of_def blake3_law_def)
    then have eq: "name = name'" "id_content_id C i = id_content_id C i'"
      using leaf_data_inj [OF True] assms(10,11) lens by auto
    show ?thesis
    proof (cases "id_det_cbor i = id_det_cbor i'")
      case True
      then show ?thesis using id.det_cbor_inj [of i i'] assms(8,9) eq(1) by (simp add: id_det_cbor_def)
    next
      case False
      then show ?thesis
        using eq(2) by (auto simp: collision_def binding_inputs_def id_content_id_def content_id_of_def)
    qed
  qed
  ultimately show ?thesis by blast
qed

definition demo_leaf :: bytes where
  "demo_leaf = toy_hash (leaf_data ''alice'' (replicate 32 1) 0 (id_content_id toy_crypto demo_identity))"

definition demo_log :: merkle_tree where
  "demo_log = \<lparr>leaves = [demo_leaf, replicate 32 2]\<rparr>"

definition demo_sth :: signed_tree_head where
  "demo_sth = \<lparr>sth_suite = Classical, sth_log_id = [], sth_tree_size = 2, sth_timestamp = 5,
     sth_root_hash = as_content_id (mth toy_crypto (leaves demo_log)), sth_sig = []\<rparr>"

lemma demo_log_ok: "wf_tree demo_log" "tree_size demo_log = 2"
  "tree_root toy_crypto demo_log = Some (sth_root_hash demo_sth)"
  by (simp_all add: demo_log_def wf_tree_def tree_size_def tree_root_def demo_sth_def demo_leaf_def)

lemma demo_identity_key: "map_of (id_iks demo_identity) 1 = Some (replicate 32 1)" "id_version demo_identity = 0"
  by (simp_all add: demo_identity_def create_classical_def Let_def key_public_def toy_crypto_def)

lemma demo_identity_wf: "wf_id demo_identity"
proof -
  have "wf_dc demo_device"
    by (simp add: demo_device_def dc_issue_def wf_dc_def Let_def sign_domain_def key_public_def toy_crypto_def
        rust_string_def as_bytes_of_def)
  then show ?thesis
    by (simp add: demo_identity_def create_classical_def wf_id_def Let_def wf_iks_def wf_kp_def kp_new_def
        wf_hash_opt_def sign_domain_def key_public_def toy_crypto_def rust_string_def as_bytes_of_def)
qed

lemma demo_identity_logged:
  "verify_identity toy_crypto (tree_proof toy_crypto demo_log 0) demo_sth demo_identity ''alice'' = Inr ()"
proof -
  have "verify_root toy_crypto (tree_proof toy_crypto demo_log 0) (sth_root_hash demo_sth) = Inr ()"
    using tree_proof_verifies [OF toy_crypto_laws(1) demo_log_ok(1), of 0]
    by (simp add: verify_root_def demo_sth_def demo_log_def)
  then show ?thesis
    using demo_log_ok(2) demo_identity_key
    by (simp add: verify_identity_def identity_leaf_for_def identity_leaf_hash_eq verify_against_def tree_proof_def
        demo_sth_def demo_log_def demo_leaf_def as_content_id_def toy_crypto_def)
qed

theorem one_identity_per_index_witness:
  "(demo_identity = demo_identity \<and> ''alice'' = ''alice'') \<or>
   collision toy_crypto
     (binding_inputs toy_crypto (tree_proof toy_crypto demo_log 0) demo_identity ''alice'' (replicate 32 1))
     (binding_inputs toy_crypto (tree_proof toy_crypto demo_log 0) demo_identity ''alice'' (replicate 32 1)) \<or>
   collision toy_crypto (inclusion_inputs toy_crypto (tree_proof toy_crypto demo_log 0))
     (inclusion_inputs toy_crypto (tree_proof toy_crypto demo_log (ip_leaf_index (tree_proof toy_crypto demo_log 0)))) \<or>
   collision toy_crypto (inclusion_inputs toy_crypto (tree_proof toy_crypto demo_log 0))
     (inclusion_inputs toy_crypto (tree_proof toy_crypto demo_log (ip_leaf_index (tree_proof toy_crypto demo_log 0))))"
proof (rule one_identity_per_index [OF toy_crypto_laws(1) demo_log_ok(1) _ demo_log_ok(3) refl
    demo_identity_logged demo_identity_logged demo_identity_wf demo_identity_wf])
  show "sth_tree_size demo_sth = tree_size demo_log" by (simp add: demo_log_ok demo_sth_def)
qed (simp_all add: demo_identity_key rust_string_def as_bytes_of_def)

end
