(* ===== verification/Rust_Str.thy ===== *)
theory Rust_Str
  imports Kotva_Prelude
begin

text \<open>
  The string functions of the Rust standard library that the mail crate uses, on strings as byte
  lists: ASCII case, \<open>trim\<close> and \<open>split_whitespace\<close> (Unicode white space in its UTF-8 form),
  \<open>split\<close>, \<open>split_once\<close>, \<open>find\<close>, \<open>split_inclusive\<close>, \<open>parse\<close> of unsigned integers, decimal
  \<open>format!\<close>, \<open>from_utf8\<close> and \<open>from_utf8_lossy\<close>.
\<close>

section \<open>Characters\<close>

definition code :: "char \<Rightarrow> nat" where
  "code c = of_char c"

lemma code_less [simp]: "code c < 256"
  by (simp add: code_def of_char_def)

lemma code_inject [simp]: "code a = code b \<longleftrightarrow> a = b"
  by (simp add: code_def)

definition ascii_upper :: "char \<Rightarrow> char" where
  "ascii_upper c = (if 97 \<le> code c \<and> code c \<le> 122 then char_of (code c - 32) else c)"

definition ascii_lower :: "char \<Rightarrow> char" where
  "ascii_lower c = (if 65 \<le> code c \<and> code c \<le> 90 then char_of (code c + 32) else c)"

definition to_ascii_uppercase :: "string \<Rightarrow> string" where
  "to_ascii_uppercase s = map ascii_upper s"

definition to_ascii_lowercase :: "string \<Rightarrow> string" where
  "to_ascii_lowercase s = map ascii_lower s"

definition eq_ignore_ascii_case :: "string \<Rightarrow> string \<Rightarrow> bool" where
  "eq_ignore_ascii_case a b = (to_ascii_lowercase a = to_ascii_lowercase b)"

section \<open>White space\<close>

text \<open>The number of bytes of the white-space character at the start of a string, 0 if there is none.\<close>

definition ws_len :: "string \<Rightarrow> nat" where
  "ws_len s =
     (case map code (take 3 s) of
        [] \<Rightarrow> 0
      | b0 # r \<Rightarrow>
          if (9 \<le> b0 \<and> b0 \<le> 13) \<or> b0 = 32 then 1
          else (case r of
                  [] \<Rightarrow> 0
                | b1 # r2 \<Rightarrow>
                    if b0 = 0xC2 \<and> (b1 = 0x85 \<or> b1 = 0xA0) then 2
                    else (case r2 of
                            [] \<Rightarrow> 0
                          | b2 # _ \<Rightarrow>
                              if (b0 = 0xE1 \<and> b1 = 0x9A \<and> b2 = 0x80) \<or>
                                 (b0 = 0xE2 \<and> b1 = 0x80 \<and>
                                    ((0x80 \<le> b2 \<and> b2 \<le> 0x8A) \<or> b2 = 0xA8 \<or> b2 = 0xA9 \<or> b2 = 0xAF)) \<or>
                                 (b0 = 0xE2 \<and> b1 = 0x81 \<and> b2 = 0x9F) \<or>
                                 (b0 = 0xE3 \<and> b1 = 0x80 \<and> b2 = 0x80)
                              then 3 else 0)))"

lemma ws_len_le: "ws_len s \<le> length s"
  by (cases s; cases "tl s"; cases "tl (tl s)") (auto simp: ws_len_def)

lemma ws_len_Nil [simp]: "ws_len [] = 0"
  by (simp add: ws_len_def)

function trim_start :: "string \<Rightarrow> string" where
  "trim_start s = (if ws_len s = 0 then s else trim_start (drop (ws_len s) s))"
  by pat_completeness auto
termination
proof (relation "measure length")
  fix s
  assume "ws_len s \<noteq> 0"
  moreover from this have "s \<noteq> []" by auto
  ultimately show "(drop (ws_len s) s, s) \<in> measure length" by simp
qed simp

declare trim_start.simps [simp del]

definition ws_end :: "string \<Rightarrow> nat" where
  "ws_end s =
     (if ws_len (drop (length s - 1) s) = 1 then 1
      else if ws_len (drop (length s - 2) s) = 2 then 2
      else if ws_len (drop (length s - 3) s) = 3 then 3 else 0)"

lemma ws_end_pos: "ws_end s \<noteq> 0 \<Longrightarrow> s \<noteq> []"
  by (auto simp: ws_end_def)

function trim_end :: "string \<Rightarrow> string" where
  "trim_end s = (if ws_end s = 0 then s else trim_end (take (length s - ws_end s) s))"
  by pat_completeness auto
termination
proof (relation "measure length")
  fix s
  assume "ws_end s \<noteq> 0"
  with ws_end_pos show "(take (length s - ws_end s) s, s) \<in> measure length" by auto
qed simp

declare trim_end.simps [simp del]

definition trim :: "string \<Rightarrow> string" where
  "trim s = trim_end (trim_start s)"

text \<open>\<open>split_whitespace\<close>: the maximal runs without white space; \<open>cur\<close> is the current run.\<close>

function split_ws :: "string \<Rightarrow> string \<Rightarrow> string list" where
  "split_ws cur [] = (if cur = [] then [] else [cur])"
| "split_ws cur (c # s) =
     (if ws_len (c # s) = 0 then split_ws (cur @ [c]) s
      else (if cur = [] then [] else [cur]) @ split_ws [] (drop (ws_len (c # s)) (c # s)))"
  by pat_completeness auto
termination
  by (relation "measure (\<lambda>(cur, s). length s)") auto

definition split_whitespace :: "string \<Rightarrow> string list" where
  "split_whitespace s = split_ws [] s"

section \<open>Searching and splitting\<close>

fun split_once :: "'a \<Rightarrow> 'a list \<Rightarrow> ('a list \<times> 'a list) option" where
  "split_once c [] = None"
| "split_once c (x # xs) =
     (if x = c then Some ([], xs)
      else (case split_once c xs of None \<Rightarrow> None | Some (a, b) \<Rightarrow> Some (x # a, b)))"

fun split_on :: "'a \<Rightarrow> 'a list \<Rightarrow> 'a list list" where
  "split_on c [] = [[]]"
| "split_on c (x # xs) =
     (if x = c then [] # split_on c xs
      else (case split_on c xs of [] \<Rightarrow> [[x]] | seg # segs \<Rightarrow> (x # seg) # segs))"

fun split_inclusive :: "'a \<Rightarrow> 'a list \<Rightarrow> 'a list list" where
  "split_inclusive c [] = []"
| "split_inclusive c (x # xs) =
     (if x = c then [x] # split_inclusive c xs
      else (case split_inclusive c xs of [] \<Rightarrow> [[x]] | seg # segs \<Rightarrow> (x # seg) # segs))"

fun find_char :: "'a \<Rightarrow> 'a list \<Rightarrow> nat option" where
  "find_char c [] = None"
| "find_char c (x # xs) = (if x = c then Some 0 else map_option Suc (find_char c xs))"

fun find_str :: "'a list \<Rightarrow> 'a list \<Rightarrow> nat option" where
  "find_str pat [] = (if pat = [] then Some 0 else None)"
| "find_str pat (x # xs) =
     (if take (length pat) (x # xs) = pat then Some 0 else map_option Suc (find_str pat xs))"

section \<open>Numbers\<close>

definition is_digit :: "char \<Rightarrow> bool" where
  "is_digit c \<longleftrightarrow> 48 \<le> code c \<and> code c \<le> 57"

definition digits_val :: "string \<Rightarrow> nat" where
  "digits_val ds = foldl (\<lambda>a c. 10 * a + (code c - 48)) 0 ds"

text \<open>\<open>str::parse\<close> for an unsigned type with values below \<open>bound\<close>.\<close>

definition parse_uint :: "nat \<Rightarrow> string \<Rightarrow> nat option" where
  "parse_uint bound s =
     (let ds = (case s of [] \<Rightarrow> [] | c # r \<Rightarrow> if c = CHR ''+'' then r else s) in
      if ds \<noteq> [] \<and> list_all is_digit ds \<and> digits_val ds < bound then Some (digits_val ds) else None)"

fun dec :: "nat \<Rightarrow> string" where
  "dec n = (if n < 10 then [char_of (48 + n)] else dec (n div 10) @ [char_of (48 + n mod 10)])"

declare dec.simps [simp del]

section \<open>UTF-8\<close>

definition from_utf8 :: "bytes \<Rightarrow> string option" where
  "from_utf8 b = (if utf8_valid b then Some (string_of_bytes b) else None)"

text \<open>One step of the lossy decoder at the start of a non-empty input: whether a character was
  read, and how many bytes were consumed.\<close>

definition byte_at :: "nat \<Rightarrow> bytes \<Rightarrow> u8" where
  "byte_at i b = (if i < length b then b ! i else 0)"

definition utf8_step :: "bytes \<Rightarrow> bool \<times> nat" where
  "utf8_step b =
     (let b0 = byte_at 0 b; b1 = byte_at 1 b; b2 = byte_at 2 b; b3 = byte_at 3 b in
      if b0 < 0x80 then (True, 1)
      else if 0xC2 \<le> b0 \<and> b0 \<le> 0xDF then (if utf8_cont b1 then (True, 2) else (False, 1))
      else if 0xE0 \<le> b0 \<and> b0 \<le> 0xEF then
        (if (if b0 = 0xE0 then 0xA0 \<le> b1 \<and> b1 \<le> 0xBF
             else if b0 = 0xED then 0x80 \<le> b1 \<and> b1 \<le> 0x9F else utf8_cont b1)
         then (if utf8_cont b2 then (True, 3) else (False, 2)) else (False, 1))
      else if 0xF0 \<le> b0 \<and> b0 \<le> 0xF4 then
        (if (if b0 = 0xF0 then 0x90 \<le> b1 \<and> b1 \<le> 0xBF
             else if b0 = 0xF4 then 0x80 \<le> b1 \<and> b1 \<le> 0x8F else utf8_cont b1)
         then (if utf8_cont b2 then (if utf8_cont b3 then (True, 4) else (False, 3)) else (False, 2))
         else (False, 1))
      else (False, 1))"

lemma utf8_step_pos: "0 < snd (utf8_step b)"
  by (simp add: utf8_step_def Let_def)

function utf8_lossy :: "bytes \<Rightarrow> bytes" where
  "utf8_lossy b =
     (if b = [] then []
      else let (ok, n) = utf8_step b in
           (if ok then take n b else [0xEF, 0xBF, 0xBD]) @ utf8_lossy (drop n b))"
  by pat_completeness auto
termination
proof (relation "measure length")
  fix b x ok n
  assume "b \<noteq> []" "x = utf8_step b" "(ok, n) = x"
  then show "(drop n b, b) \<in> measure length" using utf8_step_pos [of b] by (metis diff_less in_measure length_drop length_greater_0_conv snd_conv)
qed simp

declare utf8_lossy.simps [simp del]

section \<open>Lemmas\<close>

lemma code_char_of [simp]: "n < 256 \<Longrightarrow> code (char_of n) = n"
  by (simp add: code_def)

lemma char_eq_code: "c = d \<longleftrightarrow> code c = code d"
  by simp

lemma dec_digits: "dec n \<noteq> []" "list_all is_digit (dec n)"
  by (induction n rule: dec.induct) (subst dec.simps; auto simp: is_digit_def)+

lemma digits_val_snoc: "digits_val (ds @ [c]) = 10 * digits_val ds + (code c - 48)"
  by (simp add: digits_val_def)

lemma digits_val_dec: "digits_val (dec n) = n"
proof (induction n rule: dec.induct)
  case (1 n)
  show ?case
  proof (cases "n < 10")
    case True
    then show ?thesis by (subst dec.simps) (simp add: digits_val_def)
  next
    case False
    then show ?thesis using 1 by (subst dec.simps) (simp add: digits_val_snoc)
  qed
qed

lemma parse_uint_dec: "n < bound \<Longrightarrow> parse_uint bound (dec n) = Some n"
proof -
  assume "n < bound"
  moreover have "(case dec n of [] \<Rightarrow> [] | c # r \<Rightarrow> if c = CHR ''+'' then r else dec n) = dec n"
  proof (cases "dec n")
    case (Cons c r)
    then have "is_digit c" using dec_digits(2) [of n] by simp
    then have "c \<noteq> CHR ''+''" by (auto simp: is_digit_def code_def)
    then show ?thesis using Cons by simp
  qed simp
  ultimately show ?thesis using dec_digits [of n] digits_val_dec [of n] by (simp add: parse_uint_def Let_def)
qed

lemma parse_uint_less: "parse_uint bound s = Some n \<Longrightarrow> n < bound"
  by (auto simp: parse_uint_def Let_def split: if_splits)

lemma concat_split_inclusive [simp]: "concat (split_inclusive c xs) = xs"
  by (induction xs) (auto split: list.splits)

lemma split_inclusive_Nil_iff [simp]: "split_inclusive c xs = [] \<longleftrightarrow> xs = []"
  by (cases xs) (auto split: list.splits)

lemma split_on_not_Nil [simp]: "split_on c xs \<noteq> []"
  by (cases xs) (auto split: list.splits)

lemma split_on_append: "c \<notin> set a \<Longrightarrow> split_on c (a @ c # b) = a # split_on c b"
  by (induction a) auto

lemma split_on_none: "c \<notin> set a \<Longrightarrow> split_on c a = [a]"
  by (induction a) auto

lemma as_bytes_of_Nil [simp]: "as_bytes_of [] = []"
  by (simp add: as_bytes_of_def)

lemma as_bytes_of_append: "as_bytes_of (s @ t) = as_bytes_of s @ as_bytes_of t"
  by (simp add: as_bytes_of_def)

lemma split_once_Some: "split_once c xs = Some (a, b) \<Longrightarrow> xs = a @ c # b \<and> c \<notin> set a"
  by (induction xs arbitrary: a) (auto split: if_splits option.splits)

lemma split_once_append: "c \<notin> set a \<Longrightarrow> split_once c (a @ c # b) = Some (a, b)"
  by (induction a) auto

lemma find_char_Some: "find_char c xs = Some i \<Longrightarrow> i < length xs \<and> xs ! i = c"
  by (induction xs arbitrary: i) (auto split: if_splits)

lemma utf8_valid_step:
  assumes "utf8_valid b" "b \<noteq> []"
  shows "fst (utf8_step b)" and "utf8_valid (drop (snd (utf8_step b)) b)"
    and "snd (utf8_step b) \<le> length b"
proof -
  obtain b0 bs where b: "b = b0 # bs" using assms(2) by (cases b) auto
  note body = assms(1) [unfolded b utf8_valid.simps(2)]
  consider "b0 < 0x80" | "\<not> b0 < 0x80" "0xC2 \<le> b0 \<and> b0 \<le> 0xDF"
    | "\<not> b0 < 0x80" "\<not> (0xC2 \<le> b0 \<and> b0 \<le> 0xDF)" "0xE0 \<le> b0 \<and> b0 \<le> 0xEF"
    | "\<not> b0 < 0x80" "\<not> (0xC2 \<le> b0 \<and> b0 \<le> 0xDF)" "\<not> (0xE0 \<le> b0 \<and> b0 \<le> 0xEF)" "0xF0 \<le> b0 \<and> b0 \<le> 0xF4"
    using assms(1) b by (auto split: if_splits)
  then have "fst (utf8_step b) \<and> utf8_valid (drop (snd (utf8_step b)) b) \<and> snd (utf8_step b) \<le> length b"
  proof cases
    case 1
    then show ?thesis using assms(1) by (simp add: b utf8_step_def Let_def byte_at_def)
  next
    case 2
    obtain b1 r where r: "bs = b1 # r"
      using body 2 by (cases bs) (auto simp del: utf8_valid.simps)
    have "utf8_cont b1" "utf8_valid r"
      using body 2 unfolding r by (simp_all del: utf8_valid.simps)
    then show ?thesis using 2 r by (simp add: b utf8_step_def Let_def byte_at_def)
  next
    case 3
    obtain b1 b2 r where r: "bs = b1 # b2 # r"
      using body 3 by (cases bs; cases "tl bs") (auto simp del: utf8_valid.simps)
    have "if b0 = 0xE0 then 0xA0 \<le> b1 \<and> b1 \<le> 0xBF
        else if b0 = 0xED then 0x80 \<le> b1 \<and> b1 \<le> 0x9F else utf8_cont b1" "utf8_cont b2" "utf8_valid r"
      using body 3 unfolding r by (simp_all del: utf8_valid.simps)
    note h = this
    have "utf8_step b = (True, 3)"
      using 3 h by (simp add: b r utf8_step_def Let_def byte_at_def)
    then show ?thesis using h by (simp add: b r del: utf8_valid.simps)
  next
    case 4
    obtain b1 b2 b3 r where r: "bs = b1 # b2 # b3 # r"
      using body 4 by (cases bs; cases "tl bs"; cases "tl (tl bs)") (auto simp del: utf8_valid.simps)
    have "if b0 = 0xF0 then 0x90 \<le> b1 \<and> b1 \<le> 0xBF
        else if b0 = 0xF4 then 0x80 \<le> b1 \<and> b1 \<le> 0x8F else utf8_cont b1" "utf8_cont b2" "utf8_cont b3" "utf8_valid r"
      using body 4 unfolding r by (simp_all del: utf8_valid.simps)
    note h = this
    have "utf8_step b = (True, 4)"
      using 4 h by (simp add: b r utf8_step_def Let_def byte_at_def)
    then show ?thesis using h by (simp add: b r del: utf8_valid.simps)
  qed
  then show "fst (utf8_step b)" "utf8_valid (drop (snd (utf8_step b)) b)" "snd (utf8_step b) \<le> length b"
    by blast+
qed

text \<open>Lossy decoding leaves valid UTF-8 as it is.\<close>

lemma utf8_lossy_valid: "utf8_valid b \<Longrightarrow> utf8_lossy b = b"
proof (induction b rule: utf8_lossy.induct)
  case (1 b)
  show ?case
  proof (cases "b = []")
    case False
    obtain ok n where step: "utf8_step b = (ok, n)" by fastforce
    note v = utf8_valid_step [OF "1.prems" False, unfolded step fst_conv snd_conv]
    have "utf8_lossy (drop n b) = drop n b"
      using "1.IH" [OF False step [symmetric] refl] v(2) by simp
    then show ?thesis using False v(1) step by (subst utf8_lossy.simps) simp
  qed (simp add: utf8_lossy.simps)
qed

end
