(* ===== verification/Mail_Util.thy ===== *)
theory Mail_Util
  imports Rust_Str
begin

text \<open>
  \<open>kotva-mail/src/util.rs\<close>: RFC 4648 base64, the MD5 digest of POP3 APOP and lower-case
  hexadecimal, on 32-bit words as in the source. The theorem is the base64 round trip; it also
  shows that the bit accumulator of the decoder, which is shifted out of its 32 bits on long
  inputs, never loses a bit that is still to be read.
\<close>

section \<open>Base64\<close>

definition B64 :: string where
  "B64 = ''ABCDEFGHIJKLMNOPQRSTUVWXYZabcdefghijklmnopqrstuvwxyz0123456789+/''"

definition b64_char :: "u32 \<Rightarrow> char" where
  "b64_char v = B64 ! unat (v AND 63)"

definition chunk_bits :: "bytes \<Rightarrow> u32" where
  "chunk_bits chunk =
     (push_bit 16 (ucast (byte_at 0 chunk))
      OR push_bit 8 (ucast (byte_at 1 chunk)))
      OR ucast (byte_at 2 chunk)"

definition encode_chunk :: "bytes \<Rightarrow> string" where
  "encode_chunk chunk =
     (let n = chunk_bits chunk in
      [b64_char (drop_bit 18 n), b64_char (drop_bit 12 n),
       if 1 < length chunk then b64_char (drop_bit 6 n) else CHR ''='',
       if 2 < length chunk then b64_char n else CHR ''=''])"

text \<open>\<open>input.chunks(3)\<close>\<close>

fun chunks3 :: "'a list \<Rightarrow> 'a list list" where
  "chunks3 (a # b # c # r) = [a, b, c] # chunks3 r"
| "chunks3 [] = []"
| "chunks3 xs = [xs]"

definition base64_encode :: "bytes \<Rightarrow> string" where
  "base64_encode input = concat (map encode_chunk (chunks3 input))"

definition b64_val :: "u8 \<Rightarrow> u32 option" where
  "b64_val c =
     (if 65 \<le> c \<and> c \<le> 90 then Some (ucast (c - 65))
      else if 97 \<le> c \<and> c \<le> 122 then Some (ucast (c - 97 + 26))
      else if 48 \<le> c \<and> c \<le> 57 then Some (ucast (c - 48 + 52))
      else if c = 43 then Some 62
      else if c = 47 then Some 63 else None)"

definition is_ascii_whitespace :: "u8 \<Rightarrow> bool" where
  "is_ascii_whitespace c \<longleftrightarrow> c = 9 \<or> c = 10 \<or> c = 12 \<or> c = 13 \<or> c = 32"

text \<open>The loop over the input: \<open>bits\<close> and \<open>nbits\<close> as in the source, the output so far in \<open>out\<close>.\<close>

fun b64_loop :: "u32 \<Rightarrow> u32 \<Rightarrow> bytes \<Rightarrow> bytes \<Rightarrow> bytes option" where
  "b64_loop bits nbits out [] = Some out"
| "b64_loop bits nbits out (c # cs) =
     (if c = 61 \<or> is_ascii_whitespace c then b64_loop bits nbits out cs
      else (case b64_val c of
              None \<Rightarrow> None
            | Some v \<Rightarrow>
                let bits = push_bit 6 bits OR v; nbits = nbits + 6 in
                if 8 \<le> nbits then
                  b64_loop bits (nbits - 8) (out @ [ucast (drop_bit (unat (nbits - 8)) bits)]) cs
                else b64_loop bits nbits out cs))"

definition base64_decode :: "string \<Rightarrow> bytes option" where
  "base64_decode input = b64_loop 0 0 [] (as_bytes_of input)"

section \<open>MD5\<close>

definition md5_S :: "nat list" where
  "md5_S =
     [7, 12, 17, 22, 7, 12, 17, 22, 7, 12, 17, 22, 7, 12, 17, 22, 5, 9, 14, 20, 5, 9, 14, 20, 5,
      9, 14, 20, 5, 9, 14, 20, 4, 11, 16, 23, 4, 11, 16, 23, 4, 11, 16, 23, 4, 11, 16, 23, 6, 10,
      15, 21, 6, 10, 15, 21, 6, 10, 15, 21, 6, 10, 15, 21]"

definition md5_K :: "u32 list" where
  "md5_K =
     [0xd76aa478, 0xe8c7b756, 0x242070db, 0xc1bdceee, 0xf57c0faf, 0x4787c62a, 0xa8304613,
      0xfd469501, 0x698098d8, 0x8b44f7af, 0xffff5bb1, 0x895cd7be, 0x6b901122, 0xfd987193,
      0xa679438e, 0x49b40821, 0xf61e2562, 0xc040b340, 0x265e5a51, 0xe9b6c7aa, 0xd62f105d,
      0x02441453, 0xd8a1e681, 0xe7d3fbc8, 0x21e1cde6, 0xc33707d6, 0xf4d50d87, 0x455a14ed,
      0xa9e3e905, 0xfcefa3f8, 0x676f02d9, 0x8d2a4c8a, 0xfffa3942, 0x8771f681, 0x6d9d6122,
      0xfde5380c, 0xa4beea44, 0x4bdecfa9, 0xf6bb4b60, 0xbebfbc70, 0x289b7ec6, 0xeaa127fa,
      0xd4ef3085, 0x04881d05, 0xd9d4d039, 0xe6db99e5, 0x1fa27cf8, 0xc4ac5665, 0xf4292244,
      0x432aff97, 0xab9423a7, 0xfc93a039, 0x655b59c3, 0x8f0ccc92, 0xffeff47d, 0x85845dd1,
      0x6fa87e4f, 0xfe2ce6e0, 0xa3014314, 0x4e0811a1, 0xf7537e82, 0xbd3af235, 0x2ad7d2bb,
      0xeb86d391]"

text \<open>\<open>to_le_bytes\<close> of the low \<open>k\<close> bytes, and \<open>u32::from_le_bytes\<close>.\<close>

definition le_bytes :: "nat \<Rightarrow> nat \<Rightarrow> bytes" where
  "le_bytes k n = rev (be_bytes k n)"

definition from_le :: "bytes \<Rightarrow> u32" where
  "from_le b = of_nat (from_be (rev b))"

function pad_zeros :: "bytes \<Rightarrow> bytes" where
  "pad_zeros msg = (if length msg mod 64 = 56 then msg else pad_zeros (msg @ [0]))"
  by pat_completeness auto
termination
proof (relation "measure (\<lambda>msg. (if length msg mod 64 \<le> 56 then 56 else 120) - length msg mod 64)")
  fix msg :: bytes
  assume "length msg mod 64 \<noteq> 56"
  moreover have "length msg mod 64 < 64" by simp
  ultimately show "(msg @ [0], msg) \<in>
      measure (\<lambda>msg. (if length msg mod 64 \<le> 56 then 56 else 120) - length msg mod 64)"
    by (auto simp: mod_Suc)
qed simp

declare pad_zeros.simps [simp del]

definition md5_pad :: "bytes \<Rightarrow> bytes" where
  "md5_pad input =
     pad_zeros (input @ [0x80]) @ le_bytes 8 (length input * 8 mod 2 ^ 64)"

type_synonym md5_state = "u32 \<times> u32 \<times> u32 \<times> u32"

definition md5_round :: "u32 list \<Rightarrow> nat \<Rightarrow> md5_state \<Rightarrow> md5_state" where
  "md5_round m i st =
     (let (a, b, c, d) = st;
          (f, g) =
            (if i \<le> 15 then ((b AND c) OR (NOT b AND d), i)
             else if i \<le> 31 then ((d AND b) OR (NOT d AND c), (5 * i + 1) mod 16)
             else if i \<le> 47 then (b XOR c XOR d, (3 * i + 5) mod 16)
             else (c XOR (b OR NOT d), (7 * i) mod 16));
          f = f + a + md5_K ! i + m ! g
      in (d, b + word_rotl (md5_S ! i) f, b, c))"

definition md5_chunk :: "md5_state \<Rightarrow> bytes \<Rightarrow> md5_state" where
  "md5_chunk st chunk =
     (let m = map (\<lambda>i. from_le (take 4 (drop (i * 4) chunk))) [0..<16];
          (a0, b0, c0, d0) = st;
          (a, b, c, d) = fold (md5_round m) [0..<64] st
      in (a0 + a, b0 + b, c0 + c, d0 + d))"

text \<open>\<open>msg.chunks_exact(64)\<close>\<close>

function chunks64 :: "bytes \<Rightarrow> bytes list" where
  "chunks64 b = (if length b < 64 then [] else take 64 b # chunks64 (drop 64 b))"
  by pat_completeness auto
termination
  by (relation "measure length") auto

declare chunks64.simps [simp del]

definition md5 :: "bytes \<Rightarrow> bytes" where
  "md5 input =
     (let (a, b, c, d) = foldl md5_chunk (0x67452301, 0xefcdab89, 0x98badcfe, 0x10325476)
                               (chunks64 (md5_pad input))
      in le_bytes 4 (unat a) @ le_bytes 4 (unat b) @ le_bytes 4 (unat c) @ le_bytes 4 (unat d))"

section \<open>Hexadecimal\<close>

definition hex_digit :: "nat \<Rightarrow> char" where
  "hex_digit n = ''0123456789abcdef'' ! n"

definition hex :: "bytes \<Rightarrow> string" where
  "hex b = concat (map (\<lambda>x. [hex_digit (unat x div 16), hex_digit (unat x mod 16)]) b)"

section \<open>The base64 round trip\<close>

lemma b64_alphabet:
  "\<forall>i < 64. case of_char (B64 ! i) of c \<Rightarrow> c \<noteq> 61 \<and> \<not> is_ascii_whitespace c \<and> b64_val c = Some (of_nat i)"
  by code_simp

lemma b64_loop_char:
  "b64_loop bits nbits out (of_char (b64_char v) # cs) =
     (let bits = push_bit 6 bits OR (v AND 63); nbits = nbits + 6 in
      if 8 \<le> nbits then b64_loop bits (nbits - 8) (out @ [ucast (drop_bit (unat (nbits - 8)) bits)]) cs
      else b64_loop bits nbits out cs)"
proof -
  have "v AND 63 < 64"
    using word_and_le1 [of v 63] by (rule le_less_trans) simp
  then have "unat (v AND 63) < 64" by (simp add: word_less_nat_alt)
  then show ?thesis using b64_alphabet by (auto simp: b64_char_def Let_def)
qed

lemma b64_loop_pad: "b64_loop bits nbits out (61 # cs) = b64_loop bits nbits out cs"
  by simp

lemma mask_63: "(63 :: u32) = mask 6"
  by (simp add: mask_eq_exp_minus_1)

lemma bit_u8_beyond [simp]: "8 \<le> n \<Longrightarrow> \<not> bit (a :: u8) n"
  using bit_imp_le_length [of a n] by auto

text \<open>Two bytes are equal when their eight bits are.\<close>

lemma u8_eqI:
  fixes a b :: u8
  assumes "bit a 0 = bit b 0" "bit a 1 = bit b 1" "bit a 2 = bit b 2" "bit a 3 = bit b 3"
    "bit a 4 = bit b 4" "bit a 5 = bit b 5" "bit a 6 = bit b 6" "bit a 7 = bit b 7"
  shows "a = b"
proof (rule bit_word_eqI)
  fix n assume "n < LENGTH(8)"
  then have "n = 0 \<or> n = 1 \<or> n = 2 \<or> n = 3 \<or> n = 4 \<or> n = 5 \<or> n = 6 \<or> n = 7" by (simp, arith)
  then show "bit a n = bit b n" using assms by (elim disjE) simp_all
qed

text \<open>The bytes that the decoder cuts out of its accumulator while it reads a group of four.\<close>

lemma b64_group_bytes:
  fixes a b c :: u8 and x :: u32
  defines "n \<equiv> (push_bit 16 (ucast a) OR push_bit 8 (ucast b)) OR ucast c"
  defines "x1 \<equiv> push_bit 6 x OR (drop_bit 18 n AND 63)"
  defines "x2 \<equiv> push_bit 6 x1 OR (drop_bit 12 n AND 63)"
  defines "x3 \<equiv> push_bit 6 x2 OR (drop_bit 6 n AND 63)"
  defines "x4 \<equiv> push_bit 6 x3 OR (n AND 63)"
  shows "ucast (drop_bit 4 x2) = a" and "ucast (drop_bit 2 x3) = b" and "ucast x4 = c"
  unfolding x4_def x3_def x2_def x1_def n_def mask_63
  by (rule u8_eqI; simp add: bit_simps)+

lemma b64_loop_group:
  "\<exists>x'. b64_loop x 0 out (as_bytes_of (encode_chunk [a, b, c]) @ cs) = b64_loop x' 0 (out @ [a, b, c]) cs"
  using b64_group_bytes [of x a b c]
  by (auto simp: encode_chunk_def chunk_bits_def as_bytes_of_def byte_at_def b64_loop_char Let_def
      simp del: b64_loop.simps)

lemma b64_loop_tail:
  "b64_loop x 0 out (as_bytes_of (encode_chunk [a])) = Some (out @ [a])"
  "b64_loop x 0 out (as_bytes_of (encode_chunk [a, b])) = Some (out @ [a, b])"
  using b64_group_bytes [of x a 0 0] b64_group_bytes [of x a b 0]
  by (simp_all add: encode_chunk_def chunk_bits_def as_bytes_of_def byte_at_def b64_loop_char Let_def
      b64_loop_pad b64_loop.simps(1) del: b64_loop.simps(2))

declare as_bytes_of_append [simp]

lemma b64_loop_encode: "b64_loop x 0 out (as_bytes_of (base64_encode b)) = Some (out @ b)"
proof (induction b arbitrary: x out rule: chunks3.induct)
  case (1 a b c r)
  obtain x' where "b64_loop x 0 out (as_bytes_of (encode_chunk [a, b, c]) @ as_bytes_of (base64_encode r)) =
      b64_loop x' 0 (out @ [a, b, c]) (as_bytes_of (base64_encode r))"
    using b64_loop_group by blast
  then show ?case using "1.IH" by (simp add: base64_encode_def)
qed (simp_all add: base64_encode_def b64_loop_tail)

lemma base64_decode_encode [simp]: "base64_decode (base64_encode b) = Some b"
  by (simp add: base64_decode_def b64_loop_encode)

section \<open>Output sizes and test vectors\<close>

lemma length_base64_encode: "length (base64_encode b) = 4 * ((length b + 2) div 3)"
proof (induction b rule: chunks3.induct)
  case (1 a b c r)
  have "(5 + length r) div 3 = Suc ((length r + 2) div 3)" by arith
  then show ?case using 1 by (simp add: base64_encode_def encode_chunk_def Let_def)
qed (simp_all add: base64_encode_def encode_chunk_def Let_def)

lemma length_md5 [simp]: "length (md5 b) = 16"
  by (simp add: md5_def le_bytes_def split: prod.splits)

lemma pad_zeros_length: "length (pad_zeros m) mod 64 = 56"
  by (induction m rule: pad_zeros.induct) (subst pad_zeros.simps; simp)

lemma md5_pad_blocks: "length (md5_pad b) mod 64 = 0"
  using pad_zeros_length [of "b @ [0x80]"] by (simp add: md5_pad_def le_bytes_def mod_add_eq [symmetric])

end
