(* ===== verification/Keyname.thy ===== *)
theory Keyname
  imports Suite_Id Mail_Util Pub_Object
begin

unbundle bit_operations_syntax

text \<open>
  Names and numbers people compare: the key-name of \<^verbatim>\<open>keyname.rs\<close> (eight words for the first 80 bits of
  the key's hash and a checksum word) and the safety number of \<^verbatim>\<open>safety.rs\<close>.  The embedded word list is the
  argument \<open>wl\<close>; \<open>wordlist_law\<close> states what the module documents of it: 1024 distinct words without a
  hyphen.  An index outside the list, where the code would panic, is \<open>None\<close>.
\<close>

section \<open>Key names\<close>

definition DATA_WORDS :: nat where "DATA_WORDS = 8"
definition BITS_PER_WORD :: nat where "BITS_PER_WORD = 10"
definition WORDLIST_SIZE :: nat where "WORDLIST_SIZE = 2 ^ BITS_PER_WORD"

definition wordlist_law :: "string list \<Rightarrow> bool" where
  "wordlist_law wl \<longleftrightarrow> length wl = WORDLIST_SIZE \<and> distinct wl \<and> list_all (\<lambda>w. CHR ''-'' \<notin> set w) wl"

definition word_index :: "string list \<Rightarrow> string \<Rightarrow> u16 option" where
  "word_index wl w = map_option of_nat (find_char w wl)"

text \<open>The inner loop: \<open>while bits >= BITS_PER_WORD && oi < DATA_WORDS\<close>.  The slots written so far are a
  list, \<open>oi\<close> is its length.\<close>

function take_words :: "u32 \<Rightarrow> nat \<Rightarrow> u16 list \<Rightarrow> nat \<times> u16 list" where
  "take_words a bits out =
     (if BITS_PER_WORD \<le> bits \<and> length out < DATA_WORDS
      then take_words a (bits - BITS_PER_WORD) (out @ [ucast (drop_bit (bits - BITS_PER_WORD) a AND 0x3ff)])
      else (bits, out))"
  by pat_completeness auto
termination
  by (relation "measure (\<lambda>(a, bits, out). bits)") (auto simp: BITS_PER_WORD_def)

declare take_words.simps [simp del]

definition words_step :: "u8 \<Rightarrow> u32 \<times> nat \<times> u16 list \<Rightarrow> u32 \<times> nat \<times> u16 list" where
  "words_step b8 s =
     (case s of (a, bits, out) \<Rightarrow>
        let a = push_bit 8 a OR ucast b8; (bits, out) = take_words a (bits + 8) out in (a, bits, out))"

definition indices_from_hash :: "bytes \<Rightarrow> u16 list" where
  "indices_from_hash hash =
     (case fold words_step (take 10 hash) (0, 0, []) of (_, _, out) \<Rightarrow> out @ replicate (DATA_WORDS - length out) 0)"

definition checksum_index :: "crypto \<Rightarrow> bytes \<Rightarrow> u16" where
  "checksum_index C hash =
     (let b = blake3 C (as_bytes_of ''dmtap-keyname-checksum'' @ take 10 hash)
      in (push_bit 2 (ucast (b ! 0)) OR drop_bit 6 (ucast (b ! 1))) AND 0x3ff)"

definition word_at :: "string list \<Rightarrow> u16 \<Rightarrow> string option" where
  "word_at wl i = (if unat i < length wl then Some (wl ! unat i) else None)"

fun join_with :: "string \<Rightarrow> string list \<Rightarrow> string" where
  "join_with sep [] = []"
| "join_with sep [w] = w"
| "join_with sep (w # ws) = w @ sep @ join_with sep ws"

definition keyname_encode :: "crypto \<Rightarrow> string list \<Rightarrow> bytes \<Rightarrow> string option" where
  "keyname_encode C wl pubkey =
     (let hash = blake3 C pubkey;
          idx = indices_from_hash hash;
          cksum = checksum_index C hash
      in map_option (join_with ''-'') (those (map (word_at wl) (idx @ [cksum]))))"

function emit_bytes :: "u32 \<Rightarrow> nat \<Rightarrow> u8 list \<Rightarrow> nat \<times> u8 list" where
  "emit_bytes a bits out =
     (if 8 \<le> bits then emit_bytes a (bits - 8) (out @ [ucast (drop_bit (bits - 8) a AND 0xff)]) else (bits, out))"
  by pat_completeness auto
termination
  by (relation "measure (\<lambda>(a, bits, out). bits)") auto

declare emit_bytes.simps [simp del]

definition bytes_step :: "u16 \<Rightarrow> u32 \<times> nat \<times> u8 list \<Rightarrow> u32 \<times> nat \<times> u8 list" where
  "bytes_step i s =
     (case s of (a, bits, out) \<Rightarrow>
        let a = push_bit BITS_PER_WORD a OR ucast i; (bits, out) = emit_bytes a (bits + BITS_PER_WORD) out in (a, bits, out))"

definition repack :: "u16 list \<Rightarrow> bytes" where
  "repack idx = (case fold bytes_step idx (0, 0, []) of (_, _, out) \<Rightarrow> out @ replicate (32 - length out) 0)"

definition keyname_verify :: "crypto \<Rightarrow> string list \<Rightarrow> string \<Rightarrow> bool" where
  "keyname_verify C wl name =
     (let words = split_on CHR ''-'' name in
      if length words \<noteq> DATA_WORDS + 1 then False
      else
        (case those (map (word_index wl) (take DATA_WORDS words)) of
           None \<Rightarrow> False
         | Some idx \<Rightarrow>
             (case word_index wl (words ! DATA_WORDS) of
                None \<Rightarrow> False
              | Some claimed \<Rightarrow> checksum_index C (repack idx) = claimed)))"

definition keyname_matches :: "crypto \<Rightarrow> string list \<Rightarrow> string \<Rightarrow> bytes \<Rightarrow> bool" where
  "keyname_matches C wl name pubkey \<longleftrightarrow> keyname_verify C wl name \<and> keyname_encode C wl pubkey = Some name"

section \<open>Safety numbers\<close>

definition SAFETY_DS :: bytes where "SAFETY_DS = as_bytes_of ''dmtap-safety-number-v0''"

text \<open>\<open>ik_a <= ik_b\<close> on byte slices is the lexicographic order.\<close>

fun slice_le :: "bytes \<Rightarrow> bytes \<Rightarrow> bool" where
  "slice_le [] b = True"
| "slice_le (x # a) [] = False"
| "slice_le (x # a) (y # b) = (x < y \<or> x = y \<and> slice_le a b)"

definition safety_preimage :: "bytes \<Rightarrow> bytes \<Rightarrow> bytes" where
  "safety_preimage ik_a ik_b =
     (let (lo, hi) = (if slice_le ik_a ik_b then (ik_a, ik_b) else (ik_b, ik_a)) in SAFETY_DS @ lo @ hi)"

definition fingerprint :: "crypto \<Rightarrow> bytes \<Rightarrow> bytes \<Rightarrow> bytes" where
  "fingerprint C ik_a ik_b = blake3 C (safety_preimage ik_a ik_b)"

definition pad5 :: "nat \<Rightarrow> string" where
  "pad5 n = (let d = dec n in replicate (5 - length d) CHR ''0'' @ d)"

definition safety_group :: "bytes \<Rightarrow> nat \<Rightarrow> string" where
  "safety_group fp g =
     (let n = fold (\<lambda>b a. push_bit 8 a OR ucast b) (take 5 (drop (g * 5) fp)) (0 :: u64) in pad5 (unat n mod 100000))"

definition safety_number :: "crypto \<Rightarrow> bytes \<Rightarrow> bytes \<Rightarrow> string" where
  "safety_number C ik_a ik_b =
     (let fp = fingerprint C ik_a ik_b in join_with '' '' (map (safety_group fp) [0 ..< 6]))"

definition safety_number_hex :: "crypto \<Rightarrow> bytes \<Rightarrow> bytes \<Rightarrow> string" where
  "safety_number_hex C ik_a ik_b = hex (fingerprint C ik_a ik_b)"

section \<open>Bit streams\<close>

definition wbits :: "nat \<Rightarrow> 'a::len word \<Rightarrow> bool list" where
  "wbits k w = map (bit w) (rev [0 ..< k])"

lemma wbits_0 [simp]: "wbits 0 w = []"
  by (simp add: wbits_def)

lemma length_wbits [simp]: "length (wbits k w) = k"
  by (simp add: wbits_def)

lemma wbits_eq_iff: "wbits k v = wbits k w \<longleftrightarrow> (\<forall>i < k. bit v i = bit w i)"
  by (auto simp: wbits_def)

lemma wbits_nth: "i < k \<Longrightarrow> wbits k w ! i = bit w (k - Suc i)"
  by (simp add: wbits_def rev_nth)

lemma wbits_split:
  assumes "c \<le> b"
  shows "wbits b w = wbits c (drop_bit (b - c) w) @ wbits (b - c) w"
proof (rule nth_equalityI)
  fix i
  assume "i < length (wbits b w)"
  then show "wbits b w ! i = (wbits c (drop_bit (b - c) w) @ wbits (b - c) w) ! i"
    using assms by (cases "i < c") (auto simp: wbits_nth nth_append bit_simps intro!: arg_cong [where f = "bit w"])
qed (use assms in simp)

lemma wbits_push:
  fixes x :: "'b::len word" and a :: u32
  assumes "b + k \<le> 32" "k \<le> LENGTH('b)" "\<And>i. k \<le> i \<Longrightarrow> \<not> bit x i"
  shows "wbits (b + k) (push_bit k a OR ucast x) = wbits b a @ wbits k x"
proof -
  have "wbits (b + k) (push_bit k a OR ucast x) =
      wbits b (drop_bit k (push_bit k a OR ucast x)) @ wbits k (push_bit k a OR ucast x)"
    using wbits_split [of b "b + k" "push_bit k a OR ucast x"] by (simp only: le_add1 add_diff_cancel_left' simp_thms)
  moreover have "wbits b (drop_bit k (push_bit k a OR ucast x :: u32)) = wbits b a"
    using assms by (auto simp: wbits_eq_iff bit_simps)
  moreover have "map (bit (push_bit k a OR ucast x :: u32)) (rev [0 ..< k]) = map (bit x) (rev [0 ..< k])"
    using assms by (auto simp: bit_simps)
  ultimately show ?thesis by (simp add: wbits_def)
qed

lemma stream_inject:
  assumes "length xs = length ys" "\<And>x y. x \<in> set xs \<Longrightarrow> y \<in> set ys \<Longrightarrow> wbits k x = wbits k y \<Longrightarrow> x = y"
    and "concat (map (wbits k) xs) = concat (map (wbits k) ys)"
  shows "xs = ys"
  using assms by (induction xs ys rule: list_induct2) auto

lemma wbits_cong: "(\<And>i. i < k \<Longrightarrow> bit v i = bit w i) \<Longrightarrow> wbits k v = wbits k w"
  by (auto simp: wbits_def)

definition small :: "nat \<Rightarrow> 'a::len word \<Rightarrow> bool" where
  "small k w \<longleftrightarrow> (\<forall>i \<ge> k. \<not> bit w i)"

lemma masks: "(0x3ff :: u32) = mask 10" "(0x3ff :: u16) = mask 10" "(0xff :: u32) = mask 8"
  by (simp_all add: mask_eq_exp_minus_1)

lemma small_u8 [simp]: "small 8 (w :: u8)"
  by (simp add: small_def)

lemma small_wbits_inject: "small k v \<Longrightarrow> small k w \<Longrightarrow> wbits k v = wbits k w \<Longrightarrow> v = w"
  by (rule bit_word_eqI) (metis small_def wbits_eq_iff linorder_not_less)

lemma word10: "wbits 10 (ucast (drop_bit n a AND 0x3ff :: u32) :: u16) = wbits 10 (drop_bit n a)"
  "small 10 (ucast (drop_bit n a AND 0x3ff :: u32) :: u16)"
proof -
  show "wbits 10 (ucast (drop_bit n a AND 0x3ff :: u32) :: u16) = wbits 10 (drop_bit n a)"
    unfolding masks by (rule wbits_cong) (auto simp: bit_simps)
  show "small 10 (ucast (drop_bit n a AND 0x3ff :: u32) :: u16)"
    unfolding masks small_def by (auto simp: bit_simps)
qed

lemma word8: "wbits 8 (ucast (drop_bit n a AND 0xff :: u32) :: u8) = wbits 8 (drop_bit n a)"
  unfolding masks by (rule wbits_cong) (auto simp: bit_simps)

abbreviation stream :: "nat \<Rightarrow> 'a::len word list \<Rightarrow> bool list" where
  "stream k ws \<equiv> concat (map (wbits k) ws)"

lemma take_words_stream:
  assumes "take_words a bits out = (bits', out')" "10 * length out + bits \<le> 80"
  shows "stream 10 out' @ wbits bits' a = stream 10 out @ wbits bits a \<and>
    10 * length out' + bits' = 10 * length out + bits \<and> bits' < 10 \<and> (list_all (small 10) out \<longrightarrow> list_all (small 10) out')"
  using assms
proof (induction a bits out rule: take_words.induct)
  case (1 a bits out)
  show ?case
  proof (cases "10 \<le> bits")
    case True
    let ?w = "ucast (drop_bit (bits - 10) a AND 0x3ff) :: u16"
    have len: "length out < 8" using True 1(3) by linarith
    then have t: "take_words a (bits - 10) (out @ [?w]) = (bits', out')"
      using 1(2) True by (subst (asm) take_words.simps) (simp add: BITS_PER_WORD_def DATA_WORDS_def)
    have "stream 10 out' @ wbits bits' a = stream 10 (out @ [?w]) @ wbits (bits - 10) a \<and>
      10 * length out' + bits' = 10 * length (out @ [?w]) + (bits - 10) \<and> bits' < 10 \<and>
      (list_all (small 10) (out @ [?w]) \<longrightarrow> list_all (small 10) out')"
      using 1(1) [unfolded BITS_PER_WORD_def DATA_WORDS_def, OF conjI [OF True len] t] 1(3) True by simp
    moreover have "wbits bits a = wbits 10 ?w @ wbits (bits - 10) a"
      using wbits_split [OF True, of a] by (simp only: word10(1))
    ultimately show ?thesis using True word10(2) by simp
  next
    case False
    then show ?thesis using 1(2) by (subst (asm) take_words.simps) (simp add: BITS_PER_WORD_def)
  qed
qed

lemma emit_bytes_stream:
  assumes "emit_bytes a bits out = (bits', out')"
  shows "stream 8 out' @ wbits bits' a = stream 8 out @ wbits bits a \<and>
    8 * length out' + bits' = 8 * length out + bits \<and> bits' < 8"
  using assms
proof (induction a bits out rule: emit_bytes.induct)
  case (1 a bits out)
  show ?case
  proof (cases "8 \<le> bits")
    case True
    let ?w = "ucast (drop_bit (bits - 8) a AND 0xff) :: u8"
    have t: "emit_bytes a (bits - 8) (out @ [?w]) = (bits', out')"
      using 1(2) True by (subst (asm) emit_bytes.simps) simp
    have "stream 8 out' @ wbits bits' a = stream 8 (out @ [?w]) @ wbits (bits - 8) a \<and>
      8 * length out' + bits' = 8 * length (out @ [?w]) + (bits - 8) \<and> bits' < 8"
      by (rule 1(1) [OF True t])
    moreover have "wbits bits a = wbits 8 ?w @ wbits (bits - 8) a"
      using wbits_split [OF True, of a] by (simp only: word8)
    ultimately show ?thesis using True by simp
  next
    case False
    then show ?thesis using 1(2) by (subst (asm) emit_bytes.simps) simp
  qed
qed

lemma words_fold:
  assumes "fold words_step bs (a, b, out) = (a', b', out')" "10 * length out + b + 8 * length bs \<le> 80" "b < 10"
    and "list_all (small 10) out"
  shows "stream 10 out' @ wbits b' a' = stream 10 out @ wbits b a @ stream 8 bs \<and>
    10 * length out' + b' = 10 * length out + b + 8 * length bs \<and> b' < 10 \<and> list_all (small 10) out'"
  using assms
proof (induction bs arbitrary: a b out)
  case (Cons x bs)
  let ?a = "push_bit 8 a OR ucast x :: u32"
  obtain b1 out1 where t: "take_words ?a (b + 8) out = (b1, out1)" by (cases "take_words ?a (b + 8) out")
  have p: "wbits (b + 8) ?a = wbits b a @ wbits 8 x" using Cons.prems(3) by (intro wbits_push) simp_all
  have s: "stream 10 out1 @ wbits b1 ?a = stream 10 out @ wbits b a @ wbits 8 x"
    "10 * length out1 + b1 = 10 * length out + b + 8" "b1 < 10" "list_all (small 10) out1"
    using take_words_stream [OF t] Cons.prems(2,4) by (simp_all add: p)
  have "stream 10 out' @ wbits b' a' = stream 10 out1 @ wbits b1 ?a @ stream 8 bs \<and>
    10 * length out' + b' = 10 * length out1 + b1 + 8 * length bs \<and> b' < 10 \<and> list_all (small 10) out'"
    using Cons.prems(1,2) s by (intro Cons.IH) (simp_all add: words_step_def t)
  then show ?case using s(1,2) by (simp flip: append_assoc)
qed simp

lemma bytes_fold:
  assumes "fold bytes_step is (a, b, out) = (a', b', out')" "b < 8" "list_all (small 10) is"
  shows "stream 8 out' @ wbits b' a' = stream 8 out @ wbits b a @ stream 10 is \<and>
    8 * length out' + b' = 8 * length out + b + 10 * length is \<and> b' < 8"
  using assms
proof (induction "is" arbitrary: a b out)
  case (Cons x "is")
  let ?a = "push_bit 10 a OR ucast x :: u32"
  obtain b1 out1 where t: "emit_bytes ?a (b + 10) out = (b1, out1)" by (cases "emit_bytes ?a (b + 10) out")
  have p: "wbits (b + 10) ?a = wbits b a @ wbits 10 x" using Cons.prems(2,3) by (intro wbits_push) (simp_all add: small_def)
  have s: "stream 8 out1 @ wbits b1 ?a = stream 8 out @ wbits b a @ wbits 10 x"
    "8 * length out1 + b1 = 8 * length out + b + 10" "b1 < 8"
    using emit_bytes_stream [OF t] by (simp_all add: p)
  have "stream 8 out' @ wbits b' a' = stream 8 out1 @ wbits b1 ?a @ stream 10 is \<and>
    8 * length out' + b' = 8 * length out1 + b1 + 10 * length is \<and> b' < 8"
    using Cons.prems(1,3) s by (intro Cons.IH) (simp_all add: bytes_step_def BITS_PER_WORD_def t)
  then show ?case using s(1,2) by (simp flip: append_assoc)
qed simp

lemma indices_stream:
  assumes "10 \<le> length hash"
  shows "length (indices_from_hash hash) = 8" "list_all (small 10) (indices_from_hash hash)"
    "stream 10 (indices_from_hash hash) = stream 8 (take 10 hash)"
proof -
  obtain a b out where f: "fold words_step (take 10 hash) (0, 0, []) = (a, b, out)" by (metis prod_cases3)
  have s: "stream 10 out @ wbits b a = stream 8 (take 10 hash)" "10 * length out + b = 80" "b < 10" "list_all (small 10) out"
    using words_fold [OF f] assms by simp_all
  have b: "b = 0" "length out = 8" using s(2,3) by presburger+
  show "length (indices_from_hash hash) = 8" "list_all (small 10) (indices_from_hash hash)"
    "stream 10 (indices_from_hash hash) = stream 8 (take 10 hash)"
    using s(1,4) b by (simp_all add: indices_from_hash_def f DATA_WORDS_def)
qed

lemma repack_stream:
  assumes "length idx = 8" "list_all (small 10) idx"
  shows "length (repack idx) = 32" "stream 8 (take 10 (repack idx)) = stream 10 idx"
proof -
  obtain a b out where f: "fold bytes_step idx (0, 0, []) = (a, b, out)" by (metis prod_cases3)
  have s: "stream 8 out @ wbits b a = stream 10 idx" "8 * length out + b = 80" "b < 8"
    using bytes_fold [OF f _ assms(2)] assms(1) by simp_all
  have b: "b = 0" "length out = 10" using s(2,3) by presburger+
  show "length (repack idx) = 32" "stream 8 (take 10 (repack idx)) = stream 10 idx"
    using s(1) b by (simp_all add: repack_def f)
qed

text \<open>Packing the words back gives the first 80 bits of the hash.\<close>

lemma repack_indices:
  assumes "10 \<le> length hash"
  shows "take 10 (repack (indices_from_hash hash)) = take 10 hash"
proof (rule stream_inject [where k = 8])
  note i = indices_stream [OF assms]
  note r = repack_stream [OF i(1,2)]
  show "length (take 10 (repack (indices_from_hash hash))) = length (take 10 hash)" using assms r by simp
  show "stream 8 (take 10 (repack (indices_from_hash hash))) = stream 8 (take 10 hash)" using r i by simp
qed (rule small_wbits_inject [where k = 8]; simp)

section \<open>Names\<close>

lemma small_less:
  fixes w :: "'a::len word"
  assumes "small k w"
  shows "unat w < 2 ^ k"
proof -
  have "take_bit k w = w"
  proof (rule bit_word_eqI)
    fix n
    show "bit (take_bit k w) n \<longleftrightarrow> bit w n" using assms by (cases "n < k") (simp_all add: bit_simps small_def)
  qed
  then have "unat w = take_bit k (unat w)" by (metis unsigned_take_bit_eq)
  then show ?thesis by (metis take_bit_nat_less_exp)
qed

lemma checksum_small: "small 10 (checksum_index C hash)"
  unfolding checksum_index_def Let_def masks small_def by (auto simp: bit_simps)

lemma split_join: "ws \<noteq> [] \<Longrightarrow> list_all (\<lambda>w. c \<notin> set w) ws \<Longrightarrow> split_on c (join_with [c] ws) = ws"
proof (induction ws)
  case (Cons w ws)
  then show ?case by (cases ws) (simp_all add: split_on_append split_on_none)
qed simp

lemma find_char_nth: "distinct xs \<Longrightarrow> i < length xs \<Longrightarrow> find_char (xs ! i) xs = Some i"
proof (induction xs arbitrary: i)
  case (Cons x xs)
  then show ?case by (cases i) auto
qed simp

lemma those_Some: "those (map f xs) = Some ys \<longleftrightarrow> list_all2 (\<lambda>x y. f x = Some y) xs ys"
  by (induction xs arbitrary: ys) (auto simp: list_all2_Cons1 split: option.splits)

lemma those_map: "(\<And>x. x \<in> set xs \<Longrightarrow> f x = Some (g x)) \<Longrightarrow> those (map f xs) = Some (map g xs)"
  by (induction xs) auto

text \<open>What a law-abiding word list gives: every 10-bit index is a word, and the word gives the index back.\<close>

lemma word_round_trip:
  assumes "wordlist_law wl" "small 10 i"
  shows "word_at wl i = Some (wl ! unat i)" "word_index wl (wl ! unat i) = Some i" "CHR ''-'' \<notin> set (wl ! unat i)"
proof -
  have i: "unat i < length wl" using small_less [OF assms(2)] assms(1) by (simp add: wordlist_law_def WORDLIST_SIZE_def BITS_PER_WORD_def)
  then show "word_at wl i = Some (wl ! unat i)" by (simp add: word_at_def)
  show "word_index wl (wl ! unat i) = Some i" using find_char_nth [OF _ i] assms(1) by (simp add: word_index_def wordlist_law_def)
  show "CHR ''-'' \<notin> set (wl ! unat i)" using i assms(1) by (simp add: wordlist_law_def list_all_length)
qed

definition name_words :: "crypto \<Rightarrow> string list \<Rightarrow> bytes \<Rightarrow> string list" where
  "name_words C wl pk =
     map (\<lambda>i. wl ! unat i) (indices_from_hash (blake3 C pk) @ [checksum_index C (blake3 C pk)])"

lemma keyname_words:
  assumes "wordlist_law wl" "blake3_law C"
  shows "keyname_encode C wl pk = Some (join_with ''-'' (name_words C wl pk))"
    "split_on CHR ''-'' (join_with ''-'' (name_words C wl pk)) = name_words C wl pk"
proof -
  have h: "10 \<le> length (blake3 C pk)" using assms(2) by (simp add: blake3_law_def)
  have small: "small 10 i" if "i \<in> set (indices_from_hash (blake3 C pk) @ [checksum_index C (blake3 C pk)])" for i
    using that indices_stream(2) [OF h] checksum_small by (auto simp: list_all_iff)
  show "keyname_encode C wl pk = Some (join_with ''-'' (name_words C wl pk))"
    unfolding keyname_encode_def Let_def name_words_def
    by (subst those_map) (use word_round_trip(1) [OF assms(1) small] in auto)
  show "split_on CHR ''-'' (join_with ''-'' (name_words C wl pk)) = name_words C wl pk"
  proof (rule split_join)
    show "list_all (\<lambda>w. CHR ''-'' \<notin> set w) (name_words C wl pk)"
      using word_round_trip(3) [OF assms(1) small] by (auto simp: list_all_iff name_words_def)
  qed (simp add: name_words_def)
qed

lemma indices_inject:
  assumes "10 \<le> length h" "10 \<le> length h'" "indices_from_hash h = indices_from_hash h'"
  shows "take 10 h = take 10 h'"
  using repack_indices [OF assms(1)] repack_indices [OF assms(2)] assms(3) by simp

lemma indices_take: "indices_from_hash (take 10 h) = indices_from_hash h" "checksum_index C (take 10 h) = checksum_index C h"
  by (simp_all add: indices_from_hash_def checksum_index_def Let_def)

text \<open>C22. Key-names are sound and unique: for every key the name exists, passes its own checksum, and
  belongs to the key; and a second key has that name exactly if its hash agrees in the first 80 bits.\<close>

theorem keyname_sound_and_unique:
  assumes "wordlist_law wl" "blake3_law C"
  shows "\<exists>name. keyname_encode C wl pk = Some name \<and> keyname_verify C wl name \<and> keyname_matches C wl name pk \<and>
    (keyname_matches C wl name pk' \<longleftrightarrow> take 10 (blake3 C pk') = take 10 (blake3 C pk))"
proof -
  let ?name = "join_with ''-'' (name_words C wl pk)"
  let ?h = "blake3 C pk" and ?h' = "blake3 C pk'"
  have h: "10 \<le> length ?h" "10 \<le> length ?h'" using assms(2) by (simp_all add: blake3_law_def)
  note n = keyname_words [OF assms]
  have len: "length (indices_from_hash ?h) = 8" "length (indices_from_hash ?h') = 8" using indices_stream(1) h by auto
  have idx: "those (map (word_index wl) (map (\<lambda>i. wl ! unat i) (indices_from_hash x))) = Some (indices_from_hash x)"
    if "10 \<le> length x" for x
  proof -
    have "those (map (\<lambda>i. word_index wl (wl ! unat i)) (indices_from_hash x)) = Some (map (\<lambda>i. i) (indices_from_hash x))"
      using indices_stream(2) [OF that] word_round_trip(2) [OF assms(1)] by (intro those_map) (auto simp: list_all_iff)
    then show ?thesis by (simp add: comp_def)
  qed
  have ck: "word_index wl (wl ! unat (checksum_index C x)) = Some (checksum_index C x)" for x
    by (rule word_round_trip(2) [OF assms(1) checksum_small])
  have "checksum_index C (repack (indices_from_hash ?h)) = checksum_index C ?h"
    using indices_take(2) [of C "repack (indices_from_hash ?h)"] indices_take(2) [of C ?h] repack_indices [OF h(1)] by simp
  moreover have "take 8 (name_words C wl pk) = map (\<lambda>i. wl ! unat i) (indices_from_hash ?h)"
    "name_words C wl pk ! 8 = wl ! unat (checksum_index C ?h)" "length (name_words C wl pk) = 9"
    using len(1) by (simp_all add: name_words_def nth_append)
  ultimately have v: "keyname_verify C wl ?name"
    unfolding keyname_verify_def n(2) Let_def using idx [OF h(1)] ck [of ?h] by (simp add: DATA_WORDS_def)
  have "keyname_encode C wl pk' = Some ?name \<longleftrightarrow> take 10 ?h' = take 10 ?h"
  proof
    assume "keyname_encode C wl pk' = Some ?name"
    then have "join_with ''-'' (name_words C wl pk') = ?name" by (simp only: n(1) option.inject)
    from arg_cong [OF this, of "split_on CHR ''-''"] have "name_words C wl pk' = name_words C wl pk" by (simp only: n(2))
    then have "map (\<lambda>i. wl ! unat i) (indices_from_hash ?h') = map (\<lambda>i. wl ! unat i) (indices_from_hash ?h)"
      by (simp add: name_words_def)
    then have "indices_from_hash ?h' = indices_from_hash ?h"
      using idx [OF h(1)] idx [OF h(2)] by (simp only: option.inject)
    then show "take 10 ?h' = take 10 ?h" by (rule indices_inject [OF h(2,1)])
  next
    assume "take 10 ?h' = take 10 ?h"
    then have "indices_from_hash ?h' = indices_from_hash ?h" "checksum_index C ?h' = checksum_index C ?h"
      using indices_take(1) [of ?h'] indices_take(1) [of ?h] indices_take(2) [of C ?h'] indices_take(2) [of C ?h] by simp_all
    then have "name_words C wl pk' = name_words C wl pk" by (simp only: name_words_def)
    then show "keyname_encode C wl pk' = Some ?name" using n(1) [of pk'] by simp
  qed
  then show ?thesis using n(1) v by (auto simp: keyname_matches_def)
qed

definition demo_words :: "string list" where
  "demo_words = map dec [0 ..< 1024]"

lemma demo_words_law: "wordlist_law demo_words"
proof -
  have "inj dec" by (metis digits_val_dec injI)
  moreover have "CHR ''-'' \<notin> set (dec n)" for n
    using dec_digits(2) [of n] by (auto simp: list_all_iff is_digit_def code_def)
  ultimately show ?thesis
    by (auto simp: wordlist_law_def demo_words_def WORDLIST_SIZE_def BITS_PER_WORD_def distinct_map list_all_iff inj_on_def inj_def)
qed

theorem keyname_sound_and_unique_witness:
  "\<exists>name. keyname_encode toy_crypto demo_words [1] = Some name \<and> keyname_verify toy_crypto demo_words name \<and>
     keyname_matches toy_crypto demo_words name [1] \<and>
     (keyname_matches toy_crypto demo_words name [2] \<longleftrightarrow> take 10 (blake3 toy_crypto [2]) = take 10 (blake3 toy_crypto [1]))"
  by (rule keyname_sound_and_unique [OF demo_words_law toy_crypto_laws(1)])

section \<open>Safety number properties\<close>

lemma slice_le_total: "\<not> slice_le a b \<Longrightarrow> slice_le b a"
  by (induction a b rule: slice_le.induct) auto

lemma slice_le_antisym: "slice_le a b \<Longrightarrow> slice_le b a \<Longrightarrow> a = b"
  by (induction a b rule: slice_le.induct) (auto simp: slice_le.simps elim: slice_le.elims)

lemma safety_preimage_sym: "safety_preimage a b = safety_preimage b a"
  using slice_le_total slice_le_antisym by (auto simp: safety_preimage_def)

lemma pad5_length: "n < 100000 \<Longrightarrow> length (pad5 n) = 5"
proof -
  have d: "length (dec n) \<le> k" if "n < 10 ^ k" "0 < k" for n k
    using that
  proof (induction n arbitrary: k rule: dec.induct)
    case (1 n)
    show ?case
    proof (cases "n < 10")
      case False
      obtain j where k: "k = Suc j" using 1(3) by (cases k) auto
      have "0 < j" using False 1(2) by (cases j) (auto simp: k)
      moreover have "n div 10 < 10 ^ j" using 1(2) by (simp add: k less_mult_imp_div_less mult.commute)
      ultimately have "length (dec (n div 10)) \<le> j" using 1(1) False by blast
      then show ?thesis using False by (subst dec.simps) (simp add: k)
    qed (use 1(3) in \<open>subst dec.simps; simp\<close>)
  qed
  show "n < 100000 \<Longrightarrow> length (pad5 n) = 5" using d [of n 5] by (simp add: pad5_def Let_def)
qed

lemma safety_number_symmetric:
  "safety_number C a b = safety_number C b a" "safety_number_hex C a b = safety_number_hex C b a"
  by (simp_all add: safety_number_def safety_number_hex_def fingerprint_def safety_preimage_sym [of a b])

lemma safety_number_length: "length (safety_number C a b) = 35"
proof -
  have "length (safety_group fp g) = 5" for fp g by (simp add: safety_group_def Let_def pad5_length)
  then show ?thesis by (simp add: safety_number_def Let_def upt_rec)
qed

text \<open>Equal fingerprints of two pairs of 32-byte keys mean the same pair, or a BLAKE3 collision.\<close>

lemma fingerprint_binds:
  assumes "length a = 32" "length b = 32" "length a' = 32" "length b' = 32" "fingerprint C a b = fingerprint C a' b'"
  shows "{a, b} = {a', b'} \<or> collision C [safety_preimage a b] [safety_preimage a' b']"
proof (cases "safety_preimage a b = safety_preimage a' b'")
  case True
  then show ?thesis using assms(1-4) by (auto simp: safety_preimage_def split: if_splits)
next
  case False
  then show ?thesis using assms(5) by (auto simp: fingerprint_def collision_def)
qed

end
