(* ===== verification/Location.thy ===== *)
theory Location
  imports Wire_Laws Rust_Num Rollback
begin

text \<open>
  The location records of \<^verbatim>\<open>location.rs\<close>: the signed key-to-location record, its freshness window (a
  lifetime in seconds against millisecond clocks, with saturating arithmetic) and the tracker that
  rejects rollbacks.  The \<open>HashMap\<close> of the tracker is a map; its iteration order is not specified, so
  \<open>high_water_marks\<close> is the predicate \<open>marks_of\<close> on any enumeration of the map.
\<close>

definition LOCATION_RECORD_DS :: bytes where
  "LOCATION_RECORD_DS = ds_tag ''DMTAP-v0/location-record''"

definition SUBSTRATE_LIBP2P :: u8 where "SUBSTRATE_LIBP2P = 0x01"
definition DEFAULT_TTL_SECS :: u64 where "DEFAULT_TTL_SECS = 2 * 60 * 60"
definition DEFAULT_REPUBLISH_SECS :: u64 where "DEFAULT_REPUBLISH_SECS = 45 * 60"

record location_record =
  lr_ik :: bytes
  lr_peer_id :: bytes
  lr_addrs :: "string list"
  lr_seq :: u64
  lr_ttl :: u64
  lr_ts :: u64
  lr_sig :: bytes
  lr_substrate :: "u8 option"

definition lr_substrate_of :: "location_record \<Rightarrow> u8" where
  "lr_substrate_of r = (case lr_substrate r of Some s \<Rightarrow> s | None \<Rightarrow> SUBSTRATE_LIBP2P)"

definition dht_key :: "crypto \<Rightarrow> bytes \<Rightarrow> bytes" where
  "dht_key C ik = cid_bytes (content_id_of C ik)"

definition lr_to_cv :: "bool \<Rightarrow> location_record \<Rightarrow> cv" where
  "lr_to_cv include_sig r = Map (
     [(1, Bytes (lr_ik r)), (2, Bytes (lr_peer_id r)), (3, Array (map Text (lr_addrs r))), (4, U64 (lr_seq r)),
      (5, U64 (lr_ttl r)), (6, U64 (lr_ts r))]
     @ (if include_sig then [(7, Bytes (lr_sig r))] else [])
     @ (case lr_substrate r of None \<Rightarrow> [] | Some s \<Rightarrow> [(8, U64 (ucast s))]))"

definition lr_det_cbor :: "location_record \<Rightarrow> bytes" where
  "lr_det_cbor r = encode (lr_to_cv True r)"

definition lr_signing_body :: "location_record \<Rightarrow> bytes" where
  "lr_signing_body r = encode (lr_to_cv False r)"

definition lr_from_cv :: "cv \<Rightarrow> cbor_error + location_record" where
  "lr_from_cv = read_fields (
     req_as as_bytes 1 (\<lambda>ik.
     req_as as_bytes 2 (\<lambda>peer_id.
     req_as (as_list as_text) 3 (\<lambda>addrs.
     req_as as_u64 4 (\<lambda>seq.
     req_as as_u64 5 (\<lambda>ttl.
     req_as as_u64 6 (\<lambda>ts.
     req_as as_bytes 7 (\<lambda>sig.
     opt_as as_u8 8 (\<lambda>substrate.
       finish \<lparr>lr_ik = ik, lr_peer_id = peer_id, lr_addrs = addrs, lr_seq = seq, lr_ttl = ttl, lr_ts = ts,
         lr_sig = sig, lr_substrate = substrate\<rparr>)))))))))"

definition lr_from_det_cbor :: "bytes \<Rightarrow> cbor_error + location_record" where
  "lr_from_det_cbor = from_bytes lr_from_cv"

definition lr_issue :: "crypto \<Rightarrow> identity_key \<Rightarrow> bytes \<Rightarrow> string list \<Rightarrow> u64 \<Rightarrow> u64 \<Rightarrow> u64 \<Rightarrow> u8 option \<Rightarrow> location_record" where
  "lr_issue C ik peer_id addrs seq ttl ts substrate =
     (let r = \<lparr>lr_ik = key_public C ik, lr_peer_id = peer_id, lr_addrs = addrs, lr_seq = seq, lr_ttl = ttl, lr_ts = ts,
                lr_sig = [], lr_substrate = substrate\<rparr>
      in r\<lparr>lr_sig := sign_domain C ik LOCATION_RECORD_DS (lr_signing_body r)\<rparr>)"

definition lr_verify :: "crypto \<Rightarrow> location_record \<Rightarrow> identity_error + unit" where
  "lr_verify C r = verify_domain C (lr_ik r) LOCATION_RECORD_DS (lr_signing_body r) (lr_sig r)"

datatype location_error = LocSigInvalid | LocStale | LocExpired | LocUnreachable

fun location_error_code :: "location_error \<Rightarrow> u16" where
  "location_error_code LocSigInvalid = 0x0301"
| "location_error_code LocStale = 0x0302"
| "location_error_code LocExpired = 0x0303"
| "location_error_code LocUnreachable = 0x0303"

definition loc_retryable :: "location_error \<Rightarrow> bool" where
  "loc_retryable e \<longleftrightarrow> e = LocExpired \<or> e = LocUnreachable"

definition check_fresh :: "location_record \<Rightarrow> u64 \<Rightarrow> u64 \<Rightarrow> location_error + unit" where
  "check_fresh r now skew_ms =
     (if saturating_add now skew_ms < lr_ts r then Inl LocExpired
      else
        (let expires_at = saturating_add (lr_ts r) (saturating_mul (lr_ttl r) 1000) in
         if now \<ge> expires_at then Inl LocExpired else Inr ()))"

definition needs_republish :: "location_record \<Rightarrow> u64 \<Rightarrow> u64 \<Rightarrow> bool" where
  "needs_republish r now republish_secs \<longleftrightarrow>
     now \<ge> saturating_add (lr_ts r) (saturating_mul republish_secs 1000)"

definition lr_validate :: "crypto \<Rightarrow> location_record \<Rightarrow> u64 \<Rightarrow> u64 \<Rightarrow> u8 list \<Rightarrow> location_error + unit" where
  "lr_validate C r now skew_ms supported =
     and_then (map_err (\<lambda>_. LocSigInvalid) (lr_verify C r)) (\<lambda>_.
     and_then (check_fresh r now skew_ms) (\<lambda>_.
       if lr_substrate_of r \<notin> set supported then Inl LocUnreachable else Inr ()))"

record location_tracker =
  lt_seen :: "bytes \<rightharpoonup> u64"

definition lt_new :: location_tracker where
  "lt_new = \<lparr>lt_seen = Map.empty\<rparr>"

definition highest_seq :: "location_tracker \<Rightarrow> bytes \<Rightarrow> u64 option" where
  "highest_seq t ik = lt_seen t ik"

definition lt_raise :: "bytes \<times> u64 \<Rightarrow> location_tracker \<Rightarrow> location_tracker" where
  "lt_raise m t =
     (case m of (ik, seq) \<Rightarrow>
        let e = (case lt_seen t ik of Some v \<Rightarrow> v | None \<Rightarrow> seq)
        in t\<lparr>lt_seen := (lt_seen t)(ik \<mapsto> max e seq)\<rparr>)"

definition from_high_water_marks :: "(bytes \<times> u64) list \<Rightarrow> location_tracker" where
  "from_high_water_marks marks = fold lt_raise marks lt_new"

definition marks_of :: "location_tracker \<Rightarrow> (bytes \<times> u64) list \<Rightarrow> bool" where
  "marks_of t marks \<longleftrightarrow> distinct (map fst marks) \<and> map_of marks = lt_seen t"

definition lt_accept :: "location_record \<Rightarrow> location_tracker \<Rightarrow> location_error + location_tracker" where
  "lt_accept r t =
     (if (case lt_seen t (lr_ik r) of Some prev \<Rightarrow> lr_seq r \<le> prev | None \<Rightarrow> False) then Inl LocStale
      else Inr (t\<lparr>lt_seen := (lt_seen t)(lr_ik r \<mapsto> lr_seq r)\<rparr>))"

definition lt_admit :: "crypto \<Rightarrow> location_record \<Rightarrow> u64 \<Rightarrow> u64 \<Rightarrow> u8 list \<Rightarrow> location_tracker \<Rightarrow>
    location_error + string list \<times> location_tracker" where
  "lt_admit C r now skew_ms supported t =
     and_then (lr_validate C r now skew_ms supported) (\<lambda>_.
     and_then (lt_accept r t) (\<lambda>t'. Inr (lr_addrs r, t')))"

section \<open>Codec\<close>

definition wf_lr :: "location_record \<Rightarrow> bool" where
  "wf_lr r \<longleftrightarrow> short (lr_ik r) \<and> short (lr_peer_id r) \<and> short (lr_addrs r) \<and> (\<forall>a \<in> set (lr_addrs r). rust_string a) \<and>
     short (lr_sig r)"

lemma lr_cv_object: "cv_object (lr_to_cv True) lr_from_cv wf_lr 0"
  by (rule cv_fieldsI [OF lr_to_cv_def lr_from_cv_def])
    (auto simp: wf_lr_def wire_simps MAX_NESTING_DEPTH_def pred_option_Some elim!: prim_readE)

lemma lr_signed: "signed_object (lr_to_cv True) lr_from_cv wf_lr (lr_to_cv False) (\<lambda>r. r\<lparr>lr_sig := []\<rparr>)"
  by (rule signed_fieldsI [OF lr_cv_object lr_to_cv_def lr_to_cv_def, where s = "(7, Bytes [])"])
    (auto simp: wf_lr_def MAX_NESTING_DEPTH_def pred_option_Some)

interpretation lr: signed_object "lr_to_cv True" lr_from_cv wf_lr "lr_to_cv False" "\<lambda>r. r\<lparr>lr_sig := []\<rparr>"
  by (rule lr_signed)

lemma lr_decode_exact: "lr_from_det_cbor b = Inr r \<longleftrightarrow> wf_lr r \<and> b = lr_det_cbor r"
  by (simp add: lr_from_det_cbor_def lr_det_cbor_def lr.from_bytes_iff)

lemma lr_issue_verifies:
  assumes "ed25519_law C" "length k = 32"
  shows "lr_verify C (lr_issue C k p a s ttl ts sub) = Inr ()"
  using verify_sign_domain [OF assms]
  by (simp add: lr_verify_def lr_issue_def Let_def lr_signing_body_def lr_to_cv_def)

section \<open>Freshness\<close>

text \<open>The window in plain arithmetic: the record is live from \<open>ts - skew\<close> up to, and excluding,
  \<open>ts + 1000 ttl\<close>, all of it capped at the end of the clock.\<close>

lemma check_fresh_iff:
  "check_fresh r now skew = Inr () \<longleftrightarrow>
     unat (lr_ts r) \<le> unat now + unat skew \<and> unat now < unat (lr_ts r) + 1000 * unat (lr_ttl r) \<and> unat now < 2 ^ 64 - 1"
proof -
  have "unat (lr_ts r) \<le> 2 ^ 64 - 1" by (rule unat_u64_le)
  then show ?thesis
    by (auto simp: check_fresh_def Let_def word_le_nat_alt word_less_nat_alt unat_saturating_add unat_saturating_mul not_less
        min_le_iff_disj min_less_iff_disj split: if_splits)
qed

section \<open>Rollback\<close>

lemma lt_admit_Inr_iff:
  "lt_admit C r now skew subs t = Inr (addrs, t') \<longleftrightarrow>
     lr_validate C r now skew subs = Inr () \<and> (\<forall>f. lt_seen t (lr_ik r) = Some f \<longrightarrow> f < lr_seq r) \<and>
     addrs = lr_addrs r \<and> t' = t\<lparr>lt_seen := (lt_seen t)(lr_ik r \<mapsto> lr_seq r)\<rparr>"
  by (auto simp: lt_admit_def lt_accept_def not_le split: option.splits if_splits)

definition lt_step :: "crypto \<Rightarrow> location_tracker \<Rightarrow> location_record \<times> u64 \<times> u64 \<times> u8 list \<Rightarrow> location_error + location_tracker" where
  "lt_step C t a = (case a of (r, now, skew, subs) \<Rightarrow> and_then (lt_admit C r now skew subs t) (\<lambda>(_, t'). Inr t'))"

interpretation locations: version_floor
  lt_seen "lt_step C" "\<lambda>(r, _). lr_ik r" "\<lambda>(r, _). lr_seq r"
  "\<lambda>(r, now, skew, subs). lr_validate C r now skew subs = Inr ()" "(\<le>)" for C
  by unfold_locales (auto simp: lt_step_def lt_admit_Inr_iff not_le)

text \<open>Restarting from any enumeration of the persisted marks restores the tracker.\<close>

lemma fold_lt_raise:
  assumes "distinct (map fst marks)" "\<forall>k \<in> fst ` set marks. lt_seen t k = None"
  shows "lt_seen (fold lt_raise marks t) = lt_seen t ++ map_of marks"
  using assms
proof (induction marks arbitrary: t)
  case (Cons m marks)
  obtain ik seq where m: "m = (ik, seq)" by fastforce
  have t: "lt_seen (lt_raise m t) = (lt_seen t)(ik \<mapsto> seq)"
    using Cons.prems(2) by (simp add: m lt_raise_def)
  have "lt_seen (fold lt_raise marks (lt_raise m t)) = lt_seen (lt_raise m t) ++ map_of marks"
  proof (rule Cons.IH)
    show "distinct (map fst marks)" using Cons.prems(1) by simp
    show "\<forall>k \<in> fst ` set marks. lt_seen (lt_raise m t) k = None" unfolding t using Cons.prems by (auto simp: m)
  qed
  moreover have "(lt_seen t)(ik \<mapsto> seq) ++ map_of marks = lt_seen t ++ (map_of marks)(ik \<mapsto> seq)"
    using Cons.prems(1) map_of_eq_None_iff [of marks ik] by (auto simp: m map_add_def fun_eq_iff split: option.splits)
  moreover have "map_of (m # marks) = (map_of marks)(ik \<mapsto> seq)" by (simp add: m)
  ultimately show ?case by (simp only: t fold_simps)
qed simp

lemma restart_restores: "marks_of t marks \<Longrightarrow> from_high_water_marks marks = t"
  using fold_lt_raise [of marks lt_new]
  by (cases t) (auto simp: marks_of_def from_high_water_marks_def lt_new_def intro!: location_tracker.equality)

text \<open>C14. A resolver never rolls back, not even across a restart: once a record for a key is admitted,
  no record for that key with the same or a lower sequence number is admitted later, whatever was offered in
  between and in whatever order the marks were journaled and read back.\<close>

theorem location_no_rollback:
  assumes "lt_admit C r now skew subs t = Inr (addrs, t1)" "lr_ik r' = lr_ik r" "lr_seq r' \<le> lr_seq r"
    and "marks_of (run_accepts (lt_step C) t1 offers) marks"
  shows "\<nexists>res. lt_admit C r' now' skew' subs' (from_high_water_marks marks) = Inr res"
proof -
  have a: "lt_step C t (r, now, skew, subs) = Inr t1" using assms(1) by (simp add: lt_step_def)
  have "\<nexists>t2. lt_step C (run_accepts (lt_step C) t1 offers) (r', now', skew', subs') = Inr t2"
    using assms(2,3) by (intro locations.no_rollback [OF a]) simp_all
  then show ?thesis by (auto simp: restart_restores [OF assms(4)] lt_step_def)
qed

definition demo_location :: "u64 \<Rightarrow> location_record" where
  "demo_location n = lr_issue toy_crypto (replicate 32 7) [] [] n 60 1000 None"

lemma demo_location_fields [simp]: "lr_ik (demo_location n) = replicate 32 7" "lr_seq (demo_location n) = n"
  by (simp_all add: demo_location_def lr_issue_def Let_def key_public_def toy_crypto_def)

lemma demo_location_admitted:
  "lt_admit toy_crypto (demo_location 3) 2000 0 [1] lt_new = Inr ([], lt_new\<lparr>lt_seen := [replicate 32 7 \<mapsto> 3]\<rparr>)"
proof -
  have "lr_verify toy_crypto (demo_location 3) = Inr ()"
    unfolding demo_location_def by (rule lr_issue_verifies [OF toy_crypto_laws(2)]) simp
  moreover have "check_fresh (demo_location 3) 2000 0 = Inr ()"
    by (simp add: check_fresh_iff demo_location_def lr_issue_def Let_def)
  moreover have "lr_substrate_of (demo_location 3) = 1" "lr_addrs (demo_location 3) = []"
    by (simp_all add: lr_substrate_of_def demo_location_def lr_issue_def Let_def SUBSTRATE_LIBP2P_def)
  ultimately show ?thesis by (simp add: lt_admit_Inr_iff lr_validate_def lt_new_def)
qed

theorem location_no_rollback_witness:
  "\<nexists>res. lt_admit toy_crypto (demo_location 2) 2000 0 [1] (from_high_water_marks [(replicate 32 7, 3)]) = Inr res"
  by (rule location_no_rollback [OF demo_location_admitted, where offers = "[]"]) (simp_all add: marks_of_def lt_new_def)

end
