(* ===== verification/Mixnet.thy ===== *)
theory Mixnet
  imports Wire_Order Rust_Num Rollback
begin

text \<open>
  The mixnet directory objects of \<^verbatim>\<open>mixnet.rs\<close>: per-epoch mix keys, the signed self-descriptor of a mix
  node with its freshness gate, the signed directory and the tracker that rejects a frozen or rolled-back
  directory.  A descriptor writes its signature (key 7) after the optional keys 8 and 9, and a directory
  embeds descriptors, which it decodes again from their re-encoded bytes; \<open>mn_wire\<close> and \<open>md_wire\<close>
  are the same maps with ascending keys, for which the codec contracts hold.
\<close>

definition MIX_DESCRIPTOR_DS :: bytes where "MIX_DESCRIPTOR_DS = ds_tag ''DMTAP-v0/mix-descriptor''"
definition MIX_DIRECTORY_DS :: bytes where "MIX_DIRECTORY_DS = ds_tag ''DMTAP-v0/mix-directory''"

record mix_key_entry =
  mk_epoch :: u64
  mk_mix_key :: bytes
  mk_valid_until :: u64

definition mk_to_cv :: "mix_key_entry \<Rightarrow> cv" where
  "mk_to_cv e = Map [(1, U64 (mk_epoch e)), (2, Bytes (mk_mix_key e)), (3, U64 (mk_valid_until e))]"

definition mk_from_cv :: "cv \<Rightarrow> cbor_error + mix_key_entry" where
  "mk_from_cv = read_fields (
     req_as as_u64 1 (\<lambda>epoch.
     req_as as_bytes 2 (\<lambda>mix_key.
     req_as as_u64 3 (\<lambda>valid_until.
       finish \<lparr>mk_epoch = epoch, mk_mix_key = mix_key, mk_valid_until = valid_until\<rparr>))))"

record mix_node_descriptor =
  mn_suite :: suite
  mn_node_ik :: bytes
  mn_addrs :: "string list"
  mn_mix_keys :: "mix_key_entry list"
  mn_layer :: u8
  mn_ts :: u64
  mn_sig :: bytes
  mn_substrate :: "u8 option"
  mn_operator :: "bytes option"

definition mn_to_cv :: "bool \<Rightarrow> mix_node_descriptor \<Rightarrow> cv" where
  "mn_to_cv include_sig d = Map (
     [(1, suite_cv (mn_suite d)), (2, Bytes (mn_node_ik d)), (3, Array (map Text (mn_addrs d))),
      (4, Array (map mk_to_cv (mn_mix_keys d))), (5, U64 (ucast (mn_layer d))), (6, U64 (mn_ts d))]
     @ (case mn_substrate d of None \<Rightarrow> [] | Some s \<Rightarrow> [(8, U64 (ucast s))])
     @ (case mn_operator d of None \<Rightarrow> [] | Some op \<Rightarrow> [(9, Bytes op)])
     @ (if include_sig then [(7, Bytes (mn_sig d))] else []))"

definition mn_det_cbor :: "mix_node_descriptor \<Rightarrow> bytes" where
  "mn_det_cbor d = encode (mn_to_cv True d)"

definition mn_signing_body :: "mix_node_descriptor \<Rightarrow> bytes" where
  "mn_signing_body d = encode (mn_to_cv False d)"

definition mn_from_cv :: "cv \<Rightarrow> cbor_error + mix_node_descriptor" where
  "mn_from_cv = read_fields (
     req_as suite_from_cv 1 (\<lambda>s.
     req_as as_bytes 2 (\<lambda>node_ik.
     req_as (as_list as_text) 3 (\<lambda>addrs.
     req_as (as_list mk_from_cv) 4 (\<lambda>mix_keys f.
       if mix_keys = [] then Inl TypeMismatch
       else req_as as_u8 5 (\<lambda>layer f.
         if layer > 2 then Inl (UnknownDiscriminant (ucast layer))
         else
           (req_as as_u64 6 (\<lambda>ts.
            req_as as_bytes 7 (\<lambda>sig.
            opt_as as_u8 8 (\<lambda>substrate.
            opt_as as_bytes 9 (\<lambda>operator.
              finish \<lparr>mn_suite = s, mn_node_ik = node_ik, mn_addrs = addrs, mn_mix_keys = mix_keys, mn_layer = layer,
                mn_ts = ts, mn_sig = sig, mn_substrate = substrate, mn_operator = operator\<rparr>)))) f)) f)))))"

definition mn_from_det_cbor :: "bytes \<Rightarrow> cbor_error + mix_node_descriptor" where
  "mn_from_det_cbor = from_bytes mn_from_cv"

definition mn_issue :: "crypto \<Rightarrow> identity_key \<Rightarrow> string list \<Rightarrow> mix_key_entry list \<Rightarrow> u8 \<Rightarrow> u64 \<Rightarrow> u8 option \<Rightarrow>
    bytes option \<Rightarrow> mix_node_descriptor" where
  "mn_issue C node_ik addrs mix_keys layer ts substrate operator =
     (let d = \<lparr>mn_suite = Classical, mn_node_ik = key_public C node_ik, mn_addrs = addrs, mn_mix_keys = mix_keys,
                mn_layer = layer, mn_ts = ts, mn_sig = [], mn_substrate = substrate, mn_operator = operator\<rparr>
      in d\<lparr>mn_sig := sign_domain C node_ik MIX_DESCRIPTOR_DS (mn_signing_body d)\<rparr>)"

definition mn_verify :: "crypto \<Rightarrow> mix_node_descriptor \<Rightarrow> identity_error + unit" where
  "mn_verify C d =
     (if \<not> is_supported (mn_suite d) then Inl (UnsupportedSuite (suite_as_u8 (mn_suite d)))
      else verify_domain C (mn_node_ik d) MIX_DESCRIPTOR_DS (mn_signing_body d) (mn_sig d))"

datatype mix_descriptor_error = MnStale

fun mix_descriptor_error_code :: "mix_descriptor_error \<Rightarrow> u16" where
  "mix_descriptor_error_code MnStale = 0x030C"

definition mn_check_fresh :: "mix_node_descriptor \<Rightarrow> u64 \<Rightarrow> u64 \<Rightarrow> mix_descriptor_error + unit" where
  "mn_check_fresh d now max_age =
     (if max_age \<noteq> 0 \<and> now > saturating_add (mn_ts d) max_age then Inl MnStale
      else if \<not> list_ex (\<lambda>k. mk_valid_until k > now) (mn_mix_keys d) then Inl MnStale
      else Inr ())"

record mix_directory =
  md_suite :: suite
  md_authority :: bytes
  md_epoch :: u64
  md_version :: u64
  md_mixes :: "mix_node_descriptor list"
  md_prev :: content_id
  md_ts :: u64
  md_sig :: bytes

definition md_to_cv :: "bool \<Rightarrow> mix_directory \<Rightarrow> cv" where
  "md_to_cv include_sig d = Map (
     [(1, suite_cv (md_suite d)), (2, Bytes (md_authority d)), (3, U64 (md_epoch d)), (4, U64 (md_version d)),
      (5, Array (map (mn_to_cv True) (md_mixes d))), (6, hash_cv (md_prev d)), (7, U64 (md_ts d))]
     @ (if include_sig then [(8, Bytes (md_sig d))] else []))"

definition md_det_cbor :: "mix_directory \<Rightarrow> bytes" where
  "md_det_cbor d = encode (md_to_cv True d)"

definition md_signing_body :: "mix_directory \<Rightarrow> bytes" where
  "md_signing_body d = encode (md_to_cv False d)"

definition mn_reread :: "cv \<Rightarrow> cbor_error + mix_node_descriptor" where
  "mn_reread c = mn_from_det_cbor (encode c)"

definition md_from_cv :: "cv \<Rightarrow> cbor_error + mix_directory" where
  "md_from_cv = read_fields (
     req_as suite_from_cv 1 (\<lambda>s.
     req_as as_bytes 2 (\<lambda>authority.
     req_as as_u64 3 (\<lambda>epoch.
     req_as as_u64 4 (\<lambda>version.
     req_as (as_list mn_reread) 5 (\<lambda>mixes f.
       if mixes = [] then Inl TypeMismatch
       else
         (req_as as_hash 6 (\<lambda>prev.
          req_as as_u64 7 (\<lambda>ts.
          req_as as_bytes 8 (\<lambda>sig.
            finish \<lparr>md_suite = s, md_authority = authority, md_epoch = epoch, md_version = version, md_mixes = mixes,
              md_prev = prev, md_ts = ts, md_sig = sig\<rparr>))) f)))))))"

definition md_from_det_cbor :: "bytes \<Rightarrow> cbor_error + mix_directory" where
  "md_from_det_cbor = from_bytes md_from_cv"

definition md_issue :: "crypto \<Rightarrow> identity_key \<Rightarrow> u64 \<Rightarrow> u64 \<Rightarrow> mix_node_descriptor list \<Rightarrow> content_id \<Rightarrow> u64 \<Rightarrow>
    mix_directory" where
  "md_issue C authority epoch version mixes prev ts =
     (let d = \<lparr>md_suite = Classical, md_authority = key_public C authority, md_epoch = epoch, md_version = version,
                md_mixes = mixes, md_prev = prev, md_ts = ts, md_sig = []\<rparr>
      in d\<lparr>md_sig := sign_domain C authority MIX_DIRECTORY_DS (md_signing_body d)\<rparr>)"

definition md_verify :: "crypto \<Rightarrow> mix_directory \<Rightarrow> identity_error + unit" where
  "md_verify C d =
     (if \<not> is_supported (md_suite d) then Inl (UnsupportedSuite (suite_as_u8 (md_suite d)))
      else verify_domain C (md_authority d) MIX_DIRECTORY_DS (md_signing_body d) (md_sig d))"

datatype mix_directory_error = MdSigInvalid | MdStale

fun mix_directory_error_code :: "mix_directory_error \<Rightarrow> u16" where
  "mix_directory_error_code MdSigInvalid = 0x030B"
| "mix_directory_error_code MdStale = 0x0311"

record mix_directory_tracker =
  mt_seen :: "bytes \<rightharpoonup> u64"

definition mt_new :: mix_directory_tracker where
  "mt_new = \<lparr>mt_seen = Map.empty\<rparr>"

definition mt_last_version :: "mix_directory_tracker \<Rightarrow> bytes \<Rightarrow> u64 option" where
  "mt_last_version t authority = mt_seen t authority"

definition mt_accept :: "crypto \<Rightarrow> mix_directory_tracker \<Rightarrow> mix_directory \<Rightarrow> mix_directory_error + mix_directory_tracker" where
  "mt_accept C t dir =
     and_then (map_err (\<lambda>_. MdSigInvalid) (md_verify C dir)) (\<lambda>_.
       if (case mt_seen t (md_authority dir) of Some v \<Rightarrow> md_version dir \<le> v | None \<Rightarrow> False) then Inl MdStale
       else Inr (t\<lparr>mt_seen := (mt_seen t)(md_authority dir \<mapsto> md_version dir)\<rparr>))"

section \<open>The wire maps in key order\<close>

definition mn_wire :: "bool \<Rightarrow> mix_node_descriptor \<Rightarrow> cv" where
  "mn_wire include_sig d = Map (
     [(1, suite_cv (mn_suite d)), (2, Bytes (mn_node_ik d)), (3, Array (map Text (mn_addrs d))),
      (4, Array (map mk_to_cv (mn_mix_keys d))), (5, U64 (ucast (mn_layer d))), (6, U64 (mn_ts d))]
     @ (if include_sig then [(7, Bytes (mn_sig d))] else [])
     @ (case mn_substrate d of None \<Rightarrow> [] | Some s \<Rightarrow> [(8, U64 (ucast s))])
     @ (case mn_operator d of None \<Rightarrow> [] | Some op \<Rightarrow> [(9, Bytes op)]))"

lemma enc_mn_wire: "enc (mn_to_cv b d) = enc (mn_wire b d)"
  unfolding mn_to_cv_def mn_wire_def
  by (rule enc_Map_mset) (simp_all add: word_less_nat_alt split: option.splits)

definition md_wire :: "bool \<Rightarrow> mix_directory \<Rightarrow> cv" where
  "md_wire include_sig d = Map (
     [(1, suite_cv (md_suite d)), (2, Bytes (md_authority d)), (3, U64 (md_epoch d)), (4, U64 (md_version d)),
      (5, Array (map (mn_wire True) (md_mixes d))), (6, hash_cv (md_prev d)), (7, U64 (md_ts d))]
     @ (if include_sig then [(8, Bytes (md_sig d))] else []))"

lemma enc_md_wire: "enc (md_to_cv b d) = enc (md_wire b d)"
proof -
  have "enc (Array (map (mn_to_cv True) ms)) = enc (Array (map (mn_wire True) ms))" for ms
    by (simp add: comp_def enc_mn_wire)
  then show ?thesis unfolding md_to_cv_def md_wire_def by (intro enc_Map_cong) (simp del: enc.simps)
qed

section \<open>Codecs\<close>

definition wf_mk :: "mix_key_entry \<Rightarrow> bool" where
  "wf_mk e \<longleftrightarrow> short (mk_mix_key e)"

lemma mk_cv_object: "d < MAX_NESTING_DEPTH \<Longrightarrow> cv_object mk_to_cv mk_from_cv wf_mk d"
  by (rule cv_fieldsI [OF mk_to_cv_def mk_from_cv_def]) (auto simp: wf_mk_def wire_simps elim!: prim_readE)

definition wf_mn :: "mix_node_descriptor \<Rightarrow> bool" where
  "wf_mn d \<longleftrightarrow> short (mn_node_ik d) \<and> short (mn_addrs d) \<and> (\<forall>a \<in> set (mn_addrs d). rust_string a) \<and>
     mn_mix_keys d \<noteq> [] \<and> short (mn_mix_keys d) \<and> (\<forall>k \<in> set (mn_mix_keys d). wf_mk k) \<and> mn_layer d \<le> 2 \<and>
     short (mn_sig d) \<and> pred_option short (mn_operator d)"

lemma wf_mk_written [simp]:
  assumes "wf_mk e"
  shows "canon (mk_to_cv e)" "d < MAX_NESTING_DEPTH \<Longrightarrow> fits_depth d (mk_to_cv e)" "mk_from_cv (mk_to_cv e) = Inr e"
proof -
  have w: "cv_writer mk_to_cv mk_from_cv wf_mk d" if "d < MAX_NESTING_DEPTH" for d
    using mk_cv_object [OF that] by (rule cv_object.axioms(1))
  have d0: "(0 :: nat) < MAX_NESTING_DEPTH" by (simp add: MAX_NESTING_DEPTH_def)
  show "canon (mk_to_cv e)" "mk_from_cv (mk_to_cv e) = Inr e"
    by (rule cv_writer.canon_to_cv [OF w [OF d0] assms] cv_writer.from_to_cv [OF w [OF d0] assms])+
  show "d < MAX_NESTING_DEPTH \<Longrightarrow> fits_depth d (mk_to_cv e)" using cv_writer.fits_to_cv [OF w assms] .
qed

lemma reads_mix_keys:
  "Suc d < MAX_NESTING_DEPTH \<Longrightarrow>
    reads (as_list mk_from_cv) (\<lambda>xs. Array (map mk_to_cv xs)) (\<lambda>xs. short xs \<and> (\<forall>x \<in> set xs. wf_mk x)) d"
  by (rule reads_list [OF cv_object.reads_object [OF mk_cv_object]])

lemma mn_cv_object: "d + 3 < MAX_NESTING_DEPTH \<Longrightarrow> cv_object (mn_wire True) mn_from_cv wf_mn d"
proof (rule cv_fieldsI [OF mn_wire_def mn_from_cv_def], goal_cases)
  case (4 m x)
  then show ?case
    by (auto simp: wf_mn_def reading_test not_less elim!: prim_readE reads_mix_keys [THEN [2] reading_reqE])
qed (auto simp: wf_mn_def wire_simps pred_option_Some)

lemma wf_mn_written [simp]:
  assumes "wf_mn d"
  shows "canon (mn_wire True d)" "fits_depth (Suc (Suc 0)) (mn_wire True d)" "mn_reread (mn_wire True d) = Inr d"
proof -
  have w: "cv_writer (mn_wire True) mn_from_cv wf_mn (Suc (Suc 0))"
    by (rule cv_object.axioms(1) [OF mn_cv_object]) (simp add: MAX_NESTING_DEPTH_def)
  have o: "wire_object (mn_wire True) mn_from_cv wf_mn"
    by (rule wire_object.intro [OF mn_cv_object]) (simp add: MAX_NESTING_DEPTH_def)
  show "canon (mn_wire True d)" "fits_depth (Suc (Suc 0)) (mn_wire True d)"
    by (rule cv_writer.canon_to_cv [OF w assms] cv_writer.fits_to_cv [OF w assms])+
  show "mn_reread (mn_wire True d) = Inr d"
    using assms by (simp add: mn_reread_def mn_from_det_cbor_def wire_object.from_bytes_iff [OF o])
qed

lemma fits_depth_mono: "fits_depth d v \<Longrightarrow> e \<le> d \<Longrightarrow> fits_depth e v"
proof (induction d v arbitrary: e rule: fits_depth.induct)
  case (1 d a)
  then show ?case by fastforce
next
  case (2 d m)
  have "fits_depth (e + 1) v" if "(k, v) \<in> set m" for k v
    using 2(1) [OF that refl, of "e + 1"] 2(2,3) that by fastforce
  then show ?case using 2(2,3) by fastforce
next
  case (3 d m)
  have "fits_depth (e + 1) v" if "(k, v) \<in> set m" for k v
    using 3(1) [OF that refl, of "e + 1"] 3(2,3) that by fastforce
  then show ?case using 3(2,3) by fastforce
qed auto

lemma reads_reread: "reads mn_reread (mn_wire True) wf_mn d"
proof -
  have o: "wire_object (mn_wire True) mn_from_cv wf_mn"
    by (rule wire_object.intro [OF mn_cv_object]) (simp add: MAX_NESTING_DEPTH_def)
  have "wf_mn x \<and> v = mn_wire True x" if v: "mn_reread v = Inr x" "canon v" "fits_depth d v" for v x
  proof -
    have x: "wf_mn x" "encode v = encode (mn_wire True x)"
      using v(1) by (simp_all add: mn_reread_def mn_from_det_cbor_def wire_object.from_bytes_iff [OF o])
    have "v = mn_wire True x"
      using x v fits_depth_mono [OF v(3), of 0] fits_depth_mono [OF wf_mn_written(2), of x 0] by (intro encode_inj) simp_all
    then show ?thesis using x(1) by simp
  qed
  then show ?thesis by (auto simp: reads_def)
qed

definition wf_md :: "mix_directory \<Rightarrow> bool" where
  "wf_md d \<longleftrightarrow> short (md_authority d) \<and> md_mixes d \<noteq> [] \<and> short (md_mixes d) \<and> (\<forall>m \<in> set (md_mixes d). wf_mn m) \<and>
     short (cid_bytes (md_prev d)) \<and> short (md_sig d)"

lemma md_cv_object: "cv_object (md_wire True) md_from_cv wf_md 0"
proof (rule cv_fieldsI [OF md_wire_def md_from_cv_def], goal_cases)
  case (4 m x)
  then show ?case
    by (auto simp: wf_md_def reading_test elim!: prim_readE reads_list [OF reads_reread, THEN [2] reading_reqE])
qed (auto simp: wf_md_def wire_simps MAX_NESTING_DEPTH_def)

lemma mn_signed: "signed_object (mn_wire True) mn_from_cv wf_mn (mn_wire False) (\<lambda>d. d\<lparr>mn_sig := []\<rparr>)"
proof (rule signed_fieldsI [OF _ mn_wire_def mn_wire_def, where s = "(7, Bytes [])"])
  show "cv_object (mn_wire True) mn_from_cv wf_mn 0" by (rule mn_cv_object) (simp add: MAX_NESTING_DEPTH_def)
qed (auto simp: wf_mn_def MAX_NESTING_DEPTH_def pred_option_Some)

lemma md_signed: "signed_object (md_wire True) md_from_cv wf_md (md_wire False) (\<lambda>d. d\<lparr>md_sig := []\<rparr>)"
  by (rule signed_fieldsI [OF md_cv_object md_wire_def md_wire_def, where s = "(8, Bytes [])"])
    (auto simp: wf_md_def MAX_NESTING_DEPTH_def)

interpretation mn: signed_object "mn_wire True" mn_from_cv wf_mn "mn_wire False" "\<lambda>d. d\<lparr>mn_sig := []\<rparr>"
  by (rule mn_signed)

interpretation md: signed_object "md_wire True" md_from_cv wf_md "md_wire False" "\<lambda>d. d\<lparr>md_sig := []\<rparr>"
  by (rule md_signed)

lemma mix_objects_decode_exact:
  "(mn_from_det_cbor b = Inr d \<longleftrightarrow> wf_mn d \<and> b = mn_det_cbor d) \<and> (md_from_det_cbor b = Inr e \<longleftrightarrow> wf_md e \<and> b = md_det_cbor e)"
  by (simp add: mn_from_det_cbor_def mn_det_cbor_def mn.from_bytes_iff md_from_det_cbor_def md_det_cbor_def md.from_bytes_iff
      encode_def enc_mn_wire enc_md_wire)

lemma mix_issue_verifies:
  assumes "ed25519_law C" "length k = 32"
  shows "mn_verify C (mn_issue C k addrs keys layer ts sub op) = Inr ()"
    and "md_verify C (md_issue C k epoch version mixes prev ts) = Inr ()"
  using verify_sign_domain [OF assms]
  by (simp_all add: mn_verify_def mn_issue_def md_verify_def md_issue_def Let_def mn_signing_body_def md_signing_body_def
      mn_to_cv_def md_to_cv_def)

section \<open>Freshness and rollback\<close>

lemma mn_check_fresh_iff:
  "mn_check_fresh d now age = Inr () \<longleftrightarrow>
     (age = 0 \<or> unat now \<le> unat (mn_ts d) + unat age) \<and> (\<exists>k \<in> set (mn_mix_keys d). now < mk_valid_until k)"
proof -
  have "unat now \<le> 2 ^ 64 - 1" by (rule unat_u64_le)
  then show ?thesis
    by (auto simp: mn_check_fresh_def list_ex_iff word_less_nat_alt unat_saturating_add min_less_iff_conj)
qed

interpretation mixdirs: version_floor
  mt_seen "mt_accept C" md_authority md_version "\<lambda>d. md_verify C d = Inr ()" "(\<le>)" for C
  by unfold_locales (auto simp: mt_accept_def split: option.splits if_splits)

lemma mix_directory_never_frozen:
  assumes "mt_accept C t d = Inr t1" "md_authority d' = md_authority d" "md_version d' \<le> md_version d"
  shows "mt_accept C (run_accepts (mt_accept C) t1 offers) d' =
    Inl (if md_verify C d' = Inr () then MdStale else MdSigInvalid)"
proof -
  let ?t = "run_accepts (mt_accept C) t1 offers"
  have "\<nexists>t2. mt_accept C ?t d' = Inr t2" using assms(2,3) by (intro mixdirs.no_rollback [OF assms(1)]) simp_all
  then show ?thesis
    by (cases "md_verify C d'") (auto simp: mt_accept_def split: option.splits if_splits)
qed

end
