(* ===== verification/Pq.thy ===== *)
theory Pq
  imports Mote_Files
begin

text \<open>
  Payload sealing and the post-quantum hybrid suite: the trait \<open>PayloadSeal\<close> and its HPKE implementation
  (\<open>kotva-core/src/mote.rs\<close>), and \<open>kotva-core/src/pq.rs\<close> with the X-Wing sealer and the hybrid
  signature.  The primitives come from third-party crates and are the fields of two records,
  \<open>hpke_lib\<close> and \<open>pq_lib\<close>; a randomised primitive takes its randomness as an argument.
\<close>

section \<open>Sealers\<close>

record payload_seal =
  seal :: "bytes \<Rightarrow> bytes \<Rightarrow> bytes \<Rightarrow> mote_error + bytes"
  open_sealed :: "bytes \<Rightarrow> bytes \<Rightarrow> bytes \<Rightarrow> mote_error + bytes"

text \<open>What the builders and the validator rely on: a payload sealed to \<open>pub\<close> opens under \<open>sec\<close> with the
  same associated data.\<close>

locale seal_keypair =
  fixes S :: payload_seal
    and pub sec :: bytes
  assumes open_seal: "seal S pub aad pt = Inr ct \<Longrightarrow> open_sealed S sec aad ct = Inr pt"

section \<open>HPKE\<close>

text \<open>\<open>hpke_seal pk info pt aad rnd\<close> is \<open>single_shot_seal\<close>, \<open>hpke_open sk encap info ct aad\<close> is
  \<open>single_shot_open\<close>, and \<open>hpke_pk_ok\<close>, \<open>hpke_sk_ok\<close>, \<open>hpke_enc_ok\<close> say which byte strings
  \<open>from_bytes\<close> accepts as keys and encapsulated keys.\<close>

record hpke_lib =
  hpke_pk_ok :: "bytes \<Rightarrow> bool"
  hpke_sk_ok :: "bytes \<Rightarrow> bool"
  hpke_enc_ok :: "bytes \<Rightarrow> bool"
  hpke_public :: "bytes \<Rightarrow> bytes"
  hpke_seal :: "bytes \<Rightarrow> bytes \<Rightarrow> bytes \<Rightarrow> bytes \<Rightarrow> bytes \<Rightarrow> (bytes \<times> bytes) option"
  hpke_open :: "bytes \<Rightarrow> bytes \<Rightarrow> bytes \<Rightarrow> bytes \<Rightarrow> bytes \<Rightarrow> bytes option"

definition HPKE_INFO :: bytes where
  "HPKE_INFO = as_bytes_of ''dmtap-mote-payload-v0''"

definition hpke_seal_payload :: "hpke_lib \<Rightarrow> bytes \<Rightarrow> bytes \<Rightarrow> bytes \<Rightarrow> bytes \<Rightarrow> mote_error + bytes" where
  "hpke_seal_payload H rnd recipient_pub aad plaintext =
     (if \<not> hpke_pk_ok H recipient_pub then Inl BadKey
      else
        (case hpke_seal H recipient_pub HPKE_INFO plaintext aad rnd of
           None \<Rightarrow> Inl SealFailed
         | Some (encap, ct) \<Rightarrow> Inr (be_bytes 2 (unat (of_nat (length encap) :: u16)) @ encap @ ct)))"

definition hpke_open_payload :: "hpke_lib \<Rightarrow> bytes \<Rightarrow> bytes \<Rightarrow> bytes \<Rightarrow> mote_error + bytes" where
  "hpke_open_payload H recipient_secret aad sealed =
     (if length sealed < 2 then Inl DecryptFailed
      else
        (let enc_len = from_be (take 2 sealed) in
         if length sealed < 2 + enc_len then Inl DecryptFailed
         else
           (let encap = take enc_len (drop 2 sealed); ct = drop (2 + enc_len) sealed in
            if \<not> hpke_sk_ok H recipient_secret then Inl BadKey
            else if \<not> hpke_enc_ok H encap then Inl DecryptFailed
            else ok_or (hpke_open H recipient_secret encap HPKE_INFO ct aad) DecryptFailed)))"

definition hpke_sealer :: "hpke_lib \<Rightarrow> bytes \<Rightarrow> payload_seal" where
  "hpke_sealer H rnd = \<lparr>seal = hpke_seal_payload H rnd, open_sealed = hpke_open_payload H\<rparr>"

record seal_keys =
  sk_secret :: bytes
  sk_public :: bytes

definition seal_keypair_of :: "hpke_lib \<Rightarrow> bytes \<Rightarrow> seal_keys" where
  "seal_keypair_of H secret = \<lparr>sk_secret = secret, sk_public = hpke_public H secret\<rparr>"

section \<open>The hybrid suite\<close>

definition ED25519_PK_LEN :: nat where "ED25519_PK_LEN = 32"
definition ED25519_SIG_LEN :: nat where "ED25519_SIG_LEN = 64"
definition MLDSA65_PK_LEN :: nat where "MLDSA65_PK_LEN = 1952"
definition MLDSA65_SIG_LEN :: nat where "MLDSA65_SIG_LEN = 3309"
definition HYBRID_PK_LEN :: nat where "HYBRID_PK_LEN = ED25519_PK_LEN + MLDSA65_PK_LEN"
definition HYBRID_SIG_LEN :: nat where "HYBRID_SIG_LEN = ED25519_SIG_LEN + MLDSA65_SIG_LEN"
definition XWING_EK_LEN :: nat where "XWING_EK_LEN = 1216"
definition XWING_DK_LEN :: nat where "XWING_DK_LEN = 32"
definition XWING_CT_LEN :: nat where "XWING_CT_LEN = 1120"

definition HYBRID_AEAD_INFO :: bytes where
  "HYBRID_AEAD_INFO = as_bytes_of ''dmtap-mote-payload-v0/suite-0x02/x-wing-hkdf-chacha20poly1305''"

definition HYBRID_AEAD_NONCE :: bytes where
  "HYBRID_AEAD_NONCE = replicate 12 0"

datatype hybrid_error = HybridSuiteIncomplete

definition hybrid_error_code :: "hybrid_error \<Rightarrow> u16" where
  "hybrid_error_code e = (case e of HybridSuiteIncomplete \<Rightarrow> 0x0210)"

text \<open>\<open>mldsa_sig_ok\<close> says which byte strings decode as a signature; the key and ciphertext conversions of
  the other primitives only check the length.  \<open>hkdf salt ikm info n\<close> is HKDF-SHA256.\<close>

record pq_lib =
  mldsa_public :: "bytes \<Rightarrow> bytes"
  mldsa_sign :: "bytes \<Rightarrow> bytes \<Rightarrow> bytes"
  mldsa_sig_ok :: "bytes \<Rightarrow> bool"
  mldsa_verify :: "bytes \<Rightarrow> bytes \<Rightarrow> bytes \<Rightarrow> bool"
  xwing_public :: "bytes \<Rightarrow> bytes"
  xwing_ek_ok :: "bytes \<Rightarrow> bool"
  xwing_encapsulate :: "bytes \<Rightarrow> bytes \<Rightarrow> bytes \<times> bytes"
  xwing_decapsulate :: "bytes \<Rightarrow> bytes \<Rightarrow> bytes"
  hkdf :: "bytes option \<Rightarrow> bytes \<Rightarrow> bytes \<Rightarrow> nat \<Rightarrow> bytes"
  chacha_encrypt :: "bytes \<Rightarrow> bytes \<Rightarrow> bytes \<Rightarrow> bytes \<Rightarrow> bytes option"
  chacha_decrypt :: "bytes \<Rightarrow> bytes \<Rightarrow> bytes \<Rightarrow> bytes \<Rightarrow> bytes option"

definition derive_aead_key :: "pq_lib \<Rightarrow> bytes \<Rightarrow> bytes" where
  "derive_aead_key Q shared_secret = hkdf Q None shared_secret HYBRID_AEAD_INFO 32"

definition hybrid_seal_payload :: "pq_lib \<Rightarrow> bytes \<Rightarrow> bytes \<Rightarrow> bytes \<Rightarrow> bytes \<Rightarrow> mote_error + bytes" where
  "hybrid_seal_payload Q rnd recipient_pub aad plaintext =
     (if \<not> xwing_ek_ok Q recipient_pub then Inl BadKey
      else
        (let (ct, ss) = xwing_encapsulate Q recipient_pub rnd;
             key = derive_aead_key Q ss
         in case chacha_encrypt Q key HYBRID_AEAD_NONCE plaintext aad of
              None \<Rightarrow> Inl SealFailed
            | Some sealed \<Rightarrow> Inr (be_bytes 2 (unat (of_nat (length ct) :: u16)) @ ct @ sealed)))"

definition hybrid_open_payload :: "pq_lib \<Rightarrow> bytes \<Rightarrow> bytes \<Rightarrow> bytes \<Rightarrow> mote_error + bytes" where
  "hybrid_open_payload Q recipient_secret aad sealed =
     (if length sealed < 2 then Inl DecryptFailed
      else
        (let enc_len = from_be (take 2 sealed) in
         if enc_len \<noteq> XWING_CT_LEN \<or> length sealed < 2 + enc_len then Inl DecryptFailed
         else
           (let ct_bytes = take enc_len (drop 2 sealed); ct_body = drop (2 + enc_len) sealed in
            if length recipient_secret \<noteq> XWING_DK_LEN then Inl BadKey
            else if length ct_bytes \<noteq> XWING_CT_LEN then Inl DecryptFailed
            else
              (let key = derive_aead_key Q (xwing_decapsulate Q recipient_secret ct_bytes)
               in ok_or (chacha_decrypt Q key HYBRID_AEAD_NONCE ct_body aad) DecryptFailed))))"

definition hybrid_sealer :: "pq_lib \<Rightarrow> bytes \<Rightarrow> payload_seal" where
  "hybrid_sealer Q rnd = \<lparr>seal = hybrid_seal_payload Q rnd, open_sealed = hybrid_open_payload Q\<rparr>"

record hybrid_signing_key =
  hk_ed :: identity_key
  hk_mldsa :: bytes

definition hybrid_public :: "crypto \<Rightarrow> pq_lib \<Rightarrow> hybrid_signing_key \<Rightarrow> bytes" where
  "hybrid_public C Q k = key_public C (hk_ed k) @ mldsa_public Q (hk_mldsa k)"

definition hybrid_sign_domain :: "crypto \<Rightarrow> pq_lib \<Rightarrow> hybrid_signing_key \<Rightarrow> bytes \<Rightarrow> bytes \<Rightarrow> bytes" where
  "hybrid_sign_domain C Q k domain msg =
     sign_domain C (hk_ed k) domain msg @ mldsa_sign Q (hk_mldsa k) (domain @ msg)"

definition verify_mldsa65 :: "pq_lib \<Rightarrow> bytes \<Rightarrow> bytes \<Rightarrow> bytes \<Rightarrow> bytes \<Rightarrow> bool" where
  "verify_mldsa65 Q pk domain msg sg =
     (if length pk \<noteq> MLDSA65_PK_LEN then False
      else if \<not> (length sg = MLDSA65_SIG_LEN \<and> mldsa_sig_ok Q sg) then False
      else mldsa_verify Q pk (domain @ msg) sg)"

definition verify_hybrid_domain :: "crypto \<Rightarrow> pq_lib \<Rightarrow> bytes \<Rightarrow> bytes \<Rightarrow> bytes \<Rightarrow> bytes \<Rightarrow> hybrid_error + unit" where
  "verify_hybrid_domain C Q pk domain msg sg =
     (if length pk \<noteq> HYBRID_PK_LEN \<or> length sg \<noteq> HYBRID_SIG_LEN then Inl HybridSuiteIncomplete
      else
        (let ed_pk = take ED25519_PK_LEN pk; mldsa_pk = drop ED25519_PK_LEN pk;
             ed_sig = take ED25519_SIG_LEN sg; mldsa_sig = drop ED25519_SIG_LEN sg;
             ed_ok = \<not> isl (verify_domain C ed_pk domain msg ed_sig);
             mldsa_ok = verify_mldsa65 Q mldsa_pk domain msg mldsa_sig
         in if ed_ok \<and> mldsa_ok then Inr () else Inl HybridSuiteIncomplete))"

section \<open>Documented behaviour of the primitives\<close>

definition hpke_law :: "hpke_lib \<Rightarrow> bool" where
  "hpke_law H \<longleftrightarrow> (\<forall>sk info pt aad rnd encap ct. hpke_sk_ok H sk \<longrightarrow>
     hpke_seal H (hpke_public H sk) info pt aad rnd = Some (encap, ct) \<longrightarrow>
     length encap < 65536 \<and> hpke_enc_ok H encap \<and> hpke_open H sk encap info ct aad = Some pt)"

definition xwing_law :: "pq_lib \<Rightarrow> bool" where
  "xwing_law Q \<longleftrightarrow>
     (\<forall>dk rnd ct ss. length dk = XWING_DK_LEN \<longrightarrow> xwing_encapsulate Q (xwing_public Q dk) rnd = (ct, ss) \<longrightarrow>
        length ct = XWING_CT_LEN \<and> xwing_decapsulate Q dk ct = ss) \<and>
     (\<forall>key nonce pt aad ct. chacha_encrypt Q key nonce pt aad = Some ct \<longrightarrow> chacha_decrypt Q key nonce ct aad = Some pt)"

definition mldsa_law :: "pq_lib \<Rightarrow> bool" where
  "mldsa_law Q \<longleftrightarrow> (\<forall>k m. length (mldsa_public Q k) = MLDSA65_PK_LEN \<and> length (mldsa_sign Q k m) = MLDSA65_SIG_LEN \<and>
     mldsa_sig_ok Q (mldsa_sign Q k m) \<and> mldsa_verify Q (mldsa_public Q k) m (mldsa_sign Q k m))"

definition toy_hpke :: hpke_lib where
  "toy_hpke = \<lparr>hpke_pk_ok = (\<lambda>_. True), hpke_sk_ok = (\<lambda>_. True), hpke_enc_ok = (\<lambda>e. length e = 32), hpke_public = (\<lambda>sk. sk),
     hpke_seal = (\<lambda>pk info pt aad rnd. Some (toy_hash rnd, toy_hash (pk @ aad) @ pt)),
     hpke_open = (\<lambda>sk e info ct aad. if take 32 ct = toy_hash (sk @ aad) then Some (drop 32 ct) else None)\<rparr>"

definition pad_to :: "nat \<Rightarrow> bytes \<Rightarrow> bytes" where
  "pad_to n b = take n (b @ replicate n 0)"

definition toy_pq :: pq_lib where
  "toy_pq = \<lparr>mldsa_public = pad_to 1952, mldsa_sign = (\<lambda>k m. pad_to 3309 (pad_to 1952 k @ m)), mldsa_sig_ok = (\<lambda>_. True),
     mldsa_verify = (\<lambda>pk m sg. sg = pad_to 3309 (pk @ m)), xwing_public = pad_to 1216, xwing_ek_ok = (\<lambda>e. length e = 1216),
     xwing_encapsulate = (\<lambda>ek rnd. (pad_to 1120 ek, take 32 ek)), xwing_decapsulate = (\<lambda>dk ct. take 32 ct),
     hkdf = (\<lambda>salt ikm info n. pad_to n ikm),
     chacha_encrypt = (\<lambda>key nonce pt aad. Some (toy_hash (key @ aad) @ pt)),
     chacha_decrypt = (\<lambda>key nonce ct aad. if take 32 ct = toy_hash (key @ aad) then Some (drop 32 ct) else None)\<rparr>"

section \<open>Sealers open what they seal\<close>

lemma from_be_u16: "n < 65536 \<Longrightarrow> from_be (be_bytes 2 (unat (of_nat n :: u16))) = n"
  by (simp add: from_be_be_bytes unat_of_nat)

lemma framed [simp]:
  assumes "length e < 65536"
  shows "take 2 (be_bytes 2 (unat (of_nat (length e) :: u16)) @ e @ ct) = be_bytes 2 (unat (of_nat (length e) :: u16))"
    and "drop 2 (be_bytes 2 (unat (of_nat (length e) :: u16)) @ e @ ct) = e @ ct"
    and "drop (2 + length e) (be_bytes 2 (unat (of_nat (length e) :: u16)) @ e @ ct) = ct"
  by (simp_all del: be_bytes.simps)

lemma hpke_is_sealer:
  assumes "hpke_law H" and "hpke_sk_ok H sk"
  shows "seal_keypair (hpke_sealer H rnd) (hpke_public H sk) sk"
proof
  fix aad pt ct
  assume "seal (hpke_sealer H rnd) (hpke_public H sk) aad pt = Inr ct"
  then obtain e body where s: "hpke_seal H (hpke_public H sk) HPKE_INFO pt aad rnd = Some (e, body)"
    and ct: "ct = be_bytes 2 (unat (of_nat (length e) :: u16)) @ e @ body"
    by (auto simp: hpke_sealer_def hpke_seal_payload_def split: if_splits option.splits)
  have "length e < 65536" "hpke_enc_ok H e" "hpke_open H sk e HPKE_INFO body aad = Some pt"
    using assms s by (auto simp: hpke_law_def)
  then show "open_sealed (hpke_sealer H rnd) sk aad ct = Inr pt"
    using assms(2)
    by (simp add: hpke_sealer_def hpke_open_payload_def ct Let_def from_be_u16 del: be_bytes.simps)
qed

lemma hybrid_is_sealer:
  assumes "xwing_law Q" and "length dk = XWING_DK_LEN"
  shows "seal_keypair (hybrid_sealer Q rnd) (xwing_public Q dk) dk"
proof
  fix aad pt ct
  assume s: "seal (hybrid_sealer Q rnd) (xwing_public Q dk) aad pt = Inr ct"
  obtain e ss where e: "xwing_encapsulate Q (xwing_public Q dk) rnd = (e, ss)" by fastforce
  with s obtain body where c: "chacha_encrypt Q (derive_aead_key Q ss) HYBRID_AEAD_NONCE pt aad = Some body"
    and ct: "ct = be_bytes 2 (unat (of_nat (length e) :: u16)) @ e @ body"
    by (auto simp: hybrid_sealer_def hybrid_seal_payload_def Let_def split: if_splits option.splits)
  have l: "length e = XWING_CT_LEN" "xwing_decapsulate Q dk e = ss"
    "chacha_decrypt Q (derive_aead_key Q ss) HYBRID_AEAD_NONCE body aad = Some pt"
    using assms e c by (auto simp: xwing_law_def)
  then have "length e < 65536" by (simp add: XWING_CT_LEN_def)
  with l assms(2) show "open_sealed (hybrid_sealer Q rnd) dk aad ct = Inr pt"
    by (simp add: hybrid_sealer_def hybrid_open_payload_def ct Let_def from_be_u16 del: be_bytes.simps)
qed

lemma length_pad_to [simp]: "length (pad_to n b) = n"
  by (simp add: pad_to_def)

lemma toy_hpke_law: "hpke_law toy_hpke"
  by (auto simp: hpke_law_def toy_hpke_def)

lemma toy_pq_laws: "xwing_law toy_pq" "mldsa_law toy_pq"
proof -
  have "take 32 (pad_to 1120 (pad_to 1216 dk)) = take 32 (pad_to 1216 dk)" for dk
    by (simp add: pad_to_def [of 1120])
  then show "xwing_law toy_pq" by (auto simp: xwing_law_def toy_pq_def XWING_CT_LEN_def)
  show "mldsa_law toy_pq" by (simp add: mldsa_law_def toy_pq_def MLDSA65_PK_LEN_def MLDSA65_SIG_LEN_def)
qed

interpretation toy_hpke_keys: seal_keypair "hpke_sealer toy_hpke rnd" "hpke_public toy_hpke sk" sk for rnd sk
  by (rule hpke_is_sealer [OF toy_hpke_law]) (simp add: toy_hpke_def)

section \<open>Hybrid signatures\<close>

lemma verify_hybrid_domain_iff:
  "verify_hybrid_domain C Q pk domain msg sg = Inr () \<longleftrightarrow>
     (\<exists>ed_pk mldsa_pk ed_sig mldsa_sig. pk = ed_pk @ mldsa_pk \<and> sg = ed_sig @ mldsa_sig \<and>
        verify_domain C ed_pk domain msg ed_sig = Inr () \<and> verify_mldsa65 Q mldsa_pk domain msg mldsa_sig)"
proof
  assume v: "verify_hybrid_domain C Q pk domain msg sg = Inr ()"
  have "\<not> isl r \<longleftrightarrow> r = Inr ()" for r :: "identity_error + unit" by (cases r) simp_all
  with v have "verify_domain C (take ED25519_PK_LEN pk) domain msg (take ED25519_SIG_LEN sg) = Inr ()"
    "verify_mldsa65 Q (drop ED25519_PK_LEN pk) domain msg (drop ED25519_SIG_LEN sg)"
    by (auto simp: verify_hybrid_domain_def Let_def split: if_splits)
  then show "\<exists>ed_pk mldsa_pk ed_sig mldsa_sig. pk = ed_pk @ mldsa_pk \<and> sg = ed_sig @ mldsa_sig \<and>
      verify_domain C ed_pk domain msg ed_sig = Inr () \<and> verify_mldsa65 Q mldsa_pk domain msg mldsa_sig"
    by (metis append_take_drop_id)
next
  assume "\<exists>ed_pk mldsa_pk ed_sig mldsa_sig. pk = ed_pk @ mldsa_pk \<and> sg = ed_sig @ mldsa_sig \<and>
      verify_domain C ed_pk domain msg ed_sig = Inr () \<and> verify_mldsa65 Q mldsa_pk domain msg mldsa_sig"
  then obtain ed_pk mldsa_pk ed_sig mldsa_sig where *: "pk = ed_pk @ mldsa_pk" "sg = ed_sig @ mldsa_sig"
    "verify_domain C ed_pk domain msg ed_sig = Inr ()" "verify_mldsa65 Q mldsa_pk domain msg mldsa_sig" by blast
  have "length ed_pk = ED25519_PK_LEN" "length ed_sig = ED25519_SIG_LEN"
    using *(3) by (auto simp: verify_domain_Inr_iff ED25519_PK_LEN_def ED25519_SIG_LEN_def)
  moreover have "length mldsa_pk = MLDSA65_PK_LEN" "length mldsa_sig = MLDSA65_SIG_LEN"
    using *(4) by (auto simp: verify_mldsa65_def split: if_splits)
  ultimately show "verify_hybrid_domain C Q pk domain msg sg = Inr ()"
    using * by (simp add: verify_hybrid_domain_def HYBRID_PK_LEN_def HYBRID_SIG_LEN_def Let_def)
qed

lemma verify_hybrid_sign:
  assumes "ed25519_law C" "mldsa_law Q" "length (hk_ed k) = 32"
  shows "verify_hybrid_domain C Q (hybrid_public C Q k) domain msg (hybrid_sign_domain C Q k domain msg) = Inr ()"
proof -
  have "verify_mldsa65 Q (mldsa_public Q (hk_mldsa k)) domain msg (mldsa_sign Q (hk_mldsa k) (domain @ msg))"
    using assms(2) by (simp add: verify_mldsa65_def mldsa_law_def)
  with verify_sign_domain [OF assms(1,3)] show ?thesis
    unfolding verify_hybrid_domain_iff hybrid_public_def hybrid_sign_domain_def by blast
qed

end
