(* ===== verification/Mote.thy ===== *)
theory Mote
  imports Mote_Wire Pq
begin

text \<open>
  Building and validating motes (\<open>kotva-core/src/mote.rs\<close>): the signing preimages, \<open>build_mote\<close>,
  \<open>build_mote_hybrid\<close>, the ordered recipient checks of \<open>validate\<close> and the pinned variant with the suite
  ratchet.  The ratchet of \<open>validate_pinned\<close> is passed in and returned.
\<close>

definition MOTE_VERSION :: u8 where
  "MOTE_VERSION = 0"

definition PAYLOAD_SIG_DS :: bytes where
  "PAYLOAD_SIG_DS = ds_tag ''DMTAP-v0/payload''"

definition ENVELOPE_SENDER_DS :: bytes where
  "ENVELOPE_SENDER_DS = ds_tag ''DMTAP-v0/envelope-sender''"

definition u64_be :: "u64 \<Rightarrow> bytes" where
  "u64_be n = be_bytes 8 (unat n)"

definition blinded_tag :: "pq_lib \<Rightarrow> bytes \<Rightarrow> u64 \<Rightarrow> bytes" where
  "blinded_tag Q shared_secret epoch_day =
     hkdf Q (Some (u64_be epoch_day)) shared_secret (as_bytes_of ''dmtap-blinded-tag-v0'') 16"

datatype validate_error = VMote mote_error | VSuite suite_ratchet_error

definition validate_error_code :: "validate_error \<Rightarrow> u16 option" where
  "validate_error_code e =
     (case e of VSuite s \<Rightarrow> Some (suite_ratchet_error_code s) | VMote m \<Rightarrow> mote_error_code m)"

record mote_draft =
  dr_kind :: kind
  dr_ts :: u64
  dr_headers :: headers
  dr_body :: bytes
  dr_refs :: "content_id list"
  dr_attach :: "attachment list"
  dr_expires :: "u64 option"
  dr_epoch :: "bytes option"
  dr_keypkg :: "key_package_ref option"
  dr_challenge :: "challenge_response option"

definition draft_new :: "kind \<Rightarrow> u64 \<Rightarrow> bytes \<Rightarrow> mote_draft" where
  "draft_new k ts body =
     \<lparr>dr_kind = k, dr_ts = ts, dr_headers = headers_default, dr_body = body, dr_refs = [], dr_attach = [],
      dr_expires = None, dr_epoch = None, dr_keypkg = None, dr_challenge = None\<rparr>"

section \<open>Preimages\<close>

definition aad_bytes :: "suite \<Rightarrow> kind \<Rightarrow> u64 \<Rightarrow> bytes \<Rightarrow> bytes" where
  "aad_bytes suite k ts to_cbor = suite_as_u8 suite # kind_as_u8 k # u64_be ts @ to_cbor"

definition sender_authed_bytes :: "envelope \<Rightarrow> bytes" where
  "sender_authed_bytes env =
     cid_bytes (env_id env) @ tag_det_cbor (env_to env) @ u64_be (env_ts env) @ [kind_as_u8 (env_kind env)]
     @ (case env_challenge env of Some c \<Rightarrow> challenge_det_cbor c | None \<Rightarrow> [0xF6])"

definition payload_preimage :: "payload \<Rightarrow> kind \<Rightarrow> u64 \<Rightarrow> bytes \<Rightarrow> bytes" where
  "payload_preimage p k ts to_cbor = payload_signing_body p @ [kind_as_u8 k] @ u64_be ts @ to_cbor"

definition payload_hash :: "crypto \<Rightarrow> payload \<Rightarrow> kind \<Rightarrow> u64 \<Rightarrow> bytes \<Rightarrow> bytes" where
  "payload_hash C p k ts to_cbor = blake3 C (payload_preimage p k ts to_cbor)"

definition payload_hash_unbound :: "crypto \<Rightarrow> payload \<Rightarrow> bytes" where
  "payload_hash_unbound C p = blake3 C (payload_signing_body p)"

definition signing_hash :: "crypto \<Rightarrow> payload \<Rightarrow> kind \<Rightarrow> u64 \<Rightarrow> delivery_tag \<Rightarrow> bytes" where
  "signing_hash C p k ts to = payload_hash C p k ts (tag_det_cbor to)"

definition verify_sig_for_suite :: "crypto \<Rightarrow> pq_lib \<Rightarrow> suite \<Rightarrow> bytes \<Rightarrow> bytes \<Rightarrow> bytes \<Rightarrow> bytes \<Rightarrow> mote_error + unit" where
  "verify_sig_for_suite C Q suite pk domain msg sg =
     (case suite of
        Classical \<Rightarrow> map_err (\<lambda>_. MBadSignature) (verify_domain C pk domain msg sg)
      | PqHybrid \<Rightarrow> map_err (\<lambda>_. MBadSignature) (verify_hybrid_domain C Q pk domain msg sg)
      | ReservedAeadGcm \<Rightarrow> Inl (MUnsupportedSuite (suite_as_u8 suite))
      | ReservedAnchorSlhDsa \<Rightarrow> Inl (MUnsupportedSuite (suite_as_u8 suite))
      | ReservedHashSha3 \<Rightarrow> Inl (MUnsupportedSuite (suite_as_u8 suite)))"

section \<open>Building\<close>

definition build_mote :: "crypto \<Rightarrow> payload_seal \<Rightarrow> identity_key \<Rightarrow> identity_key \<Rightarrow> bytes \<Rightarrow> bytes \<Rightarrow> mote_draft \<Rightarrow>
    mote_error + envelope" where
  "build_mote C S sender_ik ephemeral recipient_ik recipient_seal_pub d =
     (let suite = Classical; to = KeyTag recipient_ik; to_cbor = tag_det_cbor to in
      and_then (try_for_each check_delivery_tier (dr_attach d)) (\<lambda>_.
        let p0 = \<lparr>pl_from = key_public C sender_ik, pl_sig = [], pl_headers = dr_headers d, pl_body = dr_body d,
                   pl_refs = dr_refs d, pl_attach = dr_attach d, pl_expires = dr_expires d\<rparr>;
            ph = payload_hash C p0 (dr_kind d) (dr_ts d) to_cbor;
            p = p0\<lparr>pl_sig := sign_domain C sender_ik PAYLOAD_SIG_DS ph\<rparr>;
            pt = payload_det_cbor p;
            aad = aad_bytes suite (dr_kind d) (dr_ts d) to_cbor
        in and_then (seal S recipient_seal_pub aad pt) (\<lambda>ciphertext.
             let env = \<lparr>env_v = MOTE_VERSION, env_suite = suite, env_id = content_id_of C ciphertext, env_to = to,
                         env_epoch = dr_epoch d, env_ts = dr_ts d, env_kind = dr_kind d, env_keypkg = dr_keypkg d,
                         env_challenge = dr_challenge d, env_ciphertext = ciphertext, env_sender_sig = None,
                         env_sender_eph = Some (key_public C ephemeral)\<rparr>
             in Inr (env\<lparr>env_sender_sig := Some (sign_domain C ephemeral ENVELOPE_SENDER_DS (sender_authed_bytes env))\<rparr>))))"

definition build_mote_hybrid :: "crypto \<Rightarrow> pq_lib \<Rightarrow> payload_seal \<Rightarrow> hybrid_signing_key \<Rightarrow> hybrid_signing_key \<Rightarrow> bytes \<Rightarrow>
    bytes \<Rightarrow> mote_draft \<Rightarrow> mote_error + envelope" where
  "build_mote_hybrid C Q S sender_hybrid ephemeral_hybrid recipient_ik recipient_seal_pub d =
     (let suite = PqHybrid; to = KeyTag recipient_ik; to_cbor = tag_det_cbor to in
      and_then (try_for_each check_delivery_tier (dr_attach d)) (\<lambda>_.
        let p0 = \<lparr>pl_from = hybrid_public C Q sender_hybrid, pl_sig = [], pl_headers = dr_headers d, pl_body = dr_body d,
                   pl_refs = dr_refs d, pl_attach = dr_attach d, pl_expires = dr_expires d\<rparr>;
            ph = payload_hash C p0 (dr_kind d) (dr_ts d) to_cbor;
            p = p0\<lparr>pl_sig := hybrid_sign_domain C Q sender_hybrid PAYLOAD_SIG_DS ph\<rparr>;
            pt = payload_det_cbor p;
            aad = aad_bytes suite (dr_kind d) (dr_ts d) to_cbor
        in and_then (seal S recipient_seal_pub aad pt) (\<lambda>ciphertext.
             let env = \<lparr>env_v = MOTE_VERSION, env_suite = suite, env_id = content_id_of C ciphertext, env_to = to,
                         env_epoch = dr_epoch d, env_ts = dr_ts d, env_kind = dr_kind d, env_keypkg = dr_keypkg d,
                         env_challenge = dr_challenge d, env_ciphertext = ciphertext, env_sender_sig = None,
                         env_sender_eph = Some (hybrid_public C Q ephemeral_hybrid)\<rparr>
             in Inr (env\<lparr>env_sender_sig :=
                   Some (hybrid_sign_domain C Q ephemeral_hybrid ENVELOPE_SENDER_DS (sender_authed_bytes env))\<rparr>))))"

section \<open>Validating\<close>

record recipient_ctx =
  our_ik :: bytes
  seal_secret :: bytes
  sender_is_known :: bool

datatype outcome = Accepted payload | Deferred

text \<open>Steps 7 and 8: decrypt, decode, and check the payload against the envelope.\<close>

definition open_payload :: "crypto \<Rightarrow> pq_lib \<Rightarrow> payload_seal \<Rightarrow> envelope \<Rightarrow> recipient_ctx \<Rightarrow> mote_error + outcome" where
  "open_payload C Q S env ctx =
     (let to_cbor = tag_det_cbor (env_to env);
          aad = aad_bytes (env_suite env) (env_kind env) (env_ts env) to_cbor in
      and_then (open_sealed S (seal_secret ctx) aad (env_ciphertext env)) (\<lambda>pt.
      and_then (map_err MBadEncoding (payload_from_det_cbor pt)) (\<lambda>p.
        let ph = payload_hash C p (env_kind env) (env_ts env) to_cbor in
        if isl (verify_sig_for_suite C Q (env_suite env) (pl_from p) PAYLOAD_SIG_DS ph (pl_sig p)) then
          (if \<not> isl (verify_sig_for_suite C Q (env_suite env) (pl_from p) PAYLOAD_SIG_DS (payload_hash_unbound C p) (pl_sig p))
           then Inl EnvelopeContextMismatch else Inl MBadSignature)
        else
          (case env_challenge env of
             Some (Vouch v) \<Rightarrow> if pl_from p \<noteq> vch_subject v then Inl VouchSubjectMismatch else Inr (Accepted p)
           | _ \<Rightarrow> Inr (Accepted p)))))"

definition validate :: "crypto \<Rightarrow> pq_lib \<Rightarrow> payload_seal \<Rightarrow> envelope \<Rightarrow> recipient_ctx \<Rightarrow> mote_error + outcome" where
  "validate C Q S env ctx =
     (if env_v env \<noteq> MOTE_VERSION then Inl (UnknownVersion (env_v env))
      else if \<not> mote_supported (env_suite env) then Inl (MUnsupportedSuite (suite_as_u8 (env_suite env)))
      else if \<not> cid_verify C (env_id env) (env_ciphertext env) then Inl BadContentAddress
      else
        and_then (ok_or (env_sender_sig env) MBadSignature) (\<lambda>sg.
        and_then (ok_or (env_sender_eph env) MissingSenderKey) (\<lambda>eph.
        and_then (verify_sig_for_suite C Q (env_suite env) eph ENVELOPE_SENDER_DS (sender_authed_bytes env) sg) (\<lambda>_.
          if \<not> resolves_to_key (env_to env) (our_ik ctx) then Inl NotForUs
          else if \<not> sender_is_known ctx \<and> env_challenge env = None then Inr Deferred
          else open_payload C Q S env ctx))))"

definition validate_pinned :: "crypto \<Rightarrow> pq_lib \<Rightarrow> payload_seal \<Rightarrow> envelope \<Rightarrow> recipient_ctx \<Rightarrow> suite_ratchet option \<Rightarrow>
    (validate_error + outcome) \<times> suite_ratchet option" where
  "validate_pinned C Q S env ctx ratchet =
     (case validate C Q S env ctx of
        Inl e \<Rightarrow> (Inl (VMote e), ratchet)
      | Inr outcome \<Rightarrow>
          (case (outcome, ratchet) of
             (Accepted p, Some r) \<Rightarrow>
               (case ratchet_accept r (pl_from p) (env_suite env) of
                  Inl e \<Rightarrow> (Inl (VSuite e), ratchet)
                | Inr r' \<Rightarrow> (Inr outcome, Some r'))
           | _ \<Rightarrow> (Inr outcome, ratchet)))"

section \<open>What the preimages determine\<close>

lemma encode_prefix_free:
  assumes "canon a" "fits_depth 0 a" "canon b" "fits_depth 0 b" "encode a @ x = encode b @ y"
  shows "a = b \<and> x = y"
proof -
  have "Inr (a, x) = cbor_value 0 (enc a @ x)" by (rule cbor_value_enc [OF assms(1,2), symmetric])
  also have "\<dots> = cbor_value 0 (enc b @ y)" using assms(5) by (simp only: encode_def)
  also have "\<dots> = Inr (b, y)" by (rule cbor_value_enc [OF assms(3,4)])
  finally show ?thesis by simp
qed

lemma u64_be_inject [simp]: "u64_be a = u64_be b \<longleftrightarrow> a = b"
proof
  assume "u64_be a = u64_be b"
  then have "from_be (u64_be a) = from_be (u64_be b)" by simp
  then show "a = b" by (simp add: u64_be_def from_be_be_bytes word_unat_eq_iff)
qed simp

lemma length_u64_be [simp]: "length (u64_be n) = 8"
  by (simp add: u64_be_def)

lemma payload_body_eq:
  assumes "wf_payload p" "wf_payload q" "payload_to_cv False p = payload_to_cv False q"
  shows "p\<lparr>pl_sig := []\<rparr> = q\<lparr>pl_sig := []\<rparr>"
proof (rule payload.to_cv_inj)
  show "wf_payload (p\<lparr>pl_sig := []\<rparr>)" "wf_payload (q\<lparr>pl_sig := []\<rparr>)"
    using assms(1,2) by (simp_all add: wf_payload_def)
  show "payload_to_cv True (p\<lparr>pl_sig := []\<rparr>) = payload_to_cv True (q\<lparr>pl_sig := []\<rparr>)"
    using assms(3) by (simp add: payload_to_cv_def)
qed

interpretation tag0: wire_object tag_to_cv tag_from_cv "\<lambda>t. short (value_bytes t)"
  by (simp add: wire_object_def tag_codec MAX_NESTING_DEPTH_def)

interpretation challenge0: wire_object challenge_to_cv challenge_from_cv wf_challenge
  by (simp add: wire_object_def challenge_codec MAX_NESTING_DEPTH_def)

lemma tag_det_cbor_append:
  assumes "short (value_bytes t)" "short (value_bytes t')" "tag_det_cbor t @ x = tag_det_cbor t' @ y"
  shows "t = t' \<and> x = y"
  using encode_prefix_free [OF tag0.canon_to_cv tag0.fits_to_cv tag0.canon_to_cv tag0.fits_to_cv, of t t' x y]
    tag0.to_cv_inj assms by (auto simp: tag_det_cbor_def)

lemma payload_preimage_inj:
  assumes "wf_payload p" "wf_payload q" "short (value_bytes to)" "short (value_bytes to')"
    and "payload_preimage p k ts (tag_det_cbor to) = payload_preimage q k' ts' (tag_det_cbor to')"
  shows "p\<lparr>pl_sig := []\<rparr> = q\<lparr>pl_sig := []\<rparr> \<and> k = k' \<and> ts = ts' \<and> to = to'"
proof -
  have "payload_to_cv False p = payload_to_cv False q \<and>
      [kind_as_u8 k] @ u64_be ts @ tag_det_cbor to = [kind_as_u8 k'] @ u64_be ts' @ tag_det_cbor to'"
    using assms(5) by (intro encode_prefix_free payload_written assms(1,2))
      (simp add: payload_preimage_def payload_signing_body_def)
  then show ?thesis
    using payload_body_eq [OF assms(1,2)] tag_det_cbor_append [OF assms(3,4), of "[]" "[]"] by auto
qed

lemma challenge_not_null:
  assumes "wf_challenge c"
  shows "challenge_det_cbor c \<noteq> [0xF6]"
proof
  assume "challenge_det_cbor c = [0xF6]"
  then have "decode [0xF6] = Inr (challenge_to_cv c)"
    using decode_iff_canonical challenge0.canon_to_cv [OF assms] challenge0.fits_to_cv [OF assms]
    by (metis challenge_det_cbor_def)
  moreover have "decode [0xF6] = Inl NullPresent"
    by (simp add: decode_def cbor_value.simps simple_def)
  ultimately show False by simp
qed

definition challenge_bytes :: "challenge_response option \<Rightarrow> bytes" where
  "challenge_bytes c = (case c of Some x \<Rightarrow> challenge_det_cbor x | None \<Rightarrow> [0xF6])"

lemma challenge_bytes_inj:
  assumes "pred_option wf_challenge c" "pred_option wf_challenge c'" "challenge_bytes c = challenge_bytes c'"
  shows "c = c'"
  using assms challenge_not_null challenge0.det_cbor_inj
  by (cases c; cases c') (auto simp: challenge_bytes_def challenge_det_cbor_def)

lemma sender_authed_inj:
  assumes "wf_env e" "wf_env e'" "length (cid_bytes (env_id e)) = length (cid_bytes (env_id e'))"
    and "sender_authed_bytes e = sender_authed_bytes e'"
  shows "env_id e = env_id e' \<and> env_to e = env_to e' \<and> env_ts e = env_ts e' \<and> env_kind e = env_kind e' \<and>
    env_challenge e = env_challenge e'"
proof -
  have eq: "cid_bytes (env_id e) @ tag_det_cbor (env_to e) @ u64_be (env_ts e) @ [kind_as_u8 (env_kind e)] @ challenge_bytes (env_challenge e) =
      cid_bytes (env_id e') @ tag_det_cbor (env_to e') @ u64_be (env_ts e') @ [kind_as_u8 (env_kind e')] @ challenge_bytes (env_challenge e')"
    using assms(4) by (simp add: sender_authed_bytes_def challenge_bytes_def)
  then have "env_id e = env_id e'"
    using assms(3) by (simp add: content_id.expand)
  moreover from eq have "env_to e = env_to e' \<and> u64_be (env_ts e) @ [kind_as_u8 (env_kind e)] @ challenge_bytes (env_challenge e) =
      u64_be (env_ts e') @ [kind_as_u8 (env_kind e')] @ challenge_bytes (env_challenge e')"
    using assms by (intro tag_det_cbor_append) (auto simp: wf_env_def)
  moreover from this have "env_ts e = env_ts e'" "env_kind e = env_kind e'" "challenge_bytes (env_challenge e) = challenge_bytes (env_challenge e')"
    by simp_all
  ultimately show ?thesis
    using assms(1,2) challenge_bytes_inj by (auto simp: wf_env_def)
qed

section \<open>What validation checks\<close>

text \<open>The gates that precede decryption.\<close>

definition gates_ok :: "crypto \<Rightarrow> pq_lib \<Rightarrow> envelope \<Rightarrow> recipient_ctx \<Rightarrow> bool" where
  "gates_ok C Q env ctx \<longleftrightarrow> env_v env = 0 \<and> mote_supported (env_suite env) \<and>
     cid_verify C (env_id env) (env_ciphertext env) \<and>
     (\<exists>sg eph. env_sender_sig env = Some sg \<and> env_sender_eph env = Some eph \<and>
        verify_sig_for_suite C Q (env_suite env) eph ENVELOPE_SENDER_DS (sender_authed_bytes env) sg = Inr ()) \<and>
     resolves_to_key (env_to env) (our_ik ctx)"

definition abuse_cleared :: "envelope \<Rightarrow> recipient_ctx \<Rightarrow> bool" where
  "abuse_cleared env ctx \<longleftrightarrow> sender_is_known ctx \<or> (\<exists>c. env_challenge env = Some c)"

lemma validate_gates:
  "gates_ok C Q env ctx \<Longrightarrow> validate C Q S env ctx =
     (if abuse_cleared env ctx then open_payload C Q S env ctx else Inr Deferred)"
  by (auto simp: gates_ok_def validate_def MOTE_VERSION_def abuse_cleared_def)

lemma validate_rejects:
  assumes "\<not> gates_ok C Q env ctx"
  shows "\<exists>e. \<forall>S. validate C Q S env ctx = Inl e"
proof -
  have "r = Inr ()" if "\<not> isl r" for r :: "mote_error + unit" using that by (cases r) simp_all
  then show ?thesis
    using assms unfolding gates_ok_def validate_def MOTE_VERSION_def
    by (cases "env_sender_sig env"; cases "env_sender_eph env";
        cases "verify_sig_for_suite C Q (env_suite env) (the (env_sender_eph env)) ENVELOPE_SENDER_DS
          (sender_authed_bytes env) (the (env_sender_sig env))") auto
qed

lemma vouch_check:
  "(case c of
      Some (Vouch v) \<Rightarrow> if pl_from p \<noteq> vch_subject v then Inl VouchSubjectMismatch else Inr (Accepted p)
    | _ \<Rightarrow> Inr (Accepted p)) =
   (if \<exists>v. c = Some (Vouch v) \<and> pl_from p \<noteq> vch_subject v then Inl VouchSubjectMismatch else Inr (Accepted p))"
  by (cases c) (auto split: challenge_response.split)

lemma open_payload_iff:
  "open_payload C Q S env ctx = Inr r \<longleftrightarrow>
     (\<exists>pt p. r = Accepted p \<and>
        open_sealed S (seal_secret ctx) (aad_bytes (env_suite env) (env_kind env) (env_ts env) (tag_det_cbor (env_to env)))
          (env_ciphertext env) = Inr pt \<and>
        payload_from_det_cbor pt = Inr p \<and>
        verify_sig_for_suite C Q (env_suite env) (pl_from p) PAYLOAD_SIG_DS
          (signing_hash C p (env_kind env) (env_ts env) (env_to env)) (pl_sig p) = Inr () \<and>
        (\<forall>v. env_challenge env = Some (Vouch v) \<longrightarrow> pl_from p = vch_subject v))"
proof -
  have "isl r \<longleftrightarrow> r \<noteq> Inr ()" for r :: "mote_error + unit" by (cases r) simp_all
  then show ?thesis
    by (simp only: open_payload_def Let_def signing_hash_def vouch_check) (auto split: if_splits)
qed

lemma validate_Accepted_iff:
  "validate C Q S env ctx = Inr (Accepted p) \<longleftrightarrow>
     gates_ok C Q env ctx \<and> abuse_cleared env ctx \<and>
     (\<exists>pt. open_sealed S (seal_secret ctx) (aad_bytes (env_suite env) (env_kind env) (env_ts env) (tag_det_cbor (env_to env)))
          (env_ciphertext env) = Inr pt \<and> payload_from_det_cbor pt = Inr p) \<and>
     verify_sig_for_suite C Q (env_suite env) (pl_from p) PAYLOAD_SIG_DS
       (signing_hash C p (env_kind env) (env_ts env) (env_to env)) (pl_sig p) = Inr () \<and>
     (\<nexists>v. env_challenge env = Some (Vouch v) \<and> pl_from p \<noteq> vch_subject v)"
proof (cases "gates_ok C Q env ctx")
  case True
  then show ?thesis by (auto simp: validate_gates open_payload_iff)
next
  case False
  then show ?thesis using validate_rejects [OF False] by auto
qed

section \<open>Built motes\<close>

definition wf_draft :: "mote_draft \<Rightarrow> bool" where
  "wf_draft d \<longleftrightarrow> wf_hdr (dr_headers d) \<and> short (dr_body d) \<and> short (dr_refs d) \<and>
     (\<forall>i \<in> set (dr_refs d). short (cid_bytes i)) \<and> short (dr_attach d) \<and> (\<forall>a \<in> set (dr_attach d). wf_att a)"

text \<open>The payload a draft becomes, and what the recipient must see of it.\<close>

definition draft_payload :: "bytes \<Rightarrow> bytes \<Rightarrow> mote_draft \<Rightarrow> payload" where
  "draft_payload frm sg d = \<lparr>pl_from = frm, pl_sig = sg, pl_headers = dr_headers d, pl_body = dr_body d,
     pl_refs = dr_refs d, pl_attach = dr_attach d, pl_expires = dr_expires d\<rparr>"

definition draft_fits :: "mote_draft \<Rightarrow> bytes \<Rightarrow> recipient_ctx \<Rightarrow> bool" where
  "draft_fits d frm ctx \<longleftrightarrow> wf_draft d \<and> (sender_is_known ctx \<or> dr_challenge d \<noteq> None) \<and>
     (\<forall>v. dr_challenge d = Some (Vouch v) \<longrightarrow> vch_subject v = frm)"

lemma signing_body_sig [simp]: "payload_signing_body (p\<lparr>pl_sig := s\<rparr>) = payload_signing_body p"
  by (simp add: payload_signing_body_def payload_to_cv_def)

lemma sender_authed_sig [simp]: "sender_authed_bytes (e\<lparr>env_sender_sig := s\<rparr>) = sender_authed_bytes e"
  by (simp add: sender_authed_bytes_def)

definition sealed_env :: "crypto \<Rightarrow> suite \<Rightarrow> bytes \<Rightarrow> bytes \<Rightarrow> bytes \<Rightarrow> mote_draft \<Rightarrow> bytes option \<Rightarrow> envelope" where
  "sealed_env C suite rik eph ct d sg = \<lparr>env_v = MOTE_VERSION, env_suite = suite, env_id = content_id_of C ct,
     env_to = KeyTag rik, env_epoch = dr_epoch d, env_ts = dr_ts d, env_kind = dr_kind d, env_keypkg = dr_keypkg d,
     env_challenge = dr_challenge d, env_ciphertext = ct, env_sender_sig = sg, env_sender_eph = Some eph\<rparr>"

definition draft_hash :: "crypto \<Rightarrow> bytes \<Rightarrow> bytes \<Rightarrow> mote_draft \<Rightarrow> bytes" where
  "draft_hash C frm rik d = payload_hash C (draft_payload frm [] d) (dr_kind d) (dr_ts d) (tag_det_cbor (KeyTag rik))"

definition draft_aad :: "suite \<Rightarrow> bytes \<Rightarrow> mote_draft \<Rightarrow> bytes" where
  "draft_aad suite rik d = aad_bytes suite (dr_kind d) (dr_ts d) (tag_det_cbor (KeyTag rik))"

lemma sealed_authed [simp]: "sender_authed_bytes (sealed_env C suite rik eph ct d (Some sg)) = sender_authed_bytes (sealed_env C suite rik eph ct d None)"
  by (simp add: sealed_env_def sender_authed_bytes_def)

lemma build_mote_Inr:
  assumes "build_mote C S ik ek rik pub d = Inr env"
  obtains ct where "seal S pub (draft_aad Classical rik d) (payload_det_cbor (draft_payload (key_public C ik)
      (sign_domain C ik PAYLOAD_SIG_DS (draft_hash C (key_public C ik) rik d)) d)) = Inr ct"
    "env = sealed_env C Classical rik (key_public C ek) ct d (Some (sign_domain C ek ENVELOPE_SENDER_DS
      (sender_authed_bytes (sealed_env C Classical rik (key_public C ek) ct d None))))"
  using assms by (auto simp: build_mote_def Let_def draft_payload_def sealed_env_def draft_hash_def draft_aad_def)

lemma build_mote_hybrid_Inr:
  assumes "build_mote_hybrid C Q S ik ek rik pub d = Inr env"
  obtains ct where "seal S pub (draft_aad PqHybrid rik d) (payload_det_cbor (draft_payload (hybrid_public C Q ik)
      (hybrid_sign_domain C Q ik PAYLOAD_SIG_DS (draft_hash C (hybrid_public C Q ik) rik d)) d)) = Inr ct"
    "env = sealed_env C PqHybrid rik (hybrid_public C Q ek) ct d (Some (hybrid_sign_domain C Q ek ENVELOPE_SENDER_DS
      (sender_authed_bytes (sealed_env C PqHybrid rik (hybrid_public C Q ek) ct d None))))"
  using assms by (auto simp: build_mote_hybrid_def Let_def draft_payload_def sealed_env_def draft_hash_def draft_aad_def)

lemma build_mote_hybrid_total:
  assumes "dr_attach d = []" "\<And>aad pt. \<exists>ct. seal S pub aad pt = Inr ct"
  shows "\<exists>env. build_mote_hybrid C Q S k k' rik pub d = Inr env"
  using assms(2) by (simp add: build_mote_hybrid_def Let_def assms(1))

lemma draft_new_attach: "dr_attach (draft_new k ts b) = []"
  by (simp add: draft_new_def)

lemma sealed_mote_validates:
  assumes keys: "seal_keypair S pub (seal_secret ctx)" and "blake3_law C"
    and fits: "draft_fits d frm ctx" and "short frm" "short sg" "mote_supported suite"
    and sg: "verify_sig_for_suite C Q suite frm PAYLOAD_SIG_DS (draft_hash C frm (our_ik ctx) d) sg = Inr ()"
    and ct: "seal S pub (draft_aad suite (our_ik ctx) d) (payload_det_cbor (draft_payload frm sg d)) = Inr ct"
    and env: "env = sealed_env C suite (our_ik ctx) eph ct d (Some esig)"
    and "verify_sig_for_suite C Q suite eph ENVELOPE_SENDER_DS (sender_authed_bytes env) esig = Inr ()"
  shows "validate C Q S env ctx = Inr (Accepted (draft_payload frm sg d))"
proof -
  let ?p = "draft_payload frm sg d"
  have f: "env_v env = 0" "env_suite env = suite" "env_id env = content_id_of C ct" "env_to env = KeyTag (our_ik ctx)"
    "env_ts env = dr_ts d" "env_kind env = dr_kind d" "env_challenge env = dr_challenge d" "env_ciphertext env = ct"
    "env_sender_sig env = Some esig" "env_sender_eph env = Some eph"
    by (simp_all add: env sealed_env_def MOTE_VERSION_def)
  have "cid_verify C (env_id env) ct" using content_id_binds [OF assms(2)] by (simp add: f)
  then have gates: "gates_ok C Q env ctx" using assms(6,10) by (simp add: f gates_ok_def resolves_to_key_def)
  have "wf_payload ?p" using fits assms(4,5) by (simp add: draft_fits_def wf_draft_def wf_payload_def draft_payload_def)
  then have dec: "payload_from_det_cbor (payload_det_cbor ?p) = Inr ?p" by (simp add: payload_from_det_cbor_iff)
  have "?p = (draft_payload frm [] d)\<lparr>pl_sig := sg\<rparr>" by (simp add: draft_payload_def)
  then have hash: "signing_hash C ?p (env_kind env) (env_ts env) (env_to env) = draft_hash C frm (our_ik ctx) d"
    by (simp add: signing_hash_def payload_hash_def payload_preimage_def draft_hash_def f)
  have "open_payload C Q S env ctx = Inr (Accepted ?p)"
    unfolding open_payload_iff
  proof (intro exI conjI)
    show "open_sealed S (seal_secret ctx) (aad_bytes (env_suite env) (env_kind env) (env_ts env) (tag_det_cbor (env_to env)))
        (env_ciphertext env) = Inr (payload_det_cbor ?p)"
      using seal_keypair.open_seal [OF keys ct] by (simp add: f draft_aad_def)
    show "verify_sig_for_suite C Q (env_suite env) (pl_from ?p) PAYLOAD_SIG_DS
        (signing_hash C ?p (env_kind env) (env_ts env) (env_to env)) (pl_sig ?p) = Inr ()"
      unfolding hash using sg by (simp add: f draft_payload_def)
    show "\<forall>v. env_challenge env = Some (Vouch v) \<longrightarrow> pl_from ?p = vch_subject v"
      using fits by (simp add: f draft_fits_def draft_payload_def)
  qed (simp_all add: dec)
  with validate_gates [OF gates] show ?thesis using fits by (auto simp: draft_fits_def f abuse_cleared_def)
qed

lemma build_mote_accepted:
  assumes "ed25519_law C" "blake3_law C" "hpke_law H" "hpke_sk_ok H (seal_secret ctx)"
    and "length sender_ik = 32" "length ephemeral = 32" "draft_fits d (key_public C sender_ik) ctx"
    and build: "build_mote C (hpke_sealer H rnd) sender_ik ephemeral (our_ik ctx) (hpke_public H (seal_secret ctx)) d = Inr env"
  shows "\<exists>sg. validate C Q (hpke_sealer H rnd) env ctx = Inr (Accepted (draft_payload (key_public C sender_ik) sg d))"
  using build
proof (rule build_mote_Inr)
  fix ct
  assume ct: "seal (hpke_sealer H rnd) (hpke_public H (seal_secret ctx)) (draft_aad Classical (our_ik ctx) d)
      (payload_det_cbor (draft_payload (key_public C sender_ik)
        (sign_domain C sender_ik PAYLOAD_SIG_DS (draft_hash C (key_public C sender_ik) (our_ik ctx) d)) d)) = Inr ct"
    and env: "env = sealed_env C Classical (our_ik ctx) (key_public C ephemeral) ct d (Some (sign_domain C ephemeral
      ENVELOPE_SENDER_DS (sender_authed_bytes (sealed_env C Classical (our_ik ctx) (key_public C ephemeral) ct d None))))"
  have len: "length (key_public C sender_ik) = 32" "length (sign_domain C sender_ik PAYLOAD_SIG_DS m) = 64" for m
    using assms(1,5) by (simp_all add: ed25519_law_def key_public_def sign_domain_def)
  show ?thesis
    by (intro exI, rule sealed_mote_validates [OF hpke_is_sealer [OF assms(3,4)] assms(2,7) _ _ _ _ ct env])
      (simp_all add: verify_sig_for_suite_def mote_supported_def env verify_sign_domain assms(1,5,6) len)
qed

text \<open>C2. A mote that \<open>build_mote\<close> makes is accepted by its recipient, who sees the sender's key and exactly
  the drafted headers, body, references and attachments.\<close>

theorem built_mote_validates:
  assumes "ed25519_law C" "blake3_law C" "hpke_law H" "hpke_sk_ok H (seal_secret ctx)"
    and "length sender_ik = 32" "length ephemeral = 32" "draft_fits d (key_public C sender_ik) ctx"
    and "build_mote C (hpke_sealer H rnd) sender_ik ephemeral (our_ik ctx) (hpke_public H (seal_secret ctx)) d = Inr env"
  shows "\<exists>sg. validate C Q (hpke_sealer H rnd) env ctx = Inr (Accepted (draft_payload (key_public C sender_ik) sg d))"
  using assms by (rule build_mote_accepted)

lemma toy_mote_accepted:
  assumes "build_mote toy_crypto (hpke_sealer toy_hpke [7]) (replicate 32 1) (replicate 32 2) [9] (hpke_public toy_hpke [3])
      (draft_new Chat 5 [104, 105]) = Inr env"
  shows "\<exists>sg. validate toy_crypto toy_pq (hpke_sealer toy_hpke [7]) env \<lparr>our_ik = [9], seal_secret = [3], sender_is_known = True\<rparr> =
      Inr (Accepted (draft_payload (replicate 32 1) sg (draft_new Chat 5 [104, 105])))"
proof -
  let ?ctx = "\<lparr>our_ik = [9], seal_secret = [3], sender_is_known = True\<rparr>"
  have "draft_fits (draft_new Chat 5 [104, 105]) (key_public toy_crypto (replicate 32 1)) ?ctx"
    by (simp add: draft_fits_def wf_draft_def draft_new_def wf_hdr_def headers_default_def)
  moreover have "key_public toy_crypto (replicate 32 1) = replicate 32 1" by (simp add: key_public_def toy_crypto_def)
  moreover have "hpke_sk_ok toy_hpke (seal_secret ?ctx)" by (simp add: toy_hpke_def)
  ultimately show ?thesis
    using build_mote_accepted [OF toy_crypto_laws(2,1) toy_hpke_law, of ?ctx "replicate 32 1" "replicate 32 2"] assms by auto
qed

theorem built_mote_validates_witness:
  "\<exists>env sg. build_mote toy_crypto (hpke_sealer toy_hpke [7]) (replicate 32 1) (replicate 32 2) [9] (hpke_public toy_hpke [3])
      (draft_new Chat 5 [104, 105]) = Inr env \<and>
    validate toy_crypto toy_pq (hpke_sealer toy_hpke [7]) env \<lparr>our_ik = [9], seal_secret = [3], sender_is_known = True\<rparr> =
      Inr (Accepted (draft_payload (replicate 32 1) sg (draft_new Chat 5 [104, 105])))"
proof -
  let ?ctx = "\<lparr>our_ik = [9], seal_secret = [3], sender_is_known = True\<rparr>"
  let ?d = "draft_new Chat 5 [104, 105]"
  obtain env where env: "build_mote toy_crypto (hpke_sealer toy_hpke [7]) (replicate 32 1) (replicate 32 2) (our_ik ?ctx)
      (hpke_public toy_hpke (seal_secret ?ctx)) ?d = Inr env"
    by (simp add: build_mote_def Let_def draft_new_def hpke_sealer_def hpke_seal_payload_def toy_hpke_def)
  have fits: "draft_fits ?d (key_public toy_crypto (replicate 32 1)) ?ctx"
    by (simp add: draft_fits_def wf_draft_def draft_new_def wf_hdr_def headers_default_def)
  have "key_public toy_crypto (replicate 32 1) = replicate 32 1" by (simp add: key_public_def toy_crypto_def)
  moreover have "hpke_sk_ok toy_hpke (seal_secret ?ctx)" by (simp add: toy_hpke_def)
  ultimately show ?thesis
    using built_mote_validates [OF toy_crypto_laws(2,1) toy_hpke_law _ _ _ fits env, of toy_pq] env by auto
qed

text \<open>A mote of the hybrid suite is accepted by its recipient in the same way.\<close>

theorem built_hybrid_mote_validates:
  assumes "ed25519_law C" "blake3_law C" "xwing_law Q" "mldsa_law Q" "length (seal_secret ctx) = XWING_DK_LEN"
    and "length (hk_ed sender) = 32" "length (hk_ed ephemeral) = 32" "draft_fits d (hybrid_public C Q sender) ctx"
    and build: "build_mote_hybrid C Q (hybrid_sealer Q rnd) sender ephemeral (our_ik ctx) (xwing_public Q (seal_secret ctx)) d = Inr env"
  shows "\<exists>sg. validate C Q (hybrid_sealer Q rnd) env ctx = Inr (Accepted (draft_payload (hybrid_public C Q sender) sg d))"
  using build
proof (rule build_mote_hybrid_Inr)
  fix ct
  assume ct: "seal (hybrid_sealer Q rnd) (xwing_public Q (seal_secret ctx)) (draft_aad PqHybrid (our_ik ctx) d)
      (payload_det_cbor (draft_payload (hybrid_public C Q sender)
        (hybrid_sign_domain C Q sender PAYLOAD_SIG_DS (draft_hash C (hybrid_public C Q sender) (our_ik ctx) d)) d)) = Inr ct"
    and env: "env = sealed_env C PqHybrid (our_ik ctx) (hybrid_public C Q ephemeral) ct d (Some (hybrid_sign_domain C Q ephemeral
      ENVELOPE_SENDER_DS (sender_authed_bytes (sealed_env C PqHybrid (our_ik ctx) (hybrid_public C Q ephemeral) ct d None))))"
  have len: "length (hybrid_public C Q sender) = 1984" "length (hybrid_sign_domain C Q sender PAYLOAD_SIG_DS m) = 3373" for m
    using assms(1,4,6) by (simp_all add: ed25519_law_def mldsa_law_def hybrid_public_def hybrid_sign_domain_def
        key_public_def sign_domain_def MLDSA65_PK_LEN_def MLDSA65_SIG_LEN_def)
  show ?thesis
    by (intro exI, rule sealed_mote_validates [OF hybrid_is_sealer [OF assms(3,5)] assms(2,8) _ _ _ _ ct env])
      (simp_all add: verify_sig_for_suite_def mote_supported_def env verify_hybrid_sign assms(1,4,6,7) len)
qed

theorem built_hybrid_mote_validates_witness:
  "\<exists>env sg. validate toy_crypto toy_pq (hybrid_sealer toy_pq [7]) env
      \<lparr>our_ik = [9], seal_secret = replicate 32 3, sender_is_known = True\<rparr> =
      Inr (Accepted (draft_payload (hybrid_public toy_crypto toy_pq \<lparr>hk_ed = replicate 32 1, hk_mldsa = [1]\<rparr>) sg
        (draft_new Chat 5 [104, 105])))"
proof -
  let ?ctx = "\<lparr>our_ik = [9], seal_secret = replicate 32 3, sender_is_known = True\<rparr>"
  let ?d = "draft_new Chat 5 [104, 105]"
  let ?k = "\<lparr>hk_ed = replicate 32 1, hk_mldsa = [1]\<rparr>"
  have "\<exists>ct. seal (hybrid_sealer toy_pq [7]) (xwing_public toy_pq (seal_secret ?ctx)) aad pt = Inr ct" for aad pt
    by (simp add: hybrid_sealer_def hybrid_seal_payload_def toy_pq_def Let_def)
  then obtain env where env: "build_mote_hybrid toy_crypto toy_pq (hybrid_sealer toy_pq [7]) ?k ?k (our_ik ?ctx)
      (xwing_public toy_pq (seal_secret ?ctx)) ?d = Inr env"
    using build_mote_hybrid_total by (metis draft_new_attach)
  have fits: "draft_fits ?d (hybrid_public toy_crypto toy_pq ?k) ?ctx"
    by (simp add: draft_fits_def wf_draft_def draft_new_def wf_hdr_def headers_default_def)
  show ?thesis
    using built_hybrid_mote_validates [OF toy_crypto_laws(2,1) toy_pq_laws _ _ _ fits env]
    by (auto simp: XWING_DK_LEN_def)
qed

text \<open>C1. Whatever a recipient accepts, the named sender signed for this very envelope.  Suppose that the
  presented signature is no forgery, that is, if it verifies under the sender key in the payload, then the hash it
  covers is one that the key's owner signed, for some payload, kind, time and delivery tag in \<open>made\<close>.  Then an
  accepted payload is one of these payloads (up to the signature field) and the envelope carries the kind, time and
  tag it was signed with, or two different preimages with one BLAKE3 hash have been found.  Re-emitting a sealed
  payload under another kind, time or recipient is thus never accepted.  Moreover the tag is the recipient's
  own key, the content address is that of the ciphertext, an unknown sender brought a challenge, and a vouch names
  the sender.\<close>

theorem accepted_mote_was_signed:
  assumes acc: "validate C Q S env ctx = Inr (Accepted p)" and "short (value_bytes (env_to env))"
    and made: "\<forall>(q, k, ts, to) \<in> made. wf_payload q \<and> short (value_bytes to)"
    and unforged: "verify_sig_for_suite C Q (env_suite env) (pl_from p) PAYLOAD_SIG_DS
        (signing_hash C p (env_kind env) (env_ts env) (env_to env)) (pl_sig p) = Inr () \<longrightarrow>
      signing_hash C p (env_kind env) (env_ts env) (env_to env) \<in> (\<lambda>(q, k, ts, to). signing_hash C q k ts to) ` made"
  shows "(\<exists>(q, k, ts, to) \<in> made.
            (p\<lparr>pl_sig := []\<rparr> = q\<lparr>pl_sig := []\<rparr> \<and> env_kind env = k \<and> env_ts env = ts \<and> env_to env = to) \<or>
            (payload_preimage p (env_kind env) (env_ts env) (tag_det_cbor (env_to env)) \<noteq> payload_preimage q k ts (tag_det_cbor to) \<and>
             blake3 C (payload_preimage p (env_kind env) (env_ts env) (tag_det_cbor (env_to env))) =
               blake3 C (payload_preimage q k ts (tag_det_cbor to)))) \<and>
         resolves_to_key (env_to env) (our_ik ctx) \<and> cid_verify C (env_id env) (env_ciphertext env) \<and>
         (sender_is_known ctx \<or> env_challenge env \<noteq> None) \<and>
         (\<forall>v. env_challenge env = Some (Vouch v) \<longrightarrow> vch_subject v = pl_from p)"
proof -
  have ok: "gates_ok C Q env ctx" "abuse_cleared env ctx" "\<exists>pt. payload_from_det_cbor pt = Inr p"
    "verify_sig_for_suite C Q (env_suite env) (pl_from p) PAYLOAD_SIG_DS
       (signing_hash C p (env_kind env) (env_ts env) (env_to env)) (pl_sig p) = Inr ()"
    "\<forall>v. env_challenge env = Some (Vouch v) \<longrightarrow> vch_subject v = pl_from p"
    using acc by (auto simp: validate_Accepted_iff)
  from ok(3) have "wf_payload p" by (auto simp: payload_from_det_cbor_iff)
  from unforged ok(4) obtain q k ts to where m: "(q, k, ts, to) \<in> made"
    "signing_hash C p (env_kind env) (env_ts env) (env_to env) = signing_hash C q k ts to" by auto
  then have "wf_payload q" "short (value_bytes to)" using made by auto
  with payload_preimage_inj [OF \<open>wf_payload p\<close> this(1) assms(2) this(2)] m show ?thesis
    using ok by (intro conjI bexI [OF _ m(1)])
      (auto simp: signing_hash_def payload_hash_def gates_ok_def abuse_cleared_def)
qed

theorem accepted_mote_was_signed_witness:
  "\<exists>env sg. validate toy_crypto toy_pq (hpke_sealer toy_hpke [7]) env \<lparr>our_ik = [9], seal_secret = [3], sender_is_known = True\<rparr> =
      Inr (Accepted (draft_payload (replicate 32 1) sg (draft_new Chat 5 [104, 105]))) \<and>
    resolves_to_key (env_to env) [9] \<and> cid_verify toy_crypto (env_id env) (env_ciphertext env)"
proof -
  let ?ctx = "\<lparr>our_ik = [9], seal_secret = [3], sender_is_known = True\<rparr>"
  let ?d = "draft_new Chat 5 [104, 105]"
  let ?p = "\<lambda>sg. draft_payload (replicate 32 1) sg ?d"
  let ?S = "hpke_sealer toy_hpke [7]"
  obtain env where env: "build_mote toy_crypto ?S (replicate 32 1) (replicate 32 2) [9] (hpke_public toy_hpke [3]) ?d = Inr env"
    by (simp add: build_mote_def Let_def draft_new_def hpke_sealer_def hpke_seal_payload_def toy_hpke_def)
  have "\<exists>sg. validate toy_crypto toy_pq ?S env ?ctx = Inr (Accepted (?p sg))"
    using toy_mote_accepted [OF env] by simp
  then obtain sg where acc: "validate toy_crypto toy_pq ?S env ?ctx = Inr (Accepted (?p sg))" by blast
  have to: "env_to env = KeyTag [9]" using env by (auto elim!: build_mote_Inr simp: sealed_env_def)
  have wf: "wf_payload (?p sg)" using acc by (auto simp: validate_Accepted_iff payload_from_det_cbor_iff)
  show ?thesis
    using accepted_mote_was_signed [OF acc, of "{(?p sg, env_kind env, env_ts env, env_to env)}"] acc wf
    by (auto simp: to value_bytes_def)
qed

text \<open>C12. Nothing is decrypted before the cheap checks: unless they pass and the sender is known or brings a
  challenge, the result does not depend on the sealer at all; a mote is deferred exactly when the checks pass
  and an unknown sender brings no challenge.\<close>

theorem validate_defers_decryption:
  "(gates_ok C Q env ctx \<and> abuse_cleared env ctx \<or> validate C Q S env ctx = validate C Q S' env ctx) \<and>
   (validate C Q S env ctx = Inr Deferred \<longleftrightarrow> gates_ok C Q env ctx \<and> \<not> abuse_cleared env ctx)"
proof (cases "gates_ok C Q env ctx")
  case True
  then show ?thesis by (auto simp: validate_gates open_payload_iff)
next
  case False
  then show ?thesis using validate_rejects [OF False] by auto
qed

text \<open>C6. What the two signatures of a mote bind, each on its own.  Equal signed hashes mean the same payload (up to the
  signature), kind, timestamp and delivery tag, or a BLAKE3 collision between the two preimages: the identity
  signature alone ties a payload to its envelope's context.  Equal bytes under the ephemeral signature mean the
  same content address, tag, time, kind and challenge, for content addresses of one length.\<close>

theorem mote_signatures_bind:
  assumes "wf_payload p" "wf_payload q" "wf_env e" "wf_env e'"
  shows "(signing_hash C p (env_kind e) (env_ts e) (env_to e) = signing_hash C q (env_kind e') (env_ts e') (env_to e') \<longrightarrow>
            (p\<lparr>pl_sig := []\<rparr> = q\<lparr>pl_sig := []\<rparr> \<and> env_kind e = env_kind e' \<and> env_ts e = env_ts e' \<and> env_to e = env_to e') \<or>
            (payload_preimage p (env_kind e) (env_ts e) (tag_det_cbor (env_to e)) \<noteq>
               payload_preimage q (env_kind e') (env_ts e') (tag_det_cbor (env_to e')) \<and>
             blake3 C (payload_preimage p (env_kind e) (env_ts e) (tag_det_cbor (env_to e))) =
               blake3 C (payload_preimage q (env_kind e') (env_ts e') (tag_det_cbor (env_to e'))))) \<and>
         (sender_authed_bytes e = sender_authed_bytes e' \<and>
            length (cid_bytes (env_id e)) = length (cid_bytes (env_id e')) \<longrightarrow>
            env_id e = env_id e' \<and> env_to e = env_to e' \<and> env_ts e = env_ts e' \<and> env_kind e = env_kind e' \<and>
            env_challenge e = env_challenge e')"
proof (intro conjI impI)
  have to: "short (value_bytes (env_to e))" "short (value_bytes (env_to e'))"
    using assms(3,4) by (simp_all add: wf_env_def)
  assume "signing_hash C p (env_kind e) (env_ts e) (env_to e) = signing_hash C q (env_kind e') (env_ts e') (env_to e')"
  then show "(p\<lparr>pl_sig := []\<rparr> = q\<lparr>pl_sig := []\<rparr> \<and> env_kind e = env_kind e' \<and> env_ts e = env_ts e' \<and> env_to e = env_to e') \<or>
      (payload_preimage p (env_kind e) (env_ts e) (tag_det_cbor (env_to e)) \<noteq>
         payload_preimage q (env_kind e') (env_ts e') (tag_det_cbor (env_to e')) \<and>
       blake3 C (payload_preimage p (env_kind e) (env_ts e) (tag_det_cbor (env_to e))) =
         blake3 C (payload_preimage q (env_kind e') (env_ts e') (tag_det_cbor (env_to e'))))"
    using payload_preimage_inj [OF assms(1,2) to] by (auto simp: signing_hash_def payload_hash_def)
qed (use sender_authed_inj [OF assms(3,4)] in blast)+

theorem mote_signatures_bind_witness:
  "(draft_payload [1] [4] (draft_new Chat 5 [2]))\<lparr>pl_sig := []\<rparr> = (draft_payload [1] [3] (draft_new Chat 5 [2]))\<lparr>pl_sig := []\<rparr>"
proof -
  let ?e = "sealed_env toy_crypto Classical [9] [8] [7] (draft_new Chat 5 [2]) None"
  let ?p = "\<lambda>sg. draft_payload [1] sg (draft_new Chat 5 [2])"
  have wf: "wf_payload (?p [4])" "wf_payload (?p [3])"
    by (simp_all add: wf_payload_def draft_payload_def draft_new_def wf_hdr_def headers_default_def)
  have env: "wf_env ?e"
    by (simp add: wf_env_def sealed_env_def draft_new_def value_bytes_def content_id_of_def toy_crypto_def)
  have pre: "payload_preimage (?p [4]) k ts to = payload_preimage (?p [3]) k ts to" for k ts to
    by (simp add: payload_preimage_def payload_signing_body_def payload_to_cv_def draft_payload_def)
  then have "signing_hash toy_crypto (?p [4]) k ts to = signing_hash toy_crypto (?p [3]) k ts to" for k ts to
    by (simp add: signing_hash_def payload_hash_def)
  with mote_signatures_bind [OF wf env env, of toy_crypto] pre show ?thesis by blast
qed

section \<open>The pinned validator\<close>

fun pinned_run :: "crypto \<Rightarrow> pq_lib \<Rightarrow> payload_seal \<Rightarrow> (envelope \<times> recipient_ctx) list \<Rightarrow> suite_ratchet option \<Rightarrow>
    suite_ratchet option" where
  "pinned_run C Q S [] r = r"
| "pinned_run C Q S ((env, ctx) # ms) r = pinned_run C Q S ms (snd (validate_pinned C Q S env ctx r))"

text \<open>Every floor that validation sets belongs to the one suite whose sender keys have that length.\<close>

definition floors_by_length :: "suite_ratchet \<Rightarrow> bool" where
  "floors_by_length r \<longleftrightarrow> (\<forall>k f. floors r k = Some f \<longrightarrow>
     length k = 32 \<and> f = suite_as_u8 Classical \<or> length k = HYBRID_PK_LEN \<and> f = suite_as_u8 PqHybrid)"

lemma accepted_key_length:
  assumes "validate C Q S env ctx = Inr (Accepted p)"
  shows "env_suite env = Classical \<and> length (pl_from p) = 32 \<or>
    env_suite env = PqHybrid \<and> length (pl_from p) = HYBRID_PK_LEN"
proof -
  have "verify_sig_for_suite C Q (env_suite env) (pl_from p) PAYLOAD_SIG_DS
       (signing_hash C p (env_kind env) (env_ts env) (env_to env)) (pl_sig p) = Inr ()"
    using assms by (simp add: validate_Accepted_iff)
  then show ?thesis
    by (cases "env_suite env")
      (auto simp: verify_sig_for_suite_def verify_domain_Inr_iff verify_hybrid_domain_def split: if_splits)
qed

lemma pinned_step:
  assumes "floors_by_length r"
  shows "\<exists>r'. validate_pinned C Q S env ctx (Some r) = (map_err VMote (validate C Q S env ctx), Some r') \<and> floors_by_length r'"
proof (cases "\<exists>p. validate C Q S env ctx = Inr (Accepted p)")
  case True
  then obtain p where p: "validate C Q S env ctx = Inr (Accepted p)" by blast
  have len: "(32::nat) \<noteq> HYBRID_PK_LEN" by (simp add: HYBRID_PK_LEN_def ED25519_PK_LEN_def MLDSA65_PK_LEN_def)
  have floor: "f = suite_as_u8 (env_suite env)" if "floors r (pl_from p) = Some f" for f
  proof -
    have "length (pl_from p) = 32 \<and> f = suite_as_u8 Classical \<or> length (pl_from p) = HYBRID_PK_LEN \<and> f = suite_as_u8 PqHybrid"
      using assms that unfolding floors_by_length_def by blast
    then show ?thesis using accepted_key_length [OF p] len by auto
  qed
  have acc: "ratchet_accept r (pl_from p) (env_suite env) = Inr (ratchet_observe r (pl_from p) (env_suite env))"
    using floor by (auto simp: ratchet_accept_def ratchet_check_def split: option.split)
  moreover have "floors_by_length (ratchet_observe r (pl_from p) (env_suite env))"
    using accepted_key_length [OF p] assms floor
    by (auto simp: floors_by_length_def ratchet_observe_floor split: option.split)
  ultimately show ?thesis by (simp add: validate_pinned_def p)
next
  case False
  then show ?thesis using assms
    by (cases "validate C Q S env ctx") (auto simp: validate_pinned_def split: outcome.splits)
qed

lemma pinned_run_floors:
  assumes "floors_by_length r"
  shows "\<exists>r'. pinned_run C Q S ms (Some r) = Some r' \<and> floors_by_length r'"
  using assms
proof (induction ms arbitrary: r)
  case (Cons m ms)
  obtain env ctx where m: "m = (env, ctx)" by (cases m)
  obtain r' where "validate_pinned C Q S env ctx (Some r) = (map_err VMote (validate C Q S env ctx), Some r')" "floors_by_length r'"
    using pinned_step [OF Cons.prems] by blast
  then show ?case using Cons.IH by (simp add: m)
qed simp

text \<open>On a ratchet that the validator itself has filled, from empty, the pin refuses nothing: the ratchet is keyed on
  the sender key inside the payload, which has 32 bytes in the classical suite and 1984 in the hybrid one, so a
  sender that falls back from the hybrid to the classical suite is a new contact.\<close>

theorem pinned_validation_never_refuses:
  "fst (validate_pinned C Q S env ctx (pinned_run C Q S ms (Some ratchet_new))) = map_err VMote (validate C Q S env ctx)"
proof -
  have "floors_by_length ratchet_new" by (simp add: floors_by_length_def ratchet_new_def)
  from pinned_run_floors [OF this] obtain r where "pinned_run C Q S ms (Some ratchet_new) = Some r" "floors_by_length r"
    by blast
  then show ?thesis using pinned_step [of r C Q S env ctx] by auto
qed

section \<open>The suite pin\<close>

text \<open>The sender keys and suites that a run of the pinned validator accepts, in order.\<close>

fun pinned_accepts :: "crypto \<Rightarrow> pq_lib \<Rightarrow> payload_seal \<Rightarrow> (envelope \<times> recipient_ctx) list \<Rightarrow> suite_ratchet option \<Rightarrow>
    (bytes \<times> suite) list" where
  "pinned_accepts C Q S [] r = []"
| "pinned_accepts C Q S ((env, ctx) # ms) r =
     (case validate_pinned C Q S env ctx r of
        (Inr (Accepted p), r') \<Rightarrow> (pl_from p, env_suite env) # pinned_accepts C Q S ms r'
      | (_, r') \<Rightarrow> pinned_accepts C Q S ms r')"

lemma validate_pinned_step:
  "validate_pinned C Q S env ctx (Some r) =
     (case validate C Q S env ctx of
        Inl e \<Rightarrow> (Inl (VMote e), Some r)
      | Inr Deferred \<Rightarrow> (Inr Deferred, Some r)
      | Inr (Accepted p) \<Rightarrow>
          (case floors r (pl_from p) of
             Some f \<Rightarrow> if suite_as_u8 (env_suite env) < f then (Inl (VSuite SuiteDowngrade), Some r)
                        else (Inr (Accepted p), Some (ratchet_observe r (pl_from p) (env_suite env)))
           | None \<Rightarrow> (Inr (Accepted p), Some (ratchet_observe r (pl_from p) (env_suite env)))))"
  by (auto simp: validate_pinned_def ratchet_accept_def ratchet_check_def split: sum.splits outcome.splits option.splits)

lemma pinned_accepts_step:
  obtains (skip) "pinned_accepts C Q S ((env, ctx) # ms) (Some r) = pinned_accepts C Q S ms (Some r)"
  | (accept) k where "pinned_accepts C Q S ((env, ctx) # ms) (Some r) =
        (k, env_suite env) # pinned_accepts C Q S ms (Some (ratchet_observe r k (env_suite env)))"
      "\<forall>f. floors r k = Some f \<longrightarrow> f \<le> suite_as_u8 (env_suite env)"
proof (cases "validate C Q S env ctx")
  case (Inr out)
  show ?thesis
  proof (cases out)
    case (Accepted p)
    show ?thesis
    proof (cases "\<exists>f. floors r (pl_from p) = Some f \<and> suite_as_u8 (env_suite env) < f")
      case True
      then show ?thesis using Inr Accepted skip by (auto simp: validate_pinned_step)
    next
      case False
      then have "validate_pinned C Q S env ctx (Some r) = (Inr (Accepted p), Some (ratchet_observe r (pl_from p) (env_suite env)))"
        using Inr Accepted by (auto simp: validate_pinned_step split: option.split)
      then show ?thesis using accept [of "pl_from p"] False by (auto simp: not_less)
    qed
  qed (use Inr skip in \<open>simp add: validate_pinned_step\<close>)
qed (use skip in \<open>simp add: validate_pinned_step\<close>)

declare pinned_accepts.simps(2) [simp del]

lemma pinned_accepts_floor:
  assumes "(k, s) \<in> set (pinned_accepts C Q S ms (Some r))" "floors r k = Some f"
  shows "f \<le> suite_as_u8 s"
  using assms
proof (induction ms arbitrary: r f)
  case (Cons m ms)
  obtain env ctx where m: "m = (env, ctx)" by (cases m)
  show ?case
  proof (cases rule: pinned_accepts_step [of C Q S env ctx ms r])
    case skip
    then show ?thesis using Cons m by simp
  next
    case (accept k')
    show ?thesis
    proof (cases "(k, s) = (k', env_suite env)")
      case True
      then show ?thesis using accept(2) Cons.prems(2) by simp
    next
      case False
      then have "(k, s) \<in> set (pinned_accepts C Q S ms (Some (ratchet_observe r k' (env_suite env))))"
        using Cons.prems(1) accept(1) m by auto
      moreover obtain f' where "floors (ratchet_observe r k' (env_suite env)) k = Some f'" "f \<le> f'"
        using Cons.prems(2) by (cases "k = k'") (auto simp: ratchet_observe_floor)
      ultimately show ?thesis using Cons.IH by fastforce
    qed
  qed
qed simp

lemma pinned_accepts_sorted:
  "sorted_wrt (\<lambda>(k, s) (k', s'). k = k' \<longrightarrow> suite_as_u8 s \<le> suite_as_u8 s') (pinned_accepts C Q S ms (Some r))"
proof (induction ms arbitrary: r)
  case (Cons m ms)
  obtain env ctx where m: "m = (env, ctx)" by (cases m)
  show ?case
  proof (cases rule: pinned_accepts_step [of C Q S env ctx ms r])
    case skip
    then show ?thesis using Cons m by simp
  next
    case (accept k)
    obtain f where "floors (ratchet_observe r k (env_suite env)) k = Some f" "suite_as_u8 (env_suite env) \<le> f"
      by (simp add: ratchet_observe_floor split: option.split)
    then show ?thesis using Cons m accept(1) pinned_accepts_floor by fastforce
  qed
qed simp

text \<open>C38. The suite pin, from any ratchet and over any sequence of motes: the suites accepted from one sender key
  never go down, and never below a floor that the ratchet started with.  A mote that plain validation accepts is
  refused with \<open>SuiteDowngrade\<close> exactly when its suite is below the floor of its sender key; then the ratchet
  keeps its state, and otherwise the verdict stands and the sender's floor is at least the suite.  Without a
  ratchet the verdict is the plain one.\<close>

theorem suite_pin_enforced:
  "sorted_wrt (\<lambda>(k, s) (k', s'). k = k' \<longrightarrow> suite_as_u8 s \<le> suite_as_u8 s') (pinned_accepts C Q S ms (Some r)) \<and>
   (\<forall>(k, s) \<in> set (pinned_accepts C Q S ms (Some r)). \<forall>f. floors r k = Some f \<longrightarrow> f \<le> suite_as_u8 s) \<and>
   (validate C Q S env ctx = Inr (Accepted p) \<longrightarrow>
      (if \<exists>f. floors r (pl_from p) = Some f \<and> suite_as_u8 (env_suite env) < f
       then validate_pinned C Q S env ctx (Some r) = (Inl (VSuite SuiteDowngrade), Some r)
       else \<exists>r' f. validate_pinned C Q S env ctx (Some r) = (Inr (Accepted p), Some r') \<and>
              floors r' (pl_from p) = Some f \<and> suite_as_u8 (env_suite env) \<le> f)) \<and>
   validate_pinned C Q S env ctx None = (map_err VMote (validate C Q S env ctx), None)"
proof (intro conjI impI)
  show "sorted_wrt (\<lambda>(k, s) (k', s'). k = k' \<longrightarrow> suite_as_u8 s \<le> suite_as_u8 s') (pinned_accepts C Q S ms (Some r))"
    by (rule pinned_accepts_sorted)
  show "\<forall>(k, s) \<in> set (pinned_accepts C Q S ms (Some r)). \<forall>f. floors r k = Some f \<longrightarrow> f \<le> suite_as_u8 s"
    using pinned_accepts_floor by blast
  show "validate_pinned C Q S env ctx None = (map_err VMote (validate C Q S env ctx), None)"
    by (auto simp: validate_pinned_def split: sum.splits outcome.splits)
  assume "validate C Q S env ctx = Inr (Accepted p)"
  then show "if \<exists>f. floors r (pl_from p) = Some f \<and> suite_as_u8 (env_suite env) < f
       then validate_pinned C Q S env ctx (Some r) = (Inl (VSuite SuiteDowngrade), Some r)
       else \<exists>r' f. validate_pinned C Q S env ctx (Some r) = (Inr (Accepted p), Some r') \<and>
              floors r' (pl_from p) = Some f \<and> suite_as_u8 (env_suite env) \<le> f"
    by (auto simp: validate_pinned_step ratchet_observe_floor split: option.splits if_splits)
qed

theorem suite_pin_enforced_witness:
  "\<exists>env sg. validate_pinned toy_crypto toy_pq (hpke_sealer toy_hpke [7]) env
       \<lparr>our_ik = [9], seal_secret = [3], sender_is_known = True\<rparr> (Some \<lparr>floors = [replicate 32 1 \<mapsto> 2]\<rparr>) =
     (Inl (VSuite SuiteDowngrade), Some \<lparr>floors = [replicate 32 1 \<mapsto> 2]\<rparr>)"
proof -
  let ?ctx = "\<lparr>our_ik = [9], seal_secret = [3], sender_is_known = True\<rparr>"
  let ?d = "draft_new Chat 5 [104, 105]"
  let ?S = "hpke_sealer toy_hpke [7]"
  obtain env where env: "build_mote toy_crypto ?S (replicate 32 1) (replicate 32 2) [9] (hpke_public toy_hpke [3]) ?d = Inr env"
    by (simp add: build_mote_def Let_def draft_new_def hpke_sealer_def hpke_seal_payload_def toy_hpke_def)
  obtain sg where acc: "validate toy_crypto toy_pq ?S env ?ctx = Inr (Accepted (draft_payload (replicate 32 1) sg ?d))"
    using toy_mote_accepted [OF env] by blast
  have "env_suite env = Classical" using env by (auto elim!: build_mote_Inr simp: sealed_env_def)
  then have "validate_pinned toy_crypto toy_pq ?S env ?ctx (Some \<lparr>floors = [replicate 32 1 \<mapsto> 2]\<rparr>) =
      (Inl (VSuite SuiteDowngrade), Some \<lparr>floors = [replicate 32 1 \<mapsto> 2]\<rparr>)"
    using suite_pin_enforced [of toy_crypto toy_pq ?S "[]" "\<lparr>floors = [replicate 32 1 \<mapsto> 2]\<rparr>" env ?ctx] acc
    by (auto simp: draft_payload_def)
  then show ?thesis by blast
qed

end
