(* ===== verification/Replay.thy ===== *)
theory Replay
  imports Main
begin

text \<open>
  The contract of the caller-owned replay caches (wake nonces, message identifiers): an operation that
  either hands out a key it has never handed out before and remembers it, or fails and remembers nothing
  new.
\<close>

fun run_keys :: "('a \<Rightarrow> 'st \<Rightarrow> ('e + 'k) \<times> 'st) \<Rightarrow> 'a list \<Rightarrow> 'st \<Rightarrow> 'k list \<times> 'st" where
  "run_keys acc [] st = ([], st)"
| "run_keys acc (a # as) st =
     (let (r, st') = acc a st; (ks, st'') = run_keys acc as st' in
      ((case r of Inl _ \<Rightarrow> ks | Inr k \<Rightarrow> k # ks), st''))"

lemma run_keys_all:
  assumes "\<And>a st k st'. acc a st = (Inr k, st') \<Longrightarrow> P k"
  shows "list_all P (fst (run_keys acc as st))"
  using assms by (induction acc as st rule: run_keys.induct) (auto split: prod.splits sum.splits)

locale replay_cache =
  fixes seen :: "'st \<Rightarrow> 'k set"
    and acc :: "'a \<Rightarrow> 'st \<Rightarrow> ('e + 'k) \<times> 'st"
  assumes fresh: "acc a st = (Inr k, st') \<Longrightarrow> k \<notin> seen st \<and> seen st' = insert k (seen st)"
    and refused: "acc a st = (Inl e, st') \<Longrightarrow> seen st' = seen st"
begin

lemma run_fresh:
  "run_keys acc as st = (ks, st') \<Longrightarrow>
     distinct ks \<and> set ks \<inter> seen st = {} \<and> seen st' = seen st \<union> set ks"
proof (induction as arbitrary: st ks)
  case (Cons a as)
  obtain r st1 where a: "acc a st = (r, st1)" by (cases "acc a st")
  obtain ks1 where as: "run_keys acc as st1 = (ks1, st')"
    using Cons.prems a by (auto split: prod.splits)
  have IH: "distinct ks1 \<and> set ks1 \<inter> seen st1 = {} \<and> seen st' = seen st1 \<union> set ks1" by (rule Cons.IH [OF as])
  show ?case
  proof (cases r)
    case (Inl e)
    then show ?thesis using IH refused [of a st e st1] Cons.prems a as by simp
  next
    case (Inr k)
    then show ?thesis using IH fresh [of a st k st1] Cons.prems a as by auto
  qed
qed simp

lemma run_distinct: "distinct (fst (run_keys acc as st))"
  using run_fresh [of as st] by (cases "run_keys acc as st") auto

lemma run_seen: "seen (snd (run_keys acc as st)) = seen st \<union> set (fst (run_keys acc as st))"
  using run_fresh [of as st] by (cases "run_keys acc as st") auto

end

end
