(* ===== verification/Policy.thy ===== *)
theory Policy
  imports Replay Rust_Num
begin

text \<open>
  The caller-policy predicates of \<^verbatim>\<open>policy.rs\<close> (duplicates, clock skew, expiry, pinned identities) and the
  attestation gate of \<^verbatim>\<open>attestation.rs\<close>.  The check of evidence against a platform root, which a caller
  passes in, is the argument \<open>check_root\<close>.
\<close>

definition SKEW_TOLERANCE_MS :: u64 where "SKEW_TOLERANCE_MS = 120000"

datatype policy_error = DuplicateId | TimestampOutOfSkew | ExpiredMote | FromPinMismatch

fun policy_error_code :: "policy_error \<Rightarrow> u16" where
  "policy_error_code DuplicateId = 0x020E"
| "policy_error_code TimestampOutOfSkew = 0x020C"
| "policy_error_code ExpiredMote = 0x020B"
| "policy_error_code FromPinMismatch = 0x0209"

definition is_duplicate :: "bytes set \<Rightarrow> content_id \<Rightarrow> bool" where
  "is_duplicate s i \<longleftrightarrow> cid_bytes i \<in> s"

definition within_skew :: "u64 \<Rightarrow> u64 \<Rightarrow> u64 \<Rightarrow> bool" where
  "within_skew sender_ts receiver_now tolerance_ms \<longleftrightarrow> abs_diff sender_ts receiver_now \<le> tolerance_ms"

definition is_expired :: "u64 option \<Rightarrow> u64 \<Rightarrow> bool" where
  "is_expired expires now = (case expires of Some e \<Rightarrow> now > e | None \<Rightarrow> False)"

definition repin_allowed :: "bytes option \<Rightarrow> bytes \<Rightarrow> bool" where
  "repin_allowed pinned observed = (case pinned of None \<Rightarrow> True | Some k \<Rightarrow> k = observed)"

record caller_policy =
  cp_seen :: "bytes set"
  cp_tolerance_ms :: u64

definition policy_new :: caller_policy where
  "policy_new = \<lparr>cp_seen = {}, cp_tolerance_ms = SKEW_TOLERANCE_MS\<rparr>"

definition with_tolerance_ms :: "u64 \<Rightarrow> caller_policy \<Rightarrow> caller_policy" where
  "with_tolerance_ms t p = p\<lparr>cp_tolerance_ms := t\<rparr>"

definition check_duplicate :: "caller_policy \<Rightarrow> content_id \<Rightarrow> policy_error + unit" where
  "check_duplicate p i = (if is_duplicate (cp_seen p) i then Inl DuplicateId else Inr ())"

definition check_and_record :: "content_id \<Rightarrow> caller_policy \<Rightarrow> (policy_error + unit) \<times> caller_policy" where
  "check_and_record i p =
     (let p' = p\<lparr>cp_seen := insert (cid_bytes i) (cp_seen p)\<rparr> in
      if cid_bytes i \<notin> cp_seen p then (Inr (), p') else (Inl DuplicateId, p'))"

definition check_skew :: "caller_policy \<Rightarrow> u64 \<Rightarrow> u64 \<Rightarrow> policy_error + unit" where
  "check_skew p sender_ts now =
     (if within_skew sender_ts now (cp_tolerance_ms p) then Inr () else Inl TimestampOutOfSkew)"

definition check_expiry :: "u64 option \<Rightarrow> u64 \<Rightarrow> policy_error + unit" where
  "check_expiry expires now = (if is_expired expires now then Inl ExpiredMote else Inr ())"

definition check_repin :: "bytes option \<Rightarrow> bytes \<Rightarrow> policy_error + unit" where
  "check_repin pinned observed = (if repin_allowed pinned observed then Inr () else Inl FromPinMismatch)"

section \<open>Attestation\<close>

definition REATTEST_CADENCE_MS :: u64 where "REATTEST_CADENCE_MS = 90 * 24 * 60 * 60 * 1000"

datatype key_protection = KpSoftware | KpTpm | KpSecureEnclave | KpStrongBox | KpTee

fun kp_as_str :: "key_protection \<Rightarrow> string" where
  "kp_as_str KpSoftware = ''software''"
| "kp_as_str KpTpm = ''tpm''"
| "kp_as_str KpSecureEnclave = ''secure-enclave''"
| "kp_as_str KpStrongBox = ''strongbox''"
| "kp_as_str KpTee = ''tee''"

definition kp_from_str :: "string \<Rightarrow> key_protection option" where
  "kp_from_str s =
     (if s = ''software'' then Some KpSoftware
      else if s = ''tpm'' then Some KpTpm
      else if s = ''secure-enclave'' then Some KpSecureEnclave
      else if s = ''strongbox'' then Some KpStrongBox
      else if s = ''tee'' then Some KpTee
      else None)"

definition is_hardware :: "key_protection \<Rightarrow> bool" where
  "is_hardware k \<longleftrightarrow> k \<noteq> KpSoftware"

datatype attestation_error = AttestationInvalid | AttestationExpired

fun attestation_error_code :: "attestation_error \<Rightarrow> u16" where
  "attestation_error_code AttestationInvalid = 0x0116"
| "attestation_error_code AttestationExpired = 0x0118"

record device_attestation =
  da_device_key :: bytes
  da_key_protection :: key_protection
  da_evidence :: "bytes option"
  da_issued_at :: u64
  da_expires :: "u64 option"

definition is_stale :: "device_attestation \<Rightarrow> u64 \<Rightarrow> u64 \<Rightarrow> bool \<Rightarrow> bool" where
  "is_stale a now max_age_ms root_retired =
     (if root_retired then True
      else if (case da_expires a of Some e \<Rightarrow> now > e | None \<Rightarrow> False) then True
      else saturating_sub now (da_issued_at a) > max_age_ms)"

definition evaluate :: "device_attestation \<Rightarrow> bool \<Rightarrow> u64 \<Rightarrow> u64 \<Rightarrow> bool \<Rightarrow> (bytes \<Rightarrow> bytes \<Rightarrow> bool) \<Rightarrow> attestation_error + unit" where
  "evaluate a require_attested now max_age_ms root_retired check_root =
     (if \<not> require_attested then Inr ()
      else if \<not> is_hardware (da_key_protection a) then Inl AttestationInvalid
      else
        and_then (ok_or (da_evidence a) AttestationInvalid) (\<lambda>evidence.
          if \<not> check_root evidence (da_device_key a) then Inl AttestationInvalid
          else if is_stale a now max_age_ms root_retired then Inl AttestationExpired
          else Inr ()))"

section \<open>Properties\<close>

interpretation dedup: replay_cache cp_seen
  "\<lambda>i p. case check_and_record i p of (Inl e, p') \<Rightarrow> (Inl e, p') | (Inr _, p') \<Rightarrow> (Inr (cid_bytes i), p')"
  by unfold_locales (auto simp: check_and_record_def Let_def split: if_splits)

lemma check_duplicate_iff: "check_duplicate p i = Inl DuplicateId \<longleftrightarrow> fst (check_and_record i p) = Inl DuplicateId"
  by (simp add: check_duplicate_def check_and_record_def is_duplicate_def Let_def)

lemma within_skew_iff: "within_skew a b t \<longleftrightarrow> unat a \<le> unat b + unat t \<and> unat b \<le> unat a + unat t"
  by (auto simp: within_skew_def word_le_nat_alt unat_abs_diff)

lemma kp_str_round_trip: "kp_from_str s = Some k \<longleftrightarrow> s = kp_as_str k"
  by (cases k) (auto simp: kp_from_str_def split: if_splits)

lemma evaluate_ok_iff:
  "evaluate a True now max_age retired vr = Inr () \<longleftrightarrow>
     is_hardware (da_key_protection a) \<and> \<not> retired \<and>
     (\<exists>e. da_evidence a = Some e \<and> vr e (da_device_key a)) \<and>
     (\<forall>x. da_expires a = Some x \<longrightarrow> now \<le> x) \<and> unat now - unat (da_issued_at a) \<le> unat max_age"
  by (auto simp: evaluate_def is_stale_def word_less_nat_alt not_less word_le_nat_alt unat_saturating_sub split: option.splits if_splits)

end
