(* ===== verification/Rust_Net.thy ===== *)
theory Rust_Net
  imports Rust_Str
begin

text \<open>
  What the core crate uses of \<open>std::net\<close>: the parser behind \<open>str::parse::<IpAddr>()\<close> and the predicates
  on addresses.  A parser takes the remaining input and returns a value with the input it leaves, or
  \<open>None\<close> (\<open>read_atomically\<close> restores the input).  An IPv6 address is the list of its eight segments.
\<close>

datatype ipv4 = Ipv4 u8 u8 u8 u8

datatype ip_addr = V4 ipv4 | V6 "u16 list"

definition to_digit :: "nat \<Rightarrow> char \<Rightarrow> nat option" where
  "to_digit radix c =
     (if is_digit c then Some (code c - 48)
      else if radix = 16 \<and> 97 \<le> code c \<and> code c \<le> 102 then Some (code c - 87)
      else if radix = 16 \<and> 65 \<le> code c \<and> code c \<le> 70 then Some (code c - 55)
      else None)"

fun read_digits :: "nat \<Rightarrow> nat \<Rightarrow> nat \<Rightarrow> nat \<Rightarrow> string \<Rightarrow> (nat \<times> nat \<times> string) option" where
  "read_digits radix max_digits n acc [] = Some (n, acc, [])"
| "read_digits radix max_digits n acc (c # s) =
     (case to_digit radix c of
        None \<Rightarrow> Some (n, acc, c # s)
      | Some d \<Rightarrow> if max_digits < n + 1 then None else read_digits radix max_digits (n + 1) (acc * radix + d) s)"

definition read_number :: "nat \<Rightarrow> nat \<Rightarrow> nat \<Rightarrow> bool \<Rightarrow> string \<Rightarrow> (nat \<times> string) option" where
  "read_number radix max_digits bound allow_zero_prefix s =
     (case read_digits radix max_digits 0 0 s of
        None \<Rightarrow> None
      | Some (n, v, r) \<Rightarrow>
          if n = 0 then None
          else if \<not> allow_zero_prefix \<and> take 1 s = ''0'' \<and> 1 < n then None
          else if v < bound then Some (v, r) else None)"

definition read_separator :: "char \<Rightarrow> nat \<Rightarrow> (string \<Rightarrow> 'a option) \<Rightarrow> string \<Rightarrow> 'a option" where
  "read_separator sep index inner s =
     (if 0 < index then (case s of [] \<Rightarrow> None | c # r \<Rightarrow> if c = sep then inner r else None) else inner s)"

definition read_octet :: "nat \<Rightarrow> string \<Rightarrow> (nat \<times> string) option" where
  "read_octet i = read_separator (CHR ''.'') i (read_number 10 3 256 False)"

definition read_ipv4_addr :: "string \<Rightarrow> (ipv4 \<times> string) option" where
  "read_ipv4_addr s =
     Option.bind (read_octet 0 s) (\<lambda>(a, s).
     Option.bind (read_octet 1 s) (\<lambda>(b, s).
     Option.bind (read_octet 2 s) (\<lambda>(c, s).
     Option.bind (read_octet 3 s) (\<lambda>(d, s).
       Some (Ipv4 (of_nat a) (of_nat b) (of_nat c) (of_nat d), s)))))"

definition be16 :: "u8 \<Rightarrow> u8 \<Rightarrow> u16" where
  "be16 a b = push_bit 8 (ucast a) OR ucast b"

fun strip_prefix_str :: "string \<Rightarrow> string \<Rightarrow> string option" where
  "strip_prefix_str [] s = Some s"
| "strip_prefix_str (p # ps) [] = None"
| "strip_prefix_str (p # ps) (c # cs) = (if p = c then strip_prefix_str ps cs else None)"

text \<open>\<open>read_groups k i\<close>: up to \<open>k\<close> more groups, \<open>i\<close> read before; the groups, whether the last two came
  from an embedded IPv4 address, and the rest.\<close>

fun read_groups :: "nat \<Rightarrow> nat \<Rightarrow> string \<Rightarrow> u16 list \<times> bool \<times> string" where
  "read_groups 0 i s = ([], False, s)"
| "read_groups (Suc k) i s =
     (case (if 0 < k then read_separator (CHR '':'') i read_ipv4_addr s else None) of
        Some (Ipv4 a b c d, r) \<Rightarrow> ([be16 a b, be16 c d], True, r)
      | None \<Rightarrow>
          (case read_separator (CHR '':'') i (read_number 16 4 65536 True) s of
             None \<Rightarrow> ([], False, s)
           | Some (g, r) \<Rightarrow> (let (gs, v4, r') = read_groups k (Suc i) r in (of_nat g # gs, v4, r'))))"

lemmas read_groups_numeral = read_groups.simps(2) [of "pred_numeral n" for n, folded numeral_eq_Suc]

definition read_ipv6_addr :: "string \<Rightarrow> (u16 list \<times> string) option" where
  "read_ipv6_addr s =
     (let (head, head_ipv4, r) = read_groups 8 0 s in
      if length head = 8 then Some (head, r)
      else if head_ipv4 then None
      else
        (case strip_prefix_str ''::'' r of
           None \<Rightarrow> None
         | Some r \<Rightarrow>
             (let (tail, _, r) = read_groups (8 - (length head + 1)) 0 r
              in Some (head @ replicate (8 - length tail - length head) 0 @ tail, r))))"

definition parse_ip_addr :: "string \<Rightarrow> ip_addr option" where
  "parse_ip_addr s =
     (case (case read_ipv4_addr s of
              Some (a, r) \<Rightarrow> Some (V4 a, r)
            | None \<Rightarrow> map_option (\<lambda>(g, r). (V6 g, r)) (read_ipv6_addr s)) of
        Some (ip, r) \<Rightarrow> if r = [] then Some ip else None
      | None \<Rightarrow> None)"

section \<open>Predicates on addresses\<close>

fun v4_is_loopback :: "ipv4 \<Rightarrow> bool" where
  "v4_is_loopback (Ipv4 a b c d) \<longleftrightarrow> a = 127"

fun v4_is_private :: "ipv4 \<Rightarrow> bool" where
  "v4_is_private (Ipv4 a b c d) \<longleftrightarrow> a = 10 \<or> (a = 172 \<and> 16 \<le> b \<and> b \<le> 31) \<or> (a = 192 \<and> b = 168)"

fun v4_is_link_local :: "ipv4 \<Rightarrow> bool" where
  "v4_is_link_local (Ipv4 a b c d) \<longleftrightarrow> a = 169 \<and> b = 254"

definition v4_is_unspecified :: "ipv4 \<Rightarrow> bool" where
  "v4_is_unspecified v \<longleftrightarrow> v = Ipv4 0 0 0 0"

definition v4_is_broadcast :: "ipv4 \<Rightarrow> bool" where
  "v4_is_broadcast v \<longleftrightarrow> v = Ipv4 255 255 255 255"

fun v4_first_octet :: "ipv4 \<Rightarrow> u8" where
  "v4_first_octet (Ipv4 a b c d) = a"

text \<open>\<open>Ipv6Addr::to_ipv4\<close>: the embedded address of \<open>::a.b.c.d\<close> and \<open>::ffff:a.b.c.d\<close>.\<close>

definition v6_to_ipv4 :: "u16 list \<Rightarrow> ipv4 option" where
  "v6_to_ipv4 seg =
     (case seg of
        [s0, s1, s2, s3, s4, s5, ab, cd] \<Rightarrow>
          if s0 = 0 \<and> s1 = 0 \<and> s2 = 0 \<and> s3 = 0 \<and> s4 = 0 \<and> (s5 = 0 \<or> s5 = 0xffff)
          then Some (Ipv4 (ucast (drop_bit 8 ab)) (ucast ab) (ucast (drop_bit 8 cd)) (ucast cd))
          else None
      | _ \<Rightarrow> None)"

section \<open>What the parser consumes\<close>

lemma to_digit_10: "to_digit 10 c = (if is_digit c then Some (code c - 48) else None)"
  by (simp add: to_digit_def)

lemma read_digits_split:
  "read_digits radix m n acc s = Some (n', v, r) \<Longrightarrow>
     \<exists>ds. s = ds @ r \<and> n' = n + length ds \<and> (\<forall>c \<in> set ds. to_digit radix c \<noteq> None) \<and>
       v = foldl (\<lambda>a c. a * radix + the (to_digit radix c)) acc ds"
proof (induction radix m n acc s rule: read_digits.induct)
  case (2 radix m n acc c s)
  show ?case
  proof (cases "to_digit radix c")
    case None
    then show ?thesis using 2(2) by (intro exI [of _ "[]"]) simp
  next
    case (Some d)
    then obtain ds where "s = ds @ r" "n' = n + 1 + length ds" "\<forall>c \<in> set ds. to_digit radix c \<noteq> None"
      "v = foldl (\<lambda>a c. a * radix + the (to_digit radix c)) (acc * radix + d) ds"
      using 2(1) [OF Some] 2(2) by (auto split: if_splits)
    then show ?thesis using Some by (intro exI [of _ "c # ds"]) simp
  qed
qed simp

lemma read_number_split:
  assumes "read_number radix m bound z s = Some (v, r)"
  obtains ds where "s = ds @ r" "ds \<noteq> []" "v < bound"
  using assms read_digits_split [of radix m 0 0 s]
  by (fastforce simp: read_number_def split: option.splits prod.splits if_splits)

lemma read_decimal_split:
  assumes "read_number 10 m bound False s = Some (v, r)"
  obtains ds where "s = ds @ r" "ds \<noteq> []" "v < bound" "list_all is_digit ds" "v = digits_val ds"
    "hd ds = CHR ''0'' \<Longrightarrow> ds = ''0''"
proof -
  obtain n where n: "read_digits 10 m 0 0 s = Some (n, v, r)" "n \<noteq> 0" "\<not> (take 1 s = ''0'' \<and> 1 < n)" "v < bound"
    using assms by (auto simp: read_number_def split: option.splits prod.splits if_splits)
  from read_digits_split [OF n(1)] obtain ds where ds: "s = ds @ r" "n = length ds"
    "\<forall>c \<in> set ds. to_digit 10 c \<noteq> None" "v = foldl (\<lambda>a c. a * 10 + the (to_digit 10 c)) 0 ds" by auto
  have dig: "list_all is_digit ds" using ds(3) by (auto simp: list_all_iff to_digit_10 split: if_splits)
  then have "v = digits_val ds"
    unfolding ds(4) digits_val_def by (intro foldl_cong refl) (auto simp: to_digit_10 list_all_iff)
  moreover have "ds = ''0''" if "hd ds = CHR ''0''"
    using that n(2,3) ds(1,2) by (cases ds; cases "tl ds") auto
  ultimately show thesis using n ds dig by (intro that [of ds]) auto
qed

lemma read_octet_split:
  assumes "read_octet i s = Some (v, r)"
  obtains ds where "s = (if 0 < i then CHR ''.'' # ds else ds) @ r" "ds \<noteq> []" "v < 256" "list_all is_digit ds"
    "v = digits_val ds" "hd ds = CHR ''0'' \<Longrightarrow> ds = ''0''"
  using assms by (auto simp: read_octet_def read_separator_def elim!: read_decimal_split split: if_splits list.splits)

text \<open>A dotted quad is four decimal numbers below 256 without leading zeros.\<close>

definition octet_str :: "string \<Rightarrow> nat \<Rightarrow> bool" where
  "octet_str ds v \<longleftrightarrow> ds \<noteq> [] \<and> list_all is_digit ds \<and> v = digits_val ds \<and> v < 256 \<and> (hd ds = CHR ''0'' \<longrightarrow> ds = ''0'')"

lemma read_octet_str:
  assumes "read_octet i s = Some (v, r)"
  obtains ds where "s = (if 0 < i then CHR ''.'' # ds else ds) @ r" "octet_str ds v"
  using assms by (elim read_octet_split) (auto simp: octet_str_def)

lemma read_ipv4_quad:
  assumes "read_ipv4_addr s = Some (x, r)"
  obtains a b c d va vb vc vd where "s = a @ ''.'' @ b @ ''.'' @ c @ ''.'' @ d @ r"
    "octet_str a va" "octet_str b vb" "octet_str c vc" "octet_str d vd"
    "x = Ipv4 (of_nat va) (of_nat vb) (of_nat vc) (of_nat vd)"
proof -
  obtain va s1 vb s2 vc s3 vd where r: "read_octet 0 s = Some (va, s1)" "read_octet 1 s1 = Some (vb, s2)"
    "read_octet 2 s2 = Some (vc, s3)" "read_octet 3 s3 = Some (vd, r)"
    "x = Ipv4 (of_nat va) (of_nat vb) (of_nat vc) (of_nat vd)"
    using assms by (auto simp: read_ipv4_addr_def bind_eq_Some_conv)
  obtain a where a: "s = a @ s1" "octet_str a va" using r(1) by (elim read_octet_str) simp
  obtain b where b: "s1 = CHR ''.'' # b @ s2" "octet_str b vb" using r(2) by (elim read_octet_str) simp
  obtain c where c: "s2 = CHR ''.'' # c @ s3" "octet_str c vc" using r(3) by (elim read_octet_str) simp
  obtain d where d: "s3 = CHR ''.'' # d @ r" "octet_str d vd" using r(4) by (elim read_octet_str) simp
  show thesis using a b c d r(5) by (intro that [of a b c d va vb vc vd]) simp_all
qed

text \<open>An IPv6 address contains a colon.\<close>

lemma read_separator_split:
  assumes "read_separator sep i inner s = Some x"
  shows "\<exists>s'. inner s' = Some x \<and> s = (if 0 < i then sep # s' else s')"
  using assms by (auto simp: read_separator_def split: if_splits list.splits)

lemma read_groups_split:
  "read_groups k i s = (gs, v4, r) \<Longrightarrow> \<exists>p. s = p @ r \<and> (0 < i \<and> gs \<noteq> [] \<longrightarrow> CHR '':'' \<in> set p)"
proof (induction k i s arbitrary: gs v4 r rule: read_groups.induct)
  case (2 k i s)
  show ?case
  proof (cases "if 0 < k then read_separator (CHR '':'') i read_ipv4_addr s else None")
    case (Some q)
    then obtain a b c d r' where q: "read_separator (CHR '':'') i read_ipv4_addr s = Some (Ipv4 a b c d, r')"
      "gs = [be16 a b, be16 c d]" "r = r'"
      using 2(2) by (cases q; cases "fst q") (auto split: if_splits)
    from read_separator_split [OF q(1)] obtain s' where s': "read_ipv4_addr s' = Some (Ipv4 a b c d, r')"
      "s = (if 0 < i then CHR '':'' # s' else s')" by blast
    obtain p where "s' = p @ r'" using s'(1) by (elim read_ipv4_quad) auto
    then show ?thesis using s'(2) q(3) by auto
  next
    case None
    show ?thesis
    proof (cases "read_separator (CHR '':'') i (read_number 16 4 65536 True) s")
      case None': None
      then show ?thesis using None 2(2) by simp
    next
      case (Some gr)
      obtain g r1 where gr: "gr = (g, r1)" by fastforce
      obtain gs' v4' where rec: "read_groups k (Suc i) r1 = (gs', v4', r)"
        using 2(2) None Some gr by (auto split: prod.splits)
      from read_separator_split [OF Some] obtain s' where s': "read_number 16 4 65536 True s' = Some (g, r1)"
        "s = (if 0 < i then CHR '':'' # s' else s')" using gr by blast
      obtain ds where "s' = ds @ r1" using s'(1) by (elim read_number_split)
      moreover obtain p where "r1 = p @ r" using 2(1) [OF None Some gr [symmetric] rec] by blast
      ultimately show ?thesis using s'(2) by auto
    qed
  qed
qed simp

lemma strip_prefix_str_iff: "strip_prefix_str p s = Some r \<longleftrightarrow> s = p @ r"
  by (induction p s rule: strip_prefix_str.induct) auto

lemma read_ipv6_colon:
  assumes "read_ipv6_addr s = Some (g, r)"
  shows "CHR '':'' \<in> set s"
proof -
  obtain hd' v4 r1 where h: "read_groups 8 0 s = (hd', v4, r1)" by (metis prod_cases3)
  obtain p where p: "s = p @ r1" using read_groups_split [OF h] by blast
  show ?thesis
  proof (cases "length hd' = 8")
    case True
    have "read_groups (Suc 7) 0 s = (hd', v4, r1)" using h by simp
    note h8 = this [unfolded read_groups.simps(2)]
    obtain x gs v r2 where x: "read_separator (CHR '':'') 0 (read_number 16 4 65536 True) s = Some (x, r2)"
      "read_groups 7 (Suc 0) r2 = (gs, v, r1)" "hd' = of_nat x # gs"
      using True h8 by (auto split: option.splits prod.splits ipv4.splits if_splits)
    then have "gs \<noteq> []" using True by auto
    then have "CHR '':'' \<in> set r2" using read_groups_split [OF x(2)] by auto
    moreover obtain ds where "s = ds @ r2" using x(1) by (auto simp: read_separator_def elim: read_number_split)
    ultimately show ?thesis by simp
  next
    case False
    then have "\<exists>r2. strip_prefix_str ''::'' r1 = Some r2"
      using assms h by (auto simp: read_ipv6_addr_def Let_def split: if_splits option.splits)
    then show ?thesis using p by (auto simp: strip_prefix_str_iff)
  qed
qed

lemma parse_ip_addr_cases:
  assumes "parse_ip_addr s = Some ip"
  obtains (v4) x where "ip = V4 x" "read_ipv4_addr s = Some (x, [])" | (v6) g where "ip = V6 g" "CHR '':'' \<in> set s"
  using assms read_ipv6_colon [of s]
  by (auto simp: parse_ip_addr_def split: option.splits if_splits)

end
