(* ===== verification/Profile.thy ===== *)
theory Profile
  imports Rust_Net Wire_Laws
begin

text \<open>
  The profiles of \<^verbatim>\<open>profile.rs\<close>: the signed display data of an identity with its codec, verification and
  rollback guard, and the guard on the avatar URL, which is attacker-chosen data: only \<open>https\<close>, and no host
  that denotes an internal address.
\<close>

definition PROFILE_DS :: bytes where "PROFILE_DS = ds_tag ''DMTAP-v0/profile''"

datatype profile_error =
  ProfileSigInvalid | AvatarHashMismatch | AvatarUrlUnsafe | PfStaleRollback | PfUnsupportedSuite u8 | PfBadEncoding cbor_error

fun profile_error_code :: "profile_error \<Rightarrow> u16" where
  "profile_error_code ProfileSigInvalid = 0x0119"
| "profile_error_code AvatarHashMismatch = 0x011A"
| "profile_error_code AvatarUrlUnsafe = 0x011B"
| "profile_error_code PfStaleRollback = 0x0105"
| "profile_error_code (PfUnsupportedSuite _) = 0x0101"
| "profile_error_code (PfBadEncoding _) = 0x020D"

section \<open>The avatar URL\<close>

definition v4_is_internal :: "ipv4 \<Rightarrow> bool" where
  "v4_is_internal v4 \<longleftrightarrow>
     v4_is_loopback v4 \<or> v4_is_private v4 \<or> v4_is_link_local v4 \<or> v4_is_unspecified v4 \<or> v4_is_broadcast v4 \<or>
     v4_first_octet v4 = 0"

fun ip_is_internal :: "ip_addr \<Rightarrow> bool" where
  "ip_is_internal (V4 v4) = v4_is_internal v4"
| "ip_is_internal (V6 seg) =
     (case v6_to_ipv4 seg of
        Some embedded \<Rightarrow> v4_is_internal embedded
      | None \<Rightarrow>
          seg = [0, 0, 0, 0, 0, 0, 0, 1] \<or> seg = [0, 0, 0, 0, 0, 0, 0, 0] \<or>
          (seg ! 0 AND 0xfe00) = 0xfc00 \<or> (seg ! 0 AND 0xffc0) = 0xfe80)"

definition is_hexdigit :: "char \<Rightarrow> bool" where
  "is_hexdigit c \<longleftrightarrow> is_digit c \<or> 97 \<le> code c \<and> code c \<le> 102 \<or> 65 \<le> code c \<and> code c \<le> 70"

definition strip_0x :: "string \<Rightarrow> string option" where
  "strip_0x l = (case strip_prefix_str ''0x'' l of Some h \<Rightarrow> Some h | None \<Rightarrow> strip_prefix_str ''0X'' l)"

definition is_numeric_label :: "string \<Rightarrow> bool" where
  "is_numeric_label l =
     (if l = [] then False
      else (case strip_0x l of
              Some hex \<Rightarrow> hex \<noteq> [] \<and> list_all is_hexdigit hex
            | None \<Rightarrow> list_all is_digit l))"

definition is_numeric_ip_host :: "string \<Rightarrow> bool" where
  "is_numeric_ip_host host \<longleftrightarrow> list_all is_numeric_label (split_on (CHR ''.'') host) \<and> list_ex is_digit host"

definition split_once_str :: "string \<Rightarrow> string \<Rightarrow> (string \<times> string) option" where
  "split_once_str pat s = map_option (\<lambda>i. (take i s, drop (i + length pat) s)) (find_str pat s)"

definition rsplit_once :: "char \<Rightarrow> string \<Rightarrow> (string \<times> string) option" where
  "rsplit_once c s = map_option (\<lambda>(b, a). (rev a, rev b)) (split_once c (rev s))"

definition avatar_scheme :: "string \<Rightarrow> string option" where
  "avatar_scheme url =
     (case split_once_str ''://'' url of
        Some (scheme, rest) \<Rightarrow> if eq_ignore_ascii_case scheme ''https'' then Some rest else None
      | None \<Rightarrow> None)"

definition avatar_host :: "string \<Rightarrow> string option" where
  "avatar_host after_scheme =
     (let authority = takeWhile (\<lambda>c. c \<notin> {CHR ''/'', CHR ''?'', CHR ''#''}) after_scheme in
      if authority = [] then None
      else
        (let host_port = last (split_on (CHR ''@'') authority) in
         Option.bind
           (case strip_prefix_str ''['' host_port of
              Some rest \<Rightarrow> map_option (\<lambda>e. take e rest) (find_char (CHR '']'') rest)
            | None \<Rightarrow>
                Some (case rsplit_once (CHR '':'') host_port of
                        Some (h, port) \<Rightarrow> if list_all is_digit port then h else host_port
                      | None \<Rightarrow> host_port))
           (\<lambda>host. if host = [] then None else Some host)))"

definition ends_with :: "string \<Rightarrow> string \<Rightarrow> bool" where
  "ends_with s suf \<longleftrightarrow> length suf \<le> length s \<and> drop (length s - length suf) s = suf"

definition host_allowed :: "string \<Rightarrow> bool" where
  "host_allowed host =
     (case parse_ip_addr host of
        Some ip \<Rightarrow> \<not> ip_is_internal ip
      | None \<Rightarrow>
          if is_numeric_ip_host host then False
          else (let lower = to_ascii_lowercase host in \<not> (lower = ''localhost'' \<or> ends_with lower ''.localhost'')))"

definition validate_avatar_url :: "string \<Rightarrow> profile_error + unit" where
  "validate_avatar_url url =
     and_then (ok_or (avatar_scheme url) AvatarUrlUnsafe) (\<lambda>after_scheme.
     and_then (ok_or (avatar_host after_scheme) AvatarUrlUnsafe) (\<lambda>host.
       if host_allowed host then Inr () else Inl AvatarUrlUnsafe))"

section \<open>Profiles\<close>

record avatar =
  av_url :: string
  av_hash :: "content_id option"

definition validate_url :: "avatar \<Rightarrow> profile_error + unit" where
  "validate_url a = validate_avatar_url (av_url a)"

definition av_to_cv :: "avatar \<Rightarrow> cv" where
  "av_to_cv a = Map ([(1, Text (av_url a))] @ (case av_hash a of None \<Rightarrow> [] | Some h \<Rightarrow> [(2, hash_cv h)]))"

definition av_from_cv :: "cv \<Rightarrow> cbor_error + avatar" where
  "av_from_cv = read_fields (
     req_as as_text 1 (\<lambda>url.
     opt_as as_hash 2 (\<lambda>hash.
       finish \<lparr>av_url = url, av_hash = hash\<rparr>)))"

record profile =
  pf_suite :: suite
  pf_ik :: bytes
  pf_version :: u64
  pf_display_name :: string
  pf_given_name :: "string option"
  pf_family_name :: "string option"
  pf_avatar :: "avatar option"
  pf_prev :: "content_id option"
  pf_ts :: u64
  pf_sig :: bytes

definition pf_to_cv :: "bool \<Rightarrow> profile \<Rightarrow> cv" where
  "pf_to_cv include_sig p = Map (
     [(1, suite_cv (pf_suite p)), (2, Bytes (pf_ik p)), (3, U64 (pf_version p)), (4, Text (pf_display_name p))]
     @ (case pf_given_name p of None \<Rightarrow> [] | Some g \<Rightarrow> [(5, Text g)])
     @ (case pf_family_name p of None \<Rightarrow> [] | Some f \<Rightarrow> [(6, Text f)])
     @ (case pf_avatar p of None \<Rightarrow> [] | Some a \<Rightarrow> [(7, av_to_cv a)])
     @ (case pf_prev p of None \<Rightarrow> [] | Some h \<Rightarrow> [(8, hash_cv h)])
     @ [(9, U64 (pf_ts p))]
     @ (if include_sig then [(10, Bytes (pf_sig p))] else []))"

definition pf_det_cbor :: "profile \<Rightarrow> bytes" where
  "pf_det_cbor p = encode (pf_to_cv True p)"

definition pf_signing_body :: "profile \<Rightarrow> bytes" where
  "pf_signing_body p = encode (pf_to_cv False p)"

definition pf_from_cv :: "cv \<Rightarrow> cbor_error + profile" where
  "pf_from_cv = read_fields (
     req_as suite_from_cv 1 (\<lambda>s.
     req_as as_bytes 2 (\<lambda>ik.
     req_as as_u64 3 (\<lambda>version.
     req_as as_text 4 (\<lambda>display_name.
     opt_as as_text 5 (\<lambda>given_name.
     opt_as as_text 6 (\<lambda>family_name.
     opt_as av_from_cv 7 (\<lambda>avatar.
     opt_as as_hash 8 (\<lambda>prev.
     req_as as_u64 9 (\<lambda>ts.
     req_as as_bytes 10 (\<lambda>sig.
       finish \<lparr>pf_suite = s, pf_ik = ik, pf_version = version, pf_display_name = display_name, pf_given_name = given_name,
         pf_family_name = family_name, pf_avatar = avatar, pf_prev = prev, pf_ts = ts, pf_sig = sig\<rparr>)))))))))))"

definition pf_from_det_cbor :: "bytes \<Rightarrow> profile_error + profile" where
  "pf_from_det_cbor b = map_err PfBadEncoding (from_bytes pf_from_cv b)"

definition pf_sign :: "crypto \<Rightarrow> identity_key \<Rightarrow> profile \<Rightarrow> profile" where
  "pf_sign C signer p = p\<lparr>pf_sig := sign_domain C signer PROFILE_DS (pf_signing_body p)\<rparr>"

definition pf_create :: "crypto \<Rightarrow> identity_key \<Rightarrow> u64 \<Rightarrow> string \<Rightarrow> string option \<Rightarrow> string option \<Rightarrow> avatar option \<Rightarrow>
    content_id option \<Rightarrow> u64 \<Rightarrow> profile" where
  "pf_create C signer version display_name given_name family_name avatar prev ts =
     pf_sign C signer \<lparr>pf_suite = Classical, pf_ik = key_public C signer, pf_version = version,
       pf_display_name = display_name, pf_given_name = given_name, pf_family_name = family_name, pf_avatar = avatar,
       pf_prev = prev, pf_ts = ts, pf_sig = []\<rparr>"

definition pf_verify :: "crypto \<Rightarrow> profile \<Rightarrow> profile_error + unit" where
  "pf_verify C p =
     (if \<not> is_supported (pf_suite p) then Inl (PfUnsupportedSuite (suite_as_u8 (pf_suite p)))
      else map_err (\<lambda>_. ProfileSigInvalid) (verify_domain C (pf_ik p) PROFILE_DS (pf_signing_body p) (pf_sig p)))"

definition pf_validate_avatar_url :: "profile \<Rightarrow> profile_error + unit" where
  "pf_validate_avatar_url p = (case pf_avatar p of Some a \<Rightarrow> validate_url a | None \<Rightarrow> Inr ())"

definition verify_avatar :: "crypto \<Rightarrow> profile \<Rightarrow> bytes \<Rightarrow> profile_error + unit" where
  "verify_avatar C p image_bytes =
     (case Option.bind (pf_avatar p) av_hash of
        Some h \<Rightarrow> if cid_verify C h image_bytes then Inr () else Inl AvatarHashMismatch
      | None \<Rightarrow> Inr ())"

definition pf_check_rollback :: "profile \<Rightarrow> u64 option \<Rightarrow> profile_error + unit" where
  "pf_check_rollback p last_pinned =
     (case last_pinned of
        Some v \<Rightarrow> if pf_version p \<le> v then Inl PfStaleRollback else Inr ()
      | None \<Rightarrow> Inr ())"

definition pf_content_id :: "crypto \<Rightarrow> profile \<Rightarrow> content_id" where
  "pf_content_id C p = content_id_of C (pf_det_cbor p)"

section \<open>Codec\<close>

definition wf_av :: "avatar \<Rightarrow> bool" where
  "wf_av a \<longleftrightarrow> rust_string (av_url a) \<and> pred_option (\<lambda>h. short (cid_bytes h)) (av_hash a)"

lemma av_cv_object: "cv_object av_to_cv av_from_cv wf_av 1"
  by (rule cv_fieldsI [OF av_to_cv_def av_from_cv_def])
    (auto simp: wf_av_def wire_simps MAX_NESTING_DEPTH_def pred_option_Some elim!: prim_readE)

lemma wf_av_written [simp]:
  "wf_av a \<Longrightarrow> canon (av_to_cv a)" "wf_av a \<Longrightarrow> fits_depth (Suc 0) (av_to_cv a)" "wf_av a \<Longrightarrow> av_from_cv (av_to_cv a) = Inr a"
  using cv_object.axioms(1) [OF av_cv_object]
  by (simp_all add: cv_writer.canon_to_cv cv_writer.fits_to_cv cv_writer.from_to_cv)

lemmas av_readE = cv_object.reads_object [OF av_cv_object, unfolded One_nat_def, THEN [2] reading_optE]

definition wf_pf :: "profile \<Rightarrow> bool" where
  "wf_pf p \<longleftrightarrow> short (pf_ik p) \<and> rust_string (pf_display_name p) \<and> pred_option rust_string (pf_given_name p) \<and>
     pred_option rust_string (pf_family_name p) \<and> pred_option wf_av (pf_avatar p) \<and>
     pred_option (\<lambda>h. short (cid_bytes h)) (pf_prev p) \<and> short (pf_sig p)"

lemma pf_cv_object: "cv_object (pf_to_cv True) pf_from_cv wf_pf 0"
  by (rule cv_fieldsI [OF pf_to_cv_def pf_from_cv_def])
    (auto simp: wf_pf_def wire_simps MAX_NESTING_DEPTH_def pred_option_Some elim!: prim_readE av_readE)

lemma pf_signed: "signed_object (pf_to_cv True) pf_from_cv wf_pf (pf_to_cv False) (\<lambda>p. p\<lparr>pf_sig := []\<rparr>)"
  by (rule signed_fieldsI [OF pf_cv_object pf_to_cv_def pf_to_cv_def, where s = "(10, Bytes [])"])
    (auto simp: wf_pf_def MAX_NESTING_DEPTH_def pred_option_Some)

interpretation pf: signed_object "pf_to_cv True" pf_from_cv wf_pf "pf_to_cv False" "\<lambda>p. p\<lparr>pf_sig := []\<rparr>"
  by (rule pf_signed)

lemma pf_decode_exact: "pf_from_det_cbor b = Inr p \<longleftrightarrow> wf_pf p \<and> b = pf_det_cbor p"
  by (simp add: pf_from_det_cbor_def pf_det_cbor_def pf.from_bytes_iff)

lemma pf_create_verifies:
  assumes "ed25519_law C" "length k = 32"
  shows "pf_verify C (pf_create C k v n g f a prev ts) = Inr ()"
  using verify_sign_domain [OF assms]
  by (simp add: pf_verify_def pf_create_def pf_sign_def pf_signing_body_def pf_to_cv_def)

section \<open>Numeric hosts\<close>















lemmas guard_defs = validate_avatar_url_def avatar_scheme_def avatar_host_def host_allowed_def split_once_str_def rsplit_once_def
  parse_ip_addr_def read_ipv4_addr_def read_octet_def read_separator_def read_number_def to_digit_def read_ipv6_addr_def
  is_numeric_ip_host_def is_numeric_label_def strip_0x_def is_digit_def is_hexdigit_def code_def eq_ignore_ascii_case_def
  to_ascii_lowercase_def ascii_lower_def ends_with_def v4_is_internal_def v4_is_unspecified_def v4_is_broadcast_def v6_to_ipv4_def
  Let_def be16_def read_groups_numeral replicate_Suc [of "pred_numeral n" for n, folded numeral_eq_Suc]

section \<open>The refused address ranges\<close>


















text \<open>What the guard does not catch: the root label.  A fully qualified host with a trailing dot is no IP literal and
  its last label is empty, hence not numeric, so internal addresses and \<open>localhost\<close> pass in this
  spelling.\<close>

lemma trailing_dot_passes:
  "validate_avatar_url ''https://127.0.0.1./a'' = Inr ()" "validate_avatar_url ''https://localhost./a'' = Inr ()"
  by (simp_all add: guard_defs)

text \<open>Nor are the shared address space, benchmarking and multicast ranges among the internal addresses.\<close>

lemma non_global_passes:
  "validate_avatar_url ''https://100.64.0.1/a'' = Inr ()" "validate_avatar_url ''https://224.0.0.1/a'' = Inr ()"
  by (simp_all add: guard_defs)

lemma internal_forms_refused:
  "validate_avatar_url ''https://user@0x7f.1/a'' = Inl AvatarUrlUnsafe"
  "validate_avatar_url ''https://[::ffff:10.0.0.1]:443/'' = Inl AvatarUrlUnsafe"
  "validate_avatar_url ''http://1.2.3.4/'' = Inl AvatarUrlUnsafe"
  by (simp_all add: guard_defs)

end
