(* ===== verification/Pub_Feed.thy ===== *)
theory Pub_Feed
  imports Pub_Object "HOL-Library.Option_ord" "HOL-Library.Sublist"
begin

text \<open>
  Author feeds of \<^verbatim>\<open>pubobj.rs\<close>: the chain check, the anti-rollback rule and the stateful
  \<open>FeedFollower\<close>, whose memory of accepted positions makes a fork visible across fetches.
  \<open>prev_entry.seq + 1\<close> and \<open>last + 1\<close> are 64-bit additions that wrap, as in a release build; the
  lemmas show that no wrapped position is ever accepted.
\<close>

fun feed_chain_from :: "crypto \<Rightarrow> feed_entry option \<Rightarrow> feed_entry list \<Rightarrow> pub_error + unit" where
  "feed_chain_from C p [] = Inr ()"
| "feed_chain_from C p (e # es) =
     and_then (check_genesis (fe_seq e) (fe_prev e)) (\<lambda>_.
       case p of
         None \<Rightarrow> feed_chain_from C (Some e) es
       | Some prev_entry \<Rightarrow>
           if fe_seq e \<noteq> fe_seq prev_entry + 1 then Inl PubFeedChainBroken
           else (case fe_prev e of
                   Some i \<Rightarrow> if i = entry_id C prev_entry then feed_chain_from C (Some e) es else Inl PubFeedChainBroken
                 | None \<Rightarrow> Inl PubFeedChainBroken))"

definition verify_feed_chain :: "crypto \<Rightarrow> feed_entry list \<Rightarrow> pub_error + unit" where
  "verify_feed_chain C entries = feed_chain_from C None entries"

datatype rollback_decision = AcceptNew | AcceptIdempotent

definition check_anti_rollback :: "u64 \<Rightarrow> content_id option \<Rightarrow> u64 \<Rightarrow> content_id \<Rightarrow> pub_error + rollback_decision" where
  "check_anti_rollback last_accepted_seq last_tip presented_seq presented_tip =
     (if presented_seq < last_accepted_seq then Inl PubFeedRollback
      else if presented_seq > last_accepted_seq then Inr AcceptNew
      else (case last_tip of
              Some t \<Rightarrow> if t \<noteq> presented_tip then Inl PubFeedChainBroken else Inr AcceptIdempotent
            | None \<Rightarrow> Inr AcceptIdempotent))"

definition verify_feed_chain_to_head :: "crypto \<Rightarrow> feed_entry list \<Rightarrow> feed_head \<Rightarrow> pub_error + unit" where
  "verify_feed_chain_to_head C entries head =
     and_then (verify_feed_chain C entries) (\<lambda>_.
     and_then (ok_or (if entries = [] then None else Some (last entries)) PubFeedChainBroken) (\<lambda>e.
       if fe_seq e \<noteq> fh_seq head \<or> entry_id C e \<noteq> fh_tip head then Inl PubFeedChainBroken else Inr ()))"

record feed_follower =
  ff_publisher :: bytes
  ff_last_seq :: "u64 option"
  ff_last_tip :: "content_id option"
  ff_accepted :: "u64 \<rightharpoonup> content_id"

definition feed_new :: "bytes \<Rightarrow> feed_follower" where
  "feed_new publisher =
     \<lparr>ff_publisher = publisher, ff_last_seq = None, ff_last_tip = None, ff_accepted = Map.empty\<rparr>"

text \<open>Step 4 of \<open>accept\<close>: the range joins the retained history.\<close>

definition feed_join :: "feed_follower \<Rightarrow> feed_entry \<Rightarrow> pub_error + unit" where
  "feed_join s first =
     (case ff_last_seq s of
        None \<Rightarrow> Inr ()
      | Some l \<Rightarrow>
          if fe_seq first > l + 1 then Inl PubFeedChainBroken
          else if fe_seq first = l + 1 then
            (case (fe_prev first, ff_last_tip s) of
               (Some p, Some t) \<Rightarrow> if p = t then Inr () else Inl PubFeedChainBroken
             | _ \<Rightarrow> Inl PubFeedChainBroken)
          else Inr ())"

text \<open>Step 5: an entry that contradicts a committed position.\<close>

definition feed_contradicts :: "crypto \<Rightarrow> feed_follower \<Rightarrow> feed_entry \<Rightarrow> bool" where
  "feed_contradicts C s e =
     (case ff_accepted s (fe_seq e) of Some known \<Rightarrow> known \<noteq> entry_id C e | None \<Rightarrow> False)"

definition feed_record :: "crypto \<Rightarrow> feed_entry list \<Rightarrow> (u64 \<rightharpoonup> content_id) \<Rightarrow> (u64 \<rightharpoonup> content_id)" where
  "feed_record C es m = fold (\<lambda>e m. m(fe_seq e \<mapsto> entry_id C e)) es m"

definition feed_accept :: "crypto \<Rightarrow> feed_follower \<Rightarrow> feed_head \<Rightarrow> feed_entry list \<Rightarrow>
    pub_error + rollback_decision \<times> feed_follower" where
  "feed_accept C s head entries =
     (if fh_publisher head \<noteq> ff_publisher s then Inl PubFeedSigInvalid
      else
        and_then (fh_verify C head) (\<lambda>_.
        and_then (case ff_last_seq s of
                    Some l \<Rightarrow> check_anti_rollback l (ff_last_tip s) (fh_seq head) (fh_tip head)
                  | None \<Rightarrow> Inr AcceptNew) (\<lambda>decision.
        if entries = [] then (if decision = AcceptNew then Inl PubFeedChainBroken else Inr (decision, s))
        else
          and_then (verify_feed_chain_to_head C entries head) (\<lambda>_.
          and_then (feed_join s (hd entries)) (\<lambda>_.
          if list_ex (feed_contradicts C s) entries then Inl PubFeedChainBroken
          else
            (let s1 = s\<lparr>ff_accepted := feed_record C entries (ff_accepted s)\<rparr>;
                 s2 = (if (case ff_last_seq s of None \<Rightarrow> True | Some l \<Rightarrow> fh_seq head \<ge> l)
                       then s1\<lparr>ff_last_seq := Some (fh_seq head), ff_last_tip := Some (fh_tip head)\<rparr>
                       else s1)
             in Inr (decision, s2)))))))"

text \<open>A follower over a sequence of fetches: a refused fetch leaves it as it was.\<close>

fun feed_run :: "crypto \<Rightarrow> feed_follower \<Rightarrow> (feed_head \<times> feed_entry list) list \<Rightarrow> feed_follower" where
  "feed_run C s [] = s"
| "feed_run C s ((h, es) # fs) =
     feed_run C (case feed_accept C s h es of Inl _ \<Rightarrow> s | Inr (_, s') \<Rightarrow> s') fs"

section \<open>Chains\<close>

definition follows :: "crypto \<Rightarrow> feed_entry \<Rightarrow> feed_entry \<Rightarrow> bool" where
  "follows C p e \<longleftrightarrow> fe_seq e = fe_seq p + 1 \<and> fe_prev e = Some (entry_id C p)"

definition genesis_ok :: "feed_entry \<Rightarrow> bool" where
  "genesis_ok e \<longleftrightarrow> (fe_seq e = 0 \<longleftrightarrow> fe_prev e = None)"

lemma feed_chain_from_iff:
  "feed_chain_from C p es = Inr () \<longleftrightarrow>
     successively (follows C) ((case p of None \<Rightarrow> [] | Some q \<Rightarrow> [q]) @ es) \<and> (\<forall>e \<in> set es. genesis_ok e)"
proof (induction es arbitrary: p)
  case Nil
  then show ?case by (simp split: option.split)
next
  case (Cons e es)
  then show ?case by (cases p) (auto simp: follows_def genesis_ok_def split: option.splits if_splits)
qed

lemma verify_feed_chain_iff:
  "verify_feed_chain C es = Inr () \<longleftrightarrow> successively (follows C) es \<and> (\<forall>e \<in> set es. genesis_ok e)"
  by (simp add: verify_feed_chain_def feed_chain_from_iff)

lemma verify_to_head_iff:
  "verify_feed_chain_to_head C es h = Inr () \<longleftrightarrow>
     es \<noteq> [] \<and> verify_feed_chain C es = Inr () \<and> fe_seq (last es) = fh_seq h \<and> entry_id C (last es) = fh_tip h"
  by (auto simp: verify_feed_chain_to_head_def split: if_splits)

text \<open>A linked entry is never the wrapped position zero, so positions grow without wrapping.\<close>

lemma follows_Suc: "follows C p e \<Longrightarrow> genesis_ok e \<Longrightarrow> unat (fe_seq e) = Suc (unat (fe_seq p))"
  using unatSuc [of "fe_seq p"] by (auto simp: follows_def genesis_ok_def add.commute)

lemma chain_step:
  assumes "verify_feed_chain C es = Inr ()" "Suc i < length es"
  shows "follows C (es ! i) (es ! Suc i)" "unat (fe_seq (es ! Suc i)) = Suc (unat (fe_seq (es ! i)))"
proof -
  have s: "successively (follows C) es" "genesis_ok (es ! Suc i)"
    using assms by (auto simp: verify_feed_chain_iff)
  from s(1) assms(2) show f: "follows C (es ! i) (es ! Suc i)" by (simp add: successively_conv_nth)
  show "unat (fe_seq (es ! Suc i)) = Suc (unat (fe_seq (es ! i)))" by (rule follows_Suc [OF f s(2)])
qed

lemma chain_seq:
  assumes "verify_feed_chain C es = Inr ()" "i < length es"
  shows "unat (fe_seq (es ! i)) = unat (fe_seq (hd es)) + i"
  using assms(2)
proof (induction i)
  case 0
  then show ?case by (simp add: hd_conv_nth)
next
  case (Suc i)
  then show ?case using chain_step(2) [OF assms(1), of i] by simp
qed

lemma entry_id_binds:
  "wf_fe e \<Longrightarrow> wf_fe e' \<Longrightarrow> entry_id C e = entry_id C e' \<Longrightarrow> e = e' \<or> collision C [fe_det_cbor e] [fe_det_cbor e']"
  using content_id_of_binds [of C "fe_det_cbor e" "fe_det_cbor e'"] fe.det_cbor_inj [of e e']
  by (auto simp: entry_id_def fe_det_cbor_def)

lemma chain_snoc:
  "verify_feed_chain C (es @ [e]) = Inr () \<longleftrightarrow>
     verify_feed_chain C es = Inr () \<and> genesis_ok e \<and> (es \<noteq> [] \<longrightarrow> follows C (last es) e)"
  by (auto simp: verify_feed_chain_iff successively_append_iff)

lemma chains_agree:
  assumes "verify_feed_chain C es = Inr ()" "verify_feed_chain C es' = Inr ()" "es \<noteq> []" "es' \<noteq> []"
    and "entry_id C (last es) = entry_id C (last es')" "\<forall>e \<in> set es. wf_fe e" "\<forall>e \<in> set es'. wf_fe e"
  shows "suffix es es' \<or> suffix es' es \<or> collision C (map fe_det_cbor es) (map fe_det_cbor es')"
  using assms
proof (induction es arbitrary: es' rule: rev_induct)
  case (snoc e es)
  obtain e' ds where es': "es' = ds @ [e']" using snoc.prems(4) by (cases es' rule: rev_cases) auto
  let ?coll = "collision C (map fe_det_cbor (es @ [e])) (map fe_det_cbor es')"
  have "e = e' \<or> ?coll"
    using entry_id_binds [of e e' C] snoc.prems(5-7) by (auto simp: es' collision_def)
  moreover have ?case if e: "e = e'" "es = [] \<or> ds = []" using that by (auto simp: es')
  moreover have ?case if e: "e = e'" "es \<noteq> []" "ds \<noteq> []"
  proof -
    have "entry_id C (last es) = entry_id C (last ds)"
      using snoc.prems(1,2) e by (simp add: es' chain_snoc follows_def)
    then have "suffix es ds \<or> suffix ds es \<or> collision C (map fe_det_cbor es) (map fe_det_cbor ds)"
      using snoc.prems e by (intro snoc.IH) (auto simp: es' chain_snoc)
    then show ?thesis using e(1) by (auto simp: es' collision_def)
  qed
  ultimately show ?case by blast
qed simp

text \<open>C8. A signed head pins down its feed: two ranges of entries that both verify against the
  same head agree on every position they share (one is a suffix of the other), or their encodings contain
  an explicit BLAKE3 collision.\<close>

theorem feed_head_binds_history:
  assumes "verify_feed_chain_to_head C es h = Inr ()" "verify_feed_chain_to_head C es' h = Inr ()"
    and "\<forall>e \<in> set es. wf_fe e" "\<forall>e \<in> set es'. wf_fe e"
  shows "suffix es es' \<or> suffix es' es \<or> collision C (map fe_det_cbor es) (map fe_det_cbor es')"
  using assms by (intro chains_agree) (simp_all add: verify_to_head_iff)

definition demo_entries :: "feed_entry list" where
  "demo_entries =
     (let e0 = \<lparr>fe_seq = 0, fe_announce = ContentId [], fe_prev = None, fe_ts = 0\<rparr>;
          e1 = \<lparr>fe_seq = 1, fe_announce = ContentId [], fe_prev = Some (entry_id toy_crypto e0), fe_ts = 0\<rparr>
      in [e0, e1])"

definition demo_feed_head :: feed_head where
  "demo_feed_head = \<lparr>fh_v = PUB_V0, fh_suite = Classical, fh_publisher = [], fh_seq = 1,
     fh_tip = entry_id toy_crypto (last demo_entries), fh_ts = 0, fh_signer = [], fh_sig = [], fh_topic = []\<rparr>"

lemma demo_entries_ok:
  "verify_feed_chain toy_crypto demo_entries = Inr ()" "verify_feed_chain toy_crypto (tl demo_entries) = Inr ()"
  by (simp_all add: verify_feed_chain_iff demo_entries_def Let_def follows_def genesis_ok_def)

lemma toy_content_id_length [simp]: "length (cid_bytes (content_id_of toy_crypto b)) = 33"
  by (simp add: content_id_of_def toy_crypto_def)

lemma demo_entries_wf: "\<forall>e \<in> set demo_entries. wf_fe e"
  by (simp add: demo_entries_def Let_def wf_fe_def entry_id_def)

theorem feed_head_binds_history_witness:
  "suffix (tl demo_entries) demo_entries \<or> suffix demo_entries (tl demo_entries) \<or>
   collision toy_crypto (map fe_det_cbor (tl demo_entries)) (map fe_det_cbor demo_entries)"
  by (rule feed_head_binds_history [where h = demo_feed_head])
    (use demo_entries_ok demo_entries_wf in \<open>simp_all add: verify_to_head_iff demo_feed_head_def demo_entries_def Let_def\<close>)

section \<open>What a follower has accepted\<close>

text \<open>
  \<open>history C m lo l\<close>: the accepted positions of \<open>m\<close> are \<open>lo..l\<close> without a gap, and they are one
  chain: each is the address of an entry with that position which points to the accepted predecessor.
\<close>

definition chained_at :: "crypto \<Rightarrow> (u64 \<rightharpoonup> content_id) \<Rightarrow> u64 \<Rightarrow> u64 \<Rightarrow> bool" where
  "chained_at C m lo n \<longleftrightarrow>
     (\<exists>e. fe_seq e = n \<and> genesis_ok e \<and> m n = Some (entry_id C e) \<and> (lo < n \<longrightarrow> fe_prev e = m (n - 1)))"

definition history :: "crypto \<Rightarrow> (u64 \<rightharpoonup> content_id) \<Rightarrow> u64 \<Rightarrow> u64 \<Rightarrow> bool" where
  "history C m lo l \<longleftrightarrow> lo \<le> l \<and> dom m = {lo..l} \<and> (\<forall>n \<in> {lo..l}. chained_at C m lo n)"

definition feed_inv :: "crypto \<Rightarrow> feed_follower \<Rightarrow> bool" where
  "feed_inv C s \<longleftrightarrow>
     (case ff_last_seq s of
        None \<Rightarrow> ff_last_tip s = None \<and> ff_accepted s = Map.empty
      | Some l \<Rightarrow> ff_last_tip s = ff_accepted s l \<and> (\<exists>lo. history C (ff_accepted s) lo l))"

text \<open>The map that records a chain.\<close>

lemma feed_record_snoc [simp]: "feed_record C (es @ [e]) m = (feed_record C es m)(fe_seq e \<mapsto> entry_id C e)"
  by (simp add: feed_record_def)

lemma feed_record_Nil [simp]: "feed_record C [] m = m"
  by (simp add: feed_record_def)

lemma feed_record_other: "n \<notin> fe_seq ` set es \<Longrightarrow> feed_record C es m n = m n"
  by (induction es rule: rev_induct) auto

lemma chain_seqs:
  assumes "verify_feed_chain C es = Inr ()" "es \<noteq> []"
  shows "fe_seq ` set es = {fe_seq (hd es)..fe_seq (last es)}" "distinct (map fe_seq es)"
proof -
  have last: "unat (fe_seq (last es)) = unat (fe_seq (hd es)) + (length es - 1)"
    using chain_seq [OF assms(1), of "length es - 1"] assms(2) by (simp add: last_conv_nth)
  have up: "n \<in> fe_seq ` set es" if "fe_seq (hd es) \<le> n" "n \<le> fe_seq (last es)" for n
  proof -
    define i where "i = unat n - unat (fe_seq (hd es))"
    have i: "i < length es" "unat (fe_seq (hd es)) + i = unat n"
      using that last assms(2) by (auto simp: i_def word_le_nat_alt simp flip: length_greater_0_conv)
    then have "fe_seq (es ! i) = n" using chain_seq [OF assms(1), of i] by (simp add: word_unat_eq_iff)
    then show ?thesis using i(1) by (metis image_eqI nth_mem)
  qed
  have down: "fe_seq (hd es) \<le> fe_seq e \<and> fe_seq e \<le> fe_seq (last es)" if e: "e \<in> set es" for e
  proof -
    obtain i where "i < length es" "e = es ! i" using e by (auto simp: in_set_conv_nth)
    then show ?thesis using chain_seq [OF assms(1), of i] last by (simp add: word_le_nat_alt)
  qed
  show "fe_seq ` set es = {fe_seq (hd es)..fe_seq (last es)}"
  proof (intro equalityI subsetI)
    fix n
    assume "n \<in> {fe_seq (hd es)..fe_seq (last es)}"
    then show "n \<in> fe_seq ` set es" using up by simp
  next
    fix n
    assume "n \<in> fe_seq ` set es"
    then obtain e where "e \<in> set es" "n = fe_seq e" by blast
    then show "n \<in> {fe_seq (hd es)..fe_seq (last es)}" using down [of e] by simp
  qed
  show "distinct (map fe_seq es)"
    unfolding distinct_conv_nth
  proof (intro allI impI)
    fix i j
    assume "i < length (map fe_seq es)" "j < length (map fe_seq es)" "i \<noteq> j"
    then show "map fe_seq es ! i \<noteq> map fe_seq es ! j"
      using chain_seq [OF assms(1), of i] chain_seq [OF assms(1), of j] by auto
  qed
qed

lemma feed_record_at:
  "distinct (map fe_seq es) \<Longrightarrow> e \<in> set es \<Longrightarrow> feed_record C es m (fe_seq e) = Some (entry_id C e)"
  by (induction es rule: rev_induct) (auto simp: image_iff)

lemma record_extends:
  assumes "\<not> list_ex (feed_contradicts C s) es" "distinct (map fe_seq es)"
  shows "ff_accepted s \<subseteq>\<^sub>m feed_record C es (ff_accepted s)"
  unfolding map_le_def
proof
  fix n
  assume n: "n \<in> dom (ff_accepted s)"
  show "ff_accepted s n = feed_record C es (ff_accepted s) n"
  proof (cases "n \<in> fe_seq ` set es")
    case True
    then obtain e where e: "e \<in> set es" "n = fe_seq e" by blast
    then have "\<not> feed_contradicts C s e" using assms(1) by (simp add: list_ex_iff)
    then show ?thesis using n e feed_record_at [OF assms(2) e(1)] by (auto simp: feed_contradicts_def)
  qed (simp add: feed_record_other)
qed

lemma record_dom:
  assumes "verify_feed_chain C es = Inr ()" "es \<noteq> []"
  shows "dom (feed_record C es m) = dom m \<union> {fe_seq (hd es)..fe_seq (last es)}"
proof -
  have "n \<in> dom (feed_record C es m) \<longleftrightarrow> n \<in> dom m \<or> n \<in> fe_seq ` set es" for n
  proof (cases "n \<in> fe_seq ` set es")
    case True
    then obtain e where "e \<in> set es" "n = fe_seq e" by blast
    then show ?thesis using feed_record_at [OF chain_seqs(2) [OF assms], of e C m] by auto
  qed (simp add: domIff feed_record_other)
  then show ?thesis using chain_seqs(1) [OF assms] by blast
qed

text \<open>An entry of a recorded range is chained to its predecessor, unless it is the first of the range.\<close>

lemma record_chained:
  assumes chain: "verify_feed_chain C es = Inr ()" "es \<noteq> []" and n: "fe_seq (hd es) < n" "n \<le> fe_seq (last es)"
  shows "chained_at C (feed_record C es m) lo n"
proof -
  have "n \<in> fe_seq ` set es" using n chain_seqs(1) [OF chain] by simp
  then obtain i where i: "i < length es" "n = fe_seq (es ! i)" by (auto simp: in_set_conv_nth)
  with n(1) chain(2) obtain j where j: "i = Suc j" by (cases i) (auto simp: hd_conv_nth)
  note step = chain_step [OF chain(1), of j]
  have f: "follows C (es ! j) (es ! i)" using step(1) i(1) j by simp
  have "n - 1 = fe_seq (es ! j)" using f i(2) by (simp add: follows_def)
  moreover have "feed_record C es m (fe_seq (es ! j)) = Some (entry_id C (es ! j))"
    "feed_record C es m n = Some (entry_id C (es ! i))"
    using feed_record_at [OF chain_seqs(2) [OF chain], of _ C m] i j by auto
  moreover have "genesis_ok (es ! i)" using chain(1) i(1) by (simp add: verify_feed_chain_iff)
  ultimately show ?thesis using f i by (auto simp: chained_at_def follows_def intro!: exI [of _ "es ! i"])
qed

lemma record_first:
  assumes chain: "verify_feed_chain C es = Inr ()" "es \<noteq> []"
  shows "feed_record C es m (fe_seq (hd es)) = Some (entry_id C (hd es))" "genesis_ok (hd es)"
    "feed_record C es m (fe_seq (last es)) = Some (entry_id C (last es))"
    "fe_seq (hd es) \<le> fe_seq (last es)"
  using feed_record_at [OF chain_seqs(2) [OF chain], of _ C m] chain chain_seq [OF chain(1), of "length es - 1"]
  by (auto simp: verify_feed_chain_iff last_conv_nth word_le_nat_alt)

lemma first_history:
  assumes "verify_feed_chain C es = Inr ()" "es \<noteq> []"
  shows "history C (feed_record C es Map.empty) (fe_seq (hd es)) (fe_seq (last es))"
  unfolding history_def
proof (intro conjI ballI)
  fix n
  assume n: "n \<in> {fe_seq (hd es)..fe_seq (last es)}"
  show "chained_at C (feed_record C es Map.empty) (fe_seq (hd es)) n"
  proof (cases "n = fe_seq (hd es)")
    case True
    then show ?thesis using record_first [OF assms] by (auto simp: chained_at_def)
  next
    case False
    then show ?thesis using n by (intro record_chained [OF assms]) auto
  qed
qed (use record_first [OF assms] record_dom [OF assms] in simp_all)

lemma word_pred_in: "lo < n \<Longrightarrow> n \<le> l \<Longrightarrow> n - 1 \<in> {lo..l :: u64}"
  by (auto simp: word_le_nat_alt word_less_nat_alt unat_sub_if' intro!: Suc_leI)

lemma chained_mono:
  assumes "chained_at C m lo n" "m \<subseteq>\<^sub>m m'" "n - 1 \<in> dom m" "lo < n"
  shows "chained_at C m' lo' n"
proof -
  obtain e where e: "fe_seq e = n" "genesis_ok e" "m n = Some (entry_id C e)" "fe_prev e = m (n - 1)"
    using assms(1,4) by (auto simp: chained_at_def)
  moreover have "m' n = m n" using assms(2) e(3) by (metis map_le_def domI)
  moreover have "m' (n - 1) = m (n - 1)" using assms(2,3) by (metis map_le_def)
  ultimately show ?thesis unfolding chained_at_def by metis
qed

lemma extend_history:
  assumes chain: "verify_feed_chain C es = Inr ()" "es \<noteq> []"
    and old: "history C (ff_accepted s) lo l" "\<not> list_ex (feed_contradicts C s) es"
    and join: "fe_seq (hd es) \<le> l \<or> l < fe_seq (hd es) \<and> fe_seq (hd es) - 1 = l \<and> fe_prev (hd es) = ff_accepted s l"
    and last: "l \<le> fe_seq (last es)"
  shows "history C (feed_record C es (ff_accepted s)) (min lo (fe_seq (hd es))) (fe_seq (last es))"
  unfolding history_def
proof (intro conjI ballI)
  let ?m = "ff_accepted s" and ?m' = "feed_record C es (ff_accepted s)" and ?f = "fe_seq (hd es)"
  have le: "?m \<subseteq>\<^sub>m ?m'" by (rule record_extends [OF old(2) chain_seqs(2) [OF chain]])
  have h: "lo \<le> l" "dom ?m = {lo..l}" "\<And>n. n \<in> {lo..l} \<Longrightarrow> chained_at C ?m lo n"
    using old(1) by (auto simp: history_def)
  have f: "?f \<le> l \<or> ?f - 1 = l \<and> l < ?f" using join by blast
  show "min lo ?f \<le> fe_seq (last es)" using order_trans [OF h(1) last] by (simp add: min_le_iff_disj)
  have gap: "n \<le> l" if "n < ?f" for n
    using f that by (auto simp: word_less_nat_alt word_le_nat_alt unat_sub_if')
  show "dom ?m' = {min lo ?f..fe_seq (last es)}"
    using record_dom [OF chain, of ?m] h(1,2) last record_first(4) [OF chain] gap
    by (auto simp: min_le_iff_disj not_le)
  fix n
  assume n: "n \<in> {min lo ?f..fe_seq (last es)}"
  consider "?f < n" | "n = ?f" | "n < ?f" by fastforce
  then show "chained_at C ?m' (min lo ?f) n"
  proof cases
    case 1
    then show ?thesis using n by (intro record_chained [OF chain]) auto
  next
    case 2
    show ?thesis
    proof (cases "lo < n \<and> n \<le> l")
      case True
      then show ?thesis using chained_mono [OF h(3) le] word_pred_in [of lo n l] h(2) by auto
    next
      case False
      have "fe_prev (hd es) = ?m' (n - 1)" if "lo < n"
      proof -
        have "n - 1 = l" "fe_prev (hd es) = ?m l" using join False 2 that by auto
        moreover have "?m l = ?m' l" using le h(1,2) by (auto simp: map_le_def)
        ultimately show ?thesis by simp
      qed
      then show ?thesis using record_first [OF chain] 2 by (auto simp: chained_at_def min_def split: if_splits)
    qed
  next
    case 3
    have n': "n \<in> {lo..l}" using 3 n gap [of n] by (auto simp: min_le_iff_disj)
    then show ?thesis
    proof (cases "lo < n")
      case True
      then show ?thesis using chained_mono [OF h(3) [OF n'] le] word_pred_in [of lo n l] h(2) n' by auto
    next
      case False
      then have "n = lo" using n' by auto
      then show ?thesis using h(3) [OF n'] le 3 by (auto simp: chained_at_def map_le_def dom_def min_def intro!: exI)
    qed
  qed
qed

text \<open>A successful \<open>accept\<close>, taken apart.\<close>

lemma feed_acceptE:
  assumes "feed_accept C s h es = Inr (d, s')"
  obtains (same) "es = []" "s' = s" "ff_last_seq s = Some (fh_seq h)"
  | (advance) "es \<noteq> []" "verify_feed_chain_to_head C es h = Inr ()" "feed_join s (hd es) = Inr ()"
      "\<not> list_ex (feed_contradicts C s) es" "\<And>l. ff_last_seq s = Some l \<Longrightarrow> l \<le> fh_seq h"
      "s' = s\<lparr>ff_accepted := feed_record C es (ff_accepted s), ff_last_seq := Some (fh_seq h), ff_last_tip := Some (fh_tip h)\<rparr>"
proof (cases "es = []")
  case True
  then show thesis using assms same
    by (auto simp: feed_accept_def check_anti_rollback_def split: if_splits option.splits)
next
  case False
  then have "\<And>l. ff_last_seq s = Some l \<Longrightarrow> l \<le> fh_seq h"
    using assms by (auto simp: feed_accept_def check_anti_rollback_def split: if_splits option.splits)
  moreover from this have "case ff_last_seq s of None \<Rightarrow> True | Some l \<Rightarrow> l \<le> fh_seq h" by (simp split: option.split)
  ultimately show thesis using assms False by (intro advance) (auto simp: feed_accept_def Let_def split: if_splits)
qed

lemma feed_join_first:
  assumes "feed_join s e = Inr ()" "ff_last_seq s = Some l" "genesis_ok e" "ff_last_tip s = ff_accepted s l"
  shows "fe_seq e \<le> l \<or> l < fe_seq e \<and> fe_seq e - 1 = l \<and> fe_prev e = ff_accepted s l"
proof (cases "fe_seq e = l + 1")
  case True
  then have "fe_prev e = ff_accepted s l" "fe_seq e \<noteq> 0"
    using assms by (auto simp: feed_join_def genesis_ok_def split: option.splits if_splits)
  moreover have "unat (l + 1) = Suc (unat l)" using unatSuc [of l] True \<open>fe_seq e \<noteq> 0\<close> by (simp add: add.commute)
  then have "l < l + 1" by (simp add: word_less_nat_alt)
  ultimately show ?thesis using True by simp
next
  case False
  then have "fe_seq e < l + 1" using assms(1,2) by (auto simp: feed_join_def not_less split: if_splits)
  moreover have "l + 1 \<noteq> 0" using calculation by auto
  then have "unat (l + 1) = Suc (unat l)" using unatSuc [of l] by (simp add: add.commute)
  ultimately show ?thesis by (simp add: word_less_nat_alt word_le_nat_alt)
qed

lemma feed_inv_new: "feed_inv C (feed_new p)"
  by (simp add: feed_inv_def feed_new_def)

lemma feed_accept_inv:
  assumes "feed_accept C s h es = Inr (d, s')" "feed_inv C s"
  shows "feed_inv C s' \<and> ff_accepted s \<subseteq>\<^sub>m ff_accepted s' \<and> ff_last_seq s \<le> ff_last_seq s'"
  using assms(1)
proof (cases rule: feed_acceptE)
  case same
  then show ?thesis using assms(2) by simp
next
  case advance
  have chain: "verify_feed_chain C es = Inr ()" "es \<noteq> []" "fe_seq (last es) = fh_seq h" "entry_id C (last es) = fh_tip h"
    using advance(2) by (auto simp: verify_to_head_iff)
  have g: "genesis_ok (hd es)" using chain(1,2) by (simp add: verify_feed_chain_iff)
  have "\<exists>lo. history C (ff_accepted s') lo (fh_seq h)"
  proof (cases "ff_last_seq s")
    case None
    then show ?thesis using first_history [OF chain(1,2)] assms(2) by (auto simp: advance(6) feed_inv_def chain(3))
  next
    case (Some l)
    then obtain lo where lo: "history C (ff_accepted s) lo l" "ff_last_tip s = ff_accepted s l"
      using assms(2) by (auto simp: feed_inv_def)
    then show ?thesis
      using extend_history [OF chain(1,2) lo(1) advance(4) feed_join_first [OF advance(3) Some g lo(2)]] advance(5) [OF Some]
      by (auto simp: advance(6) chain(3))
  qed
  moreover have "ff_accepted s' (fh_seq h) = Some (fh_tip h)"
    using record_first(3) [OF chain(1,2), of "ff_accepted s"] chain(3,4) by (simp add: advance(6))
  moreover have "ff_accepted s \<subseteq>\<^sub>m ff_accepted s'"
    using record_extends [OF advance(4) chain_seqs(2) [OF chain(1,2)]] by (simp add: advance(6))
  moreover have "ff_last_seq s \<le> ff_last_seq s'"
    using advance(5) by (cases "ff_last_seq s") (simp_all add: advance(6))
  ultimately show ?thesis by (simp add: feed_inv_def advance(6))
qed

lemma feed_run_inv:
  "feed_inv C s \<Longrightarrow> feed_inv C (feed_run C s fs) \<and> ff_accepted s \<subseteq>\<^sub>m ff_accepted (feed_run C s fs) \<and>
     ff_last_seq s \<le> ff_last_seq (feed_run C s fs)"
proof (induction fs arbitrary: s)
  case (Cons f fs)
  obtain h es where f: "f = (h, es)" by (cases f)
  let ?s = "case feed_accept C s h es of Inl _ \<Rightarrow> s | Inr (_, s') \<Rightarrow> s'"
  have "feed_inv C ?s \<and> ff_accepted s \<subseteq>\<^sub>m ff_accepted ?s \<and> ff_last_seq s \<le> ff_last_seq ?s"
    using feed_accept_inv [of C s h es] Cons.prems by (auto split: sum.split)
  then show ?case using Cons.IH [of ?s] map_le_trans order_trans by (auto simp: f)
qed simp

lemma feed_run_append: "feed_run C s (fs @ gs) = feed_run C (feed_run C s fs) gs"
  by (induction C s fs rule: feed_run.induct) simp_all

text \<open>C7. A follower never forks and never goes back.  Whatever fetches it is offered, the
  positions it has accepted form one gapless chain that ends in the retained tip; later fetches keep
  every accepted position and never lower the retained sequence number.\<close>

theorem feed_follower_never_forks:
  "feed_inv C (feed_run C (feed_new p) fs) \<and>
   ff_accepted (feed_run C (feed_new p) fs) \<subseteq>\<^sub>m ff_accepted (feed_run C (feed_new p) (fs @ gs)) \<and>
   ff_last_seq (feed_run C (feed_new p) fs) \<le> ff_last_seq (feed_run C (feed_new p) (fs @ gs))"
  using feed_run_inv [OF feed_inv_new, of C p fs] feed_run_inv [of C "feed_run C (feed_new p) fs" gs]
  by (simp add: feed_run_append)

section \<open>Honest feeds are followed\<close>

text \<open>What the follower accepted so far are positions of the publisher's log \<open>es\<close>.\<close>

definition agrees :: "crypto \<Rightarrow> feed_entry list \<Rightarrow> feed_follower \<Rightarrow> bool" where
  "agrees C es s \<longleftrightarrow>
     (\<forall>n i. ff_accepted s n = Some i \<longrightarrow> unat n < length es \<and> i = entry_id C (es ! unat n))"

lemma fh_verify_signed:
  assumes "ed25519_law C" "length k = 32" "fh_v h = PUB_V0" "is_supported (fh_suite h)" "fh_signer h = key_public C k" "fh_publisher h = key_public C k"
  shows "fh_verify C (fh_sign C k h) = Inr ()"
proof -
  have "fh_signing_preimage (fh_sign C k h) = fh_signing_preimage h"
    by (simp add: fh_signing_preimage_def fh_sign_def fh_to_cv_def)
  then show ?thesis using assms verify_sign_domain [OF assms(1,2)] by (simp add: fh_verify_def fh_sign_def)
qed

lemma log_range:
  assumes "verify_feed_chain C es = Inr ()" "fe_seq (hd es) = 0" "j \<le> m" "m < length es" "length es < 2 ^ 64"
  defines "r \<equiv> drop j (take (Suc m) es)"
  shows "r \<noteq> []" "hd r = es ! j" "last r = es ! m" "verify_feed_chain C r = Inr ()"
    "\<And>i. i < length es \<Longrightarrow> fe_seq (es ! i) = of_nat i"
    "\<And>e. e \<in> set r \<Longrightarrow> unat (fe_seq e) < length es \<and> es ! unat (fe_seq e) = e"
proof -
  have len: "length r = Suc m - j" and nth: "r ! i = es ! (j + i)" if "i < Suc m - j" for i
    using assms(3,4) that by (simp_all add: r_def)
  show ne: "r \<noteq> []" "hd r = es ! j" using assms(3,4) by (simp_all add: r_def hd_drop_conv_nth)
  show "last r = es ! m" using assms(3,4) by (simp add: r_def last_conv_nth)
  have "successively (follows C) r"
    unfolding r_def using assms(1) chain_step(1) [OF assms(1)] assms(3,4)
    by (auto simp: successively_conv_nth simp del: drop_take)
  moreover have "set r \<subseteq> set es" using set_drop_subset [of j "take (Suc m) es"] set_take_subset [of "Suc m" es] by (simp add: r_def)
  ultimately show "verify_feed_chain C r = Inr ()" using assms(1) by (auto simp: verify_feed_chain_iff)
  show seq: "fe_seq (es ! i) = of_nat i" if "i < length es" for i
    using chain_seq [OF assms(1) that] assms(2,5) that by (simp add: word_unat_eq_iff unat_of_nat)
  show "unat (fe_seq e) < length es \<and> es ! unat (fe_seq e) = e" if e: "e \<in> set r" for e
  proof -
    have "e \<in> set es" using e \<open>set r \<subseteq> set es\<close> by (rule subsetD [rotated])
    then obtain i where "i < length es" "e = es ! i" by (auto simp: in_set_conv_nth)
    then show ?thesis using seq [of i] assms(5) by (simp add: unat_of_nat)
  qed
qed

lemma log_fetch_accepted:
  assumes log: "verify_feed_chain C es = Inr ()" "fe_seq (hd es) = 0" "length es < 2 ^ 64" "j \<le> m" "m < length es"
    and s: "feed_inv C s" "agrees C es s" "ff_publisher s = fh_publisher h"
    and h: "fh_verify C h = Inr ()" "fh_seq h = of_nat m" "fh_tip h = entry_id C (es ! m)"
    and joins: "case ff_last_seq s of None \<Rightarrow> True | Some l \<Rightarrow> unat l \<le> m \<and> j \<le> Suc (unat l)"
  shows "\<exists>d s'. feed_accept C s h (drop j (take (Suc m) es)) = Inr (d, s') \<and> ff_last_seq s' = Some (of_nat m) \<and> agrees C es s'"
proof -
  let ?r = "drop j (take (Suc m) es)"
  note r = log_range [OF log(1,2,4,5,3)]
  have pos: "unat (of_nat i :: u64) = i" if "i < length es" for i using that log(3) by (simp add: unat_of_nat)
  have head: "verify_feed_chain_to_head C ?r h = Inr ()"
    using r(1,3,4) r(5) [OF log(5)] h(2,3) by (simp add: verify_to_head_iff del: drop_take)
  have "\<not> feed_contradicts C s e" if "e \<in> set ?r" for e
  proof (cases "ff_accepted s (fe_seq e)")
    case (Some known)
    then have "known = entry_id C (es ! unat (fe_seq e))" using s(2) by (simp add: agrees_def)
    then show ?thesis using r(6) [OF that] Some by (simp add: feed_contradicts_def)
  qed (simp add: feed_contradicts_def)
  then have clean: "\<not> list_ex (feed_contradicts C s) ?r" unfolding list_ex_iff by blast
  have tip: "ff_last_tip s = Some (entry_id C (es ! unat l)) \<and> unat l < length es" if "ff_last_seq s = Some l" for l
  proof -
    have "ff_last_tip s = ff_accepted s l" "l \<in> dom (ff_accepted s)"
      using that s(1) by (auto simp: feed_inv_def history_def)
    then show ?thesis using s(2) by (auto simp: agrees_def)
  qed
  have join: "feed_join s (hd ?r) = Inr ()"
  proof (cases "ff_last_seq s")
    case (Some l)
    have j: "fe_seq (es ! j) = of_nat j" "j < length es" using r(5) [of j] log(4,5) by auto
    have l: "unat (l + 1) = Suc (unat l)" using tip [OF Some] log(3) by (simp add: unat_plus_if' )
    show ?thesis
    proof (cases "j = Suc (unat l)")
      case True
      then have "follows C (es ! unat l) (es ! j)" using chain_step(1) [OF log(1), of "unat l"] j(2) by simp
      moreover have "l + 1 = of_nat j" using True l pos [OF j(2)] by (simp add: word_unat_eq_iff)
      ultimately show ?thesis using tip [OF Some] j(1) r(2) by (simp add: feed_join_def Some follows_def)
    next
      case False
      then have "unat (of_nat j :: u64) < unat (l + 1)" using joins Some l pos [OF j(2)] by simp
      then have "(of_nat j :: u64) < l + 1" by (simp only: word_less_nat_alt)
      then show ?thesis using j(1) r(2) by (auto simp: feed_join_def Some)
    qed
  qed (simp add: feed_join_def)
  have ok: "\<exists>d. (case ff_last_seq s of Some l \<Rightarrow> check_anti_rollback l (ff_last_tip s) (fh_seq h) (fh_tip h)
      | None \<Rightarrow> Inr AcceptNew) = Inr d" "case ff_last_seq s of None \<Rightarrow> True | Some l \<Rightarrow> l \<le> fh_seq h"
  proof -
    show "case ff_last_seq s of None \<Rightarrow> True | Some l \<Rightarrow> l \<le> fh_seq h"
      using joins pos [OF log(5)] by (auto simp: h(2) word_le_nat_alt split: option.splits)
    then show "\<exists>d. (case ff_last_seq s of Some l \<Rightarrow> check_anti_rollback l (ff_last_tip s) (fh_seq h) (fh_tip h)
      | None \<Rightarrow> Inr AcceptNew) = Inr d"
      using tip pos [OF log(5)] by (auto simp: check_anti_rollback_def h(2,3) split: option.split)
  qed
  define s' where "s' = s\<lparr>ff_accepted := feed_record C ?r (ff_accepted s), ff_last_seq := Some (fh_seq h), ff_last_tip := Some (fh_tip h)\<rparr>"
  have "agrees C es s'"
    unfolding agrees_def
  proof (intro allI impI)
    fix n i
    assume n: "ff_accepted s' n = Some i"
    show "unat n < length es \<and> i = entry_id C (es ! unat n)"
    proof (cases "n \<in> fe_seq ` set ?r")
      case True
      then obtain e where e: "e \<in> set ?r" "n = fe_seq e" by blast
      then show ?thesis using n r(6) [OF e(1)] feed_record_at [OF chain_seqs(2) [OF r(4,1)] e(1)] by (simp add: s'_def)
    next
      case False
      then show ?thesis using n s(2) feed_record_other [OF False] by (simp add: s'_def agrees_def)
    qed
  qed
  moreover obtain d where "feed_accept C s h ?r = Inr (d, s')"
    using ok head join clean r(1) s(3) h(1) by (auto simp: feed_accept_def s'_def Let_def simp del: drop_take)
  ultimately show ?thesis by (auto simp: s'_def h(2))
qed

text \<open>C9. Honest feeds are followed: take the log of a publisher, numbered from zero and shorter
  than \<open>2^64\<close>, and a follower whose accepted positions are positions of that log.  A head the publisher
  signs for position \<open>m\<close>, with any range of the log that ends at \<open>m\<close> and starts no later than just
  after the retained position, is accepted; the follower then stands at \<open>m\<close> and still agrees with the log.\<close>

theorem honest_feed_followed:
  assumes "verify_feed_chain C es = Inr ()" "fe_seq (hd es) = 0" "length es < 2 ^ 64" "j \<le> m" "m < length es"
    and "feed_inv C s" "agrees C es s" "ff_publisher s = key_public C k"
    and "ed25519_law C" "length k = 32"
    and "h = fh_sign C k \<lparr>fh_v = PUB_V0, fh_suite = Classical, fh_publisher = key_public C k, fh_seq = of_nat m,
      fh_tip = entry_id C (es ! m), fh_ts = t, fh_signer = key_public C k, fh_sig = [], fh_topic = topic\<rparr>"
    and "case ff_last_seq s of None \<Rightarrow> True | Some l \<Rightarrow> unat l \<le> m \<and> j \<le> Suc (unat l)"
  shows "\<exists>d s'. feed_accept C s h (drop j (take (Suc m) es)) = Inr (d, s') \<and> ff_last_seq s' = Some (of_nat m) \<and>
    agrees C es s'"
proof (rule log_fetch_accepted [OF assms(1-7)])
  show "fh_verify C h = Inr ()" unfolding assms(11) by (rule fh_verify_signed [OF assms(9,10)]) simp_all
qed (use assms(8,12) in \<open>simp_all add: assms(11) fh_sign_def\<close>)

lemma toy_public [simp]: "ed_public toy_crypto k = k"
  by (simp add: toy_crypto_def)

theorem honest_feed_followed_witness:
  "\<exists>d s'. feed_accept toy_crypto (feed_new (replicate 32 7))
      (fh_sign toy_crypto (replicate 32 7) \<lparr>fh_v = PUB_V0, fh_suite = Classical,
        fh_publisher = key_public toy_crypto (replicate 32 7), fh_seq = of_nat 1,
        fh_tip = entry_id toy_crypto (demo_entries ! 1), fh_ts = 0,
        fh_signer = key_public toy_crypto (replicate 32 7), fh_sig = [], fh_topic = []\<rparr>)
      (drop 0 (take (Suc 1) demo_entries)) = Inr (d, s') \<and> ff_last_seq s' = Some (of_nat 1) \<and>
    agrees toy_crypto demo_entries s'"
  by (rule honest_feed_followed [OF demo_entries_ok(1) _ _ _ _ feed_inv_new])
    (simp_all add: demo_entries_def Let_def toy_crypto_laws agrees_def feed_new_def key_public_def toy_public)

end
