(* ===== verification/Pub_Sub.thy ===== *)
theory Pub_Sub
  imports Pub_Feed Rust_Num
begin

text \<open>
  Publish/subscribe of \<^verbatim>\<open>pubsub.rs\<close>: signed subscriptions with a bounded lifetime, their revocation,
  advisory feed hints, and the two admission bounds.
\<close>

definition PUB_SUBSCRIPTION_DS :: bytes where
  "PUB_SUBSCRIPTION_DS = ds_tag ''DMTAP-PUB-v0/subscription''"
definition PUB_SUBSCRIPTION_REVOKE_DS :: bytes where
  "PUB_SUBSCRIPTION_REVOKE_DS = ds_tag ''DMTAP-PUB-v0/subscription-revoke''"
definition PUB_SUBSCRIPTION_ID_DS :: bytes where
  "PUB_SUBSCRIPTION_ID_DS = ds_tag ''DMTAP-PUB-v0/subscription-id''"

definition SUBSCRIPTION_NONCE_MIN :: nat where "SUBSCRIPTION_NONCE_MIN = 16"

section \<open>Subscriptions\<close>

record subscription =
  sn_v :: u8
  sn_suite :: suite
  sn_subscriber :: bytes
  sn_feed :: bytes
  sn_topic :: string
  sn_issued :: u64
  sn_expires :: u64
  sn_nonce :: bytes
  sn_signer :: bytes
  sn_sig :: bytes

definition sn_to_cv :: "bool \<Rightarrow> subscription \<Rightarrow> cv" where
  "sn_to_cv include_sig s = Map (
     [(1, U64 (ucast (sn_v s))), (2, suite_cv (sn_suite s)), (3, Bytes (sn_subscriber s)), (4, Bytes (sn_feed s)),
      (5, Text (sn_topic s)), (6, U64 (sn_issued s)), (7, U64 (sn_expires s)), (8, Bytes (sn_nonce s)),
      (9, Bytes (sn_signer s))]
     @ (if include_sig then [(10, Bytes (sn_sig s))] else []))"

definition sn_signing_preimage :: "subscription \<Rightarrow> bytes" where
  "sn_signing_preimage s = encode (sn_to_cv False s)"

definition sn_det_cbor :: "subscription \<Rightarrow> bytes" where
  "sn_det_cbor s = encode (sn_to_cv True s)"

definition subscription_id :: "crypto \<Rightarrow> subscription \<Rightarrow> content_id" where
  "subscription_id C s = content_id_of C (PUB_SUBSCRIPTION_ID_DS @ sn_signing_preimage s)"

definition sn_sign :: "crypto \<Rightarrow> identity_key \<Rightarrow> subscription \<Rightarrow> subscription" where
  "sn_sign C k s = s\<lparr>sn_sig := sign_domain C k PUB_SUBSCRIPTION_DS (sn_signing_preimage s)\<rparr>"

definition sn_verify_signature :: "crypto \<Rightarrow> subscription \<Rightarrow> pub_error + unit" where
  "sn_verify_signature C s =
     (if sn_v s \<noteq> PUB_V0 \<or> \<not> is_supported (sn_suite s) then Inl PubUnsupportedVersion
      else map_err (\<lambda>_. PubSubscriptionSigInvalid)
        (verify_domain C (sn_signer s) PUB_SUBSCRIPTION_DS (sn_signing_preimage s) (sn_sig s)))"

definition sn_verify :: "crypto \<Rightarrow> subscription \<Rightarrow> pub_error + unit" where
  "sn_verify C s =
     and_then (sn_verify_signature C s) (\<lambda>_.
       if sn_signer s \<noteq> sn_subscriber s then Inl PubSubscriptionSigInvalid else Inr ())"

definition sn_verify_with_cert :: "crypto \<Rightarrow> subscription \<Rightarrow> device_cert \<Rightarrow> pub_error + unit" where
  "sn_verify_with_cert C s cert =
     and_then (sn_verify_signature C s) (\<lambda>_.
       if sn_signer s = sn_subscriber s then Inr ()
       else
         and_then (map_err (\<lambda>_. PubSubscriptionSigInvalid) (dc_verify C cert)) (\<lambda>_.
           if dc_ik cert \<noteq> sn_subscriber s \<or> dc_device_key cert \<noteq> sn_signer s then Inl PubSubscriptionSigInvalid
           else Inr ()))"

definition check_active :: "subscription \<Rightarrow> u64 \<Rightarrow> pub_error + unit" where
  "check_active s now = (if now > sn_expires s then Inl PubSubscriptionExpired else Inr ())"

definition topic_req :: "cv \<Rightarrow> pub_error + string" where
  "topic_req c = and_then (map_err PubCbor (as_text c)) (\<lambda>t. and_then (validate_topic_label t) (\<lambda>_. Inr t))"

definition sn_from_cv :: "cv \<Rightarrow> pub_error + subscription" where
  "sn_from_cv = wread PubCbor (
     wreq PubCbor (lift_err PubCbor as_u8) 1 (\<lambda>v f.
       if v \<noteq> PUB_V0 then Inl PubUnsupportedVersion
       else
         (wreq PubCbor pub_suite 2 (\<lambda>s.
          wreq PubCbor (lift_err PubCbor as_bytes) 3 (\<lambda>subscriber.
          wreq PubCbor (lift_err PubCbor as_bytes) 4 (\<lambda>feed.
          wreq PubCbor topic_req 5 (\<lambda>topic.
          wreq PubCbor (lift_err PubCbor as_u64) 6 (\<lambda>issued.
          wreq PubCbor (lift_err PubCbor as_u64) 7 (\<lambda>expires.
          wreq PubCbor (lift_err PubCbor as_bytes) 8 (\<lambda>nonce f.
            if length nonce < SUBSCRIPTION_NONCE_MIN then Inl (PubCbor TypeMismatch)
            else
              (wreq PubCbor (lift_err PubCbor as_bytes) 9 (\<lambda>signer.
               wreq PubCbor (lift_err PubCbor as_bytes) 10 (\<lambda>sig.
                 wfinish PubCbor (Inr \<lparr>sn_v = v, sn_suite = s, sn_subscriber = subscriber, sn_feed = feed,
                   sn_topic = topic, sn_issued = issued, sn_expires = expires, sn_nonce = nonce, sn_signer = signer,
                   sn_sig = sig\<rparr>))) f)))))))) f)))"

definition sn_from_det_cbor :: "bytes \<Rightarrow> pub_error + subscription" where
  "sn_from_det_cbor = wfrom_bytes PubCbor sn_from_cv"

section \<open>Revocations\<close>

record subscription_revoke =
  rv_subscription :: content_id
  rv_ts :: u64
  rv_signer :: bytes
  rv_sig :: bytes
  rv_v :: u8
  rv_suite :: suite
  rv_device_cert :: "device_cert option"

definition rv_to_cv :: "bool \<Rightarrow> subscription_revoke \<Rightarrow> cv" where
  "rv_to_cv include_sig r = Map (
     [(1, hash_cv (rv_subscription r)), (2, U64 (rv_ts r)), (3, Bytes (rv_signer r))]
     @ (if include_sig then [(4, Bytes (rv_sig r))] else [])
     @ [(5, U64 (ucast (rv_v r))), (6, suite_cv (rv_suite r))]
     @ (case rv_device_cert r of None \<Rightarrow> [] | Some cert \<Rightarrow> [(7, dc_to_cv True cert)]))"

definition rv_signing_preimage :: "subscription_revoke \<Rightarrow> bytes" where
  "rv_signing_preimage r = encode (rv_to_cv False r)"

definition rv_det_cbor :: "subscription_revoke \<Rightarrow> bytes" where
  "rv_det_cbor r = encode (rv_to_cv True r)"

definition rv_sign :: "crypto \<Rightarrow> identity_key \<Rightarrow> subscription_revoke \<Rightarrow> subscription_revoke" where
  "rv_sign C k r = r\<lparr>rv_sig := sign_domain C k PUB_SUBSCRIPTION_REVOKE_DS (rv_signing_preimage r)\<rparr>"

definition rv_verify_for :: "crypto \<Rightarrow> subscription_revoke \<Rightarrow> subscription \<Rightarrow> device_cert option \<Rightarrow> pub_error + unit" where
  "rv_verify_for C r target cert =
     (if rv_v r \<noteq> PUB_V0 \<or> \<not> is_supported (rv_suite r) then Inl PubUnsupportedVersion
      else if rv_subscription r \<noteq> subscription_id C target then Inl PubSubscriptionRevokeInvalid
      else
        and_then (map_err (\<lambda>_. PubSubscriptionRevokeInvalid)
          (verify_domain C (rv_signer r) PUB_SUBSCRIPTION_REVOKE_DS (rv_signing_preimage r) (rv_sig r))) (\<lambda>_.
        if rv_signer r = sn_subscriber target then Inr ()
        else
          and_then (ok_or (case cert of Some c \<Rightarrow> Some c | None \<Rightarrow> rv_device_cert r) PubSubscriptionRevokeInvalid) (\<lambda>c.
          and_then (map_err (\<lambda>_. PubSubscriptionRevokeInvalid) (dc_verify C c)) (\<lambda>_.
            if dc_ik c \<noteq> sn_subscriber target \<or> dc_device_key c \<noteq> rv_signer r then Inl PubSubscriptionRevokeInvalid
            else Inr ()))))"

definition rv_from_cv :: "cv \<Rightarrow> pub_error + subscription_revoke" where
  "rv_from_cv = wread PubCbor (
     wreq PubCbor (lift_err PubCbor as_hash) 1 (\<lambda>subscription.
     wreq PubCbor (lift_err PubCbor as_u64) 2 (\<lambda>ts.
     wreq PubCbor (lift_err PubCbor as_bytes) 3 (\<lambda>signer.
     wreq PubCbor (lift_err PubCbor as_bytes) 4 (\<lambda>sig.
     wreq PubCbor (lift_err PubCbor as_u8) 5 (\<lambda>v f.
       if v \<noteq> PUB_V0 then Inl PubUnsupportedVersion
       else
         (wreq PubCbor pub_suite 6 (\<lambda>s.
          wopt (lift_err PubCbor dc_from_cv) 7 (\<lambda>cert.
            wfinish PubCbor (Inr \<lparr>rv_subscription = subscription, rv_ts = ts, rv_signer = signer, rv_sig = sig, rv_v = v,
              rv_suite = s, rv_device_cert = cert\<rparr>))) f)))))))"

definition rv_from_det_cbor :: "bytes \<Rightarrow> pub_error + subscription_revoke" where
  "rv_from_det_cbor = wfrom_bytes PubCbor rv_from_cv"

section \<open>Hints\<close>

record feed_hint =
  ht_feed :: bytes
  ht_topic :: string
  ht_seq :: u64
  ht_tip :: "content_id option"
  ht_announce :: "bytes option"

definition ht_to_cv :: "feed_hint \<Rightarrow> cv" where
  "ht_to_cv h = Map ([(1, Bytes (ht_feed h)), (2, Text (ht_topic h)), (3, U64 (ht_seq h))]
     @ (case ht_tip h of None \<Rightarrow> [] | Some t \<Rightarrow> [(4, hash_cv t)])
     @ (case ht_announce h of None \<Rightarrow> [] | Some a \<Rightarrow> [(5, Bytes a)]))"

definition ht_det_cbor :: "feed_hint \<Rightarrow> bytes" where
  "ht_det_cbor h = encode (ht_to_cv h)"

definition ht_from_cv :: "cv \<Rightarrow> pub_error + feed_hint" where
  "ht_from_cv = wread PubCbor (
     wreq PubCbor (lift_err PubCbor as_bytes) 1 (\<lambda>feed.
     wreq PubCbor topic_req 2 (\<lambda>topic.
     wreq PubCbor (lift_err PubCbor as_u64) 3 (\<lambda>seq.
     wopt (lift_err PubCbor as_hash) 4 (\<lambda>tip.
     wopt (lift_err PubCbor as_bytes) 5 (\<lambda>announce.
       wfinish PubCbor (Inr \<lparr>ht_feed = feed, ht_topic = topic, ht_seq = seq, ht_tip = tip, ht_announce = announce\<rparr>)))))))"

definition ht_from_det_cbor :: "bytes \<Rightarrow> pub_error + feed_hint" where
  "ht_from_det_cbor = wfrom_bytes PubCbor ht_from_cv"

section \<open>Admission bounds\<close>

record subscribe_policy =
  max_active_per_topic :: "u64 option"
  max_active_per_subscriber :: "u64 option"

definition subscribe_admit :: "subscribe_policy \<Rightarrow> u64 \<Rightarrow> u64 \<Rightarrow> pub_error + unit" where
  "subscribe_admit p active_for_topic active_for_subscriber =
     (if (case max_active_per_topic p of Some mx \<Rightarrow> saturating_add active_for_topic 1 > mx | None \<Rightarrow> False)
      then Inl PubSubscribeQuota
      else if (case max_active_per_subscriber p of Some mx \<Rightarrow> saturating_add active_for_subscriber 1 > mx | None \<Rightarrow> False)
      then Inl PubSubscribeQuota
      else Inr ())"

record hint_budget =
  hb_max :: u32
  hb_window_ms :: u64
  hb_start :: u64
  hb_used :: u32

definition hint_budget_new :: "u32 \<Rightarrow> u64 \<Rightarrow> u64 \<Rightarrow> hint_budget" where
  "hint_budget_new mx window_ms now = \<lparr>hb_max = mx, hb_window_ms = window_ms, hb_start = now, hb_used = 0\<rparr>"

definition hint_admit :: "u64 \<Rightarrow> hint_budget \<Rightarrow> (pub_error + unit) \<times> hint_budget" where
  "hint_admit now b =
     (let b = (if saturating_sub now (hb_start b) \<ge> hb_window_ms b then b\<lparr>hb_start := now, hb_used := 0\<rparr> else b) in
      if hb_used b \<ge> hb_max b then (Inl PubHintRateLimited, b)
      else (Inr (), b\<lparr>hb_used := hb_used b + 1\<rparr>))"

section \<open>Codecs\<close>

lemma reads_topic_req: "reads topic_req Text (\<lambda>t. rust_string t \<and> validate_topic_label t = Inr ()) d"
  by (auto simp: reads_def topic_req_def rust_string_def)

lemma topic_req_Text [wire_simps]: "validate_topic_label t = Inr () \<Longrightarrow> topic_req (Text t) = Inr t"
  by (simp add: topic_req_def wire_simps)

lemma reads_cert: "reads dc_from_cv (dc_to_cv True) wf_dc (Suc 0)"
  by (rule cv_object.reads_object [OF dc_cv_object]) simp

lemma wf_dc_written [simp]:
  "wf_dc c \<Longrightarrow> canon (dc_to_cv True c)" "wf_dc c \<Longrightarrow> fits_depth (Suc 0) (dc_to_cv True c)" "wf_dc c \<Longrightarrow> dc_from_cv (dc_to_cv True c) = Inr c"
  using cv_object.axioms(1) [OF dc_cv_object [of "Suc 0"]]
  by (simp_all add: cv_writer.canon_to_cv cv_writer.fits_to_cv cv_writer.from_to_cv)

lemmas sub_readE = pub_readE reads_topic_req [THEN [2] reading_wreqE]
  reads_cert [THEN reads_lift [THEN iffD2], THEN [2] reading_woptE]

definition wf_sn :: "subscription \<Rightarrow> bool" where
  "wf_sn s \<longleftrightarrow> sn_v s = PUB_V0 \<and> is_supported (sn_suite s) \<and> short (sn_subscriber s) \<and> short (sn_feed s) \<and>
     rust_string (sn_topic s) \<and> validate_topic_label (sn_topic s) = Inr () \<and> short (sn_nonce s) \<and>
     SUBSCRIPTION_NONCE_MIN \<le> length (sn_nonce s) \<and> short (sn_signer s) \<and> short (sn_sig s)"

lemma sn_cv_object: "cv_object (sn_to_cv True) (\<lambda>c. forget (sn_from_cv c)) wf_sn 0"
proof (rule err_fieldsI [OF sn_to_cv_def sn_from_cv_def], goal_cases)
  case (4 m x)
  then show ?case by (auto simp: wf_sn_def reading_test elim!: sub_readE)
qed (auto simp: wf_sn_def wire_simps MAX_NESTING_DEPTH_def rust_string_def)

lemma sn_signed: "signed_object (sn_to_cv True) (\<lambda>c. forget (sn_from_cv c)) wf_sn (sn_to_cv False) (\<lambda>s. s\<lparr>sn_sig := []\<rparr>)"
  by (rule signed_fieldsI [OF sn_cv_object sn_to_cv_def sn_to_cv_def, where s = "(10, Bytes [])"])
    (auto simp: wf_sn_def MAX_NESTING_DEPTH_def rust_string_def)

interpretation sn: signed_object "sn_to_cv True" "\<lambda>c. forget (sn_from_cv c)" wf_sn "sn_to_cv False" "\<lambda>s. s\<lparr>sn_sig := []\<rparr>"
  by (rule sn_signed)

definition wf_rv :: "subscription_revoke \<Rightarrow> bool" where
  "wf_rv r \<longleftrightarrow> short (cid_bytes (rv_subscription r)) \<and> short (rv_signer r) \<and> short (rv_sig r) \<and> rv_v r = PUB_V0 \<and>
     is_supported (rv_suite r) \<and> pred_option wf_dc (rv_device_cert r)"

lemma rv_cv_object: "cv_object (rv_to_cv True) (\<lambda>c. forget (rv_from_cv c)) wf_rv 0"
proof (rule err_fieldsI [OF rv_to_cv_def rv_from_cv_def], goal_cases)
  case (4 m x)
  then show ?case by (auto simp: wf_rv_def reading_test elim!: sub_readE)
qed (auto simp: wf_rv_def wire_simps MAX_NESTING_DEPTH_def pred_option_Some)

lemma rv_signed: "signed_object (rv_to_cv True) (\<lambda>c. forget (rv_from_cv c)) wf_rv (rv_to_cv False) (\<lambda>r. r\<lparr>rv_sig := []\<rparr>)"
  by (rule signed_fieldsI [OF rv_cv_object rv_to_cv_def rv_to_cv_def, where s = "(4, Bytes [])"])
    (auto simp: wf_rv_def MAX_NESTING_DEPTH_def pred_option_Some)

interpretation rv: signed_object "rv_to_cv True" "\<lambda>c. forget (rv_from_cv c)" wf_rv "rv_to_cv False" "\<lambda>r. r\<lparr>rv_sig := []\<rparr>"
  by (rule rv_signed)

definition wf_ht :: "feed_hint \<Rightarrow> bool" where
  "wf_ht h \<longleftrightarrow> short (ht_feed h) \<and> rust_string (ht_topic h) \<and> validate_topic_label (ht_topic h) = Inr () \<and>
     pred_option (\<lambda>i. short (cid_bytes i)) (ht_tip h) \<and> pred_option short (ht_announce h)"

lemma ht_cv_object: "cv_object ht_to_cv (\<lambda>c. forget (ht_from_cv c)) wf_ht 0"
proof (rule err_fieldsI [OF ht_to_cv_def ht_from_cv_def], goal_cases)
  case (4 m x)
  then show ?case by (auto simp: wf_ht_def reading_test elim!: sub_readE)
qed (auto simp: wf_ht_def wire_simps MAX_NESTING_DEPTH_def rust_string_def)

lemma pubsub_objects_decode_exact:
  "sn_from_det_cbor b = Inr s \<longleftrightarrow> wf_sn s \<and> b = sn_det_cbor s"
  "rv_from_det_cbor b = Inr r \<longleftrightarrow> wf_rv r \<and> b = rv_det_cbor r"
  "ht_from_det_cbor b = Inr h \<longleftrightarrow> wf_ht h \<and> b = ht_det_cbor h"
  by (simp_all add: sn_from_det_cbor_def rv_from_det_cbor_def ht_from_det_cbor_def sn_det_cbor_def rv_det_cbor_def
      ht_det_cbor_def wfrom_bytes_iff [OF sn_cv_object] wfrom_bytes_iff [OF rv_cv_object] wfrom_bytes_iff [OF ht_cv_object])

section \<open>What a revocation withdraws\<close>

lemma subscription_id_sig [simp]: "subscription_id C (s\<lparr>sn_sig := g\<rparr>) = subscription_id C s"
  by (simp add: subscription_id_def sn_signing_preimage_def sn_to_cv_def)

lemma subscription_id_binds:
  assumes "wf_sn s" "wf_sn s'" "subscription_id C s = subscription_id C s'"
  shows "s\<lparr>sn_sig := []\<rparr> = s'\<lparr>sn_sig := []\<rparr> \<or>
    collision C [PUB_SUBSCRIPTION_ID_DS @ sn_signing_preimage s] [PUB_SUBSCRIPTION_ID_DS @ sn_signing_preimage s']"
  using content_id_of_binds [OF assms(3) [unfolded subscription_id_def]] sn.signing_body_binds [OF assms(1,2)]
  by (auto simp: sn_signing_preimage_def)

definition revoke_authorised :: "crypto \<Rightarrow> subscription_revoke \<Rightarrow> bytes \<Rightarrow> bool" where
  "revoke_authorised C r subscriber \<longleftrightarrow>
     verify_domain C (rv_signer r) PUB_SUBSCRIPTION_REVOKE_DS (rv_signing_preimage r) (rv_sig r) = Inr () \<and>
     (rv_signer r = subscriber \<or>
      (\<exists>c. dc_verify C c = Inr () \<and> dc_ik c = subscriber \<and> dc_device_key c = rv_signer r))"

lemma rv_verify_forD:
  assumes "rv_verify_for C r s cert = Inr ()"
  shows "rv_subscription r = subscription_id C s" "revoke_authorised C r (sn_subscriber s)"
  using assms by (auto simp: rv_verify_for_def revoke_authorised_def split: if_splits)

lemma rv_verify_for_sig: "rv_verify_for C r (s\<lparr>sn_sig := g\<rparr>) cert = rv_verify_for C r s cert"
  by (simp add: rv_verify_for_def)

text \<open>C23. A verified revocation withdraws exactly one subscription.  It was signed by the
  subscriber or by a device the subscriber certified; it withdraws every copy of the subscription, whatever
  its signature bytes; and two well-formed subscriptions withdrawn by the same revocation are equal up to
  their signatures, or their identifier preimages are an explicit BLAKE3 collision.\<close>

theorem revocation_exact:
  assumes "rv_verify_for C r s cert = Inr ()" "wf_sn s"
  shows "revoke_authorised C r (sn_subscriber s) \<and>
    rv_verify_for C r (s\<lparr>sn_sig := g\<rparr>) cert = Inr () \<and>
    (rv_verify_for C r s' cert' = Inr () \<and> wf_sn s' \<longrightarrow>
       s\<lparr>sn_sig := []\<rparr> = s'\<lparr>sn_sig := []\<rparr> \<or>
       collision C [PUB_SUBSCRIPTION_ID_DS @ sn_signing_preimage s] [PUB_SUBSCRIPTION_ID_DS @ sn_signing_preimage s'])"
proof (intro conjI impI)
  show "revoke_authorised C r (sn_subscriber s)" by (rule rv_verify_forD(2) [OF assms(1)])
  show "rv_verify_for C r (s\<lparr>sn_sig := g\<rparr>) cert = Inr ()" by (simp add: rv_verify_for_sig assms(1))
  assume s': "rv_verify_for C r s' cert' = Inr () \<and> wf_sn s'"
  then show "s\<lparr>sn_sig := []\<rparr> = s'\<lparr>sn_sig := []\<rparr> \<or>
      collision C [PUB_SUBSCRIPTION_ID_DS @ sn_signing_preimage s] [PUB_SUBSCRIPTION_ID_DS @ sn_signing_preimage s']"
    using rv_verify_forD(1) [OF assms(1)] rv_verify_forD(1) [of C r s' cert'] assms(2)
    by (intro subscription_id_binds) auto
qed

definition demo_sub :: subscription where
  "demo_sub = \<lparr>sn_v = PUB_V0, sn_suite = Classical, sn_subscriber = replicate 32 7, sn_feed = [], sn_topic = [],
     sn_issued = 0, sn_expires = 9, sn_nonce = replicate 16 0, sn_signer = replicate 32 7, sn_sig = []\<rparr>"

definition demo_revoke :: subscription_revoke where
  "demo_revoke = rv_sign toy_crypto (replicate 32 7) \<lparr>rv_subscription = subscription_id toy_crypto demo_sub, rv_ts = 1,
     rv_signer = replicate 32 7, rv_sig = [], rv_v = PUB_V0, rv_suite = Classical, rv_device_cert = None\<rparr>"

lemma demo_revoke_ok: "rv_verify_for toy_crypto demo_revoke demo_sub None = Inr ()"
proof -
  have "rv_signing_preimage demo_revoke = rv_signing_preimage (demo_revoke\<lparr>rv_sig := []\<rparr>)"
    by (simp add: rv_signing_preimage_def rv_to_cv_def)
  then show ?thesis
    using verify_sign_domain [OF toy_crypto_laws(2), of "replicate 32 7"]
    by (simp add: rv_verify_for_def demo_revoke_def rv_sign_def key_public_def demo_sub_def)
qed

theorem revocation_exact_witness:
  "rv_verify_for toy_crypto demo_revoke (demo_sub\<lparr>sn_sig := [1]\<rparr>) None = Inr ()"
  by (rule revocation_exact [OF demo_revoke_ok, THEN conjunct2, THEN conjunct1])
    (simp add: demo_sub_def wf_sn_def SUBSCRIPTION_NONCE_MIN_def)

section \<open>The hint budget\<close>

text \<open>The number of hints admitted over a sequence of arrival times, and the final budget.\<close>

fun hint_run :: "u64 list \<Rightarrow> hint_budget \<Rightarrow> nat \<times> hint_budget" where
  "hint_run [] b = (0, b)"
| "hint_run (t # ts) b =
     (let (r, b') = hint_admit t b; (n, b'') = hint_run ts b' in ((if isl r then 0 else 1) + n, b''))"

lemma hint_admit_consts [simp]:
  "hb_max (snd (hint_admit t b)) = hb_max b" "hb_window_ms (snd (hint_admit t b)) = hb_window_ms b"
  by (simp_all add: hint_admit_def Let_def)

lemma div_step: "0 < w \<Longrightarrow> a + w \<le> b \<Longrightarrow> Suc (a div w) \<le> b div (w :: nat)"
  using div_le_mono [of "a + w" b w] div_add_self2 [of w a] by simp

lemma unat_plus_one_less: "(a :: 'a::len word) < b \<Longrightarrow> unat (a + 1) = Suc (unat a)"
proof -
  assume "a < b"
  then have "Suc (unat a) < 2 ^ LENGTH('a)"
    using unsigned_less [of b] unfolding word_less_nat_alt by (rule order_le_less_trans [OF Suc_leI])
  then show ?thesis by (simp add: unat_word_ariths)
qed

text \<open>What is left of the present window plus a full budget for every window that can still start
  before the last arrival.\<close>

lemma hint_run_bound:
  assumes "sorted (hb_start b # ts)" "0 < hb_window_ms b" "hb_used b \<le> hb_max b"
  shows "fst (hint_run ts b) + unat (hb_used b) \<le>
    unat (hb_max b) * Suc ((unat (last (hb_start b # ts)) - unat (hb_start b)) div unat (hb_window_ms b))"
  using assms
proof (induction ts arbitrary: b)
  case Nil
  then show ?case by (simp add: word_le_nat_alt)
next
  case (Cons t ts)
  let ?w = "unat (hb_window_ms b)" and ?m = "unat (hb_max b)"
  obtain r b' where a: "hint_admit t b = (r, b')" by (cases "hint_admit t b")
  have st: "hb_start b \<le> t" "sorted (t # ts)" using Cons.prems(1) by auto
  have w: "0 < ?w" using Cons.prems(2) by (simp add: unat_gt_0)
  have c: "hb_max b' = hb_max b" "hb_window_ms b' = hb_window_ms b" using hint_admit_consts [of t b] a by simp_all
  have run: "fst (hint_run (t # ts) b) = (if isl r then 0 else 1) + fst (hint_run ts b')"
    by (simp add: a split: prod.split)
  let ?T = "unat (last (t # ts))" and ?s = "unat (hb_start b)"
  have last: "unat (last (hb_start b # t # ts)) = ?T" by simp
  have T: "unat t \<le> ?T"
    using st(2) by (cases ts) (simp_all add: word_le_nat_alt)
  show ?case
  proof (cases "hb_window_ms b \<le> saturating_sub t (hb_start b)")
    case roll: True
    have b': "hb_start b' = t" "unat (hb_used b') = (if isl r then 0 else 1)" "hb_used b' \<le> hb_max b'"
      using a roll by (auto simp: hint_admit_def Let_def word_le_nat_alt word_less_nat_alt split: if_splits)
    have IH: "fst (hint_run ts b') + unat (hb_used b') \<le> ?m * Suc ((?T - unat t) div ?w)"
      using Cons.IH [of b'] st(2) Cons.prems(2) b' c by simp
    have "?s + ?w \<le> unat t"
      using roll w st(1) unat_saturating_sub [of t "hb_start b"] by (simp add: word_le_nat_alt)
    then have "(?T - unat t) + ?w \<le> ?T - ?s" using T by linarith
    then have "Suc ((?T - unat t) div ?w) \<le> (?T - ?s) div ?w" by (rule div_step [OF w])
    then have "?m + ?m * Suc ((?T - unat t) div ?w) \<le> ?m * Suc ((?T - ?s) div ?w)"
      using mult_le_mono2 [of "Suc ((?T - unat t) div ?w)" "(?T - ?s) div ?w" ?m] by simp
    moreover have "unat (hb_used b) \<le> ?m" using Cons.prems(3) by (simp add: word_le_nat_alt)
    ultimately show ?thesis unfolding run last using IH b'(2) by linarith
  next
    case False
    have b': "hb_start b' = hb_start b" "unat (hb_used b') = unat (hb_used b) + (if isl r then 0 else 1)" "hb_used b' \<le> hb_max b'"
      using a False Cons.prems(3) unat_plus_one_less [of "hb_used b" "hb_max b"]
      by (auto simp: hint_admit_def Let_def word_le_nat_alt word_less_nat_alt split: if_splits)
    have IH: "fst (hint_run ts b') + unat (hb_used b') \<le> ?m * Suc ((unat (last (hb_start b # ts)) - ?s) div ?w)"
      using Cons.IH [of b'] Cons.prems(1,2) b' c by simp
    moreover have "unat (last (hb_start b # ts)) \<le> ?T" using st(1) by (cases ts) (simp_all add: word_le_nat_alt)
    then have "(unat (last (hb_start b # ts)) - ?s) div ?w \<le> (?T - ?s) div ?w" by (intro div_le_mono diff_le_mono)
    then have "?m * Suc ((unat (last (hb_start b # ts)) - ?s) div ?w) \<le> ?m * Suc ((?T - ?s) div ?w)"
      by (intro mult_le_mono2) simp
    ultimately show ?thesis unfolding run last using b'(2) by linarith
  qed
qed

text \<open>C20. A hint budget bounds a flood: from a fresh budget, hints arriving at non-decreasing times up
  to \<open>T\<close> are admitted at most \<open>max_per_window\<close> times for every window of \<open>window_ms\<close> that has
  begun since the budget was created.  A window of length zero gives no bound and is excluded.\<close>

theorem hint_budget_bounds_flood:
  assumes "sorted (now # ts)" "0 < window_ms"
  shows "fst (hint_run ts (hint_budget_new mx window_ms now)) \<le>
    unat mx * Suc ((unat (last (now # ts)) - unat now) div unat window_ms)"
  using hint_run_bound [of "hint_budget_new mx window_ms now" ts] assms by (simp add: hint_budget_new_def)

theorem hint_budget_bounds_flood_witness:
  "fst (hint_run [5, 6, 7, 16] (hint_budget_new 2 10 5)) \<le> 4"
  using hint_budget_bounds_flood [of 5 "[5, 6, 7, 16]" 10 2] by simp

end
