(* ===== verification/Push.thy ===== *)
theory Push
  imports Wire_Laws Replay
begin

text \<open>
  Push wake-up objects of \<^verbatim>\<open>push.rs\<close>: the signed device registration, the content-free wake ping, and
  the receiver's replay cache.  The RFC 8291 decryption a caller passes in is the argument \<open>opener\<close>.  The
  \<open>BTreeSet\<close> of nonces is a set, since it is only inserted into and tested.
\<close>

definition PUSH_SUBSCRIPTION_DS :: bytes where
  "PUSH_SUBSCRIPTION_DS = ds_tag ''DMTAP-v0/push-subscription''"

definition UNIFIED_PUSH :: u8 where "UNIFIED_PUSH = 1"
definition WEB_PUSH :: u8 where "WEB_PUSH = 2"
definition APNS :: u8 where "APNS = 3"
definition FCM :: u8 where "FCM = 4"

datatype push_error = PushSubscriptionSigInvalid | WakePingContentPresent | WakePingAuthFailed | WakePingRateLimited
  | WakePingReplay | PushUnsupportedSuite | PushBadEncoding cbor_error

fun push_error_code :: "push_error \<Rightarrow> u16" where
  "push_error_code PushSubscriptionSigInvalid = 0x0312"
| "push_error_code WakePingContentPresent = 0x0313"
| "push_error_code WakePingAuthFailed = 0x0314"
| "push_error_code WakePingRateLimited = 0x0315"
| "push_error_code WakePingReplay = 0x0316"
| "push_error_code PushUnsupportedSuite = 0x0101"
| "push_error_code (PushBadEncoding _) = 0x020D"

record push_subscription =
  ps_provider :: u8
  ps_endpoint :: string
  ps_push_key :: bytes
  ps_auth_secret :: bytes
  ps_device_key :: bytes
  ps_ts :: u64
  ps_sig :: bytes

definition ps_to_cv :: "bool \<Rightarrow> push_subscription \<Rightarrow> cv" where
  "ps_to_cv include_sig s = Map (
     [(1, U64 (ucast (ps_provider s))), (2, Text (ps_endpoint s)), (3, Bytes (ps_push_key s)),
      (4, Bytes (ps_auth_secret s)), (5, Bytes (ps_device_key s)), (6, U64 (ps_ts s))]
     @ (if include_sig then [(7, Bytes (ps_sig s))] else []))"

definition ps_det_cbor :: "push_subscription \<Rightarrow> bytes" where
  "ps_det_cbor s = encode (ps_to_cv True s)"

definition ps_signing_body :: "push_subscription \<Rightarrow> bytes" where
  "ps_signing_body s = encode (ps_to_cv False s)"

definition ps_from_cv :: "cv \<Rightarrow> cbor_error + push_subscription" where
  "ps_from_cv = read_fields (
     req_as as_u8 1 (\<lambda>provider.
     req_as as_text 2 (\<lambda>endpoint.
     req_as as_bytes 3 (\<lambda>push_key.
     req_as as_bytes 4 (\<lambda>auth_secret.
     req_as as_bytes 5 (\<lambda>device_key.
     req_as as_u64 6 (\<lambda>ts.
     req_as as_bytes 7 (\<lambda>sig.
       finish \<lparr>ps_provider = provider, ps_endpoint = endpoint, ps_push_key = push_key, ps_auth_secret = auth_secret,
         ps_device_key = device_key, ps_ts = ts, ps_sig = sig\<rparr>))))))))"

definition ps_from_det_cbor :: "bytes \<Rightarrow> push_error + push_subscription" where
  "ps_from_det_cbor b = map_err PushBadEncoding (from_bytes ps_from_cv b)"

definition ps_sign :: "crypto \<Rightarrow> identity_key \<Rightarrow> push_subscription \<Rightarrow> push_subscription" where
  "ps_sign C device s = s\<lparr>ps_sig := sign_domain C device PUSH_SUBSCRIPTION_DS (ps_signing_body s)\<rparr>"

definition ps_create :: "crypto \<Rightarrow> identity_key \<Rightarrow> u8 \<Rightarrow> string \<Rightarrow> bytes \<Rightarrow> bytes \<Rightarrow> u64 \<Rightarrow> push_subscription" where
  "ps_create C device provider endpoint push_key auth_secret ts =
     ps_sign C device \<lparr>ps_provider = provider, ps_endpoint = endpoint, ps_push_key = push_key,
       ps_auth_secret = auth_secret, ps_device_key = key_public C device, ps_ts = ts, ps_sig = []\<rparr>"

definition ps_verify :: "crypto \<Rightarrow> push_subscription \<Rightarrow> push_error + unit" where
  "ps_verify C s =
     map_err (\<lambda>_. PushSubscriptionSigInvalid)
       (verify_domain C (ps_device_key s) PUSH_SUBSCRIPTION_DS (ps_signing_body s) (ps_sig s))"

datatype wake_ping = WakePing (wp_token: bytes)

definition wp_det_cbor :: "wake_ping \<Rightarrow> bytes" where
  "wp_det_cbor w = encode (Map [(1, Bytes (wp_token w))])"

definition wp_from_det_cbor :: "bytes \<Rightarrow> push_error + wake_ping" where
  "wp_from_det_cbor b =
     and_then (map_err PushBadEncoding (and_then (decode b) fields_from_cv)) (\<lambda>f.
     and_then (map_err (\<lambda>_. WakePingContentPresent) (fields_req 1 f)) (\<lambda>(v, f').
     and_then (map_err PushBadEncoding (as_bytes v)) (\<lambda>token.
       if fields_into_pairs f' \<noteq> [] then Inl WakePingContentPresent else Inr (WakePing token))))"

definition check_opened_plaintext :: "bytes \<Rightarrow> push_error + unit" where
  "check_opened_plaintext plaintext =
     (case decode plaintext of
        Inr (Map _) \<Rightarrow> Inl WakePingContentPresent
      | Inr (TextMap _) \<Rightarrow> Inl WakePingContentPresent
      | Inr (Array _) \<Rightarrow> Inl WakePingContentPresent
      | _ \<Rightarrow> Inr ())"

definition open_with :: "(bytes \<Rightarrow> bytes option) \<Rightarrow> wake_ping \<Rightarrow> push_error + bytes" where
  "open_with opener w =
     and_then (ok_or (opener (wp_token w)) WakePingAuthFailed) (\<lambda>pt.
     and_then (check_opened_plaintext pt) (\<lambda>_. Inr pt))"

definition wake_is_replay :: "bytes set \<Rightarrow> bytes \<Rightarrow> bool" where
  "wake_is_replay s nonce \<longleftrightarrow> nonce \<in> s"

record wake_replay_cache =
  wr_seen :: "bytes set"

definition wake_cache_new :: wake_replay_cache where
  "wake_cache_new = \<lparr>wr_seen = {}\<rparr>"

definition check_and_reserve :: "bytes \<Rightarrow> wake_replay_cache \<Rightarrow> (push_error + unit) \<times> wake_replay_cache" where
  "check_and_reserve nonce c =
     (if nonce \<in> wr_seen c then (Inl WakePingReplay, c)
      else (Inr (), c\<lparr>wr_seen := insert nonce (wr_seen c)\<rparr>))"

definition open_dedup :: "(bytes \<Rightarrow> bytes option) \<Rightarrow> wake_ping \<Rightarrow> wake_replay_cache \<Rightarrow> (push_error + bytes) \<times> wake_replay_cache" where
  "open_dedup opener w c =
     (case open_with opener w of
        Inl e \<Rightarrow> (Inl e, c)
      | Inr nonce \<Rightarrow> (case check_and_reserve nonce c of (Inl e, c') \<Rightarrow> (Inl e, c') | (Inr _, c') \<Rightarrow> (Inr nonce, c')))"

definition wake_within_budget :: "u32 \<Rightarrow> u32 \<Rightarrow> push_error + unit" where
  "wake_within_budget wakes_in_window max_per_window =
     (if wakes_in_window < max_per_window then Inr () else Inl WakePingRateLimited)"

section \<open>Codecs and signatures\<close>

definition wf_ps :: "push_subscription \<Rightarrow> bool" where
  "wf_ps s \<longleftrightarrow> rust_string (ps_endpoint s) \<and> short (ps_push_key s) \<and> short (ps_auth_secret s) \<and>
     short (ps_device_key s) \<and> short (ps_sig s)"

lemma ps_cv_object: "cv_object (ps_to_cv True) ps_from_cv wf_ps 0"
  by (rule cv_fieldsI [OF ps_to_cv_def ps_from_cv_def])
    (auto simp: wf_ps_def wire_simps MAX_NESTING_DEPTH_def rust_string_def elim!: prim_readE)

lemma ps_signed: "signed_object (ps_to_cv True) ps_from_cv wf_ps (ps_to_cv False) (\<lambda>s. s\<lparr>ps_sig := []\<rparr>)"
  by (rule signed_fieldsI [OF ps_cv_object ps_to_cv_def ps_to_cv_def, where s = "(7, Bytes [])"])
    (auto simp: wf_ps_def MAX_NESTING_DEPTH_def rust_string_def)

interpretation ps: signed_object "ps_to_cv True" ps_from_cv wf_ps "ps_to_cv False" "\<lambda>s. s\<lparr>ps_sig := []\<rparr>"
  by (rule ps_signed)

lemma ps_decode_exact: "ps_from_det_cbor b = Inr s \<longleftrightarrow> wf_ps s \<and> b = ps_det_cbor s"
  by (simp add: ps_from_det_cbor_def ps_det_cbor_def ps.from_bytes_iff)

lemma ps_create_verifies:
  "ed25519_law C \<Longrightarrow> length device = 32 \<Longrightarrow> ps_verify C (ps_create C device p e k a t) = Inr ()"
  using verify_sign_domain [of C device]
  by (simp add: ps_verify_def ps_create_def ps_sign_def ps_signing_body_def ps_to_cv_def)

text \<open>A wake ping has no room for anything but its token.\<close>

lemma fields_from_cv_Inr_iff: "fields_from_cv c = Inr m \<longleftrightarrow> c = Map m"
  by (cases c) (simp_all add: fields_from_cv_def)

lemma wp_decode_exact: "wp_from_det_cbor b = Inr w \<longleftrightarrow> short (wp_token w) \<and> b = wp_det_cbor w"
proof
  assume "wp_from_det_cbor b = Inr w"
  then obtain f where d: "decode b = Inr (Map f)" and t: "fields_req 1 f = Inr (Bytes (wp_token w), [])"
    by (auto simp: wp_from_det_cbor_def fields_from_cv_Inr_iff fields_into_pairs_def split: if_splits)
  have "fields_take 1 f = (Some (Bytes (wp_token w)), [])"
    using t by (auto simp: fields_req_def split: prod.splits option.splits)
  from fields_take_mset [OF this] have "mset f = {#(1, Bytes (wp_token w))#}" by simp
  then have f: "f = [(1, Bytes (wp_token w))]" by (simp add: mset_single_iff)
  then show "short (wp_token w) \<and> b = wp_det_cbor w"
    using d by (auto simp: decode_iff_canonical wp_det_cbor_def)
next
  assume w: "short (wp_token w) \<and> b = wp_det_cbor w"
  have "decode b = Inr (Map [(1, Bytes (wp_token w))])"
    using w by (simp add: decode_iff_canonical wp_det_cbor_def MAX_NESTING_DEPTH_def)
  then show "wp_from_det_cbor b = Inr w"
    by (simp add: wp_from_det_cbor_def fields_from_cv_def fields_req_def fields_into_pairs_def)
qed

section \<open>Replays\<close>

interpretation wake_cache: replay_cache wr_seen "\<lambda>(opener, w). open_dedup opener w"
  by unfold_locales (auto simp: open_dedup_def check_and_reserve_def split: sum.splits if_splits)

text \<open>C24. A captured wake cannot be replayed: over any sequence of deliveries, whatever the relay sends,
  no nonce wakes the device twice, every nonce that does is content-free, and a further ping is dropped as a
  replay exactly if its nonce has woken the device before.\<close>

theorem wake_nonces_once:
  "let (nonces, c) = run_keys (\<lambda>(opener, w). open_dedup opener w) pings wake_cache_new in
     distinct nonces \<and> list_all (\<lambda>n. check_opened_plaintext n = Inr ()) nonces \<and>
     (fst (open_dedup opener w c) = Inl WakePingReplay \<longleftrightarrow> (\<exists>n. n \<in> set nonces \<and> open_with opener w = Inr n))"
proof -
  obtain ns c where r: "run_keys (\<lambda>(opener, w). open_dedup opener w) pings wake_cache_new = (ns, c)"
    by (cases "run_keys (\<lambda>(opener, w). open_dedup opener w) pings wake_cache_new")
  have "distinct ns" "wr_seen c = set ns"
    using wake_cache.run_fresh [OF r] by (simp_all add: wake_cache_new_def)
  moreover have "list_all (\<lambda>n. check_opened_plaintext n = Inr ()) (fst (run_keys (\<lambda>(opener, w). open_dedup opener w) pings wake_cache_new))"
    by (rule run_keys_all) (auto simp: open_dedup_def open_with_def split: sum.splits prod.splits)
  moreover have "open_with opener w \<noteq> Inl WakePingReplay"
    by (simp add: open_with_def and_then_Inl_iff check_opened_plaintext_def split: sum.splits cv.splits)
  ultimately show ?thesis
    by (auto simp: r open_dedup_def check_and_reserve_def split: sum.splits if_splits)
qed

end
