(* ===== verification/Rotation.thy ===== *)
theory Rotation
  imports Recovery
begin

text \<open>
  Key rotation and name migration (\<^verbatim>\<open>identity.rs\<close>, last part): \<open>KeyRotation\<close> with its three
  signing preimages, \<open>authorize_key_rotation\<close>, fork resolution, and \<open>MoveRecord\<close>.
\<close>

section \<open>Key rotation\<close>

definition KEY_ROTATION_DS :: bytes where
  "KEY_ROTATION_DS = ds_tag ''DMTAP-v0/key-rotation''"

definition KEY_ROTATION_QUORUM_DS :: bytes where
  "KEY_ROTATION_QUORUM_DS = ds_tag ''DMTAP-v0/key-rotation-quorum''"

definition KEY_ROTATION_VETO_DS :: bytes where
  "KEY_ROTATION_VETO_DS = ds_tag ''DMTAP-v0/key-rotation-veto''"

datatype key_rotation_error = Unauthorized

fun key_rotation_error_code :: "key_rotation_error \<Rightarrow> u16" where
  "key_rotation_error_code Unauthorized = 0x0121"

record key_rotation =
  kr_suite :: suite
  kr_old_ik :: bytes
  kr_new_ik :: bytes
  kr_reason :: string
  kr_ts :: u64
  kr_prev :: "content_id option"
  kr_sig :: bytes
  kr_rotate_quorum :: "bytes option"

definition kr_to_cv :: "bool \<Rightarrow> bool \<Rightarrow> key_rotation \<Rightarrow> cv" where
  "kr_to_cv include_sig include_quorum r =
     Map ([(1, suite_cv (kr_suite r)),
           (2, Bytes (kr_old_ik r)),
           (3, Bytes (kr_new_ik r)),
           (4, Text (kr_reason r)),
           (5, U64 (kr_ts r))]
          @ (case kr_prev r of None \<Rightarrow> [] | Some p \<Rightarrow> [(6, hash_cv p)])
          @ (if include_sig then [(7, Bytes (kr_sig r))] else [])
          @ (if include_quorum
             then (case kr_rotate_quorum r of None \<Rightarrow> [] | Some q \<Rightarrow> [(8, Bytes q)]) else []))"

definition kr_signing_body :: "key_rotation \<Rightarrow> bytes" where
  "kr_signing_body r = encode (kr_to_cv False True r)"

definition kr_quorum_body :: "key_rotation \<Rightarrow> bytes" where
  "kr_quorum_body r = encode (kr_to_cv False False r)"

definition kr_det_cbor :: "key_rotation \<Rightarrow> bytes" where
  "kr_det_cbor r = encode (kr_to_cv True True r)"

definition kr_from_cv :: "cv \<Rightarrow> cbor_error + key_rotation" where
  "kr_from_cv = read_fields (
     req_as suite_from_cv 1 (\<lambda>suite.
     req_as as_bytes 2 (\<lambda>old_ik.
     req_as as_bytes 3 (\<lambda>new_ik.
     req_as as_text 4 (\<lambda>reason.
     req_as as_u64 5 (\<lambda>ts.
     opt_as as_hash 6 (\<lambda>prev.
     req_as as_bytes 7 (\<lambda>sig.
     opt_as as_bytes 8 (\<lambda>rotate_quorum.
       finish \<lparr>kr_suite = suite, kr_old_ik = old_ik, kr_new_ik = new_ik, kr_reason = reason, kr_ts = ts,
         kr_prev = prev, kr_sig = sig, kr_rotate_quorum = rotate_quorum\<rparr>)))))))))"

definition kr_from_det_cbor :: "bytes \<Rightarrow> identity_error + key_rotation" where
  "kr_from_det_cbor b = map_err BadEncoding (from_bytes kr_from_cv b)"

definition kr_sign :: "crypto \<Rightarrow> identity_key \<Rightarrow> key_rotation \<Rightarrow> key_rotation" where
  "kr_sign C old_ik r = r\<lparr>kr_sig := sign_domain C old_ik KEY_ROTATION_DS (kr_signing_body r)\<rparr>"

definition kr_verify :: "crypto \<Rightarrow> key_rotation \<Rightarrow> identity_error + unit" where
  "kr_verify C r =
     (if \<not> is_supported (kr_suite r) then Inl (UnsupportedSuite (suite_as_u8 (kr_suite r)))
      else verify_domain C (kr_old_ik r) KEY_ROTATION_DS (kr_signing_body r) (kr_sig r))"

definition kr_content_id :: "crypto \<Rightarrow> key_rotation \<Rightarrow> content_id" where
  "kr_content_id C r = content_id_of C (kr_det_cbor r)"

definition sign_key_rotation_approval :: "crypto \<Rightarrow> identity_key \<Rightarrow> key_rotation \<Rightarrow> guardian_approval" where
  "sign_key_rotation_approval C g r =
     \<lparr>ga_guardian = key_public C g, ga_sig = sign_domain C g KEY_ROTATION_QUORUM_DS (kr_quorum_body r)\<rparr>"

definition sign_key_rotation_veto :: "crypto \<Rightarrow> identity_key \<Rightarrow> key_rotation \<Rightarrow> guardian_approval" where
  "sign_key_rotation_veto C g r =
     \<lparr>ga_guardian = key_public C g, ga_sig = sign_domain C g KEY_ROTATION_VETO_DS (kr_quorum_body r)\<rparr>"

definition policy_guardians :: "recovery_policy \<Rightarrow> bytes list" where
  "policy_guardians p =
     concat (map (\<lambda>m. case m of Social gs _ \<Rightarrow> gs | _ \<Rightarrow> []) (rp_methods p))"

definition required_rotate_quorum :: "recovery_policy \<Rightarrow> nat \<Rightarrow> u32" where
  "required_rotate_quorum p n =
     (let majority_min = of_nat n div 2 + 1 in max majority_min (threshold_min (rp_rotate_threshold p)))"

definition key_rotation_is_quorum_backed :: "crypto \<Rightarrow> key_rotation \<Rightarrow> recovery_policy \<Rightarrow>
    guardian_approval list \<Rightarrow> bool" where
  "key_rotation_is_quorum_backed C r p approvals =
     (if kr_rotate_quorum r = None then False
      else
        (let gs = policy_guardians p;
             q = count_quorum C gs approvals KEY_ROTATION_QUORUM_DS (kr_quorum_body r)
         in of_nat q \<ge> required_rotate_quorum p (length gs)))"

definition authorize_key_rotation :: "crypto \<Rightarrow> key_rotation \<Rightarrow> recovery_policy option \<Rightarrow> guardian_approval list \<Rightarrow>
    guardian_approval list \<Rightarrow> u64 \<Rightarrow> u64 \<Rightarrow> key_rotation_error + unit" where
  "authorize_key_rotation C r policy approvals vetoes announced_at now =
     (case policy of
        None \<Rightarrow> Inr ()
      | Some p \<Rightarrow>
          if key_rotation_is_quorum_backed C r p approvals then Inr ()
          else if kr_rotate_quorum r = None \<and>
            (let gs = policy_guardians p;
                 veto_q = count_quorum C gs vetoes KEY_ROTATION_VETO_DS (kr_quorum_body r);
                 vetoed = veto_q * 2 > length gs
             in \<not> vetoed \<and> now \<ge> saturating_add announced_at RECOVERY_VETO_WINDOW_MS)
          then Inr ()
          else Inl Unauthorized)"

definition prefer_rotation_fork :: "key_rotation \<Rightarrow> bool \<Rightarrow> key_rotation \<Rightarrow> bool \<Rightarrow> identity_error + key_rotation" where
  "prefer_rotation_fork a a_quorum_backed b b_quorum_backed =
     (case (a_quorum_backed, b_quorum_backed) of
        (True, False) \<Rightarrow> Inr a
      | (False, True) \<Rightarrow> Inr b
      | _ \<Rightarrow> Inl BrokenChain)"

section \<open>Name migration\<close>

definition MOVE_RECORD_DS :: bytes where
  "MOVE_RECORD_DS = ds_tag ''DMTAP-v0/move-record''"

record move_record =
  mr_suite :: suite
  mr_ik :: bytes
  mr_from :: string
  mr_to :: string
  mr_ts :: u64
  mr_prev :: "content_id option"
  mr_sig :: bytes

definition mr_to_cv :: "bool \<Rightarrow> move_record \<Rightarrow> cv" where
  "mr_to_cv include_sig r =
     Map ([(1, suite_cv (mr_suite r)),
           (2, Bytes (mr_ik r)),
           (3, Text (mr_from r)),
           (4, Text (mr_to r)),
           (5, U64 (mr_ts r))]
          @ (case mr_prev r of None \<Rightarrow> [] | Some p \<Rightarrow> [(6, hash_cv p)])
          @ (if include_sig then [(7, Bytes (mr_sig r))] else []))"

definition mr_signing_body :: "move_record \<Rightarrow> bytes" where
  "mr_signing_body r = encode (mr_to_cv False r)"

definition mr_det_cbor :: "move_record \<Rightarrow> bytes" where
  "mr_det_cbor r = encode (mr_to_cv True r)"

definition mr_from_cv :: "cv \<Rightarrow> cbor_error + move_record" where
  "mr_from_cv = read_fields (
     req_as suite_from_cv 1 (\<lambda>suite.
     req_as as_bytes 2 (\<lambda>ik.
     req_as as_text 3 (\<lambda>frm.
     req_as as_text 4 (\<lambda>to.
     req_as as_u64 5 (\<lambda>ts.
     opt_as as_hash 6 (\<lambda>prev.
     req_as as_bytes 7 (\<lambda>sig.
       finish \<lparr>mr_suite = suite, mr_ik = ik, mr_from = frm, mr_to = to, mr_ts = ts, mr_prev = prev,
         mr_sig = sig\<rparr>))))))))"

definition mr_from_det_cbor :: "bytes \<Rightarrow> identity_error + move_record" where
  "mr_from_det_cbor b = map_err BadEncoding (from_bytes mr_from_cv b)"

definition mr_create :: "crypto \<Rightarrow> identity_key \<Rightarrow> string \<Rightarrow> string \<Rightarrow> u64 \<Rightarrow> content_id option \<Rightarrow> move_record" where
  "mr_create C ik frm to ts prev =
     (let m = \<lparr>mr_suite = Classical, mr_ik = key_public C ik, mr_from = frm, mr_to = to, mr_ts = ts,
                mr_prev = prev, mr_sig = []\<rparr>
      in m\<lparr>mr_sig := sign_domain C ik MOVE_RECORD_DS (mr_signing_body m)\<rparr>)"

definition mr_verify :: "crypto \<Rightarrow> move_record \<Rightarrow> identity_error + unit" where
  "mr_verify C r =
     (if \<not> is_supported (mr_suite r) then Inl (UnsupportedSuite (suite_as_u8 (mr_suite r)))
      else verify_domain C (mr_ik r) MOVE_RECORD_DS (mr_signing_body r) (mr_sig r))"

section \<open>Codec laws\<close>

definition wf_kr :: "key_rotation \<Rightarrow> bool" where
  "wf_kr r \<longleftrightarrow> length (kr_old_ik r) < 2 ^ 64 \<and> length (kr_new_ik r) < 2 ^ 64 \<and> rust_string (kr_reason r) \<and>
     wf_hash_opt (kr_prev r) \<and> length (kr_sig r) < 2 ^ 64 \<and>
     (case kr_rotate_quorum r of None \<Rightarrow> True | Some q \<Rightarrow> length q < 2 ^ 64)"

definition wf_mr :: "move_record \<Rightarrow> bool" where
  "wf_mr r \<longleftrightarrow> length (mr_ik r) < 2 ^ 64 \<and> rust_string (mr_from r) \<and> rust_string (mr_to r) \<and>
     wf_hash_opt (mr_prev r) \<and> length (mr_sig r) < 2 ^ 64"

interpretation kr: signed_object "kr_to_cv True True" kr_from_cv wf_kr "kr_to_cv False True" "kr_sig_update (\<lambda>_. [])"
proof
  fix r
  assume "wf_kr r"
  then show "canon (kr_to_cv True True r)" "fits_depth 0 (kr_to_cv True True r)"
    "canon (kr_to_cv False True r)" "fits_depth 0 (kr_to_cv False True r)"
    by (cases "kr_prev r"; cases "kr_rotate_quorum r"; simp add: kr_to_cv_def wf_kr_def wf_hash_opt_def)+
  show "kr_from_cv (kr_to_cv True True r) = Inr r"
    by (cases "kr_prev r"; cases "kr_rotate_quorum r") (simp_all add: kr_from_cv_def kr_to_cv_def wire_simps)
next
  fix v r
  assume v: "canon v" "fits_depth 0 v" "kr_from_cv v = Inr r"
  have "v = kr_to_cv True True r \<and> True"
    unfolding kr_to_cv_def
    by (rule read_fields_canonE [OF v(3) [unfolded kr_from_cv_def] v(1,2)],
        (auto elim!: req_as_okE opt_as_okE simp del: canon.simps)[1], auto split: option.splits)
  then show "wf_kr r \<and> kr_to_cv True True r = v"
    using v(1) by (cases "kr_prev r"; cases "kr_rotate_quorum r") (auto simp: kr_to_cv_def wf_kr_def wf_hash_opt_def)
next
  fix x y
  assume "kr_to_cv False True x = kr_to_cv False True y"
  then show "x\<lparr>kr_sig := []\<rparr> = y\<lparr>kr_sig := []\<rparr>"
    by (cases x; cases y) (auto simp: kr_to_cv_def split: option.splits)
qed

interpretation mr: signed_object "mr_to_cv True" mr_from_cv wf_mr "mr_to_cv False" "mr_sig_update (\<lambda>_. [])"
proof
  fix r
  assume "wf_mr r"
  then show "canon (mr_to_cv True r)" "fits_depth 0 (mr_to_cv True r)"
    "canon (mr_to_cv False r)" "fits_depth 0 (mr_to_cv False r)"
    by (cases "mr_prev r"; simp add: mr_to_cv_def wf_mr_def wf_hash_opt_def)+
  show "mr_from_cv (mr_to_cv True r) = Inr r"
    by (cases "mr_prev r") (simp_all add: mr_from_cv_def mr_to_cv_def wire_simps)
next
  fix v r
  assume v: "canon v" "fits_depth 0 v" "mr_from_cv v = Inr r"
  have "v = mr_to_cv True r \<and> True"
    unfolding mr_to_cv_def
    by (rule read_fields_canonE [OF v(3) [unfolded mr_from_cv_def] v(1,2)],
        (auto elim!: req_as_okE opt_as_okE simp del: canon.simps)[1], auto split: option.splits)
  then show "wf_mr r \<and> mr_to_cv True r = v"
    using v(1) by (cases "mr_prev r") (auto simp: mr_to_cv_def wf_mr_def wf_hash_opt_def)
next
  fix x y
  assume "mr_to_cv False x = mr_to_cv False y"
  then show "x\<lparr>mr_sig := []\<rparr> = y\<lparr>mr_sig := []\<rparr>"
    by (cases x; cases y) (auto simp: mr_to_cv_def split: option.splits)
qed

end
