(* ===== verification/Recovery_Guard.thy ===== *)
theory Recovery_Guard
  imports Rotation
begin

text \<open>
  What the recovery and rotation guards of \<^verbatim>\<open>identity.rs\<close> enforce: the quorum counter counts
  distinct signing guardians, a weakening change or a rotation passes only with a guardian quorum
  or after the veto window, and where the detectors
  stop short of their documentation.
\<close>

section \<open>The quorum counter\<close>

lemma unat_ucast_u8_u32: "unat (ucast (b :: u8) :: u32) = unat b"
proof -
  have "unat b < 2 ^ 32" by (rule less_trans [OF unat_u8_less]) simp
  then show ?thesis by (simp add: unsigned_ucast_eq take_bit_nat_eq_self)
qed

definition signers :: "crypto \<Rightarrow> bytes list \<Rightarrow> guardian_approval list \<Rightarrow> bytes \<Rightarrow> bytes \<Rightarrow> bytes set" where
  "signers C gs sigs ds preimage =
     {g \<in> set gs. \<exists>s \<in> set sigs. ga_guardian s = g \<and> verify_domain C g ds preimage (ga_sig s) = Inr ()}"

lemma quorum_loop_set:
  "set (quorum_loop C gs ds pre sigs counted) = set counted \<union> signers C gs sigs ds pre"
  by (induction sigs arbitrary: counted) (auto simp: signers_def)

lemma quorum_loop_distinct: "distinct counted \<Longrightarrow> distinct (quorum_loop C gs ds pre sigs counted)"
  by (induction sigs arbitrary: counted) auto

lemma count_quorum_card: "count_quorum C gs sigs ds pre = card (signers C gs sigs ds pre)"
proof -
  have "card (set (quorum_loop C gs ds pre sigs [])) = length (quorum_loop C gs ds pre sigs [])"
    using quorum_loop_distinct [of "[]"] by (simp add: distinct_card)
  then show ?thesis by (simp add: count_quorum_def quorum_loop_set)
qed

lemma signers_finite [simp]: "finite (signers C gs sigs ds pre)"
  by (simp add: signers_def)

lemma signers_subset: "signers C gs sigs ds pre \<subseteq> set gs"
  by (auto simp: signers_def)

lemma card_signers_le: "card (signers C gs sigs ds pre) \<le> length gs"
  using card_mono [OF _ signers_subset] card_length [of gs] by (meson List.finite_set le_trans)

text \<open>A strict majority test in \<open>u32\<close> arithmetic is the test in natural numbers.\<close>

lemma majority_u32:
  assumes "n < 2 ^ 32" "q < 2 ^ 32"
  shows "(of_nat n div 2 + 1 \<le> (of_nat q :: u32)) \<longleftrightarrow> n < 2 * q"
proof -
  have n: "unat (of_nat n :: u32) = n" and q: "unat (of_nat q :: u32) = q"
    using assms by (simp_all add: unat_of_nat)
  have "unat (of_nat n div 2 :: u32) = n div 2" by (simp add: unat_div n)
  moreover from this have "unat (of_nat n div 2 + 1 :: u32) = n div 2 + 1"
    using assms by (subst unat_word_ariths) simp
  ultimately show ?thesis by (simp add: word_le_nat_alt q) linarith
qed

lemma window_elapsed:
  "\<not> now < saturating_add a RECOVERY_VETO_WINDOW_MS \<longleftrightarrow>
     unat a + 259200000 \<le> unat now \<or> (2 ^ 64 \<le> unat a + 259200000 \<and> unat now = 2 ^ 64 - 1)"
proof -
  have w: "unat RECOVERY_VETO_WINDOW_MS = 259200000" by (simp add: RECOVERY_VETO_WINDOW_MS_def)
  show ?thesis
  proof (cases "unat a + 259200000 < 2 ^ 64")
    case True
    then have "unat (a + RECOVERY_VETO_WINDOW_MS) = unat a + 259200000"
      using w by (subst unat_word_ariths) simp
    then show ?thesis using True w by (auto simp: saturating_add_def word_le_nat_alt not_less)
  next
    case False
    have "unat (- 1 :: u64) = 2 ^ 64 - 1" by (simp add: unsigned_minus_1_eq_mask mask_eq_exp_minus_1)
    moreover have "unat now \<le> 18446744073709551615" using unat_u64_less [of now] by linarith
    ultimately show ?thesis using False w by (auto simp: saturating_add_def word_le_nat_alt not_less)
  qed
qed

section \<open>Sample policies\<close>

text \<open>Keys are the public halves of the sample seeds \<open>replicate 32 n\<close>.\<close>

definition demo_key :: "u8 \<Rightarrow> identity_key" where
  "demo_key n = replicate 32 n"

lemma demo_key_simps [simp]: "length (demo_key n) = 32" "key_public toy_crypto (demo_key n) = demo_key n"
  "demo_key a = demo_key b \<longleftrightarrow> a = b"
  by (simp_all add: demo_key_def key_public_def toy_crypto_def)

definition demo_policy :: "u64 \<Rightarrow> recovery_method list \<Rightarrow> method_predicate list \<Rightarrow> content_id option \<Rightarrow> recovery_policy" where
  "demo_policy v ms ps prev = \<lparr>rp_suite = Classical, rp_ik = demo_key 1, rp_version = v, rp_methods = ms,
     rp_recover_threshold = \<lparr>any_of = ps\<rparr>, rp_rotate_threshold = \<lparr>any_of = [PGuardians 2]\<rparr>, rp_prev = prev,
     rp_ts = 0, rp_sig = []\<rparr>"

definition demo_genesis :: recovery_policy where
  "demo_genesis = demo_policy 1 [Phrase [1], Device (demo_key 8) ''laptop'', Social [demo_key 2, demo_key 3, demo_key 4] 2]
     [PPhrase] None"

definition demo_evicted :: recovery_policy where
  "demo_evicted = demo_policy 2 [Phrase [1], Social [demo_key 2, demo_key 3, demo_key 4] 2] [PPhrase]
     (Some (rp_content_id toy_crypto demo_genesis))"

lemma demo_history: "verify_policy_chain toy_crypto [demo_genesis] = Inr ()"
  "verify_policy_chain toy_crypto [demo_genesis, demo_evicted] = Inr ()"
  by (simp_all add: verify_policy_chain_def demo_genesis_def demo_evicted_def demo_policy_def word_le_nat_alt)


section \<open>Weakening changes\<close>

lemma method_refl: "method_at_least_as_strong m m"
  by (cases m) (simp_all add: list_all_iff)

lemma authorize_Inr_iff:
  assumes "length gs < 2 ^ 32"
  shows "authorize_recovery_change C history nxt gs approvals vetoes announced_at now = Inr () \<longleftrightarrow>
     verify_policy_chain C history = Inr () \<and>
     (recovery_change_is_weakening_vs_history history nxt \<longrightarrow>
        length gs < 2 * card (signers C gs approvals RECOVERY_APPROVAL_DS (cid_bytes (rp_content_id C nxt))) \<and>
        unat (threshold_min (rp_rotate_threshold (last history))) \<le>
          card (signers C gs approvals RECOVERY_APPROVAL_DS (cid_bytes (rp_content_id C nxt))) \<and>
        2 * card (signers C gs vetoes RECOVERY_VETO_DS (cid_bytes (rp_content_id C nxt))) \<le> length gs \<and>
        \<not> now < saturating_add announced_at RECOVERY_VETO_WINDOW_MS)"
proof -
  let ?q = "card (signers C gs approvals RECOVERY_APPROVAL_DS (cid_bytes (rp_content_id C nxt)))"
  have q: "?q < 2 ^ 32" using card_signers_le assms le_less_trans by blast
  then have uq: "unat (of_nat ?q :: u32) = ?q" by (simp add: unat_of_nat)
  have "max (of_nat (length gs) div 2 + 1) p \<le> (of_nat ?q :: u32) \<longleftrightarrow> length gs < 2 * ?q \<and> unat p \<le> ?q" for p
    using majority_u32 [OF assms q] by (simp add: word_le_nat_alt [of p] uq)
  moreover have "verify_policy_chain C [] \<noteq> Inr ()" by (simp add: verify_policy_chain_def)
  ultimately show ?thesis
    by (auto simp: authorize_recovery_change_def Let_def count_quorum_card not_less mult.commute simp flip: not_less
        split: if_splits)
qed


lemma demo_threshold_min: "unat (threshold_min (rp_rotate_threshold (last [demo_genesis]))) = 2"
  by (simp add: threshold_min_def demo_genesis_def demo_policy_def)



text \<open>An honest weakening change goes through: on a complete history, with approvals signed by
  distinct guardians that reach both bars, no vetoes, after the window.\<close>

theorem quorum_change_authorized:
  assumes "ed25519_law C" and "\<forall>k \<in> set ks. length k = 32 \<and> key_public C k \<in> set gs"
    and "distinct (map (key_public C) ks)" and "length gs < 2 * length ks" and "length gs < 2 ^ 32"
    and "unat (threshold_min (rp_rotate_threshold (last history))) \<le> length ks"
    and "verify_policy_chain C history = Inr ()" and "unat announced_at + 259200000 \<le> unat now"
  shows "authorize_recovery_change C history nxt gs (map (\<lambda>k. sign_recovery_approval C k nxt) ks) []
           announced_at now = Inr ()"
proof -
  let ?pre = "cid_bytes (rp_content_id C nxt)"
  have "signers C gs (map (\<lambda>k. sign_recovery_approval C k nxt) ks) RECOVERY_APPROVAL_DS ?pre = key_public C ` set ks"
    using assms(2) verify_sign_domain [OF assms(1)] by (auto simp: signers_def sign_recovery_approval_def)
  moreover have "card (key_public C ` set ks) = length ks"
    using distinct_card [OF assms(3)] by simp
  moreover have "signers C gs [] RECOVERY_VETO_DS ?pre = {}" by (simp add: signers_def)
  ultimately show ?thesis
    using assms(4,6-8) unfolding authorize_Inr_iff [OF assms(5)] window_elapsed by simp
qed

theorem quorum_change_authorized_witness:
  "authorize_recovery_change toy_crypto [demo_genesis] demo_evicted [demo_key 2, demo_key 3, demo_key 4]
     (map (\<lambda>k. sign_recovery_approval toy_crypto k demo_evicted) [demo_key 3, demo_key 4]) [] 0 300000000 = Inr ()"
  by (rule quorum_change_authorized [OF toy_crypto_laws(2)])
    (use demo_history(1) demo_threshold_min in simp_all)

text \<open>An evicted device key can come back under another label: the history check compares whole
  methods, so re-adding the evicted key of a device with a new label, in a policy that keeps every
  current method and every threshold, is not weakening and is authorised with no approvals at once.\<close>

theorem relabelled_device_comes_back:
  assumes "verify_policy_chain C history = Inr ()" and "nxt = last history\<lparr>rp_methods := rp_methods (last history) @ [Device k l]\<rparr>"
    and "\<forall>p \<in> set history. Device k l \<notin> set (rp_methods p)"
  shows "authorize_recovery_change C history nxt gs [] [] announced_at now = Inr ()"
proof -
  have ne: "history \<noteq> []" using assms(1) by (auto simp: verify_policy_chain_def)
  have "\<not> recovery_change_is_weakening (last history) nxt"
    by (auto simp: recovery_change_is_weakening_def assms(2) list_ex_iff intro: method_refl)
  then have "\<not> recovery_change_is_weakening_vs_history history nxt"
    using assms(3) ne by (auto simp: recovery_change_is_weakening_vs_history_def Let_def list_ex_iff assms(2))
  then show ?thesis using assms(1) ne by (simp add: authorize_recovery_change_def Let_def)
qed

theorem relabelled_device_comes_back_witness:
  "authorize_recovery_change toy_crypto [demo_genesis, demo_evicted]
     (demo_evicted\<lparr>rp_methods := rp_methods demo_evicted @ [Device (demo_key 8) ''phone'']\<rparr>) [demo_key 2] [] [] 0 0 = Inr ()"
  by (rule relabelled_device_comes_back [OF demo_history(2)])
    (auto simp: demo_genesis_def demo_evicted_def demo_policy_def)

text \<open>A threshold can be lowered unnoticed: the detector compares only the smallest count of the
  disjunction, so next to a one-factor alternative any other count may drop, down to one guardian,
  without the change being weakening.\<close>

theorem hidden_threshold_reduction:
  assumes "1 \<le> n" and "1 \<le> m"
  shows "\<not> recovery_change_is_weakening (p\<lparr>rp_recover_threshold := \<lparr>any_of = [PPhrase, PGuardians n]\<rparr>\<rparr>)
           (p\<lparr>rp_recover_threshold := \<lparr>any_of = [PPhrase, PGuardians m]\<rparr>\<rparr>)"
proof -
  have "(1 :: u32) \<le> ucast k" if "1 \<le> k" for k :: u8
    using that by (simp add: word_le_nat_alt unat_ucast_u8_u32)
  then have "threshold_min \<lparr>any_of = [PPhrase, PGuardians k]\<rparr> = 1" if "1 \<le> k" for k
    using that by (simp add: threshold_min_def min_def)
  then show ?thesis
    using assms by (auto simp: recovery_change_is_weakening_def list_ex_iff intro: method_refl)
qed

theorem hidden_threshold_reduction_witness:
  "\<not> recovery_change_is_weakening (demo_genesis\<lparr>rp_recover_threshold := \<lparr>any_of = [PPhrase, PGuardians 3]\<rparr>\<rparr>)
     (demo_genesis\<lparr>rp_recover_threshold := \<lparr>any_of = [PPhrase, PGuardians 1]\<rparr>\<rparr>)"
  by (rule hidden_threshold_reduction) (simp_all add: word_le_nat_alt)

section \<open>Key rotation\<close>

lemma quorum_backed_iff:
  assumes "length (policy_guardians p) < 2 ^ 32"
  shows "key_rotation_is_quorum_backed C r p approvals \<longleftrightarrow>
     kr_rotate_quorum r \<noteq> None \<and>
     length (policy_guardians p) <
       2 * card (signers C (policy_guardians p) approvals KEY_ROTATION_QUORUM_DS (kr_quorum_body r)) \<and>
     unat (threshold_min (rp_rotate_threshold p)) \<le>
       card (signers C (policy_guardians p) approvals KEY_ROTATION_QUORUM_DS (kr_quorum_body r))"
proof -
  let ?q = "card (signers C (policy_guardians p) approvals KEY_ROTATION_QUORUM_DS (kr_quorum_body r))"
  have q: "?q < 2 ^ 32" using card_signers_le assms le_less_trans by blast
  then have uq: "unat (of_nat ?q :: u32) = ?q" by (simp add: unat_of_nat)
  show ?thesis
    using majority_u32 [OF assms q]
    by (auto simp: key_rotation_is_quorum_backed_def required_rotate_quorum_def Let_def count_quorum_card
        word_le_nat_alt [of "threshold_min _"] uq)
qed


text \<open>Overlapping guardian groups disable the veto: when the policy's guardian list names each
  guardian at least twice on average, no set of vetoes, not even by every guardian, stops a
  delayed rotation, and no set of approvals makes one quorum-backed.\<close>

theorem overlapping_guardians_cannot_veto:
  assumes "2 * card (set (policy_guardians p)) \<le> length (policy_guardians p)"
    and "length (policy_guardians p) < 2 ^ 32"
    and "kr_rotate_quorum r = None" and "unat announced_at + 259200000 \<le> unat now"
  shows "authorize_key_rotation C r (Some p) approvals vetoes announced_at now = Inr () \<and>
         \<not> key_rotation_is_quorum_backed C (r\<lparr>kr_rotate_quorum := Some q\<rparr>) p approvals"
proof -
  have le: "2 * card (signers C (policy_guardians p) sigs d b) \<le> length (policy_guardians p)" for sigs d b
    using card_mono [OF _ signers_subset, of "policy_guardians p" C sigs d b] assms(1) by simp
  have "\<not> now < saturating_add announced_at RECOVERY_VETO_WINDOW_MS"
    using assms(4) by (simp add: window_elapsed)
  then have "authorize_key_rotation C r (Some p) approvals vetoes announced_at now = Inr ()"
    using assms(3) le [of vetoes] by (simp add: authorize_key_rotation_def Let_def count_quorum_card not_less mult.commute)
  moreover have "\<not> key_rotation_is_quorum_backed C (r\<lparr>kr_rotate_quorum := Some q\<rparr>) p approvals"
    using le [of approvals] unfolding quorum_backed_iff [OF assms(2)] by (simp add: not_less)
  ultimately show ?thesis by blast
qed

definition demo_rotation :: key_rotation where
  "demo_rotation = \<lparr>kr_suite = Classical, kr_old_ik = demo_key 1, kr_new_ik = demo_key 7, kr_reason = ''lost'', kr_ts = 0,
     kr_prev = None, kr_sig = [], kr_rotate_quorum = None\<rparr>"

definition demo_two_groups :: recovery_policy where
  "demo_two_groups = demo_policy 1 [Social [demo_key 2, demo_key 3] 2, Social [demo_key 2, demo_key 3] 1] [PPhrase] None"

lemma demo_two_groups_guardians: "policy_guardians demo_two_groups = [demo_key 2, demo_key 3, demo_key 2, demo_key 3]"
  by (simp add: demo_two_groups_def demo_policy_def policy_guardians_def)

theorem overlapping_guardians_cannot_veto_witness:
  "authorize_key_rotation toy_crypto demo_rotation (Some demo_two_groups) []
     [sign_key_rotation_veto toy_crypto (demo_key 2) demo_rotation,
      sign_key_rotation_veto toy_crypto (demo_key 3) demo_rotation] 0 300000000 = Inr ()"
proof (rule conjunct1 [OF overlapping_guardians_cannot_veto])
  have "set (policy_guardians demo_two_groups) = {demo_key 2, demo_key 3}"
    by (auto simp: demo_two_groups_guardians)
  then show "2 * card (set (policy_guardians demo_two_groups)) \<le> length (policy_guardians demo_two_groups)"
    by (simp add: demo_two_groups_guardians)
qed (simp_all add: demo_two_groups_guardians demo_rotation_def)





section \<open>Wire formats\<close>

text \<open>Well-formed policies, rotations and move records survive encoding and decoding, and the
  decoders of rotations and move records accept nothing else.\<close>

theorem recovery_objects_round_trip:
  "(wf_rp p \<longrightarrow> rp_from_det_cbor (rp_det_cbor p) = Inr p) \<and>
   (kr_from_det_cbor b = Inr r \<longleftrightarrow> wf_kr r \<and> b = kr_det_cbor r) \<and>
   (mr_from_det_cbor b = Inr m \<longleftrightarrow> wf_mr m \<and> b = mr_det_cbor m)"
  using rp.round_trip [of p] kr.from_bytes_iff [of b r] mr.from_bytes_iff [of b m]
  by (auto simp: rp_from_det_cbor_def rp_det_cbor_def kr_from_det_cbor_def kr_det_cbor_def
      mr_from_det_cbor_def mr_det_cbor_def)

lemma demo_genesis_wf: "wf_rp demo_genesis"
  by (simp add: demo_genesis_def demo_policy_def wf_rp_def wf_th_def wf_hash_opt_def rust_string_def as_bytes_of_def
      demo_key_def word_le_nat_alt)

theorem recovery_objects_round_trip_witness: "rp_from_det_cbor (rp_det_cbor demo_genesis) = Inr demo_genesis"
  using recovery_objects_round_trip [of demo_genesis] demo_genesis_wf by blast

text \<open>A policy whose recovery threshold is one phrase predicate, written with count \<open>n\<close>.\<close>

definition phrase_variant :: "u64 \<Rightarrow> recovery_policy \<Rightarrow> cv" where
  "phrase_variant n p =
     Map ([(1, suite_cv (rp_suite p)), (2, Bytes (rp_ik p)), (3, U64 (rp_version p)),
           (4, Array (map rm_to_cv (rp_methods p))),
           (5, Map [(1, Array [Map [(1, Text ''phrase''), (2, U64 n)]])]),
           (6, th_to_cv (rp_rotate_threshold p))]
          @ (case rp_prev p of None \<Rightarrow> [] | Some h \<Rightarrow> [(7, hash_cv h)])
          @ [(8, U64 (rp_ts p)), (9, Bytes (rp_sig p))])"

lemma phrase_variant_canon:
  assumes "wf_rp p"
  shows "canon (phrase_variant n p)" "fits_depth 0 (phrase_variant n p)"
proof -
  have "canon (Array (map rm_to_cv (rp_methods p)))" "fits_depth (Suc 0) (Array (map rm_to_cv (rp_methods p)))"
    using assms rm.list_canon [of "rp_methods p"] rm.list_fits [of "rp_methods p" 1] by (simp_all add: wf_rp_def)
  moreover have "canon (th_to_cv (rp_rotate_threshold p))" "fits_depth (Suc 0) (th_to_cv (rp_rotate_threshold p))"
    using assms th.canon_to_cv th.fits_to_cv by (auto simp: wf_rp_def)
  ultimately show "canon (phrase_variant n p)" "fits_depth 0 (phrase_variant n p)"
    using assms
    by (cases "rp_prev p"; simp add: phrase_variant_def wf_rp_def wf_hash_opt_def rust_string_def as_bytes_of_def)+
qed

lemma phrase_variant_reads:
  assumes "wf_rp p" and "rp_recover_threshold p = \<lparr>any_of = [PPhrase]\<rparr>" and "1 \<le> n" "n \<le> 0xFF"
  shows "rp_from_cv (phrase_variant n p) = Inr p"
proof -
  have "unat (ucast n :: u8) = unat n"
    using assms(4) u64_cast_small [of n] unat_ucast_u8_u64 [of "ucast n"] by simp
  then have "\<not> (ucast n :: u8) < 1" using assms(3) by (simp add: word_less_nat_alt word_le_nat_alt)
  then have "mp_of ''phrase'' n = Inr PPhrase" using assms(4) by (simp add: mp_of_def Let_def)
  then have "th_from_cv (Map [(1, Array [Map [(1, Text ''phrase''), (2, U64 n)]])]) = Inr \<lparr>any_of = [PPhrase]\<rparr>"
    by (simp add: th_from_cv_def mp_from_cv_def wire_simps as_list_def fields_deny_unknown_def)
  then show ?thesis
    using assms(1,2) rm.list_from_to [of "rp_methods p"] th.from_to_cv [of "rp_rotate_threshold p"]
    by (cases "rp_prev p") (simp_all add: rp_from_cv_def phrase_variant_def wf_rp_def wire_simps)
qed

text \<open>The policy decoder is not injective: a policy whose recovery threshold is a phrase is also
  decoded from byte strings that write another count for it, which are not its encoding.\<close>

theorem phrase_count_malleable:
  assumes "wf_rp p" and "rp_recover_threshold p = \<lparr>any_of = [PPhrase]\<rparr>" and "1 < n" "n \<le> 0xFF"
  shows "\<exists>b. b = encode (phrase_variant n p) \<and> b \<noteq> rp_det_cbor p \<and> rp_from_det_cbor b = Inr p"
proof -
  note c = phrase_variant_canon [OF assms(1), of n]
  have "phrase_variant n p \<noteq> rp_to_cv True p"
    using assms(2,3) by (auto simp: phrase_variant_def rp_to_cv_def th_to_cv_def mp_to_cv_def)
  then have "encode (phrase_variant n p) \<noteq> rp_det_cbor p"
    using encode_inj [OF c rp.canon_to_cv [OF assms(1)] rp.fits_to_cv [OF assms(1)]] by (auto simp: rp_det_cbor_def)
  moreover have "rp_from_det_cbor (encode (phrase_variant n p)) = Inr p"
    using c phrase_variant_reads [OF assms(1,2) _ assms(4)] assms(3)
    by (simp add: rp_from_det_cbor_def from_bytes_def decode_iff_canonical [THEN iffD2])
  ultimately show ?thesis by blast
qed

theorem phrase_count_malleable_witness:
  "\<exists>b. b = encode (phrase_variant 2 demo_genesis) \<and> b \<noteq> rp_det_cbor demo_genesis \<and> rp_from_det_cbor b = Inr demo_genesis"
  by (rule phrase_count_malleable [OF demo_genesis_wf])
    (simp_all add: demo_genesis_def demo_policy_def word_le_nat_alt word_less_nat_alt)

end
