(* ===== verification/Rtc.thy ===== *)
theory Rtc
  imports Wire_Err Wire_Order Rust_Net Rust_Num
begin

text \<open>
  Real-time call signalling and capacity, \<^verbatim>\<open>rtc.rs\<close>: the signal object with its codec and schema check, the
  scanner that reads media tracks from an SDP body and refuses unprotected media, and the accounting of
  tracks and bit rates behind admission.  Error messages are abbreviated.
\<close>

definition RTC_SIGNAL_KIND :: u8 where "RTC_SIGNAL_KIND = 0x44"
definition RTC_CAPABILITY_TOKEN :: string where "RTC_CAPABILITY_TOKEN = ''rtc-1''"
definition RTC_SFU_CAPABILITY_TOKEN :: string where "RTC_SFU_CAPABILITY_TOKEN = ''rtc-sfu-1''"
definition CALL_ID_LEN :: nat where "CALL_ID_LEN = 16"
definition RTC_EXT_MIN :: u64 where "RTC_EXT_MIN = 64"

datatype rtc_error =
  RtcMalformed string | UnknownSignalType u8 | UnprotectedMedia string | CapacityExceeded | SdpMalformed string | RtcCbor cbor_error

fun rtc_error_code :: "rtc_error \<Rightarrow> u16 option" where
  "rtc_error_code (RtcMalformed _) = Some 0x020D"
| "rtc_error_code (RtcCbor _) = Some 0x020D"
| "rtc_error_code (UnprotectedMedia _) = Some 0x0417"
| "rtc_error_code CapacityExceeded = Some 0x0416"
| "rtc_error_code (UnknownSignalType _) = None"
| "rtc_error_code (SdpMalformed _) = None"

section \<open>Signals\<close>

datatype signal_type = Offer | Pranswer | Answer | Rollback | Candidate | EndOfCandidates | Bye

definition st_from_u8 :: "u8 \<Rightarrow> rtc_error + signal_type" where
  "st_from_u8 b =
     (if b = 1 then Inr Offer else if b = 2 then Inr Pranswer else if b = 3 then Inr Answer else if b = 4 then Inr Rollback
      else if b = 5 then Inr Candidate else if b = 6 then Inr EndOfCandidates else if b = 7 then Inr Bye
      else Inl (UnknownSignalType b))"

fun st_as_u8 :: "signal_type \<Rightarrow> u8" where
  "st_as_u8 Offer = 1"
| "st_as_u8 Pranswer = 2"
| "st_as_u8 Answer = 3"
| "st_as_u8 Rollback = 4"
| "st_as_u8 Candidate = 5"
| "st_as_u8 EndOfCandidates = 6"
| "st_as_u8 Bye = 7"

definition carries_sdp :: "signal_type \<Rightarrow> bool" where
  "carries_sdp t \<longleftrightarrow> t = Offer \<or> t = Pranswer \<or> t = Answer"

datatype bye_reason = ByeNormal | ByeDeclined | ByeBusy | ByeTimeout | ByeCapacity | ByeError | ByeOther u8

definition br_from_u8 :: "u8 \<Rightarrow> bye_reason" where
  "br_from_u8 b =
     (if b = 0 then ByeNormal else if b = 1 then ByeDeclined else if b = 2 then ByeBusy else if b = 3 then ByeTimeout
      else if b = 4 then ByeCapacity else if b = 5 then ByeError else ByeOther b)"

fun br_as_u8 :: "bye_reason \<Rightarrow> u8" where
  "br_as_u8 ByeNormal = 0"
| "br_as_u8 ByeDeclined = 1"
| "br_as_u8 ByeBusy = 2"
| "br_as_u8 ByeTimeout = 3"
| "br_as_u8 ByeCapacity = 4"
| "br_as_u8 ByeError = 5"
| "br_as_u8 (ByeOther b) = b"

datatype topology = Mesh | Sfu

definition tp_from_u8 :: "u8 \<Rightarrow> rtc_error + topology" where
  "tp_from_u8 b = (if b = 1 then Inr Mesh else if b = 2 then Inr Sfu else Inl (RtcMalformed ''topology''))"

fun tp_as_u8 :: "topology \<Rightarrow> u8" where
  "tp_as_u8 Mesh = 1"
| "tp_as_u8 Sfu = 2"

record ice_candidate =
  ic_candidate :: string
  ic_mid :: string
  ic_ufrag :: "string option"

definition ic_to_cv :: "ice_candidate \<Rightarrow> cv" where
  "ic_to_cv c = Map (
     [(1, Text (ic_candidate c)), (2, Text (ic_mid c))] @ (case ic_ufrag c of None \<Rightarrow> [] | Some u \<Rightarrow> [(3, Text u)]))"

abbreviation rtc_text :: "cv \<Rightarrow> rtc_error + string" where "rtc_text \<equiv> lift_err RtcCbor as_text"
abbreviation rtc_u64 :: "cv \<Rightarrow> rtc_error + u64" where "rtc_u64 \<equiv> lift_err RtcCbor as_u64"
abbreviation rtc_u8 :: "cv \<Rightarrow> rtc_error + u8" where "rtc_u8 \<equiv> lift_err RtcCbor as_u8"
abbreviation rtc_bytes :: "cv \<Rightarrow> rtc_error + bytes" where "rtc_bytes \<equiv> lift_err RtcCbor as_bytes"

definition ic_from_cv :: "cv \<Rightarrow> rtc_error + ice_candidate" where
  "ic_from_cv = wread RtcCbor (
     wreq RtcCbor rtc_text 1 (\<lambda>candidate.
     wreq RtcCbor rtc_text 2 (\<lambda>mid.
     wopt rtc_text 3 (\<lambda>ufrag.
       (\<lambda>_. Inr \<lparr>ic_candidate = candidate, ic_mid = mid, ic_ufrag = ufrag\<rparr>)))))"

record rtc_signal =
  rs_call_id :: bytes
  rs_typ :: signal_type
  rs_seq :: u64
  rs_sdp :: "string option"
  rs_candidates :: "ice_candidate list option"
  rs_mls_epoch :: "u64 option"
  rs_reason :: "bye_reason option"
  rs_topology :: "topology option"
  rs_sfu :: "bytes option"
  rs_sfu_suite :: "suite option"

definition rs_bye :: "bytes \<Rightarrow> u64 \<Rightarrow> bye_reason \<Rightarrow> rtc_signal" where
  "rs_bye call_id seq reason =
     \<lparr>rs_call_id = call_id, rs_typ = Bye, rs_seq = seq, rs_sdp = None, rs_candidates = None, rs_mls_epoch = None,
       rs_reason = Some reason, rs_topology = None, rs_sfu = None, rs_sfu_suite = None\<rparr>"

definition rs_with_sdp :: "signal_type \<Rightarrow> bytes \<Rightarrow> u64 \<Rightarrow> string \<Rightarrow> u64 option \<Rightarrow> topology option \<Rightarrow> (bytes \<times> suite) option \<Rightarrow>
    rtc_signal" where
  "rs_with_sdp typ call_id seq sdp mls_epoch topology sfu =
     \<lparr>rs_call_id = call_id, rs_typ = typ, rs_seq = seq, rs_sdp = Some sdp, rs_candidates = None, rs_mls_epoch = mls_epoch,
       rs_reason = None, rs_topology = topology, rs_sfu = map_option fst sfu, rs_sfu_suite = map_option snd sfu\<rparr>"

definition rs_candidates_of :: "bytes \<Rightarrow> u64 \<Rightarrow> ice_candidate list \<Rightarrow> rtc_signal" where
  "rs_candidates_of call_id seq candidates =
     \<lparr>rs_call_id = call_id, rs_typ = Candidate, rs_seq = seq, rs_sdp = None, rs_candidates = Some candidates,
       rs_mls_epoch = None, rs_reason = None, rs_topology = None, rs_sfu = None, rs_sfu_suite = None\<rparr>"

definition rs_to_cv :: "rtc_signal \<Rightarrow> cv" where
  "rs_to_cv s = Map (
     [(1, Bytes (rs_call_id s)), (2, U64 (ucast (st_as_u8 (rs_typ s)))), (3, U64 (rs_seq s))]
     @ (case rs_sdp s of None \<Rightarrow> [] | Some t \<Rightarrow> [(4, Text t)])
     @ (case rs_candidates s of None \<Rightarrow> [] | Some cs \<Rightarrow> [(5, Array (map ic_to_cv cs))])
     @ (case rs_mls_epoch s of None \<Rightarrow> [] | Some e \<Rightarrow> [(6, U64 e)])
     @ (case rs_reason s of None \<Rightarrow> [] | Some r \<Rightarrow> [(7, U64 (ucast (br_as_u8 r)))])
     @ (case rs_topology s of None \<Rightarrow> [] | Some t \<Rightarrow> [(8, U64 (ucast (tp_as_u8 t)))])
     @ (case rs_sfu s of None \<Rightarrow> [] | Some k \<Rightarrow> [(9, Bytes k)])
     @ (case rs_sfu_suite s of None \<Rightarrow> [] | Some u \<Rightarrow> [(10, suite_cv u)]))"

definition rs_det_cbor :: "rtc_signal \<Rightarrow> bytes" where
  "rs_det_cbor s = encode (rs_to_cv s)"

definition st_from_cv :: "cv \<Rightarrow> rtc_error + signal_type" where
  "st_from_cv c = and_then (rtc_u8 c) st_from_u8"

definition br_from_cv :: "cv \<Rightarrow> rtc_error + bye_reason" where
  "br_from_cv c = and_then (rtc_u8 c) (\<lambda>b. Inr (br_from_u8 b))"

definition tp_from_cv :: "cv \<Rightarrow> rtc_error + topology" where
  "tp_from_cv c = and_then (rtc_u8 c) tp_from_u8"

definition sfu_suite_from_cv :: "cv \<Rightarrow> rtc_error + suite" where
  "sfu_suite_from_cv c = and_then (rtc_u8 c) (\<lambda>b. ok_or (suite_from_u8 b) (RtcMalformed ''sfu_suite names an unregistered suite''))"

definition ic_list_from_cv :: "cv \<Rightarrow> rtc_error + ice_candidate list" where
  "ic_list_from_cv c = and_then (map_err RtcCbor (as_array c)) (collect_results ic_from_cv)"

definition rs_from_cv :: "cv \<Rightarrow> rtc_error + rtc_signal" where
  "rs_from_cv = wread RtcCbor (
     wreq RtcCbor rtc_bytes 1 (\<lambda>call_id.
     wreq RtcCbor st_from_cv 2 (\<lambda>typ.
     wreq RtcCbor rtc_u64 3 (\<lambda>seq.
     wopt rtc_text 4 (\<lambda>sdp.
     wopt ic_list_from_cv 5 (\<lambda>candidates.
     wopt rtc_u64 6 (\<lambda>mls_epoch.
     wopt br_from_cv 7 (\<lambda>reason.
     wopt tp_from_cv 8 (\<lambda>topology.
     wopt rtc_bytes 9 (\<lambda>sfu.
     wopt sfu_suite_from_cv 10 (\<lambda>sfu_suite.
       (\<lambda>_. Inr \<lparr>rs_call_id = call_id, rs_typ = typ, rs_seq = seq, rs_sdp = sdp, rs_candidates = candidates,
         rs_mls_epoch = mls_epoch, rs_reason = reason, rs_topology = topology, rs_sfu = sfu, rs_sfu_suite = sfu_suite\<rparr>))))))))))))"

definition check_candidates :: "ice_candidate list option \<Rightarrow> bool \<Rightarrow> rtc_error + unit" where
  "check_candidates candidates is_candidate =
     (case candidates of
        Some cs \<Rightarrow>
          if is_candidate then (if cs = [] then Inl (RtcMalformed ''candidates is present but empty'') else Inr ())
          else Inl (RtcMalformed ''candidates present on a non-candidate type'')
      | None \<Rightarrow> if is_candidate then Inl (RtcMalformed ''candidates missing on a candidate signal'') else Inr ())"

definition rs_validate :: "rtc_signal \<Rightarrow> rtc_error + unit" where
  "rs_validate s =
     (if length (rs_call_id s) \<noteq> CALL_ID_LEN then Inl (RtcMalformed ''call_id is not exactly 16 bytes'')
      else let t = rs_typ s in
      if (rs_sdp s \<noteq> None) \<noteq> carries_sdp t then Inl (RtcMalformed ''sdp presence disagrees with type'')
      else
        and_then (check_candidates (rs_candidates s) (t = Candidate))
          (\<lambda>_.
            if (rs_reason s \<noteq> None) \<noteq> (t = Bye) then Inl (RtcMalformed ''reason presence disagrees with type'')
            else if \<not> (case rs_topology s of Some Sfu \<Rightarrow> rs_sfu s \<noteq> None | _ \<Rightarrow> rs_sfu s = None)
            then Inl (RtcMalformed ''sfu presence disagrees with topology'')
            else if (rs_sfu_suite s \<noteq> None) \<noteq> (rs_sfu s \<noteq> None) then Inl (RtcMalformed ''sfu_suite presence disagrees with sfu'')
            else Inr ()))"

definition rs_decode :: "bytes \<Rightarrow> rtc_error + rtc_signal" where
  "rs_decode b =
     and_then (map_err RtcCbor (decode b)) (\<lambda>c.
     and_then (rs_from_cv c) (\<lambda>sig.
     and_then (rs_validate sig) (\<lambda>_. Inr sig)))"

section \<open>SDP\<close>

datatype media_kind = Audio | Video | Application | MediaOther string

datatype track_purpose = PurposeMain | Slides | Speaker | SignLanguage | Alt | PurposeOther string

datatype direction = SendRecv | SendOnly | RecvOnly | Inactive

record track_descriptor =
  td_mid :: "string option"
  td_media :: media_kind
  td_purpose :: track_purpose
  td_direction :: direction
  td_declared :: "u64 option"

definition is_screen_share :: "track_descriptor \<Rightarrow> bool" where
  "is_screen_share t \<longleftrightarrow> td_purpose t = Slides"

definition floor_bitrate_bps :: "track_descriptor \<Rightarrow> u64" where
  "floor_bitrate_bps t =
     (case td_media t of
        Audio \<Rightarrow> 64000
      | Video \<Rightarrow> (if td_purpose t = Slides then 2500000 else 1000000)
      | Application \<Rightarrow> 128000
      | MediaOther _ \<Rightarrow> 1000000)"

definition budget_bitrate_bps :: "track_descriptor \<Rightarrow> u64" where
  "budget_bitrate_bps t = max (floor_bitrate_bps t) (case td_declared t of Some d \<Rightarrow> d | None \<Rightarrow> 0)"

definition proto_is_protected :: "string \<Rightarrow> bool" where
  "proto_is_protected proto =
     (let p = to_ascii_uppercase proto in find_str ''SAVP'' p \<noteq> None \<or> find_str ''DTLS/SCTP'' p \<noteq> None)"

definition media_of :: "string \<Rightarrow> media_kind" where
  "media_of m =
     (if m = ''audio'' then Audio else if m = ''video'' then Video else if m = ''application'' then Application else MediaOther m)"

definition purpose_of :: "string \<Rightarrow> track_purpose" where
  "purpose_of c =
     (if c = ''main'' then PurposeMain else if c = ''slides'' then Slides else if c = ''speaker'' then Speaker
      else if c = ''sl'' then SignLanguage else if c = ''alt'' then Alt else PurposeOther c)"

definition sdp_line :: "string \<Rightarrow> (string \<times> string) option" where
  "sdp_line raw = split_once (CHR ''='') (rev (dropWhile (\<lambda>c. c \<in> {CHR 0x0D, CHR '' '', CHR 0x09}) (rev raw)))"

definition media_line :: "string \<Rightarrow> rtc_error + track_descriptor" where
  "media_line val =
     (case filter (\<lambda>s. s \<noteq> []) (split_on (CHR '' '') val) of
        [] \<Rightarrow> Inl (SdpMalformed ''m= line has no media field'')
      | [_] \<Rightarrow> Inl (SdpMalformed ''m= line has no port field'')
      | [_, _] \<Rightarrow> Inl (SdpMalformed ''m= line has no proto field'')
      | media # _ # proto # _ \<Rightarrow>
          if \<not> proto_is_protected proto then Inl (UnprotectedMedia media)
          else Inr \<lparr>td_mid = None, td_media = media_of media, td_purpose = PurposeMain, td_direction = SendRecv,
            td_declared = None\<rparr>)"

definition attribute_line :: "string \<Rightarrow> string \<Rightarrow> track_descriptor \<Rightarrow> track_descriptor" where
  "attribute_line kind val cur =
     (if kind = ''b'' then
        (case strip_prefix_str ''AS:'' val of
           Some kbps \<Rightarrow>
             (case parse_uint (2 ^ 64) (trim kbps) of
                Some k \<Rightarrow> cur\<lparr>td_declared := Some (saturating_mul (of_nat k) 1000)\<rparr>
              | None \<Rightarrow> cur)
         | None \<Rightarrow> cur)
      else
        (case strip_prefix_str ''mid:'' val of
           Some mid \<Rightarrow> cur\<lparr>td_mid := Some (trim mid)\<rparr>
         | None \<Rightarrow>
             (case strip_prefix_str ''content:'' val of
                Some content \<Rightarrow> cur\<lparr>td_purpose := purpose_of (trim content)\<rparr>
              | None \<Rightarrow>
                  if val = ''sendrecv'' then cur\<lparr>td_direction := SendRecv\<rparr>
                  else if val = ''sendonly'' then cur\<lparr>td_direction := SendOnly\<rparr>
                  else if val = ''recvonly'' then cur\<lparr>td_direction := RecvOnly\<rparr>
                  else if val = ''inactive'' then cur\<lparr>td_direction := Inactive\<rparr>
                  else cur)))"

definition scan_line :: "track_descriptor list \<Rightarrow> string \<Rightarrow> rtc_error + track_descriptor list" where
  "scan_line out raw =
     (case sdp_line raw of
        None \<Rightarrow> Inr out
      | Some (kind, val) \<Rightarrow>
          if kind = ''m'' then and_then (media_line val) (\<lambda>t. Inr (out @ [t]))
          else if kind = ''a'' \<or> kind = ''b'' then
            Inr (if out = [] then out else butlast out @ [attribute_line kind val (last out)])
          else Inr out)"

fun scan_lines :: "track_descriptor list \<Rightarrow> string list \<Rightarrow> rtc_error + track_descriptor list" where
  "scan_lines out [] = Inr out"
| "scan_lines out (raw # ls) = and_then (scan_line out raw) (\<lambda>out'. scan_lines out' ls)"

definition sdp_scan :: "string \<Rightarrow> rtc_error + track_descriptor list" where
  "sdp_scan sdp = scan_lines [] (split_on (CHR 0x0A) sdp)"

definition rs_tracks :: "rtc_signal \<Rightarrow> rtc_error + track_descriptor list" where
  "rs_tracks s = (case rs_sdp s of Some sdp \<Rightarrow> sdp_scan sdp | None \<Rightarrow> Inr [])"

section \<open>The schema of a signal\<close>

lemma rs_validate_iff:
  "rs_validate s = Inr () \<longleftrightarrow>
     length (rs_call_id s) = 16 \<and>
     (rs_sdp s \<noteq> None \<longleftrightarrow> rs_typ s \<in> {Offer, Pranswer, Answer}) \<and>
     (rs_candidates s \<noteq> None \<longleftrightarrow> rs_typ s = Candidate) \<and> rs_candidates s \<noteq> Some [] \<and>
     (rs_reason s \<noteq> None \<longleftrightarrow> rs_typ s = Bye) \<and>
     (rs_sfu s \<noteq> None \<longleftrightarrow> rs_topology s = Some Sfu) \<and> (rs_sfu_suite s \<noteq> None \<longleftrightarrow> rs_sfu s \<noteq> None)"
proof -
  have t: "(case rs_topology s of Some Sfu \<Rightarrow> rs_sfu s \<noteq> None | _ \<Rightarrow> rs_sfu s = None) \<longleftrightarrow>
      (rs_sfu s \<noteq> None \<longleftrightarrow> rs_topology s = Some Sfu)"
    by (auto split: option.splits topology.splits)
  have c: "check_candidates cs b = Inr () \<longleftrightarrow> (cs \<noteq> None \<longleftrightarrow> b) \<and> cs \<noteq> Some []" for cs b
    by (auto simp: check_candidates_def split: option.splits if_splits)
  show ?thesis
    unfolding rs_validate_def Let_def t by (auto simp: c CALL_ID_LEN_def carries_sdp_def)
qed

lemma signal_enums [simp]:
  "st_from_u8 (st_as_u8 t) = Inr t" "tp_from_u8 (tp_as_u8 p) = Inr p" "br_as_u8 (br_from_u8 b) = b"
proof -
  show "st_from_u8 (st_as_u8 t) = Inr t" by (cases t) (simp_all add: st_from_u8_def)
  show "tp_from_u8 (tp_as_u8 p) = Inr p" by (cases p) (simp_all add: tp_from_u8_def)
  show "br_as_u8 (br_from_u8 b) = b" by (simp add: br_from_u8_def)
qed

text \<open>A reason outside the registered range is \<open>ByeOther\<close>; the registered bytes are not.\<close>

definition wf_reason :: "bye_reason \<Rightarrow> bool" where
  "wf_reason r \<longleftrightarrow> br_from_u8 (br_as_u8 r) = r"

definition wf_ic :: "ice_candidate \<Rightarrow> bool" where
  "wf_ic c \<longleftrightarrow> rust_string (ic_candidate c) \<and> rust_string (ic_mid c) \<and> pred_option rust_string (ic_ufrag c)"

definition wf_rs :: "rtc_signal \<Rightarrow> bool" where
  "wf_rs s \<longleftrightarrow> pred_option rust_string (rs_sdp s) \<and> pred_option (\<lambda>cs. short cs \<and> (\<forall>c \<in> set cs. wf_ic c)) (rs_candidates s) \<and>
     pred_option wf_reason (rs_reason s) \<and> pred_option short (rs_sfu s)"

lemma ic_written:
  assumes "wf_ic c"
  shows "canon (ic_to_cv c)" "fits_depth (Suc (Suc 0)) (ic_to_cv c)" "ic_from_cv (ic_to_cv c) = Inr c"
proof -
  have f: "field_list (Suc (Suc (Suc 0))) 0 (map_fields (ic_to_cv c))"
    using assms by (auto simp: ic_to_cv_def map_fields_def wf_ic_def MAX_NESTING_DEPTH_def pred_option_Some)
  show "canon (ic_to_cv c)" "fits_depth (Suc (Suc 0)) (ic_to_cv c)"
    using field_list_Map [OF f] by (simp_all add: ic_to_cv_def map_fields_def MAX_NESTING_DEPTH_def)
  show "ic_from_cv (ic_to_cv c) = Inr c" by (simp add: ic_from_cv_def ic_to_cv_def wire_simps)
qed

lemma rtc_convs [wire_simps]:
  "st_from_cv (U64 (ucast (st_as_u8 t))) = Inr t" "tp_from_cv (U64 (ucast (tp_as_u8 p))) = Inr p"
  "sfu_suite_from_cv (suite_cv u) = Inr u" "wf_reason r \<Longrightarrow> br_from_cv (U64 (ucast (br_as_u8 r))) = Inr r"
  "\<forall>c \<in> set cs. wf_ic c \<Longrightarrow> ic_list_from_cv (Array (map ic_to_cv cs)) = Inr cs"
  by (simp_all add: st_from_cv_def tp_from_cv_def sfu_suite_from_cv_def suite_cv_def br_from_cv_def wf_reason_def
      ic_list_from_cv_def as_array_def ic_written as_u8_U64)

lemma rs_written:
  assumes "wf_rs s" "length (rs_call_id s) = 16"
  shows "canon (rs_to_cv s)" "fits_depth 0 (rs_to_cv s)" "rs_from_cv (rs_to_cv s) = Inr s"
proof -
  have f: "field_list (Suc 0) 0 (map_fields (rs_to_cv s))"
    using assms by (auto simp: rs_to_cv_def map_fields_def wf_rs_def MAX_NESTING_DEPTH_def pred_option_Some ic_written)
  show "canon (rs_to_cv s)" "fits_depth 0 (rs_to_cv s)"
    using field_list_Map [OF f] by (simp_all add: rs_to_cv_def map_fields_def MAX_NESTING_DEPTH_def)
  show "rs_from_cv (rs_to_cv s) = Inr s"
    using assms by (simp add: rs_from_cv_def rs_to_cv_def wf_rs_def pred_option_Some wire_simps)
qed

lemma rs_round_trip:
  assumes "wf_rs s" "rs_validate s = Inr ()"
  shows "rs_decode (rs_det_cbor s) = Inr s"
proof -
  have l: "length (rs_call_id s) = 16" using assms(2) by (simp add: rs_validate_iff)
  have "decode (rs_det_cbor s) = Inr (rs_to_cv s)"
    using rs_written [OF assms(1) l] by (simp add: decode_iff_canonical rs_det_cbor_def)
  then show ?thesis using rs_written(3) [OF assms(1) l] assms(2) by (simp add: rs_decode_def)
qed

section \<open>Every media section is protected\<close>

definition m_lines :: "string list \<Rightarrow> string list" where
  "m_lines ls = concat (map (\<lambda>raw. case sdp_line raw of Some (k, val) \<Rightarrow> if k = ''m'' then [val] else [] | None \<Rightarrow> []) ls)"

definition section_ok :: "string \<Rightarrow> media_kind \<Rightarrow> bool" where
  "section_ok val m \<longleftrightarrow> (\<exists>media port proto rest.
     filter (\<lambda>s. s \<noteq> []) (split_on (CHR '' '') val) = media # port # proto # rest \<and> proto_is_protected proto \<and> m = media_of media)"

lemma media_line_ok: "media_line val = Inr t \<Longrightarrow> section_ok val (td_media t)"
  by (auto simp: media_line_def section_ok_def split: list.splits if_splits)

lemma attribute_line_media [simp]: "td_media (attribute_line k v t) = td_media t"
  by (simp add: attribute_line_def split: option.split)

lemma scan_line_media:
  assumes "scan_line out raw = Inr out'"
  shows "\<exists>ms. map td_media out' = map td_media out @ ms \<and> list_all2 section_ok (m_lines [raw]) ms"
proof (cases "sdp_line raw")
  case None
  then show ?thesis using assms by (simp add: scan_line_def m_lines_def)
next
  case (Some p)
  obtain k val where p: "p = (k, val)" by fastforce
  have last: "map td_media (butlast out @ [attribute_line k val (last out)]) = map td_media out" if "out \<noteq> []"
    using that by (cases out rule: rev_cases) simp_all
  show ?thesis
    using assms Some p last by (auto simp: scan_line_def m_lines_def dest: media_line_ok split: if_splits)
qed

lemma m_lines_Cons: "m_lines (l # ls) = m_lines [l] @ m_lines ls"
  by (simp add: m_lines_def)

lemma scan_lines_media:
  "scan_lines out ls = Inr out' \<Longrightarrow> \<exists>ms. map td_media out' = map td_media out @ ms \<and> list_all2 section_ok (m_lines ls) ms"
proof (induction ls arbitrary: out)
  case Nil
  then show ?case by (simp add: m_lines_def)
next
  case (Cons l ls)
  then obtain o1 where o1: "scan_line out l = Inr o1" "scan_lines o1 ls = Inr out'" by auto
  from scan_line_media [OF o1(1)] Cons.IH [OF o1(2)] show ?case
    by (subst m_lines_Cons) (force intro: list_all2_appendI)
qed

text \<open>C16. No signal gets unprotected media past the scan: if a signal decodes and its tracks are read, then they are, one for
  one and in order, the media sections of its SDP body, every one of which names a protected transport, and the
  signal has exactly the fields its type allows.\<close>

theorem rtc_media_protected:
  assumes "rs_decode b = Inr s" "rs_tracks s = Inr ts"
  shows "case rs_sdp s of
      None \<Rightarrow> ts = [] \<and> rs_typ s \<in> {Rollback, Candidate, EndOfCandidates, Bye}
    | Some sdp \<Rightarrow> list_all2 section_ok (m_lines (split_on (CHR 0x0A) sdp)) (map td_media ts) \<and> rs_typ s \<in> {Offer, Pranswer, Answer} \<and>
        rs_candidates s = None \<and> rs_reason s = None"
proof -
  have v: "rs_validate s = Inr ()" using assms(1) by (auto simp: rs_decode_def)
  show ?thesis
  proof (cases "rs_sdp s")
    case None
    then show ?thesis using v assms(2) by (cases "rs_typ s") (auto simp: rs_validate_iff rs_tracks_def)
  next
    case (Some sdp)
    then have "scan_lines [] (split_on (CHR 0x0A) sdp) = Inr ts" using assms(2) by (simp add: rs_tracks_def sdp_scan_def)
    from scan_lines_media [OF this] Some v show ?thesis by (cases "rs_typ s") (auto simp: rs_validate_iff)
  qed
qed

definition demo_offer :: rtc_signal where
  "demo_offer = rs_with_sdp Offer (replicate 16 7) 1 ''m=audio 9 RTP/SAVPF 0'' None None None"

lemma demo_offer_tracks:
  "rs_tracks demo_offer =
    Inr [\<lparr>td_mid = None, td_media = Audio, td_purpose = PurposeMain, td_direction = SendRecv, td_declared = None\<rparr>]"
  by (simp add: demo_offer_def rs_with_sdp_def rs_tracks_def sdp_scan_def scan_line_def sdp_line_def media_line_def
      proto_is_protected_def to_ascii_uppercase_def ascii_upper_def code_def media_of_def Let_def)

theorem rtc_media_protected_witness:
  "list_all2 section_ok (m_lines (split_on (CHR 0x0A) ''m=audio 9 RTP/SAVPF 0'')) [Audio]"
proof -
  have "wf_rs demo_offer" "rs_validate demo_offer = Inr ()"
    by (simp_all add: wf_rs_def rs_validate_iff demo_offer_def rs_with_sdp_def rust_string_def as_bytes_of_def)
  then have "rs_decode (rs_det_cbor demo_offer) = Inr demo_offer" by (rule rs_round_trip)
  from rtc_media_protected [OF this demo_offer_tracks] show ?thesis by (simp add: demo_offer_def rs_with_sdp_def)
qed

end
