(* ===== verification/Rtc_Capacity.thy ===== *)
theory Rtc_Capacity
  imports Rtc
begin

text \<open>
  Capacity accounting of \<^verbatim>\<open>rtc.rs\<close>: loads in tracks and bits per second, the local ceiling of a mesh peer and
  the published ceiling of a forwarding unit.  All sums saturate.
\<close>

definition sat_add32 :: "u32 \<Rightarrow> u32 \<Rightarrow> u32" where
  "sat_add32 a b = (if unat a + unat b < 2 ^ 32 then a + b else - 1)"

definition sat_sub32 :: "u32 \<Rightarrow> u32 \<Rightarrow> u32" where
  "sat_sub32 a b = (if b \<le> a then a - b else 0)"

definition sat_mul32 :: "u32 \<Rightarrow> u32 \<Rightarrow> u32" where
  "sat_mul32 a b = (if unat a * unat b < 2 ^ 32 then a * b else - 1)"

definition clamp_u32 :: "u64 \<Rightarrow> u32" where
  "clamp_u32 v = (if v \<le> 0xFFFFFFFF then ucast v else - 1)"

record media_load =
  ml_tracks :: u32
  ml_bitrate :: u64

definition load_step :: "media_load \<Rightarrow> track_descriptor \<Rightarrow> media_load" where
  "load_step l t =
     \<lparr>ml_tracks = sat_add32 (ml_tracks l) 1,
       ml_bitrate = (if td_direction t \<noteq> Inactive then saturating_add (ml_bitrate l) (budget_bitrate_bps t) else ml_bitrate l)\<rparr>"

definition load_of :: "track_descriptor list \<Rightarrow> media_load" where
  "load_of ts = foldl load_step \<lparr>ml_tracks = 0, ml_bitrate = 0\<rparr> ts"

definition load_plus :: "media_load \<Rightarrow> media_load \<Rightarrow> media_load" where
  "load_plus a b =
     \<lparr>ml_tracks = sat_add32 (ml_tracks a) (ml_tracks b), ml_bitrate = saturating_add (ml_bitrate a) (ml_bitrate b)\<rparr>"

record participant_profile =
  pp_tracks :: "track_descriptor list"

definition plan_track :: "media_kind \<Rightarrow> track_purpose \<Rightarrow> track_descriptor" where
  "plan_track media purpose =
     \<lparr>td_mid = None, td_media = media, td_purpose = purpose, td_direction = SendRecv, td_declared = None\<rparr>"

definition audio_only :: participant_profile where
  "audio_only = \<lparr>pp_tracks = [plan_track Audio PurposeMain]\<rparr>"

definition audio_video :: participant_profile where
  "audio_video = \<lparr>pp_tracks = [plan_track Audio PurposeMain, plan_track Video PurposeMain]\<rparr>"

definition audio_video_screen :: participant_profile where
  "audio_video_screen = \<lparr>pp_tracks = [plan_track Audio PurposeMain, plan_track Video PurposeMain, plan_track Video Slides]\<rparr>"

definition pp_load :: "participant_profile \<Rightarrow> media_load" where
  "pp_load p = load_of (pp_tracks p)"

definition LINK_UTILIZATION_NUM :: u64 where "LINK_UTILIZATION_NUM = 3"
definition LINK_UTILIZATION_DEN :: u64 where "LINK_UTILIZATION_DEN = 4"
definition TRACKS_PER_CORE :: u32 where "TRACKS_PER_CORE = 4"

record media_capacity =
  mc_max_tracks :: u32
  mc_max_send :: u64
  mc_max_recv :: u64

definition from_local_resources :: "u32 \<Rightarrow> u64 \<Rightarrow> u64 \<Rightarrow> media_capacity" where
  "from_local_resources cpu_cores uplink_bps downlink_bps =
     \<lparr>mc_max_tracks = max (sat_mul32 cpu_cores TRACKS_PER_CORE) 2,
       mc_max_send = saturating_mul uplink_bps LINK_UTILIZATION_NUM div LINK_UTILIZATION_DEN,
       mc_max_recv = saturating_mul downlink_bps LINK_UTILIZATION_NUM div LINK_UTILIZATION_DEN\<rparr>"

definition mesh_participant_ceiling :: "media_capacity \<Rightarrow> participant_profile \<Rightarrow> u32" where
  "mesh_participant_ceiling c profile =
     (let per_peer = pp_load profile; own_tracks = ml_tracks per_peer;
          by_tracks = (if ml_tracks per_peer = 0 then - 1 else sat_sub32 (mc_max_tracks c) own_tracks div ml_tracks per_peer);
          by_send = (if ml_bitrate per_peer = 0 then - 1 else clamp_u32 (mc_max_send c div ml_bitrate per_peer));
          by_recv = (if ml_bitrate per_peer = 0 then - 1 else clamp_u32 (mc_max_recv c div ml_bitrate per_peer))
      in sat_add32 (min (min by_tracks by_send) by_recv) 1)"

definition mc_admit :: "media_capacity \<Rightarrow> media_load \<Rightarrow> media_load \<Rightarrow> u64 \<Rightarrow> rtc_error + unit" where
  "mc_admit c current incoming bitrate_ceiling =
     (let total = load_plus current incoming in
      if ml_tracks total > mc_max_tracks c \<or> ml_bitrate total > bitrate_ceiling then Inl CapacityExceeded else Inr ())"

definition admit_inbound :: "media_capacity \<Rightarrow> media_load \<Rightarrow> media_load \<Rightarrow> rtc_error + unit" where
  "admit_inbound c current incoming = mc_admit c current incoming (mc_max_recv c)"

definition admit_outbound :: "media_capacity \<Rightarrow> media_load \<Rightarrow> media_load \<Rightarrow> rtc_error + unit" where
  "admit_outbound c current incoming = mc_admit c current incoming (mc_max_send c)"

record rtc_capacity =
  rcap_max_tracks :: u32
  rcap_max_aggregate :: u64
  rcap_per_participant :: u32
  rcap_per_track :: u64
  rcap_advisory :: "u32 option"
  rcap_sframe_required :: bool

definition to_rtc_capacity :: "media_capacity \<Rightarrow> u32 \<Rightarrow> u64 \<Rightarrow> bool \<Rightarrow> rtc_capacity" where
  "to_rtc_capacity c per_participant per_track sframe_required =
     \<lparr>rcap_max_tracks = mc_max_tracks c, rcap_max_aggregate = min (mc_max_send c) (mc_max_recv c),
       rcap_per_participant = per_participant, rcap_per_track = per_track, rcap_advisory = None,
       rcap_sframe_required = sframe_required\<rparr>"

datatype capacity_advert = AdvertMesh media_capacity | AdvertGateway rtc_capacity

fun participant_ceiling :: "capacity_advert \<Rightarrow> participant_profile \<Rightarrow> u32" where
  "participant_ceiling (AdvertMesh c) profile = mesh_participant_ceiling c profile"
| "participant_ceiling (AdvertGateway cap) profile =
     (let per_peer = pp_load profile;
          by_tracks_per_participant = (if ml_tracks per_peer = 0 then - 1 else rcap_per_participant cap div ml_tracks per_peer);
          by_aggregate_tracks = (if ml_tracks per_peer = 0 then - 1 else rcap_max_tracks cap div ml_tracks per_peer);
          by_aggregate_bps = (if ml_bitrate per_peer = 0 then - 1 else clamp_u32 (rcap_max_aggregate cap div ml_bitrate per_peer))
      in min (min by_tracks_per_participant by_aggregate_tracks) by_aggregate_bps)"

definition rcap_to_cv :: "rtc_capacity \<Rightarrow> cv" where
  "rcap_to_cv c = Map (
     [(1, U64 (ucast (rcap_max_tracks c))), (2, U64 (rcap_max_aggregate c)), (3, U64 (ucast (rcap_per_participant c))),
      (4, U64 (rcap_per_track c))]
     @ (case rcap_advisory c of None \<Rightarrow> [] | Some p \<Rightarrow> [(5, U64 (ucast p))])
     @ [(6, Bool (rcap_sframe_required c))])"

definition rcap_det_cbor :: "rtc_capacity \<Rightarrow> bytes" where
  "rcap_det_cbor c = encode (rcap_to_cv c)"

definition as_u64_trunc :: "cv \<Rightarrow> rtc_error + u32" where
  "as_u64_trunc c = and_then (rtc_u64 c) (\<lambda>v. Inr (ucast v))"

definition rcap_from_cv :: "cv \<Rightarrow> rtc_error + rtc_capacity" where
  "rcap_from_cv = wread RtcCbor (
     wreq RtcCbor as_u64_trunc 1 (\<lambda>max_tracks.
     wreq RtcCbor rtc_u64 2 (\<lambda>max_aggregate_bps.
     wreq RtcCbor as_u64_trunc 3 (\<lambda>per_participant.
     wreq RtcCbor rtc_u64 4 (\<lambda>per_track.
     wopt as_u64_trunc 5 (\<lambda>advisory.
     wreq RtcCbor (lift_err RtcCbor as_bool) 6 (\<lambda>sframe_required.
       (\<lambda>_. Inr \<lparr>rcap_max_tracks = max_tracks, rcap_max_aggregate = max_aggregate_bps, rcap_per_participant = per_participant,
         rcap_per_track = per_track, rcap_advisory = advisory, rcap_sframe_required = sframe_required\<rparr>))))))))"

definition rcap_decode :: "bytes \<Rightarrow> rtc_error + rtc_capacity" where
  "rcap_decode = wfrom_bytes RtcCbor rcap_from_cv"

definition rcap_admit :: "rtc_capacity \<Rightarrow> media_load \<Rightarrow> media_load \<Rightarrow> media_load \<Rightarrow> rtc_error + unit" where
  "rcap_admit c current incoming per_participant =
     (let total = load_plus current incoming in
      if ml_tracks total > rcap_max_tracks c \<or> ml_bitrate total > rcap_max_aggregate c \<or>
         ml_tracks per_participant > rcap_per_participant c \<or> ml_bitrate per_participant > rcap_per_track c
      then Inl CapacityExceeded else Inr ())"

section \<open>Arithmetic\<close>

lemma unat_u32_max: "unat (- 1 :: u32) = 2 ^ 32 - 1"
  by (simp add: unsigned_minus_1_eq_mask mask_eq_exp_minus_1)

lemma unat_u32_le: "unat (x :: u32) \<le> 2 ^ 32 - 1"
proof -
  have "unat x < 4294967296" by (rule order_less_le_trans [OF unsigned_less]) simp
  then have "unat x \<le> 4294967295" by linarith
  then show ?thesis by simp
qed

lemma unat_sat_add32: "unat (sat_add32 a b) = min (unat a + unat b) (2 ^ 32 - 1)"
proof (cases "unat a + unat b < 2 ^ 32")
  case True
  then have "unat (a + b) = unat a + unat b" by (simp add: unat_word_ariths)
  then show ?thesis using True by (simp add: sat_add32_def)
next
  case False
  then show ?thesis by (simp add: sat_add32_def unat_u32_max)
qed

lemma unat_sat_sub32: "unat (sat_sub32 a b) = unat a - unat b"
  by (auto simp: sat_sub32_def unat_sub word_le_nat_alt)

lemma unat_clamp_u32: "unat (clamp_u32 v) = min (unat v) (2 ^ 32 - 1)"
proof (cases "v \<le> 0xFFFFFFFF")
  case True
  then have "unat v \<le> 4294967295" by (simp add: word_le_nat_alt)
  then show ?thesis using True by (simp add: clamp_u32_def unsigned_ucast_eq take_bit_nat_eq_self)
next
  case False
  then have "4294967295 < unat v" by (simp add: word_le_nat_alt)
  then show ?thesis using False by (simp add: clamp_u32_def unat_u32_max)
qed

lemma unat_div_word: "unat (a div b) = unat a div unat (b :: 'a::len word)"
  by (rule unat_div)

lemma budget_floor: "floor_bitrate_bps t \<le> budget_bitrate_bps t"
  by (simp add: budget_bitrate_bps_def)

text \<open>A load is the true count and sum, capped at the largest number: nothing wraps.\<close>

lemma cap_add: "min (min a n + b) n = min (a + b) (n :: nat)"
  by auto

lemma load_step_exact:
  "unat (ml_tracks (load_step l t)) = min (unat (ml_tracks l) + 1) (2 ^ 32 - 1)"
  "unat (ml_bitrate (load_step l t)) =
    min (unat (ml_bitrate l) + (if td_direction t \<noteq> Inactive then unat (budget_bitrate_bps t) else 0)) (2 ^ 64 - 1)"
  using unat_u64_le [of "ml_bitrate l"] by (simp_all add: load_step_def unat_sat_add32 unat_saturating_add)

lemma load_fold:
  "unat (ml_tracks (foldl load_step l ts)) = min (unat (ml_tracks l) + length ts) (2 ^ 32 - 1) \<and>
   unat (ml_bitrate (foldl load_step l ts)) =
     min (unat (ml_bitrate l) + (\<Sum>t\<leftarrow>filter (\<lambda>t. td_direction t \<noteq> Inactive) ts. unat (budget_bitrate_bps t))) (2 ^ 64 - 1)"
proof (induction ts arbitrary: l)
  case Nil
  then show ?case using unat_u32_le [of "ml_tracks l"] unat_u64_le [of "ml_bitrate l"] by simp
next
  case (Cons t ts)
  show ?case
    unfolding foldl_Cons Cons [THEN conjunct1] Cons [THEN conjunct2] load_step_exact cap_add by (simp add: add.assoc)
qed

lemma load_of_exact:
  "unat (ml_tracks (load_of ts)) = min (length ts) (2 ^ 32 - 1)"
  "unat (ml_bitrate (load_of ts)) =
    min (\<Sum>t\<leftarrow>filter (\<lambda>t. td_direction t \<noteq> Inactive) ts. unat (budget_bitrate_bps t)) (2 ^ 64 - 1)"
  using load_fold [of "\<lparr>ml_tracks = 0, ml_bitrate = 0\<rparr>" ts] by (simp_all add: load_of_def)

section \<open>The ceiling of a mesh\<close>

text \<open>What a call with \<open>k\<close> peers costs a node: its own tracks and those of every peer, its own bit rate once per
  peer up, and every peer's down.\<close>

definition mesh_fits :: "media_capacity \<Rightarrow> media_load \<Rightarrow> nat \<Rightarrow> bool" where
  "mesh_fits c l k \<longleftrightarrow>
     unat (ml_tracks l) + k * unat (ml_tracks l) \<le> unat (mc_max_tracks c) \<and>
     k * unat (ml_bitrate l) \<le> unat (mc_max_send c) \<and> k * unat (ml_bitrate l) \<le> unat (mc_max_recv c)"

lemma le_div_iff: "0 < (d :: nat) \<Longrightarrow> k \<le> n div d \<longleftrightarrow> k * d \<le> n"
  by (rule less_eq_div_iff_mult_less_eq)

lemma le_unat_min: "k \<le> unat (min a b) \<longleftrightarrow> k \<le> unat a \<and> k \<le> unat (b :: 'a::len word)"
  by (auto simp: min_def word_le_nat_alt)

lemma by_bitrate:
  assumes "k < 2 ^ 32 - 1"
  shows "k \<le> unat (if r = 0 then - 1 else clamp_u32 (m div r)) \<longleftrightarrow> k * unat r \<le> unat (m :: u64)"
proof (cases "r = 0")
  case True
  then show ?thesis using assms by (simp add: unat_u32_max)
next
  case False
  then have "0 < unat r" by (simp add: unat_gt_0)
  then show ?thesis using False assms le_div_iff [of "unat r" k "unat m"] by (simp add: unat_clamp_u32 unat_div_word)
qed

lemma le_sub_iff: "0 < x \<Longrightarrow> x \<le> m - t \<longleftrightarrow> t + x \<le> (m :: nat)"
  by arith

lemma by_tracks:
  assumes "1 \<le> k" "k < 2 ^ 32 - 1"
  shows "k \<le> unat (if t = 0 then - 1 else sat_sub32 m t div t) \<longleftrightarrow> t = 0 \<or> unat t + k * unat t \<le> unat m"
proof (cases "t = 0")
  case True
  then show ?thesis using assms by (simp add: unat_u32_max)
next
  case False
  then have t: "0 < unat t" by (simp add: unat_gt_0)
  then have "0 < k * unat t" using assms(1) by simp
  then show ?thesis using False le_div_iff [OF t, of k "unat m - unat t"] le_sub_iff [of "k * unat t" "unat m" "unat t"]
    by (simp add: unat_div_word unat_sat_sub32)
qed

text \<open>C18. The participant ceiling of a mesh is exact: with at least one peer, a call of \<open>k + 1\<close> participants is within the
  ceiling exactly if the tracks, the uplink and the downlink of the node all suffice for it.\<close>

theorem mesh_ceiling_exact:
  assumes "1 \<le> k" "k < 2 ^ 32 - 1"
  shows "k + 1 \<le> unat (mesh_participant_ceiling c profile) \<longleftrightarrow> mesh_fits c (pp_load profile) k"
proof -
  let ?l = "pp_load profile"
  let ?m = "min (min (if ml_tracks ?l = 0 then - 1 else sat_sub32 (mc_max_tracks c) (ml_tracks ?l) div ml_tracks ?l)
      (if ml_bitrate ?l = 0 then - 1 else clamp_u32 (mc_max_send c div ml_bitrate ?l)))
      (if ml_bitrate ?l = 0 then - 1 else clamp_u32 (mc_max_recv c div ml_bitrate ?l))"
  have "k + 1 \<le> unat (mesh_participant_ceiling c profile) \<longleftrightarrow> k \<le> unat ?m"
    using assms(2) by (simp add: mesh_participant_ceiling_def Let_def unat_sat_add32)
  also have "\<dots> \<longleftrightarrow> mesh_fits c ?l k"
    unfolding le_unat_min by_tracks [OF assms] by_bitrate [OF assms(2)] mesh_fits_def by auto
  finally show ?thesis .
qed

lemma audio_load: "pp_load audio_only = \<lparr>ml_tracks = 1, ml_bitrate = 64000\<rparr>"
  by (simp add: pp_load_def audio_only_def load_of_def load_step_def plan_track_def budget_bitrate_bps_def floor_bitrate_bps_def
      sat_add32_def saturating_add_def)

theorem mesh_ceiling_exact_witness:
  "3 + 1 \<le> unat (mesh_participant_ceiling \<lparr>mc_max_tracks = 8, mc_max_send = 1000000, mc_max_recv = 1000000\<rparr> audio_only) \<longleftrightarrow>
    mesh_fits \<lparr>mc_max_tracks = 8, mc_max_send = 1000000, mc_max_recv = 1000000\<rparr> (pp_load audio_only) 3"
  by (rule mesh_ceiling_exact) simp_all

section \<open>Admission\<close>

text \<open>What is admitted is within the published ceiling, in true numbers, unless the ceiling itself is the largest
  number.\<close>

lemma rcap_admit_sound:
  assumes "rcap_admit c cur inc per = Inr ()"
  shows "unat (rcap_max_tracks c) < 2 ^ 32 - 1 \<Longrightarrow> unat (ml_tracks cur) + unat (ml_tracks inc) \<le> unat (rcap_max_tracks c)"
    and "unat (rcap_max_aggregate c) < 2 ^ 64 - 1 \<Longrightarrow> unat (ml_bitrate cur) + unat (ml_bitrate inc) \<le> unat (rcap_max_aggregate c)"
  using assms by (auto simp: rcap_admit_def Let_def load_plus_def not_less word_le_nat_alt unat_sat_add32 unat_saturating_add
      split: if_splits)

text \<open>The participant ceiling of a gateway is not the admission rule: it divides the allowance of one participant by the
  tracks of one participant.  A gateway for a hundred tracks, three of them per participant, reports room for one
  participant with audio and video, and admits a second.\<close>

lemma gateway_ceiling_diverges:
  fixes cap :: rtc_capacity
  defines "cap \<equiv> \<lparr>rcap_max_tracks = 100, rcap_max_aggregate = 1000000000, rcap_per_participant = 3, rcap_per_track = 5000000,
    rcap_advisory = None, rcap_sframe_required = True\<rparr>"
  shows "participant_ceiling (AdvertGateway cap) audio_video = 1"
    and "rcap_admit cap (pp_load audio_video) (pp_load audio_video) (pp_load audio_video) = Inr ()"
proof -
  have l: "pp_load audio_video = \<lparr>ml_tracks = 2, ml_bitrate = 1064000\<rparr>"
    by (simp add: pp_load_def audio_video_def load_of_def load_step_def plan_track_def budget_bitrate_bps_def floor_bitrate_bps_def
        sat_add32_def saturating_add_def)
  show "participant_ceiling (AdvertGateway cap) audio_video = 1"
    by (simp add: l cap_def clamp_u32_def Let_def)
  show "rcap_admit cap (pp_load audio_video) (pp_load audio_video) (pp_load audio_video) = Inr ()"
    by (simp add: l cap_def rcap_admit_def load_plus_def sat_add32_def saturating_add_def Let_def)
qed

text \<open>A published capacity is read back; a number of tracks beyond 32 bits is truncated, not rejected.\<close>

lemma rcap_round_trip: "rcap_decode (rcap_det_cbor c) = Inr c"
proof -
  have f: "field_list (Suc 0) 0 (map_fields (rcap_to_cv c))"
    by (auto simp: rcap_to_cv_def map_fields_def MAX_NESTING_DEPTH_def pred_option_Some)
  have "canon (rcap_to_cv c)" "fits_depth 0 (rcap_to_cv c)"
    using field_list_Map [OF f] by (simp_all add: rcap_to_cv_def map_fields_def MAX_NESTING_DEPTH_def)
  then have d: "decode (rcap_det_cbor c) = Inr (rcap_to_cv c)" by (simp add: decode_iff_canonical rcap_det_cbor_def)
  have t [wire_simps]: "as_u64_trunc (U64 (ucast (x :: u32))) = Inr x" for x
    by (simp add: as_u64_trunc_def)
  have "rcap_from_cv (rcap_to_cv c) = Inr c" by (simp add: rcap_from_cv_def rcap_to_cv_def wire_simps t)
  then show ?thesis by (simp add: rcap_decode_def wfrom_bytes_def d)
qed

lemma capacity_truncates:
  "rcap_from_cv (Map [(1, U64 (2 ^ 32 + 5)), (2, U64 9), (3, U64 1), (4, U64 1), (6, Bool True)]) =
    Inr \<lparr>rcap_max_tracks = 5, rcap_max_aggregate = 9, rcap_per_participant = 1, rcap_per_track = 1, rcap_advisory = None,
      rcap_sframe_required = True\<rparr>"
  by (simp add: rcap_from_cv_def wire_simps as_u64_trunc_def)

end
