(* ===== verification/Rust_Text.thy ===== *)
theory Rust_Text
  imports Rust_Str
begin

text \<open>
  More of the string functions of the Rust standard library: \<open>replace\<close> of a character, \<open>join\<close> and
  \<open>b as char\<close>; when \<open>trim\<close> leaves a string as it is; and \<open>split\<close> as the inverse of \<open>join\<close>.
\<close>

section \<open>Functions\<close>

definition replace_char :: "char \<Rightarrow> string \<Rightarrow> string \<Rightarrow> string" where
  "replace_char c w s = concat (map (\<lambda>d. if d = c then w else [d]) s)"

fun join_sep :: "'a list \<Rightarrow> 'a list list \<Rightarrow> 'a list" where
  "join_sep sep [] = []"
| "join_sep sep [s] = s"
| "join_sep sep (s # t # ss) = s @ sep @ join_sep sep (t # ss)"

text \<open>\<open>b as char\<close>: the scalar with the number of the byte, in its UTF-8 form.\<close>

definition byte_as_char :: "u8 \<Rightarrow> string" where
  "byte_as_char b =
     (if b < 0x80 then string_of_bytes [b]
      else string_of_bytes [0xC0 OR drop_bit 6 b, 0x80 OR (b AND 0x3F)])"

definition is_ascii_digit :: "u8 \<Rightarrow> bool" where
  "is_ascii_digit b \<longleftrightarrow> 0x30 \<le> b \<and> b \<le> 0x39"

section \<open>Lemmas\<close>

definition graphic :: "char \<Rightarrow> bool" where
  "graphic c \<longleftrightarrow> 32 < code c \<and> code c < 127"

lemma ws_len_graphic: "graphic c \<Longrightarrow> ws_len (c # s) = 0"
  by (cases s; cases "tl s") (auto simp: ws_len_def graphic_def)

lemma ws_len_snoc1: "graphic c \<Longrightarrow> ws_len [a, c] \<noteq> 2"
  by (auto simp: ws_len_def graphic_def)

lemma ws_len_snoc2: "graphic c \<Longrightarrow> ws_len [a, b, c] \<noteq> 3"
  by (auto simp: ws_len_def graphic_def)

lemma ws_end_graphic:
  assumes "graphic c" shows "ws_end (t @ [c]) = 0"
proof -
  have 1: "ws_len (drop (length (t @ [c]) - 1) (t @ [c])) \<noteq> 1"
    using ws_len_graphic [OF assms, of "[]"] by simp
  have 2: "ws_len (drop (length (t @ [c]) - 2) (t @ [c])) \<noteq> 2"
  proof (cases t rule: rev_cases)
    case Nil then show ?thesis using ws_len_le [of "[c]"] by simp
  next
    case (snoc u a) then show ?thesis using ws_len_snoc1 [OF assms, of a] by simp
  qed
  have 3: "ws_len (drop (length (t @ [c]) - 3) (t @ [c])) \<noteq> 3"
  proof (cases t rule: rev_cases)
    case Nil then show ?thesis using ws_len_le [of "[c]"] by simp
  next
    case (snoc u a)
    show ?thesis
    proof (cases u rule: rev_cases)
      case Nil then show ?thesis using snoc ws_len_le [of "[a, c]"] by simp
    next
      case (snoc w b) then show ?thesis using \<open>t = u @ [a]\<close> ws_len_snoc2 [OF assms, of b a] by simp
    qed
  qed
  show ?thesis using 1 2 3 by (simp add: ws_end_def)
qed

lemma trim_graphic:
  assumes "s = [] \<or> graphic (hd s) \<and> graphic (last s)"
  shows "trim s = s"
proof (cases s rule: rev_cases)
  case Nil
  then show ?thesis by (simp add: trim_def trim_start.simps trim_end.simps ws_end_def)
next
  case (snoc t c)
  have "ws_len s = 0" using assms snoc ws_len_graphic [of "hd s" "tl s"] by (cases s) auto
  moreover have "ws_end s = 0" using assms snoc ws_end_graphic by auto
  ultimately show ?thesis by (simp add: trim_def trim_start.simps trim_end.simps)
qed

lemma graphic_digit: "is_digit c \<Longrightarrow> graphic c"
  by (simp add: graphic_def is_digit_def)

declare as_bytes_of_append [simp]

lemma as_bytes_of_Cons [simp]: "as_bytes_of (c # t) = of_char c # as_bytes_of t"
  by (simp add: as_bytes_of_def)

lemma byte_as_char_ascii: "(of_char c :: u8) < 0x80 \<Longrightarrow> byte_as_char (of_char c) = [c]"
  by (simp add: byte_as_char_def string_of_bytes_def)

lemma of_char_eq_iff_u8: "(of_char c :: u8) = of_char d \<longleftrightarrow> c = d"
  by (metis unat_of_char_u8 of_char_eq_iff)

lemma digits_bytes: "list_all is_digit s \<Longrightarrow> \<forall>b \<in> set (as_bytes_of s). is_ascii_digit b"
proof
  fix b assume a: "list_all is_digit s" "b \<in> set (as_bytes_of s)"
  then obtain c where "b = of_char c" "is_digit c" by (auto simp: as_bytes_of_def list_all_iff)
  then show "is_ascii_digit b"
    by (simp add: is_digit_def code_def is_ascii_digit_def word_le_nat_alt)
qed

lemma split_on_join:
  "xs \<noteq> [] \<Longrightarrow> \<forall>x \<in> set xs. c \<notin> set x \<Longrightarrow> split_on c (join_sep [c] xs) = xs"
  by (induction "[c]" xs rule: join_sep.induct) (auto simp: split_on_none split_on_append)

lemma split_once_none: "c \<notin> set a \<Longrightarrow> split_once c a = None"
  by (induction a) auto

lemma utf8_valid_ascii: "\<forall>b \<in> set bs. b < 0x80 \<Longrightarrow> utf8_valid bs"
  by (induction bs) auto

end
