(* ===== verification/Imap_Seq.thy ===== *)
theory Imap_Seq
  imports Rust_Text
begin

text \<open>
  IMAP sequence sets, after \<open>imap/sequence.rs\<close>: \<open>1:3,5,*\<close> as ranges of points, the saved-result
  reference \<open>$\<close>, membership, and the two ways a set is turned into concrete numbers.
\<close>

datatype point = Num u32 | Star

primrec point_resolve :: "u32 \<Rightarrow> point \<Rightarrow> u32" where
  "point_resolve mx (Num n) = n"
| "point_resolve mx Star = mx"

record seq_range =
  sr_lo :: point
  sr_hi :: point

record sequence_set =
  ss_ranges :: "seq_range list"
  ss_saved :: bool

definition parse_point :: "string \<Rightarrow> point option" where
  "parse_point s =
     (let t = trim s in
      if t = ''*'' then Some Star
      else (case parse_uint (2 ^ 32) t of
              None \<Rightarrow> None
            | Some n \<Rightarrow> if 0 < n then Some (Num (of_nat n)) else None))"

definition parse_range :: "string \<Rightarrow> seq_range option" where
  "parse_range item =
     (case split_once (CHR '':'') item of
        Some (a, b) \<Rightarrow>
          (case parse_point a of
             None \<Rightarrow> None
           | Some lo \<Rightarrow>
               (case parse_point b of
                  None \<Rightarrow> None
                | Some hi \<Rightarrow> Some \<lparr>sr_lo = lo, sr_hi = hi\<rparr>))
      | None \<Rightarrow> map_option (\<lambda>p. \<lparr>sr_lo = p, sr_hi = p\<rparr>) (parse_point item))"

fun parse_ranges :: "string list \<Rightarrow> seq_range list option" where
  "parse_ranges [] = Some []"
| "parse_ranges (item # items) =
     (case parse_range item of
        None \<Rightarrow> None
      | Some r \<Rightarrow> map_option ((#) r) (parse_ranges items))"

definition seqset_parse :: "string \<Rightarrow> sequence_set option" where
  "seqset_parse s =
     (if s = [] then None
      else if s = ''$'' then Some \<lparr>ss_ranges = [], ss_saved = True\<rparr>
      else map_option (\<lambda>rs. \<lparr>ss_ranges = rs, ss_saved = False\<rparr>) (parse_ranges (split_on (CHR '','') s)))"

definition is_saved :: "sequence_set \<Rightarrow> bool" where
  "is_saved s = ss_saved s"

definition from_uids :: "u32 list \<Rightarrow> sequence_set" where
  "from_uids nums =
     \<lparr>ss_ranges = map (\<lambda>n. \<lparr>sr_lo = Num n, sr_hi = Num n\<rparr>) nums, ss_saved = False\<rparr>"

definition range_resolved :: "u32 \<Rightarrow> seq_range \<Rightarrow> u32 \<times> u32" where
  "range_resolved mx r =
     (let a = point_resolve mx (sr_lo r); b = point_resolve mx (sr_hi r) in
      if a \<le> b then (a, b) else (b, a))"

definition seqset_contains :: "sequence_set \<Rightarrow> u32 \<Rightarrow> u32 \<Rightarrow> bool" where
  "seqset_contains s v mx \<longleftrightarrow>
     list_ex (\<lambda>r. let (lo, hi) = range_resolved mx r in lo \<le> v \<and> v \<le> hi) (ss_ranges s)"

definition resolve_seqs :: "sequence_set \<Rightarrow> u32 \<Rightarrow> u32 list" where
  "resolve_seqs s count =
     (if count = 0 then []
      else filter (\<lambda>n. seqset_contains s n count) (map of_nat [1..<Suc (unat count)]))"

definition ranges_resolved :: "sequence_set \<Rightarrow> u32 \<Rightarrow> (u32 \<times> u32) list" where
  "ranges_resolved s mx = map (range_resolved mx) (ss_ranges s)"

section \<open>Lemmas\<close>

lemma unat_of_nat_u32: "n < 2 ^ 32 \<Longrightarrow> unat (of_nat n :: u32) = n"
  by (simp add: unat_of_nat)

lemma unat_u32_less: "unat (w :: u32) < 2 ^ 32"
  by (rule order_less_le_trans [OF unsigned_less]) simp

definition u32_upto :: "u32 \<Rightarrow> u32 list" where
  "u32_upto count = map of_nat [1..<Suc (unat count)]"

lemma u32_upto_sorted: "sorted (u32_upto count) \<and> distinct (u32_upto count)"
proof -
  have lim: "n < 2 ^ 32" if "n \<in> set [1..<Suc (unat count)]" for n
    using that unat_u32_less [of count] by auto
  have "sorted_wrt (\<lambda>a b :: u32. a < b) (u32_upto count)"
    unfolding u32_upto_def sorted_wrt_map
  proof (rule sorted_wrt_mono_rel)
    show "sorted_wrt (<) [1..<Suc (unat count)]" by (rule sorted_wrt_upt)
    fix x y assume "x \<in> set [1..<Suc (unat count)]" "y \<in> set [1..<Suc (unat count)]" "x < y"
    then show "(of_nat x :: u32) < of_nat y"
      using lim [of x] lim [of y] by (simp add: word_less_nat_alt unat_of_nat_u32)
  qed
  then show ?thesis using strict_sorted_iff by blast
qed

lemma set_u32_upto: "set (u32_upto count) = {n. 1 \<le> n \<and> n \<le> count}"
proof (intro equalityI subsetI)
  fix n assume "n \<in> set (u32_upto count)"
  then obtain k where "n = of_nat k" "1 \<le> k" "k \<le> unat count"
    by (auto simp: u32_upto_def)
  moreover from this have "k < 2 ^ 32" using unat_u32_less [of count] by simp
  ultimately show "n \<in> {n. 1 \<le> n \<and> n \<le> count}"
    by (simp add: word_le_nat_alt unat_of_nat_u32)
next
  fix n assume "n \<in> {n. 1 \<le> n \<and> n \<le> count}"
  then have "1 \<le> unat n" "unat n \<le> unat count" by (simp_all add: word_le_nat_alt)
  then have "unat n \<in> set [1..<Suc (unat count)]" by auto
  then have "of_nat (unat n) \<in> set (u32_upto count)"
    unfolding u32_upto_def set_map by (rule imageI)
  then show "n \<in> set (u32_upto count)" by simp
qed

lemma resolve_seqs_filter: "resolve_seqs s count = filter (\<lambda>n. seqset_contains s n count) (u32_upto count)"
  by (simp add: resolve_seqs_def u32_upto_def)

lemma contains_ranges: "seqset_contains s v mx \<longleftrightarrow> (\<exists>(lo, hi) \<in> set (ranges_resolved s mx). lo \<le> v \<and> v \<le> hi)"
  by (auto simp: seqset_contains_def ranges_resolved_def list_ex_iff split: prod.splits)

lemma range_resolved_ordered: "fst (range_resolved mx r) \<le> snd (range_resolved mx r)"
  by (auto simp: range_resolved_def Let_def)

lemma from_uids_contains: "seqset_contains (from_uids ns) v mx \<longleftrightarrow> v \<in> set ns"
  by (auto simp: seqset_contains_def from_uids_def range_resolved_def list_ex_iff)

lemma parse_point_positive: "parse_point t = Some q \<Longrightarrow> q \<noteq> Num 0"
proof (cases "parse_uint (2 ^ 32) (trim t)")
  case (Some n)
  assume a: "parse_point t = Some q"
  from Some have "n < 2 ^ 32" by (rule parse_uint_less)
  then have "0 < n \<Longrightarrow> (of_nat n :: u32) \<noteq> 0"
    by (metis unat_0 unat_of_nat_u32 less_irrefl)
  then show ?thesis using a Some by (auto simp: parse_point_def Let_def split: if_splits)
qed (auto simp: parse_point_def Let_def split: if_splits)

lemma parse_range_positive: "parse_range item = Some r \<Longrightarrow> sr_lo r \<noteq> Num 0 \<and> sr_hi r \<noteq> Num 0"
  using parse_point_positive by (fastforce simp: parse_range_def split: option.splits)

lemma parse_ranges_positive:
  "parse_ranges items = Some rs \<Longrightarrow> \<forall>r \<in> set rs. sr_lo r \<noteq> Num 0 \<and> sr_hi r \<noteq> Num 0"
  by (induction items arbitrary: rs) (auto split: option.splits dest: parse_range_positive)

lemma seqset_parse_positive:
  "seqset_parse txt = Some s \<Longrightarrow> \<forall>r \<in> set (ss_ranges s). sr_lo r \<noteq> Num 0 \<and> sr_hi r \<noteq> Num 0"
  by (auto simp: seqset_parse_def split: if_splits dest: parse_ranges_positive)

section \<open>Spelling\<close>

text \<open>The spelling of a set, which the parser reads back.\<close>

primrec point_str :: "point \<Rightarrow> string" where
  "point_str (Num n) = dec (unat n)"
| "point_str Star = ''*''"

definition range_str :: "seq_range \<Rightarrow> string" where
  "range_str r =
     (if sr_lo r = sr_hi r then point_str (sr_lo r)
      else point_str (sr_lo r) @ '':'' @ point_str (sr_hi r))"

definition seqset_str :: "sequence_set \<Rightarrow> string" where
  "seqset_str s = (if ss_saved s then ''$'' else join_sep '','' (map range_str (ss_ranges s)))"

definition wf_seqset :: "sequence_set \<Rightarrow> bool" where
  "wf_seqset s \<longleftrightarrow> (ss_saved s \<longleftrightarrow> ss_ranges s = []) \<and>
     list_all (\<lambda>r. sr_lo r \<noteq> Num 0 \<and> sr_hi r \<noteq> Num 0) (ss_ranges s)"

definition seq_char :: "char \<Rightarrow> bool" where
  "seq_char c \<longleftrightarrow> is_digit c \<or> c = CHR ''*''"

lemma point_str_chars: "list_all seq_char (point_str p) \<and> point_str p \<noteq> []"
  using dec_digits by (cases p) (auto simp: seq_char_def list_all_iff)

lemma seq_char_graphic: "seq_char c \<Longrightarrow> graphic c"
  by (auto simp: seq_char_def graphic_def is_digit_def code_def)

lemma seq_char_not: "seq_char c \<Longrightarrow> c \<noteq> CHR '':'' \<and> c \<noteq> CHR '',''"
  by (auto simp: seq_char_def is_digit_def code_def)

lemma point_str_not: "CHR '':'' \<notin> set (point_str p) \<and> CHR '','' \<notin> set (point_str p)"
  using point_str_chars [of p] seq_char_not by (auto simp: list_all_iff)

lemma trim_point_str: "trim (point_str p) = point_str p"
proof (rule trim_graphic)
  have "hd (point_str p) \<in> set (point_str p)" "last (point_str p) \<in> set (point_str p)"
    using point_str_chars [of p] by auto
  then show "point_str p = [] \<or> graphic (hd (point_str p)) \<and> graphic (last (point_str p))"
    using point_str_chars [of p] seq_char_graphic by (auto simp: list_all_iff)
qed

lemma dec_not_star: "dec n \<noteq> ''*''"
  using dec_digits(2) [of n] by (auto simp: is_digit_def code_def)

lemma parse_point_str: "p \<noteq> Num 0 \<Longrightarrow> parse_point (point_str p) = Some p"
proof (cases p)
  case (Num n)
  assume "p \<noteq> Num 0"
  then have "0 < unat n" using Num by (simp add: unat_gt_0)
  then show ?thesis
    using Num trim_point_str [of p] dec_not_star parse_uint_dec [OF unat_u32_less, of n]
    by (simp add: parse_point_def)
qed (use trim_point_str [of Star] in \<open>simp add: parse_point_def\<close>)

lemma parse_range_str:
  assumes "sr_lo r \<noteq> Num 0" "sr_hi r \<noteq> Num 0"
  shows "parse_range (range_str r) = Some r"
proof (cases "sr_lo r = sr_hi r")
  case True
  then show ?thesis
    using assms point_str_not parse_point_str by (simp add: parse_range_def range_str_def split_once_none)
next
  case False
  have "split_once (CHR '':'') (point_str (sr_lo r) @ CHR '':'' # point_str (sr_hi r)) =
      Some (point_str (sr_lo r), point_str (sr_hi r))"
    by (rule split_once_append) (simp add: point_str_not)
  then show ?thesis using assms False by (simp add: parse_range_def range_str_def parse_point_str)
qed

lemma range_str_not: "CHR '','' \<notin> set (range_str r) \<and> range_str r \<noteq> []"
  using point_str_not point_str_chars by (auto simp: range_str_def)

lemma parse_ranges_str:
  "list_all (\<lambda>r. sr_lo r \<noteq> Num 0 \<and> sr_hi r \<noteq> Num 0) rs \<Longrightarrow> parse_ranges (map range_str rs) = Some rs"
  by (induction rs) (simp_all add: parse_range_str)

lemma join_sep_Nil_iff: "\<forall>x \<in> set xs. x \<noteq> [] \<Longrightarrow> join_sep sep xs = [] \<longleftrightarrow> xs = []"
  by (induction sep xs rule: join_sep.induct) auto

lemma set_join_sep: "set (join_sep sep xs) \<subseteq> set sep \<union> (\<Union>x \<in> set xs. set x)"
  by (induction sep xs rule: join_sep.induct) auto

lemma seqset_str_chars:
  "list_all (\<lambda>c. seq_char c \<or> c = CHR '':'' \<or> c = CHR '','' \<or> c = CHR ''$'') (seqset_str s)"
proof -
  have "set (range_str r) \<subseteq> {c. seq_char c \<or> c = CHR '':''}" for r
    using point_str_chars by (auto simp: range_str_def list_all_iff)
  then show ?thesis
    using set_join_sep [of "'',''" "map range_str (ss_ranges s)"]
    by (fastforce simp: seqset_str_def list_all_iff)
qed

lemma seqset_parse_str:
  assumes "wf_seqset s"
  shows "seqset_parse (seqset_str s) = Some s"
proof (cases "ss_saved s")
  case True
  then show ?thesis using assms by (simp add: wf_seqset_def seqset_str_def seqset_parse_def)
next
  case False
  let ?t = "join_sep '','' (map range_str (ss_ranges s))"
  have ne: "ss_ranges s \<noteq> []" and pos: "list_all (\<lambda>r. sr_lo r \<noteq> Num 0 \<and> sr_hi r \<noteq> Num 0) (ss_ranges s)"
    using assms False by (auto simp: wf_seqset_def)
  have t: "?t \<noteq> []" using ne range_str_not by (simp add: join_sep_Nil_iff)
  have sp: "split_on (CHR '','') ?t = map range_str (ss_ranges s)"
    by (rule split_on_join) (use ne range_str_not in auto)
  have "?t \<noteq> ''$''"
  proof
    assume "?t = ''$''"
    then have "map range_str (ss_ranges s) = [''$'']" using sp by simp
    then have "parse_ranges [''$''] = Some (ss_ranges s)" using parse_ranges_str [OF pos] by simp
    then show False
      by (simp add: parse_range_def parse_point_def trim_graphic graphic_def code_def parse_uint_def is_digit_def)
  qed
  then show ?thesis using t sp parse_ranges_str [OF pos] False by (simp add: seqset_parse_def seqset_str_def)
qed

text \<open>
  A sequence set resolves to the numbers of the mailbox that it contains: \<open>resolve_seqs\<close> lists
  exactly the numbers from 1 to the message count that are members, ascending and without
  duplicates; the spans that \<open>ranges_resolved\<close> hands to a binary search cover exactly the members,
  and each span is ordered; a set built from a list of UIDs has exactly these members; and no
  set that the parser accepts has the number 0 as an end point.
\<close>

theorem sequence_set_resolution:
  fixes s :: sequence_set
  shows "set (resolve_seqs s count) = {n. 1 \<le> n \<and> n \<le> count \<and> seqset_contains s n count} \<and>
         sorted (resolve_seqs s count) \<and> distinct (resolve_seqs s count) \<and>
         (seqset_contains s v mx \<longleftrightarrow> (\<exists>(lo, hi) \<in> set (ranges_resolved s mx). lo \<le> v \<and> v \<le> hi)) \<and>
         (\<forall>(lo, hi) \<in> set (ranges_resolved s mx). lo \<le> hi) \<and>
         (seqset_contains (from_uids ns) v mx \<longleftrightarrow> v \<in> set ns) \<and>
         (seqset_parse txt = Some s \<longrightarrow> (\<forall>r \<in> set (ss_ranges s). sr_lo r \<noteq> Num 0 \<and> sr_hi r \<noteq> Num 0))"
proof (intro conjI)
  show "set (resolve_seqs s count) = {n. 1 \<le> n \<and> n \<le> count \<and> seqset_contains s n count}"
    using set_u32_upto [of count] by (auto simp: resolve_seqs_filter)
  show "sorted (resolve_seqs s count)" "distinct (resolve_seqs s count)"
    using u32_upto_sorted [of count] by (simp_all add: resolve_seqs_filter sorted_wrt_filter)
  show "seqset_contains s v mx \<longleftrightarrow> (\<exists>(lo, hi) \<in> set (ranges_resolved s mx). lo \<le> v \<and> v \<le> hi)"
    by (rule contains_ranges)
  show "\<forall>(lo, hi) \<in> set (ranges_resolved s mx). lo \<le> hi"
    by (auto simp: ranges_resolved_def) (metis fst_conv range_resolved_ordered snd_conv)
  show "seqset_contains (from_uids ns) v mx \<longleftrightarrow> v \<in> set ns"
    by (rule from_uids_contains)
  show "seqset_parse txt = Some s \<longrightarrow> (\<forall>r \<in> set (ss_ranges s). sr_lo r \<noteq> Num 0 \<and> sr_hi r \<noteq> Num 0)"
    using seqset_parse_positive by blast
qed

theorem sequence_set_resolution_witness:
  "seqset_parse ''3:1,*'' =
     Some \<lparr>ss_ranges = [\<lparr>sr_lo = Num 3, sr_hi = Num 1\<rparr>, \<lparr>sr_lo = Star, sr_hi = Star\<rparr>],
           ss_saved = False\<rparr> \<and>
   (\<forall>r \<in> set [\<lparr>sr_lo = Num 3, sr_hi = Num 1\<rparr>, \<lparr>sr_lo = Star, sr_hi = Star\<rparr>].
      sr_lo r \<noteq> Num 0 \<and> sr_hi r \<noteq> Num 0)"
proof -
  let ?s = "\<lparr>ss_ranges = [\<lparr>sr_lo = Num 3, sr_hi = Num 1\<rparr>, \<lparr>sr_lo = Star, sr_hi = Star\<rparr>],
           ss_saved = False\<rparr>"
  have p: "seqset_parse ''3:1,*'' = Some ?s"
    by (simp add: seqset_parse_def parse_range_def parse_point_def trim_graphic graphic_def code_def
          parse_uint_def is_digit_def digits_val_def)
  then show ?thesis
    using sequence_set_resolution [of ?s 0 0 0 "[]" "''3:1,*''"] by simp
qed

end
