(* ===== verification/Imap_Token.thy ===== *)
theory Imap_Token
  imports Rust_Text
begin

text \<open>
  The lexer of IMAP commands, after the first part of \<open>imap/parser.rs\<close>, and the quoting of
  \<open>imap/response.rs\<close> that it reads back.  The index \<open>i\<close> of the Rust code into its buffer is
  the rest of the buffer here.  The theory ends with the walk over balanced parentheses and
  brackets that the command and the search parsers share.
\<close>

datatype token = Atom string | Quoted string | Literal bytes | LParen | RParen | LBracket | RBracket

fun token_str :: "token \<Rightarrow> string option" where
  "token_str (Atom s) = Some s"
| "token_str (Quoted s) = Some s"
| "token_str _ = None"

fun token_bytes :: "token \<Rightarrow> bytes option" where
  "token_bytes (Atom s) = Some (as_bytes_of s)"
| "token_bytes (Quoted s) = Some (as_bytes_of s)"
| "token_bytes (Literal b) = Some b"
| "token_bytes _ = None"

datatype parse_error = Empty | BadLiteral | UnterminatedQuote | UnknownCommand string | Syntax string

fun read_quoted :: "string \<Rightarrow> bytes \<Rightarrow> parse_error + string \<times> bytes" where
  "read_quoted s [] = Inl UnterminatedQuote"
| "read_quoted s (b # r) =
     (if b = 0x22 then Inr (s, r)
      else if b = 0x5C \<and> r \<noteq> [] then read_quoted (s @ byte_as_char (hd r)) (tl r)
      else read_quoted (s @ byte_as_char b) r)"

definition MAX_LITERAL_LEN :: nat where
  "MAX_LITERAL_LEN = 64 * 1024 * 1024"

definition skip_byte :: "u8 \<Rightarrow> bytes \<Rightarrow> bytes" where
  "skip_byte c r = (case r of b # r' \<Rightarrow> if b = c then r' else r | [] \<Rightarrow> r)"

definition read_literal :: "bytes \<Rightarrow> parse_error + bytes \<times> bytes" where
  "read_literal buf =
     (let r = dropWhile is_ascii_digit buf in
      and_then (ok_or (case from_utf8 (takeWhile is_ascii_digit buf) of
                         None \<Rightarrow> None | Some s \<Rightarrow> parse_uint (2 ^ 64) s) BadLiteral) (\<lambda>n.
      case skip_byte 0x2B r of
        [] \<Rightarrow> Inl BadLiteral
      | b # r2 \<Rightarrow>
          if b \<noteq> 0x7D then Inl BadLiteral
          else let r3 = skip_byte 0x0A (skip_byte 0x0D r2) in
               if MAX_LITERAL_LEN < n \<or> length r3 < n then Inl BadLiteral
               else Inr (take n r3, drop n r3)))"

definition atom_stop :: "u8 \<Rightarrow> bool" where
  "atom_stop b \<longleftrightarrow> b \<in> set [0x20, 0x09, 0x0D, 0x0A, 0x28, 0x29, 0x5B, 0x5D, 0x7B, 0x22]"

definition read_atom :: "bytes \<Rightarrow> string \<times> bytes" where
  "read_atom buf =
     (string_of_bytes (utf8_lossy (takeWhile (Not \<circ> atom_stop) buf)), dropWhile (Not \<circ> atom_stop) buf)"

lemma read_quoted_length: "read_quoted s buf = Inr (t, r) \<Longrightarrow> length r < length buf"
proof (induction s buf rule: read_quoted.induct)
  case (2 s b bs)
  then show ?case by (cases bs) (auto split: if_splits)
qed simp

lemma skip_byte_length: "length (skip_byte c r) \<le> length r"
  by (cases r) (simp_all add: skip_byte_def)

lemma read_literal_length: "read_literal buf = Inr (l, r) \<Longrightarrow> length r < length buf"
proof -
  assume a: "read_literal buf = Inr (l, r)"
  let ?d = "dropWhile is_ascii_digit buf"
  obtain n b r2 where s: "skip_byte 0x2B ?d = b # r2"
    and r: "r = drop n (skip_byte 0x0A (skip_byte 0x0D r2))"
  proof (cases "skip_byte 0x2B ?d")
    case Nil
    then show ?thesis using a by (auto simp: read_literal_def Let_def)
  next
    case (Cons b r2)
    then show ?thesis using a that by (auto simp: read_literal_def Let_def split: if_splits)
  qed
  have "length r \<le> length (skip_byte 0x0D r2)" using r skip_byte_length [of "0x0A" "skip_byte 0x0D r2"] by simp
  also have "\<dots> \<le> length r2" by (rule skip_byte_length)
  also have "length r2 < length (skip_byte 0x2B ?d)" using s by simp
  also have "\<dots> \<le> length ?d" by (rule skip_byte_length)
  also have "\<dots> \<le> length buf" by (simp add: length_dropWhile_le)
  finally show ?thesis .
qed

lemma read_atom_length: "\<not> atom_stop b \<Longrightarrow> length (snd (read_atom (b # r))) < length (b # r)"
  by (simp add: read_atom_def length_dropWhile_le less_Suc_eq_le)

function tokenize :: "bytes \<Rightarrow> parse_error + token list" where
  "tokenize [] = Inr []"
| "tokenize (b # r) =
     (if b \<in> set [0x20, 0x09, 0x0D, 0x0A] then tokenize r
      else if b = 0x28 then and_then (tokenize r) (\<lambda>ts. Inr (LParen # ts))
      else if b = 0x29 then and_then (tokenize r) (\<lambda>ts. Inr (RParen # ts))
      else if b = 0x5B then and_then (tokenize r) (\<lambda>ts. Inr (LBracket # ts))
      else if b = 0x5D then and_then (tokenize r) (\<lambda>ts. Inr (RBracket # ts))
      else if b = 0x22 then
        (case read_quoted [] r of
           Inl e \<Rightarrow> Inl e
         | Inr (s, r2) \<Rightarrow> and_then (tokenize r2) (\<lambda>ts. Inr (Quoted s # ts)))
      else if b = 0x7B then
        (case read_literal r of
           Inl e \<Rightarrow> Inl e
         | Inr (l, r2) \<Rightarrow> and_then (tokenize r2) (\<lambda>ts. Inr (Literal l # ts)))
      else and_then (tokenize (snd (read_atom (b # r)))) (\<lambda>ts. Inr (Atom (fst (read_atom (b # r))) # ts)))"
  by pat_completeness auto
termination
proof (relation "measure length", goal_cases)
  case (7 b r x2 s r2)
  then show ?case using read_quoted_length by fastforce
next
  case (8 b r x2 l r2)
  then show ?case using read_literal_length by fastforce
next
  case (9 b r)
  then have "\<not> atom_stop b" by (simp add: atom_stop_def)
  then show ?case using read_atom_length by simp
qed simp_all

declare tokenize.simps(2) [simp del]

section \<open>Balanced tokens\<close>

text \<open>The index of the token that closes the first opening one, from the current depth.\<close>

fun find_close :: "token \<Rightarrow> token \<Rightarrow> int \<Rightarrow> nat \<Rightarrow> token list \<Rightarrow> nat option" where
  "find_close op cl depth i [] = None"
| "find_close op cl depth i (t # ts) =
     (if t = op then find_close op cl (depth + 1) (Suc i) ts
      else if t = cl then
        (if depth - 1 = 0 then Some i else find_close op cl (depth - 1) (Suc i) ts)
      else find_close op cl depth (Suc i) ts)"

definition matching_paren :: "token list \<Rightarrow> nat \<Rightarrow> parse_error + nat" where
  "matching_paren args opn =
     ok_or (find_close LParen RParen 0 opn (drop opn args)) (Syntax ''unbalanced parentheses'')"

definition matching_bracket :: "token list \<Rightarrow> nat \<Rightarrow> parse_error + nat" where
  "matching_bracket args opn =
     ok_or (find_close LBracket RBracket 0 opn (drop opn args)) (Syntax ''unbalanced brackets'')"

definition tok_get :: "token list \<Rightarrow> nat \<Rightarrow> token option" where
  "tok_get args i = (if i < length args then Some (args ! i) else None)"

definition read_paren_tokens :: "token list \<Rightarrow> nat \<Rightarrow> parse_error + token list \<times> nat" where
  "read_paren_tokens args opn =
     (if tok_get args opn \<noteq> Some LParen then Inl (Syntax ''expected ('')
      else and_then (matching_paren args opn) (\<lambda>fin.
        Inr (take (fin - Suc opn) (drop (Suc opn) args), Suc fin)))"

definition read_paren_atoms :: "token list \<Rightarrow> nat \<Rightarrow> parse_error + string list \<times> nat" where
  "read_paren_atoms args opn =
     and_then (read_paren_tokens args opn) (\<lambda>(toks, nxt). Inr (List.map_filter token_str toks, nxt))"

definition atom_at :: "token list \<Rightarrow> nat \<Rightarrow> parse_error + string" where
  "atom_at args i =
     ok_or (Option.bind (tok_get args i) token_str) (Syntax ''missing argument'')"

section \<open>Quoting\<close>

definition needs_literal :: "string \<Rightarrow> bool" where
  "needs_literal s \<longleftrightarrow> list_ex (\<lambda>b. b = 0x0D \<or> b = 0x0A \<or> b = 0 \<or> 0x80 \<le> b) (as_bytes_of s)"

definition imap_string :: "string \<Rightarrow> string" where
  "imap_string s =
     (if s = [] then [CHR 0x22, CHR 0x22]
      else if needs_literal s then ''{'' @ dec (length s) @ ''}'' @ [CHR 0x0D, CHR 0x0A] @ s
      else [CHR 0x22] @ replace_char (CHR 0x22) [CHR 0x5C, CHR 0x22]
             (replace_char (CHR 0x5C) [CHR 0x5C, CHR 0x5C] s) @ [CHR 0x22])"

definition nstring :: "string option \<Rightarrow> string" where
  "nstring s = (case s of None \<Rightarrow> ''NIL'' | Some v \<Rightarrow> imap_string v)"

section \<open>Lemmas\<close>

lemma find_close_bounds: "find_close op cl d i ts = Some j \<Longrightarrow> i \<le> j \<and> j < i + length ts"
  by (induction op cl d i ts rule: find_close.induct) (auto split: if_splits)

lemma find_close_token: "find_close op cl d i ts = Some j \<Longrightarrow> op \<noteq> cl \<Longrightarrow> ts ! (j - i) = cl"
proof (induction op cl d i ts rule: find_close.induct)
  case (2 op cl d i t ts)
  have "j \<noteq> i \<Longrightarrow> Suc i \<le> j" using find_close_bounds [OF "2.prems"(1)] by simp
  then show ?case using 2 find_close_bounds [of op cl _ "Suc i" ts j]
    by (auto split: if_splits simp: nth_Cons' Suc_diff_le)
qed simp

text \<open>A quoted string reads back as the string that was escaped.\<close>

lemma escape_step:
  "replace_char (CHR 0x22) [CHR 0x5C, CHR 0x22] (replace_char (CHR 0x5C) [CHR 0x5C, CHR 0x5C] (c # s)) =
     (if c = CHR 0x22 \<or> c = CHR 0x5C then [CHR 0x5C, c] else [c]) @
     replace_char (CHR 0x22) [CHR 0x5C, CHR 0x22] (replace_char (CHR 0x5C) [CHR 0x5C, CHR 0x5C] s)"
  by (simp add: replace_char_def)

lemma read_quoted_escaped:
  assumes "\<not> needs_literal s"
  shows "read_quoted acc
           (as_bytes_of (replace_char (CHR 0x22) [CHR 0x5C, CHR 0x22]
              (replace_char (CHR 0x5C) [CHR 0x5C, CHR 0x5C] s) @ [CHR 0x22]) @ rest) =
         Inr (acc @ s, rest)"
  using assms
proof (induction s arbitrary: acc)
  case Nil
  then show ?case by (simp add: replace_char_def)
next
  case (Cons c s)
  have asc: "(of_char c :: u8) < 0x80" and s: "\<not> needs_literal s"
    using Cons.prems by (auto simp: needs_literal_def not_le)
  have q: "(of_char c :: u8) = 0x22 \<longleftrightarrow> c = CHR 0x22" "(of_char c :: u8) = 0x5C \<longleftrightarrow> c = CHR 0x5C"
    using of_char_eq_iff_u8 [of c "CHR 0x22"] of_char_eq_iff_u8 [of c "CHR 0x5C"] by simp_all
  show ?case
    using Cons.IH [OF s, of "acc @ [c]"] asc q by (auto simp: escape_step byte_as_char_ascii)
qed

lemma read_literal_print:
  assumes "n = length b" "n \<le> MAX_LITERAL_LEN"
  shows "read_literal (as_bytes_of (dec n @ ''}'' @ [CHR 0x0D, CHR 0x0A]) @ b @ rest) = Inr (b, rest)"
proof -
  let ?d = "as_bytes_of (dec n)"
  let ?t = "0x7D # 0x0D # 0x0A # b @ rest :: bytes"
  have dig: "\<forall>x \<in> set ?d. is_ascii_digit x" using dec_digits(2) digits_bytes by blast
  have tw: "takeWhile is_ascii_digit (?d @ ?t) = ?d" "dropWhile is_ascii_digit (?d @ ?t) = ?t"
    using dig by (simp_all add: is_ascii_digit_def)
  have u: "utf8_valid ?d"
  proof (rule utf8_valid_ascii, rule ballI)
    fix x assume "x \<in> set ?d"
    then have "x \<le> 0x39" using dig by (simp add: is_ascii_digit_def)
    then show "x < 0x80" by (rule order_le_less_trans) simp
  qed
  have "n < 2 ^ 64" using assms(2) by (simp add: MAX_LITERAL_LEN_def)
  then have p: "parse_uint (2 ^ 64) (dec n) = Some n" by (rule parse_uint_dec)
  show ?thesis
    using assms tw u p by (simp add: read_literal_def from_utf8_def skip_byte_def)
qed

text \<open>C39. What the server quotes, the lexer reads back.  Any string of at most 64 MiB, printed by
  \<open>imap_string\<close> in front of any further input, is one token whose bytes are the string, and the
  lexer continues with that further input; the string is quoted only when it has no CR, LF, NUL or
  8-bit byte.\<close>

theorem imap_string_roundtrip:
  assumes "length s \<le> MAX_LITERAL_LEN"
  shows "\<exists>t. tokenize (as_bytes_of (imap_string s) @ rest) = and_then (tokenize rest) (\<lambda>ts. Inr (t # ts)) \<and>
             token_bytes t = Some (as_bytes_of s) \<and>
             (t = Quoted s \<longleftrightarrow> \<not> needs_literal s) \<and> (t = Literal (as_bytes_of s) \<longleftrightarrow> needs_literal s)"
proof (cases "needs_literal s")
  case True
  then have ne: "s \<noteq> []" by (auto simp: needs_literal_def)
  have "read_literal (as_bytes_of (dec (length s) @ ''}'' @ [CHR 0x0D, CHR 0x0A]) @ as_bytes_of s @ rest) =
      Inr (as_bytes_of s, rest)"
    by (rule read_literal_print) (use assms in simp_all)
  then have "tokenize (as_bytes_of (imap_string s) @ rest) =
      and_then (tokenize rest) (\<lambda>ts. Inr (Literal (as_bytes_of s) # ts))"
    using ne True by (simp add: imap_string_def tokenize.simps(2))
  then show ?thesis using True by (intro exI [of _ "Literal (as_bytes_of s)"]) simp
next
  case False
  have "imap_string s = [CHR 0x22] @ replace_char (CHR 0x22) [CHR 0x5C, CHR 0x22]
             (replace_char (CHR 0x5C) [CHR 0x5C, CHR 0x5C] s) @ [CHR 0x22]"
    using False by (simp add: imap_string_def replace_char_def)
  then have "tokenize (as_bytes_of (imap_string s) @ rest) =
      and_then (tokenize rest) (\<lambda>ts. Inr (Quoted s # ts))"
    using read_quoted_escaped [OF False, of "[]" rest] by (simp add: tokenize.simps(2))
  then show ?thesis using False by (intro exI [of _ "Quoted s"]) simp
qed

theorem imap_string_roundtrip_witness:
  "length ''a b'' \<le> MAX_LITERAL_LEN \<and>
   (\<exists>t. tokenize (as_bytes_of (imap_string ''a b'') @ [0x29]) = and_then (tokenize [0x29]) (\<lambda>ts. Inr (t # ts)) \<and>
        token_bytes t = Some (as_bytes_of ''a b''))"
proof -
  have "length ''a b'' \<le> MAX_LITERAL_LEN" by (simp add: MAX_LITERAL_LEN_def)
  then show ?thesis using imap_string_roundtrip [of "''a b''" "[0x29]"] by blast
qed

end
