(* ===== verification/Search_Key.thy ===== *)
theory Search_Key
  imports Imap_Seq Imap_Token
begin

text \<open>
  IMAP search programs and their parser, after the first half of \<open>search.rs\<close>.  The outer option
  of a parse result is a panic: \<open>parse_one\<close> indexes the first token of its slice, which is out of
  range when \<open>NOT\<close> or \<open>OR\<close> has no operand.
\<close>

datatype search_key =
    SkAll | SkAnd "search_key list" | SkOr search_key search_key | SkNot search_key
  | SkAnswered | SkUnanswered | SkDeleted | SkUndeleted | SkDraft | SkUndraft | SkFlagged | SkUnflagged
  | SkSeen | SkUnseen | SkRecent | SkNew | SkOld
  | SkKeyword string | SkUnkeyword string | SkFrom string | SkTo string | SkCc string | SkBcc string
  | SkSubject string | SkBody string | SkText string | SkHeader string string
  | SkBefore string | SkOn string | SkSince string | SkSentBefore string | SkSentOn string | SkSentSince string
  | SkLarger nat | SkSmaller nat | SkUid sequence_set | SkSeq sequence_set | SkModSeq u64

definition search_arg :: "token \<Rightarrow> parse_error + string" where
  "search_arg t = ok_or (token_str t) (Syntax ''expected search argument'')"

definition nth_arg :: "token list \<Rightarrow> nat \<Rightarrow> string \<Rightarrow> parse_error + string" where
  "nth_arg rest i msg = and_then (ok_or (tok_get rest i) (Syntax msg)) search_arg"

definition simple_key :: "string \<Rightarrow> search_key option" where
  "simple_key =
     map_of [(''ALL'', SkAll), (''ANSWERED'', SkAnswered), (''UNANSWERED'', SkUnanswered),
             (''DELETED'', SkDeleted), (''UNDELETED'', SkUndeleted), (''DRAFT'', SkDraft),
             (''UNDRAFT'', SkUndraft), (''FLAGGED'', SkFlagged), (''UNFLAGGED'', SkUnflagged),
             (''SEEN'', SkSeen), (''UNSEEN'', SkUnseen), (''RECENT'', SkRecent), (''NEW'', SkNew),
             (''OLD'', SkOld)]"

definition str_key :: "string \<Rightarrow> (string \<Rightarrow> search_key) option" where
  "str_key =
     map_of [(''KEYWORD'', SkKeyword), (''UNKEYWORD'', SkUnkeyword), (''FROM'', SkFrom), (''TO'', SkTo),
             (''CC'', SkCc), (''BCC'', SkBcc), (''SUBJECT'', SkSubject), (''BODY'', SkBody),
             (''TEXT'', SkText), (''BEFORE'', SkBefore), (''ON'', SkOn), (''SINCE'', SkSince),
             (''SENTBEFORE'', SkSentBefore), (''SENTON'', SkSentOn), (''SENTSINCE'', SkSentSince)]"

text \<open>The keys whose arguments are strings, numbers or sets.\<close>

definition num_key :: "string \<Rightarrow> string \<Rightarrow> (nat \<Rightarrow> search_key) \<Rightarrow> token list \<Rightarrow> parse_error + search_key \<times> token list" where
  "num_key missing malformed ctor rest =
     and_then (nth_arg rest 0 missing) (\<lambda>a.
     and_then (ok_or (parse_uint (2 ^ 64) a) (Syntax malformed)) (\<lambda>n.
     Inr (ctor n, drop 1 rest)))"

definition parse_leaf :: "string \<Rightarrow> token list \<Rightarrow> parse_error + search_key \<times> token list" where
  "parse_leaf kw rest =
     (case simple_key kw of Some k \<Rightarrow> Inr (k, rest) | None \<Rightarrow>
     (case str_key kw of
        Some ctor \<Rightarrow> and_then (nth_arg rest 0 ''missing arg'') (\<lambda>a. Inr (ctor a, drop 1 rest))
      | None \<Rightarrow>
        if kw = ''HEADER'' then
          and_then (nth_arg rest 0 ''HEADER field'') (\<lambda>f.
          and_then (nth_arg rest 1 ''HEADER value'') (\<lambda>v. Inr (SkHeader f v, drop 2 rest)))
        else if kw = ''LARGER'' then num_key ''LARGER n'' ''LARGER number'' SkLarger rest
        else if kw = ''SMALLER'' then num_key ''SMALLER n'' ''SMALLER number'' SkSmaller rest
        else if kw = ''MODSEQ'' then num_key ''MODSEQ n'' ''MODSEQ number'' (\<lambda>n. SkModSeq (of_nat n)) rest
        else if kw = ''UID'' then
          and_then (nth_arg rest 0 ''UID set'') (\<lambda>a.
          and_then (ok_or (seqset_parse a) (Syntax ''UID set'')) (\<lambda>ss. Inr (SkUid ss, drop 1 rest)))
        else (case seqset_parse kw of
                Some ss \<Rightarrow> Inr (SkSeq ss, rest)
              | None \<Rightarrow> Inl (Syntax ''unknown search key''))))"

definition close_paren :: "token list \<Rightarrow> parse_error + nat" where
  "close_paren toks = ok_or (find_close LParen RParen 0 0 toks) (Syntax ''unbalanced parens in search'')"

lemma parse_leaf_length: "parse_leaf kw rest = Inr (k, nxt) \<Longrightarrow> length nxt \<le> length rest"
  by (auto simp: parse_leaf_def num_key_def split: option.splits if_splits)

lemma close_paren_bounds: "close_paren (LParen # rest) = Inr fin \<Longrightarrow> 1 \<le> fin \<and> fin \<le> length rest"
  using find_close_bounds [of LParen RParen 1 1 rest] by (auto simp: close_paren_def)

function parse_one :: "token list \<Rightarrow> (parse_error + search_key \<times> token list) option"
  and parse_search_key :: "token list \<Rightarrow> (parse_error + search_key) option"
  and parse_keys :: "token list \<Rightarrow> (parse_error + search_key list) option" where
  "parse_one toks =
     (case toks of
        [] \<Rightarrow> None
      | head # rest \<Rightarrow>
          if head = LParen then
            (case close_paren toks of
               Inl e \<Rightarrow> Some (Inl e)
             | Inr fin \<Rightarrow>
                 (case parse_search_key (take (fin - 1) rest) of
                    None \<Rightarrow> None
                  | Some (Inl e) \<Rightarrow> Some (Inl e)
                  | Some (Inr inner) \<Rightarrow> Some (Inr (inner, drop fin rest))))
          else
            (case token_str head of
               None \<Rightarrow> Some (Inl (Syntax ''bad search key''))
             | Some h \<Rightarrow>
                 (let kw = to_ascii_uppercase h in
                  if kw = ''NOT'' then
                    (case parse_one rest of
                       None \<Rightarrow> None
                     | Some (Inl e) \<Rightarrow> Some (Inl e)
                     | Some (Inr (inner, nxt)) \<Rightarrow> Some (Inr (SkNot inner, nxt)))
                  else if kw = ''OR'' then
                    (case parse_one rest of
                       None \<Rightarrow> None
                     | Some (Inl e) \<Rightarrow> Some (Inl e)
                     | Some (Inr (a, nxt1)) \<Rightarrow>
                         (case parse_one nxt1 of
                            None \<Rightarrow> None
                          | Some (Inl e) \<Rightarrow> Some (Inl e)
                          | Some (Inr (b, nxt2)) \<Rightarrow> Some (Inr (SkOr a b, nxt2))))
                  else Some (parse_leaf kw rest))))"
| "parse_search_key toks =
     (if toks = [] then Some (Inr SkAll)
      else (case parse_keys toks of
              None \<Rightarrow> None
            | Some (Inl e) \<Rightarrow> Some (Inl e)
            | Some (Inr keys) \<Rightarrow> Some (Inr (case keys of [k] \<Rightarrow> k | _ \<Rightarrow> SkAnd keys))))"
| "parse_keys rest =
     (if rest = [] then Some (Inr [])
      else (case parse_one rest of
              None \<Rightarrow> None
            | Some (Inl e) \<Rightarrow> Some (Inl e)
            | Some (Inr (key, nxt)) \<Rightarrow>
                (case parse_keys nxt of
                   None \<Rightarrow> None
                 | Some (Inl e) \<Rightarrow> Some (Inl e)
                 | Some (Inr keys) \<Rightarrow> Some (Inr (key # keys)))))"
  by pat_completeness auto

lemma parse_one_shrinks_dom:
  "parse_one_parse_search_key_parse_keys_dom (Inl toks) \<Longrightarrow>
     parse_one toks = Some (Inr (k, nxt)) \<Longrightarrow> length nxt < length toks"
  "parse_one_parse_search_key_parse_keys_dom (Inr (Inl toks')) \<Longrightarrow> True"
  "parse_one_parse_search_key_parse_keys_dom (Inr (Inr toks'')) \<Longrightarrow> True"
proof (induction toks and toks' and toks'' arbitrary: k nxt rule: parse_one_parse_search_key_parse_keys.pinduct)
  case (1 toks)
  show ?case
  proof (cases toks)
    case Nil
    then show ?thesis using 1 by (simp add: parse_one.psimps)
  next
    case (Cons head rest)
    show ?thesis
    proof (cases "head = LParen")
      case True
      then show ?thesis using 1(1) 1(6) Cons
        by (auto simp: parse_one.psimps split: option.splits sum.splits)
    next
      case False
      obtain h where h: "token_str head = Some h"
        using 1(1) 1(6) Cons False by (auto simp: parse_one.psimps split: option.splits)
      consider (not) "to_ascii_uppercase h = ''NOT''" | (or) "to_ascii_uppercase h = ''OR''"
        | (leaf) "to_ascii_uppercase h \<noteq> ''NOT''" "to_ascii_uppercase h \<noteq> ''OR''" by blast
      then show ?thesis
      proof cases
        case not
        then obtain inner where "parse_one rest = Some (Inr (inner, nxt))"
          using 1(1) 1(6) Cons False h by (auto simp: parse_one.psimps Let_def split: option.splits sum.splits)
        then show ?thesis using 1(3) [OF Cons False h refl not] Cons by fastforce
      next
        case or
        then obtain a n1 b where ab: "parse_one rest = Some (Inr (a, n1))" "parse_one n1 = Some (Inr (b, nxt))"
          using 1(1) 1(6) Cons False h by (auto simp: parse_one.psimps Let_def split: option.splits sum.splits)
        have "length n1 < length rest" using 1(4) [OF Cons False h refl _ or ab(1)] or by simp
        moreover have "length nxt < length n1"
          using 1(5) [OF Cons False h refl _ or ab(1) refl refl ab(2)] or by simp
        ultimately show ?thesis using Cons by simp
      next
        case leaf
        then show ?thesis using 1(1) 1(6) Cons False h parse_leaf_length
          by (fastforce simp: parse_one.psimps Let_def)
      qed
    qed
  qed
qed simp_all

termination parse_one
proof (relation "measure (\<lambda>x. case x of Inl ts \<Rightarrow> 3 * length ts | Inr (Inl ts) \<Rightarrow> 3 * length ts + 2 | Inr (Inr ts) \<Rightarrow> 3 * length ts + 1)", goal_cases)
  case (2 toks head rest fin)
  then show ?case using close_paren_bounds [of rest fin] by auto
next
  case (5 toks head rest h kw b a p n1)
  then have "length n1 < length rest" using parse_one_shrinks_dom(1) by blast
  then show ?case using 5 by simp
next
  case 8
  then show ?case using parse_one_shrinks_dom(1) by fastforce
qed auto

declare parse_one.simps [simp del] parse_search_key.simps [simp del] parse_keys.simps [simp del]

section \<open>When the parser panics\<close>

definition needs_operand :: "token \<Rightarrow> bool" where
  "needs_operand t \<longleftrightarrow> (\<exists>h. token_str t = Some h \<and> to_ascii_uppercase h \<in> {''NOT'', ''OR''})"

lemma parse_leaf_suffix: "parse_leaf kw rest = Inr (k, nxt) \<Longrightarrow> set nxt \<subseteq> set rest"
  by (auto simp: parse_leaf_def num_key_def split: option.splits if_splits dest: in_set_dropD)

lemma parse_one_rest:
  "parse_one toks = Some (Inr (k, nxt)) \<Longrightarrow> length nxt < length toks \<and> set nxt \<subseteq> set toks"
proof (induction "length toks" arbitrary: toks k nxt rule: less_induct)
  case less
  obtain head rest where toks: "toks = head # rest"
    using less.prems by (cases toks) (simp_all add: parse_one.simps)
  show ?case
  proof (cases "head = LParen")
    case True
    then show ?thesis using less.prems toks
      by (auto simp: parse_one.simps [of "LParen # rest"] split: option.splits sum.splits dest: in_set_dropD)
  next
    case False
    obtain h where h: "token_str head = Some h"
      using less.prems toks False by (auto simp: parse_one.simps [of "head # rest"] split: option.splits)
    consider (not) "to_ascii_uppercase h = ''NOT''" | (or) "to_ascii_uppercase h = ''OR''"
      | (leaf) "to_ascii_uppercase h \<noteq> ''NOT''" "to_ascii_uppercase h \<noteq> ''OR''" by blast
    then show ?thesis
    proof cases
      case not
      then obtain inner where "parse_one rest = Some (Inr (inner, nxt))"
        using less.prems toks False h by (auto simp: parse_one.simps [of "head # rest"] split: option.splits sum.splits)
      then show ?thesis using less.hyps [of rest] toks by fastforce
    next
      case or
      then obtain a n1 b where ab: "parse_one rest = Some (Inr (a, n1))" "parse_one n1 = Some (Inr (b, nxt))"
        using less.prems toks False h by (auto simp: parse_one.simps [of "head # rest"] split: option.splits sum.splits)
      have n1: "length n1 < length rest \<and> set n1 \<subseteq> set rest" using less.hyps [OF _ ab(1)] toks by simp
      then show ?thesis using less.hyps [OF _ ab(2)] toks by auto
    next
      case leaf
      then have "parse_leaf (to_ascii_uppercase h) rest = Inr (k, nxt)"
        using less.prems toks False h by (simp add: parse_one.simps [of "head # rest"] Let_def)
      then show ?thesis using parse_leaf_suffix parse_leaf_length toks by fastforce
    qed
  qed
qed

lemma parse_panics_dangling:
  "parse_one toks = None \<Longrightarrow> toks = [] \<or> list_ex needs_operand toks"
  "parse_search_key toks' = None \<Longrightarrow> list_ex needs_operand toks'"
  "parse_keys toks'' = None \<Longrightarrow> list_ex needs_operand toks''"
proof (induction toks and toks' and toks'' rule: parse_one_parse_search_key_parse_keys.induct)
  case (1 toks)
  show ?case
  proof (cases toks)
    case (Cons head rest)
    show ?thesis
    proof (cases "head = LParen")
      case True
      obtain fin where fin: "close_paren toks = Inr fin" "parse_search_key (take (fin - 1) rest) = None"
        using "1.prems" Cons True by (auto simp: parse_one.simps [of "LParen # rest"] split: sum.splits option.splits)
      then have "list_ex needs_operand (take (fin - 1) rest)" using 1(1) [OF Cons True] by blast
      then show ?thesis using Cons by (auto simp: list_ex_iff dest: in_set_takeD)
    next
      case False
      then show ?thesis using "1.prems" Cons
        by (auto simp: parse_one.simps [of "head # rest"] needs_operand_def Let_def split: option.splits if_splits)
    qed
  qed simp
next
  case (2 toks)
  then show ?case by (auto simp: parse_search_key.simps [of toks] split: if_splits option.splits sum.splits)
next
  case (3 rest)
  show ?case
  proof (cases "rest = []")
    case False
    show ?thesis
    proof (cases "parse_one rest")
      case None
      then show ?thesis using 3(1) [OF False] False by blast
    next
      case (Some r)
      then obtain key nxt where r: "r = Inr (key, nxt)" "parse_keys nxt = None"
        using "3.prems" False by (auto simp: parse_keys.simps [of rest] split: option.splits sum.splits)
      then have "list_ex needs_operand nxt" using 3(2) [OF False Some r(1) refl] by simp
      then show ?thesis using parse_one_rest [OF Some [unfolded r(1)]] by (auto simp: list_ex_iff)
    qed
  qed (use "3.prems" in \<open>simp add: parse_keys.simps\<close>)
qed

section \<open>Every search program can be spelled\<close>

fun key_tokens :: "search_key \<Rightarrow> token list" where
  "key_tokens SkAll = [Atom ''ALL'']"
| "key_tokens (SkAnd ks) = LParen # concat (map key_tokens ks) @ [RParen]"
| "key_tokens (SkOr a b) = Atom ''OR'' # key_tokens a @ key_tokens b"
| "key_tokens (SkNot k) = Atom ''NOT'' # key_tokens k"
| "key_tokens SkAnswered = [Atom ''ANSWERED'']"
| "key_tokens SkUnanswered = [Atom ''UNANSWERED'']"
| "key_tokens SkDeleted = [Atom ''DELETED'']"
| "key_tokens SkUndeleted = [Atom ''UNDELETED'']"
| "key_tokens SkDraft = [Atom ''DRAFT'']"
| "key_tokens SkUndraft = [Atom ''UNDRAFT'']"
| "key_tokens SkFlagged = [Atom ''FLAGGED'']"
| "key_tokens SkUnflagged = [Atom ''UNFLAGGED'']"
| "key_tokens SkSeen = [Atom ''SEEN'']"
| "key_tokens SkUnseen = [Atom ''UNSEEN'']"
| "key_tokens SkRecent = [Atom ''RECENT'']"
| "key_tokens SkNew = [Atom ''NEW'']"
| "key_tokens SkOld = [Atom ''OLD'']"
| "key_tokens (SkKeyword v) = [Atom ''KEYWORD'', Quoted v]"
| "key_tokens (SkUnkeyword v) = [Atom ''UNKEYWORD'', Quoted v]"
| "key_tokens (SkFrom v) = [Atom ''FROM'', Quoted v]"
| "key_tokens (SkTo v) = [Atom ''TO'', Quoted v]"
| "key_tokens (SkCc v) = [Atom ''CC'', Quoted v]"
| "key_tokens (SkBcc v) = [Atom ''BCC'', Quoted v]"
| "key_tokens (SkSubject v) = [Atom ''SUBJECT'', Quoted v]"
| "key_tokens (SkBody v) = [Atom ''BODY'', Quoted v]"
| "key_tokens (SkText v) = [Atom ''TEXT'', Quoted v]"
| "key_tokens (SkHeader f v) = [Atom ''HEADER'', Quoted f, Quoted v]"
| "key_tokens (SkBefore v) = [Atom ''BEFORE'', Quoted v]"
| "key_tokens (SkOn v) = [Atom ''ON'', Quoted v]"
| "key_tokens (SkSince v) = [Atom ''SINCE'', Quoted v]"
| "key_tokens (SkSentBefore v) = [Atom ''SENTBEFORE'', Quoted v]"
| "key_tokens (SkSentOn v) = [Atom ''SENTON'', Quoted v]"
| "key_tokens (SkSentSince v) = [Atom ''SENTSINCE'', Quoted v]"
| "key_tokens (SkLarger n) = [Atom ''LARGER'', Atom (dec n)]"
| "key_tokens (SkSmaller n) = [Atom ''SMALLER'', Atom (dec n)]"
| "key_tokens (SkUid s) = [Atom ''UID'', Atom (seqset_str s)]"
| "key_tokens (SkSeq s) = [Atom (seqset_str s)]"
| "key_tokens (SkModSeq n) = [Atom ''MODSEQ'', Atom (dec (unat n))]"

text \<open>The programs a parser can produce: no one-element or empty conjunction, sizes of a
  \<open>usize\<close>, sets with non-zero end points.\<close>

fun wf_key :: "search_key \<Rightarrow> bool" where
  "wf_key (SkAnd ks) \<longleftrightarrow> 2 \<le> length ks \<and> list_all wf_key ks"
| "wf_key (SkOr a b) \<longleftrightarrow> wf_key a \<and> wf_key b"
| "wf_key (SkNot k) \<longleftrightarrow> wf_key k"
| "wf_key (SkLarger n) \<longleftrightarrow> n < 2 ^ 64"
| "wf_key (SkSmaller n) \<longleftrightarrow> n < 2 ^ 64"
| "wf_key (SkUid s) \<longleftrightarrow> wf_seqset s"
| "wf_key (SkSeq s) \<longleftrightarrow> wf_seqset s"
| "wf_key _ \<longleftrightarrow> True"

text \<open>Tokens that a scan for the closing parenthesis passes over.\<close>

definition balanced :: "token list \<Rightarrow> bool" where
  "balanced ts \<longleftrightarrow> (\<forall>d i r. 1 \<le> d \<longrightarrow>
     find_close LParen RParen d i (ts @ r) = find_close LParen RParen d (i + length ts) r)"

lemma balanced_Nil [simp]: "balanced []"
  by (simp add: balanced_def)

lemma balanced_append: "balanced a \<Longrightarrow> balanced b \<Longrightarrow> balanced (a @ b)"
  by (simp add: balanced_def add.assoc)

lemma balanced_str: "token_str t \<noteq> None \<Longrightarrow> balanced [t]"
  by (cases t) (simp_all add: balanced_def)

lemma balanced_Cons: "token_str t \<noteq> None \<Longrightarrow> balanced ts \<Longrightarrow> balanced (t # ts)"
  using balanced_append [OF balanced_str, of t ts] by simp

lemma balanced_paren: "balanced ts \<Longrightarrow> balanced (LParen # ts @ [RParen])"
  by (simp add: balanced_def)

lemma balanced_concat: "\<forall>x \<in> set xs. balanced (f x) \<Longrightarrow> balanced (concat (map f xs))"
  by (induction xs) (simp_all add: balanced_append)

lemma balanced_key: "balanced (key_tokens k)"
proof (induction k)
  case (SkAnd ks)
  then show ?case unfolding key_tokens.simps by (intro balanced_paren balanced_concat ballI)
qed (simp_all add: balanced_Cons balanced_append)

lemma close_paren_balanced: "balanced ts \<Longrightarrow> close_paren (LParen # ts @ RParen # r) = Inr (Suc (length ts))"
  by (simp add: close_paren_def balanced_def)

lemma seqset_str_hd: "wf_seqset s \<Longrightarrow> seqset_str s \<noteq> [] \<and> code (hd (seqset_str s)) < 65"
proof -
  assume w: "wf_seqset s"
  have ne: "seqset_str s \<noteq> []" using seqset_parse_str [OF w] by (auto simp: seqset_parse_def)
  let ?c = "hd (seqset_str s)"
  have "seq_char ?c \<or> ?c = CHR '':'' \<or> ?c = CHR '','' \<or> ?c = CHR ''$''"
    using ne seqset_str_chars [of s] by (simp add: list_all_iff)
  then show ?thesis using ne by (auto simp: seq_char_def is_digit_def code_def)
qed

lemma seqset_str_upper: "to_ascii_uppercase (seqset_str s) = seqset_str s"
proof -
  have "ascii_upper c = c" if "c \<in> set (seqset_str s)" for c
    using that seqset_str_chars [of s]
    by (auto simp: list_all_iff seq_char_def is_digit_def code_def ascii_upper_def)
  then show ?thesis by (simp add: to_ascii_uppercase_def map_idI)
qed

lemma not_keyword:
  assumes "code c < 65"
  shows "simple_key (c # r) = None" "str_key (c # r) = None"
    "c # r \<notin> {''NOT'', ''OR'', ''HEADER'', ''LARGER'', ''SMALLER'', ''MODSEQ'', ''UID''}"
proof -
  have "c \<notin> set ''AUDFSRNOKTCBHLM''" using assms by (auto simp: code_def)
  then show "simple_key (c # r) = None" "str_key (c # r) = None"
    "c # r \<notin> {''NOT'', ''OR'', ''HEADER'', ''LARGER'', ''SMALLER'', ''MODSEQ'', ''UID''}"
    by (simp_all add: simple_key_def str_key_def)
qed

lemma parse_leaf_seq:
  assumes "wf_seqset s"
  shows "seqset_str s \<notin> {''NOT'', ''OR''}" "parse_leaf (seqset_str s) rest = Inr (SkSeq s, rest)"
proof -
  obtain c r where s: "seqset_str s = c # r" "code c < 65"
    using seqset_str_hd [OF assms] by (cases "seqset_str s") auto
  show "seqset_str s \<notin> {''NOT'', ''OR''}" using not_keyword(3) [OF s(2), of r] s(1) by auto
  show "parse_leaf (seqset_str s) rest = Inr (SkSeq s, rest)"
    using not_keyword [OF s(2), of r] s(1) seqset_parse_str [OF assms] by (auto simp: parse_leaf_def)
qed

lemma parse_one_word:
  "token_str t = Some h \<Longrightarrow> to_ascii_uppercase h \<notin> {''NOT'', ''OR''} \<Longrightarrow>
     parse_one (t # rest) = Some (parse_leaf (to_ascii_uppercase h) rest)"
  by (subst parse_one.simps, cases t) (simp_all add: Let_def)

lemmas word_key_simps = parse_one_word to_ascii_uppercase_def ascii_upper_def code_def parse_leaf_def
  simple_key_def str_key_def nth_arg_def tok_get_def search_arg_def num_key_def parse_uint_dec

lemma parse_keys_concat:
  assumes "\<And>k r. k \<in> set ks \<Longrightarrow> parse_one (key_tokens k @ r) = Some (Inr (k, r))"
  shows "parse_keys (concat (map key_tokens ks)) = Some (Inr ks)"
  using assms
proof (induction ks)
  case (Cons k ks)
  have "key_tokens k @ concat (map key_tokens ks) \<noteq> []"
    using Cons.prems [of k "[]"] by (auto simp: parse_one.simps)
  then show ?case using Cons by (simp add: parse_keys.simps [of "key_tokens k @ concat (map key_tokens ks)"])
qed (simp add: parse_keys.simps)

lemma parse_search_key_concat:
  assumes "\<And>k r. k \<in> set ks \<Longrightarrow> parse_one (key_tokens k @ r) = Some (Inr (k, r))" and "2 \<le> length ks"
  shows "parse_search_key (concat (map key_tokens ks)) = Some (Inr (SkAnd ks))"
proof -
  have p: "parse_keys (concat (map key_tokens ks)) = Some (Inr ks)" by (rule parse_keys_concat) (rule assms(1))
  have "parse_keys [] = Some (Inr [])" by (simp add: parse_keys.simps)
  then have "concat (map key_tokens ks) \<noteq> []" using p assms(2) by (auto simp del: concat_eq_Nil_conv)
  then show ?thesis using p assms(2)
    by (auto simp: parse_search_key.simps [of "concat (map key_tokens ks)"] split: list.splits)
qed

lemma parse_key_tokens: "wf_key k \<Longrightarrow> parse_one (key_tokens k @ rest) = Some (Inr (k, rest))"
proof (induction k arbitrary: rest)
  case (SkAnd ks)
  let ?ts = "concat (map key_tokens ks)"
  have "parse_search_key ?ts = Some (Inr (SkAnd ks))"
    by (rule parse_search_key_concat) (use SkAnd in \<open>auto simp: list_all_iff\<close>)
  moreover have "close_paren (LParen # ?ts @ RParen # rest) = Inr (Suc (length ?ts))"
    by (intro close_paren_balanced balanced_concat) (simp add: balanced_key)
  ultimately show ?case by (simp add: parse_one.simps [of "LParen # ?ts @ RParen # rest"])
next
  case (SkOr a b)
  then show ?case
    by (simp add: parse_one.simps [of "Atom ''OR'' # key_tokens a @ key_tokens b @ rest"] to_ascii_uppercase_def
        ascii_upper_def code_def)
next
  case (SkNot k)
  then show ?case
    by (simp add: parse_one.simps [of "Atom ''NOT'' # key_tokens k @ rest"] to_ascii_uppercase_def
        ascii_upper_def code_def)
next
  case (SkSeq s)
  then show ?case using parse_leaf_seq [of s] seqset_str_upper [of s]
    by (simp add: parse_one_word)
next
  case (SkUid s)
  then show ?case using seqset_parse_str [of s] by (simp add: word_key_simps)
next
  case (SkModSeq n)
  have "unat n < 2 ^ 64" by (rule order_less_le_trans [OF unsigned_less]) simp
  then have "parse_uint (2 ^ 64) (dec (unat n)) = Some (unat n)" by (rule parse_uint_dec)
  then show ?case by (simp add: word_key_simps)
qed (simp_all add: word_key_simps)

text \<open>C40. The search-program parser terminates on every token list and is faithful to the grammar: the
  spelling of a well-formed program, nested to any depth, parses to that program and leaves the
  tokens after it; it consumes at least one token whenever it succeeds; and it panics only on input
  with an operator \<open>NOT\<close> or \<open>OR\<close>, as it does when the operand is missing.\<close>

theorem search_program_parses:
  shows "(wf_key k \<longrightarrow> parse_one (key_tokens k @ rest) = Some (Inr (k, rest)) \<and>
                       parse_search_key (key_tokens k) = Some (Inr k)) \<and>
         (parse_one toks = Some (Inr (k', nxt)) \<longrightarrow> length nxt < length toks \<and> set nxt \<subseteq> set toks) \<and>
         (parse_search_key toks = None \<longrightarrow> list_ex needs_operand toks) \<and>
         parse_search_key [Atom ''NOT''] = None \<and> parse_search_key [Atom ''OR'', Atom ''SEEN''] = None"
proof (intro conjI impI)
  assume "wf_key k"
  then have p: "parse_one (key_tokens k @ r) = Some (Inr (k, r))" for r by (rule parse_key_tokens)
  show "parse_one (key_tokens k @ rest) = Some (Inr (k, rest))" by (rule p)
  have "parse_one (key_tokens k) = Some (Inr (k, []))" using p [of "[]"] by simp
  then show "parse_search_key (key_tokens k) = Some (Inr k)"
    by (auto simp: parse_search_key.simps [of "key_tokens k"] parse_keys.simps [of "key_tokens k"]
        parse_keys.simps [of "[]"] parse_one.simps [of "[]"])
next
  assume a: "parse_one toks = Some (Inr (k', nxt))"
  show "length nxt < length toks" "set nxt \<subseteq> set toks" using parse_one_rest [OF a] by simp_all
next
  show "parse_search_key toks = None \<Longrightarrow> list_ex needs_operand toks" by (rule parse_panics_dangling(2))
  show "parse_search_key [Atom ''NOT''] = None"
    by (simp add: parse_search_key.simps [of "[Atom ''NOT'']"] parse_keys.simps [of "[Atom ''NOT'']"]
        parse_one.simps [of "[Atom ''NOT'']"] parse_one.simps [of "[]"] to_ascii_uppercase_def ascii_upper_def code_def)
  have "parse_one [Atom ''SEEN''] = Some (Inr (SkSeen, []))"
    by (simp add: word_key_simps)
  then show "parse_search_key [Atom ''OR'', Atom ''SEEN''] = None"
    by (simp add: parse_search_key.simps [of "[Atom ''OR'', Atom ''SEEN'']"] parse_keys.simps [of "[Atom ''OR'', Atom ''SEEN'']"]
        parse_one.simps [of "[Atom ''OR'', Atom ''SEEN'']"] parse_one.simps [of "[]"] to_ascii_uppercase_def ascii_upper_def code_def)
qed

theorem search_program_parses_witness:
  "wf_key (SkAnd [SkNot SkSeen, SkSubject ''a'']) \<and>
   parse_search_key [LParen, Atom ''NOT'', Atom ''SEEN'', Atom ''SUBJECT'', Quoted ''a'', RParen] =
     Some (Inr (SkAnd [SkNot SkSeen, SkSubject ''a'']))"
proof -
  have "wf_key (SkAnd [SkNot SkSeen, SkSubject ''a''])" by simp
  moreover have "key_tokens (SkAnd [SkNot SkSeen, SkSubject ''a'']) =
      [LParen, Atom ''NOT'', Atom ''SEEN'', Atom ''SUBJECT'', Quoted ''a'', RParen]"
    by simp
  ultimately show ?thesis
    using search_program_parses [of "SkAnd [SkNot SkSeen, SkSubject ''a'']" "[]" "[]" SkAll "[]"] by simp
qed

end
