(* ===== verification/Mail_Store.thy ===== *)
theory Mail_Store
  imports Mail_Util "HOL-Library.Char_ord" "HOL-Library.Sublist"
begin

text \<open>
  \<open>kotva-mail/src/store.rs\<close>: flags, messages, mailboxes, the in-memory store and the JMAP state
  tokens and change sets computed from it.

  The memoised MIME parse of a message is a cache of a function of its bytes and has no field here.
  Counters keep their width: \<open>uid_next\<close> is a 32-bit word, modification sequences are 64-bit words,
  and both wrap. A \<open>BTreeMap\<close> is its list of entries in ascending key order. The default methods of
  the trait take the two accessors they call, the mailbox names and the lookup, as arguments.
\<close>

section \<open>Flags, messages and mailboxes\<close>

datatype flag = Seen | Answered | Flagged | Deleted | Draft | Recent | Keyword string

definition bslash :: "string \<Rightarrow> string" where
  "bslash s = CHR 0x5C # s"

definition flag_imap :: "flag \<Rightarrow> string" where
  "flag_imap f =
     (case f of
        Seen \<Rightarrow> bslash ''Seen'' | Answered \<Rightarrow> bslash ''Answered'' | Flagged \<Rightarrow> bslash ''Flagged''
      | Deleted \<Rightarrow> bslash ''Deleted'' | Draft \<Rightarrow> bslash ''Draft'' | Recent \<Rightarrow> bslash ''Recent''
      | Keyword k \<Rightarrow> k)"

definition flag_parse :: "string \<Rightarrow> flag" where
  "flag_parse tok =
     (let t = to_ascii_lowercase tok in
      if t = bslash ''seen'' then Seen
      else if t = bslash ''answered'' then Answered
      else if t = bslash ''flagged'' then Flagged
      else if t = bslash ''deleted'' then Deleted
      else if t = bslash ''draft'' then Draft
      else if t = bslash ''recent'' then Recent
      else Keyword tok)"

datatype special_use = Inbox | Sent | Drafts | Trash | Junk | Archive | AllMail

definition su_attribute :: "special_use \<Rightarrow> string option" where
  "su_attribute r =
     (case r of
        Inbox \<Rightarrow> None | Sent \<Rightarrow> Some (bslash ''Sent'') | Drafts \<Rightarrow> Some (bslash ''Drafts'')
      | Trash \<Rightarrow> Some (bslash ''Trash'') | Junk \<Rightarrow> Some (bslash ''Junk'')
      | Archive \<Rightarrow> Some (bslash ''Archive'') | AllMail \<Rightarrow> Some (bslash ''All''))"

definition jmap_role :: "special_use \<Rightarrow> string" where
  "jmap_role r =
     (case r of
        Inbox \<Rightarrow> ''inbox'' | Sent \<Rightarrow> ''sent'' | Drafts \<Rightarrow> ''drafts'' | Trash \<Rightarrow> ''trash''
      | Junk \<Rightarrow> ''junk'' | Archive \<Rightarrow> ''archive'' | AllMail \<Rightarrow> ''all'')"

record message =
  m_uid :: u32
  m_flags :: "flag list"
  m_internal_date :: u64
  m_modseq :: u64
  m_created_modseq :: u64
  m_raw :: bytes

definition message_new :: "u32 \<Rightarrow> flag list \<Rightarrow> u64 \<Rightarrow> u64 \<Rightarrow> bytes \<Rightarrow> message" where
  "message_new uid flags internal_date modseq raw =
     \<lparr>m_uid = uid, m_flags = flags, m_internal_date = internal_date, m_modseq = modseq,
      m_created_modseq = modseq, m_raw = raw\<rparr>"

definition message_size :: "message \<Rightarrow> nat" where
  "message_size m = length (m_raw m)"

definition has_flag :: "message \<Rightarrow> flag \<Rightarrow> bool" where
  "has_flag m f \<longleftrightarrow> f \<in> set (m_flags m)"

definition set_flag :: "flag \<Rightarrow> message \<Rightarrow> message" where
  "set_flag f m = (if f \<in> set (m_flags m) then m else m\<lparr>m_flags := m_flags m @ [f]\<rparr>)"

definition clear_flag :: "flag \<Rightarrow> message \<Rightarrow> message" where
  "clear_flag f m = m\<lparr>m_flags := filter (\<lambda>x. x \<noteq> f) (m_flags m)\<rparr>"

record mailbox =
  mb_name :: string
  mb_special_use :: "special_use option"
  mb_uid_validity :: u32
  mb_uid_next :: u32
  mb_highest_modseq :: u64
  mb_subscribed :: bool
  mb_messages :: "message list"
  mb_expunged :: "(u32 \<times> u64) list"

definition mailbox_new :: "string \<Rightarrow> special_use option \<Rightarrow> mailbox" where
  "mailbox_new name special_use =
     \<lparr>mb_name = name, mb_special_use = special_use, mb_uid_validity = 1, mb_uid_next = 1,
      mb_highest_modseq = 1, mb_subscribed = True, mb_messages = [], mb_expunged = []\<rparr>"

definition mb_exists :: "mailbox \<Rightarrow> nat" where
  "mb_exists mb = length (mb_messages mb)"

definition mb_recent :: "mailbox \<Rightarrow> nat" where
  "mb_recent mb = length (filter (\<lambda>m. has_flag m Recent) (mb_messages mb))"

definition mb_unseen :: "mailbox \<Rightarrow> nat" where
  "mb_unseen mb = length (filter (\<lambda>m. \<not> has_flag m Seen) (mb_messages mb))"

definition mb_max_uid :: "mailbox \<Rightarrow> u32" where
  "mb_max_uid mb = (if mb_messages mb = [] then 0 else m_uid (last (mb_messages mb)))"

definition first_unseen_seq :: "mailbox \<Rightarrow> nat option" where
  "first_unseen_seq mb =
     (let ps = filter (\<lambda>i. \<not> has_flag (mb_messages mb ! i) Seen) [0..<length (mb_messages mb)]
      in case ps of [] \<Rightarrow> None | i # _ \<Rightarrow> Some (i + 1))"

definition mb_append :: "bytes \<Rightarrow> flag list \<Rightarrow> u64 \<Rightarrow> mailbox \<Rightarrow> u32 \<times> mailbox" where
  "mb_append raw flags internal_date mb =
     (let uid = mb_uid_next mb; ms = mb_highest_modseq mb + 1 in
      (uid, mb\<lparr>mb_uid_next := mb_uid_next mb + 1, mb_highest_modseq := ms,
               mb_messages := mb_messages mb @ [message_new uid flags internal_date ms raw]\<rparr>))"

text \<open>\<open>slice::binary_search_by\<close>: the loop halves the window \<open>[base, base + sz)\<close> down to one
  element, then compares it; \<open>ok()\<close> keeps the position of an equal element.\<close>

function bs_loop :: "(nat \<Rightarrow> bool) \<Rightarrow> nat \<Rightarrow> nat \<Rightarrow> nat" where
  "bs_loop gt base sz =
     (if sz \<le> 1 then base
      else let half = sz div 2; mid = base + half in
           bs_loop gt (if gt mid then base else mid) (sz - half))"
  by pat_completeness auto
termination
  by (relation "measure (\<lambda>(gt, base, sz). sz)") auto

declare bs_loop.simps [simp del]

definition binary_search :: "'k::linorder list \<Rightarrow> 'k \<Rightarrow> nat option" where
  "binary_search ks k =
     (if ks = [] then None
      else let i = bs_loop (\<lambda>j. ks ! j > k) 0 (length ks) in
           if ks ! i = k then Some i else None)"

definition index_of_uid :: "mailbox \<Rightarrow> u32 \<Rightarrow> nat option" where
  "index_of_uid mb uid = binary_search (map m_uid (mb_messages mb)) uid"

definition seq_of_uid :: "mailbox \<Rightarrow> u32 \<Rightarrow> nat option" where
  "seq_of_uid mb uid = map_option (\<lambda>i. i + 1) (index_of_uid mb uid)"

definition by_uid :: "mailbox \<Rightarrow> u32 \<Rightarrow> message option" where
  "by_uid mb uid = map_option (\<lambda>i. mb_messages mb ! i) (index_of_uid mb uid)"

definition remove_at :: "nat \<Rightarrow> mailbox \<Rightarrow> u32 option \<times> mailbox" where
  "remove_at index mb =
     (if length (mb_messages mb) \<le> index then (None, mb)
      else let uid = m_uid (mb_messages mb ! index); ms = mb_highest_modseq mb + 1 in
           (Some uid, mb\<lparr>mb_highest_modseq := ms, mb_expunged := mb_expunged mb @ [(uid, ms)],
                         mb_messages := take index (mb_messages mb) @ drop (Suc index) (mb_messages mb)\<rparr>))"

definition vanished_since :: "u64 \<Rightarrow> mailbox \<Rightarrow> u32 list" where
  "vanished_since modseq mb = sort (map fst (filter (\<lambda>(_, ms). ms > modseq) (mb_expunged mb)))"

text \<open>The flag changes of IMAP STORE (\<open>apply_store\<close> in \<open>imap/session.rs\<close>), and a change to one
  message with the new modification sequence it gets.\<close>

datatype store_op = Replace | AddFlags | RemoveFlags

definition apply_store :: "store_op \<Rightarrow> flag list \<Rightarrow> message \<Rightarrow> message" where
  "apply_store op flags m =
     (case op of
        Replace \<Rightarrow>
          (let m' = m\<lparr>m_flags := filter (\<lambda>f. f \<noteq> Recent) flags\<rparr> in
           if has_flag m Recent then set_flag Recent m' else m')
      | AddFlags \<Rightarrow> fold (\<lambda>f m. if f \<noteq> Recent then set_flag f m else m) flags m
      | RemoveFlags \<Rightarrow> fold clear_flag flags m)"

definition mb_touch :: "nat \<Rightarrow> (message \<Rightarrow> message) \<Rightarrow> mailbox \<Rightarrow> mailbox" where
  "mb_touch i g mb =
     (let ms = mb_highest_modseq mb + 1 in
      mb\<lparr>mb_highest_modseq := ms,
         mb_messages := (mb_messages mb)[i := (g (mb_messages mb ! i))\<lparr>m_modseq := ms\<rparr>]\<rparr>)"

section \<open>State tokens and change sets\<close>

datatype store_error = AlreadyExists | NoSuchMailbox | InboxImmutable

datatype jmap_obj = Email | MailboxObj | ThreadObj

record jmap_changes =
  ch_old_state :: string
  ch_new_state :: string
  ch_created :: "string list"
  ch_updated :: "string list"
  ch_destroyed :: "string list"
  ch_has_more :: bool

definition encode_state_map :: "(string \<times> u64) list \<Rightarrow> string" where
  "encode_state_map m =
     base64_encode (concat (map (\<lambda>(name, ms).
       be_bytes 4 (length name mod 2 ^ 32) @ as_bytes_of name @ be_bytes 8 (unat ms)) m))"

definition get_range :: "nat \<Rightarrow> bytes \<Rightarrow> (bytes \<times> bytes) option" where
  "get_range n b = (if length b < n then None else Some (take n b, drop n b))"

lemma get_range_Some: "get_range n b = Some (x, r) \<longleftrightarrow> n \<le> length b \<and> x = take n b \<and> r = drop n b"
  by (auto simp: get_range_def)

function decode_entries :: "bytes \<Rightarrow> (string \<times> u64) list \<Rightarrow> (string \<times> u64) list option" where
  "decode_entries b m =
     (if b = [] then Some m
      else (case get_range 4 b of
              None \<Rightarrow> None
            | Some (n4, b1) \<Rightarrow>
                (case get_range (from_be n4) b1 of
                   None \<Rightarrow> None
                 | Some (raw, b2) \<Rightarrow>
                     (case from_utf8 raw of
                        None \<Rightarrow> None
                      | Some name \<Rightarrow>
                          (case get_range 8 b2 of
                             None \<Rightarrow> None
                           | Some (n8, b3) \<Rightarrow>
                               decode_entries b3 (btree_insert name (of_nat (from_be n8)) m))))))"
  by pat_completeness auto
termination
  by (relation "measure (\<lambda>(b, m). length b)") (auto simp: get_range_Some)

declare decode_entries.simps [simp del]

definition decode_state_map :: "string \<Rightarrow> (string \<times> u64) list option" where
  "decode_state_map token =
     (if token = [] \<or> token = ''0'' then Some []
      else (case base64_decode token of None \<Rightarrow> None | Some b \<Rightarrow> decode_entries b []))"

text \<open>\<open>collect\<close> into a \<open>BTreeMap\<close>.\<close>

definition collect_btree :: "('k::linorder \<times> 'v) list \<Rightarrow> ('k \<times> 'v) list" where
  "collect_btree ps = foldl (\<lambda>m (k, v). btree_insert k v m) [] ps"

definition modseq_map :: "string list \<Rightarrow> (string \<Rightarrow> mailbox option) \<Rightarrow> (string \<times> u64) list" where
  "modseq_map names mailbox =
     collect_btree (List.map_filter (\<lambda>n. map_option (\<lambda>mb. (n, mb_highest_modseq mb)) (mailbox n)) names)"

definition jmap_state :: "string list \<Rightarrow> (string \<Rightarrow> mailbox option) \<Rightarrow> string" where
  "jmap_state names mailbox = encode_state_map (modseq_map names mailbox)"

definition email_id :: "string \<Rightarrow> u32 \<Rightarrow> string" where
  "email_id name uid = name @ ''|'' @ dec (unat uid)"

definition old_modseq :: "(string \<times> u64) list \<Rightarrow> string \<Rightarrow> u64" where
  "old_modseq old name = (case map_of old name of None \<Rightarrow> 0 | Some ms \<Rightarrow> ms)"

text \<open>The ids that one mailbox adds to the three lists.\<close>

definition mb_created :: "u64 \<Rightarrow> mailbox \<Rightarrow> u32 list" where
  "mb_created old_ms mb =
     map m_uid (filter (\<lambda>m. m_modseq m > old_ms \<and> m_created_modseq m > old_ms) (mb_messages mb))"

definition mb_updated :: "u64 \<Rightarrow> mailbox \<Rightarrow> u32 list" where
  "mb_updated old_ms mb =
     map m_uid (filter (\<lambda>m. m_modseq m > old_ms \<and> \<not> m_created_modseq m > old_ms) (mb_messages mb))"

definition mb_destroyed :: "u64 \<Rightarrow> mailbox \<Rightarrow> u32 list" where
  "mb_destroyed old_ms mb = map fst (filter (\<lambda>(uid, ms). ms > old_ms) (mb_expunged mb))"

definition email_delta ::
  "(u64 \<Rightarrow> mailbox \<Rightarrow> u32 list) \<Rightarrow> (string \<times> u64) list \<Rightarrow> string list \<Rightarrow> (string \<Rightarrow> mailbox option) \<Rightarrow> string list" where
  "email_delta part old names mailbox =
     concat (map (\<lambda>name. case mailbox name of
                           None \<Rightarrow> []
                         | Some mb \<Rightarrow> map (email_id name) (part (old_modseq old name) mb)) names)"

definition jmap_changes_of ::
  "string list \<Rightarrow> (string \<Rightarrow> mailbox option) \<Rightarrow> jmap_obj \<Rightarrow> string \<Rightarrow> jmap_changes option" where
  "jmap_changes_of names mailbox obj since =
     (case decode_state_map since of
        None \<Rightarrow> None
      | Some old \<Rightarrow>
          let current = modseq_map names mailbox;
              (created, updated, destroyed) =
                (case obj of
                   MailboxObj \<Rightarrow>
                     (map fst (filter (\<lambda>(n, ms). map_of old n = None) current),
                      map fst (filter (\<lambda>(n, ms). case map_of old n of None \<Rightarrow> False | Some oms \<Rightarrow> ms \<noteq> oms) current),
                      filter (\<lambda>n. map_of current n = None) (map fst old))
                 | _ \<Rightarrow> (email_delta mb_created old names mailbox,
                         email_delta mb_updated old names mailbox,
                         email_delta mb_destroyed old names mailbox))
          in Some \<lparr>ch_old_state = since, ch_new_state = jmap_state names mailbox, ch_created = created,
                   ch_updated = updated, ch_destroyed = destroyed, ch_has_more = False\<rparr>)"

section \<open>The in-memory store\<close>

record memory_store =
  ms_mailboxes :: "(string \<times> mailbox) list"
  ms_order :: "string list"

definition store_insert :: "mailbox \<Rightarrow> memory_store \<Rightarrow> memory_store" where
  "store_insert mb s =
     s\<lparr>ms_order := ms_order s @ [mb_name mb],
       ms_mailboxes := btree_insert (mb_name mb) mb (ms_mailboxes s)\<rparr>"

definition empty_maps :: memory_store where
  "empty_maps = \<lparr>ms_mailboxes = [], ms_order = []\<rparr>"

definition store_new :: memory_store where
  "store_new =
     foldl (\<lambda>s mb. store_insert mb s) empty_maps
       [mailbox_new ''INBOX'' (Some Inbox), mailbox_new ''Sent'' (Some Sent),
        mailbox_new ''Drafts'' (Some Drafts), mailbox_new ''Trash'' (Some Trash),
        mailbox_new ''Junk'' (Some Junk), mailbox_new ''Archive'' (Some Archive)]"

definition store_empty :: memory_store where
  "store_empty = store_insert (mailbox_new ''INBOX'' (Some Inbox)) empty_maps"

definition mailbox_names :: "memory_store \<Rightarrow> string list" where
  "mailbox_names s = ms_order s"

definition mailbox_of :: "memory_store \<Rightarrow> string \<Rightarrow> mailbox option" where
  "mailbox_of s name = map_of (ms_mailboxes s) name"

text \<open>Writing through \<open>mailbox_mut\<close>: an operation on a mailbox of the store, in place.\<close>

definition mailbox_mut :: "string \<Rightarrow> (mailbox \<Rightarrow> 'a \<times> mailbox) \<Rightarrow> memory_store \<Rightarrow> 'a option \<times> memory_store" where
  "mailbox_mut name f s =
     (case mailbox_of s name of
        None \<Rightarrow> (None, s)
      | Some mb \<Rightarrow>
          let (r, mb') = f mb in
          (Some r, s\<lparr>ms_mailboxes := map (\<lambda>(n, x). if n = name then (n, mb') else (n, x)) (ms_mailboxes s)\<rparr>))"

definition deliver_raw :: "string \<Rightarrow> bytes \<Rightarrow> flag list \<Rightarrow> u64 \<Rightarrow> memory_store \<Rightarrow> u32 option \<times> memory_store" where
  "deliver_raw name raw flags internal_date s = mailbox_mut name (mb_append raw flags internal_date) s"

definition by_role :: "special_use \<Rightarrow> memory_store \<Rightarrow> string option" where
  "by_role role s =
     find (\<lambda>n. Option.bind (mailbox_of s n) mb_special_use = Some role) (ms_order s)"

definition store_create :: "string \<Rightarrow> memory_store \<Rightarrow> (store_error + unit) \<times> memory_store" where
  "store_create name s =
     (if mailbox_of s name \<noteq> None then (Inl AlreadyExists, s)
      else (Inr (), store_insert (mailbox_new name None) s))"

definition store_delete :: "string \<Rightarrow> memory_store \<Rightarrow> (store_error + unit) \<times> memory_store" where
  "store_delete name s =
     (if eq_ignore_ascii_case name ''INBOX'' then (Inl InboxImmutable, s)
      else if mailbox_of s name = None then (Inl NoSuchMailbox, s)
      else (Inr (), s\<lparr>ms_mailboxes := filter (\<lambda>(n, _). n \<noteq> name) (ms_mailboxes s),
                      ms_order := filter (\<lambda>n. n \<noteq> name) (ms_order s)\<rparr>))"

definition store_rename :: "string \<Rightarrow> string \<Rightarrow> memory_store \<Rightarrow> (store_error + unit) \<times> memory_store" where
  "store_rename src dst s =
     (if eq_ignore_ascii_case src ''INBOX'' then (Inl InboxImmutable, s)
      else if mailbox_of s dst \<noteq> None then (Inl AlreadyExists, s)
      else (case mailbox_of s src of
              None \<Rightarrow> (Inl NoSuchMailbox, s)
            | Some mb \<Rightarrow>
                (Inr (), s\<lparr>ms_mailboxes := btree_insert dst (mb\<lparr>mb_name := dst\<rparr>)
                                            (filter (\<lambda>(n, _). n \<noteq> src) (ms_mailboxes s)),
                           ms_order := map (\<lambda>n. if n = src then dst else n) (ms_order s)\<rparr>)))"

definition store_changes :: "memory_store \<Rightarrow> jmap_obj \<Rightarrow> string \<Rightarrow> jmap_changes option" where
  "store_changes s = jmap_changes_of (mailbox_names s) (mailbox_of s)"

section \<open>Uid lookup\<close>

lemma find_upt_unique:
  assumes "i < n" and "\<And>j. j < n \<Longrightarrow> P j \<Longrightarrow> j = i"
  shows "find P [0..<n] = (if P i then Some i else None)"
proof (cases "P i")
  case True
  have "\<exists>k < length [0..<n]. P ([0..<n] ! k) \<and> i = [0..<n] ! k \<and> (\<forall>j < k. \<not> P ([0..<n] ! j))"
  proof (intro exI [of _ i] conjI allI impI)
    fix j assume "j < i"
    then show "\<not> P ([0..<n] ! j)" using assms(1) assms(2) [of j] by auto
  qed (use assms(1) True in simp_all)
  then show ?thesis using True by (simp add: find_Some_iff)
next
  case False
  then show ?thesis using assms by (auto simp: find_None_iff)
qed

lemma bs_loop_spec:
  fixes ks :: "'k::linorder list"
  assumes "sorted_wrt (<) ks" and "0 < sz" "base + sz \<le> length ks" and "ks ! base \<le> k \<or> base = 0"
    and "\<forall>j < length ks. base + sz \<le> j \<longrightarrow> k < ks ! j"
  shows "case bs_loop (\<lambda>j. ks ! j > k) base sz of i \<Rightarrow>
    i < length ks \<and> (ks ! i \<le> k \<or> i = 0) \<and> (\<forall>j < length ks. i < j \<longrightarrow> k < ks ! j)"
  using assms(2-)
proof (induction "\<lambda>j. ks ! j > k" base sz rule: bs_loop.induct)
  case (1 base sz)
  show ?case
  proof (cases "sz \<le> 1")
    case True
    then have "bs_loop (\<lambda>j. ks ! j > k) base sz = base" by (subst bs_loop.simps) simp
    then show ?thesis using True "1.prems" by auto
  next
    case False
    let ?half = "sz div 2"
    let ?mid = "base + ?half"
    have mid: "?mid < length ks" "0 < sz - ?half" "?half < sz" using False "1.prems" by linarith+
    have above: "\<forall>j < length ks. ?mid \<le> j \<longrightarrow> k < ks ! j" if "k < ks ! ?mid"
      using that sorted_wrt_nth_less [OF assms(1)] by (metis le_neq_implies_less less_trans)
    have "case bs_loop (\<lambda>j. ks ! j > k) (if ks ! ?mid > k then base else ?mid) (sz - ?half) of i \<Rightarrow>
        i < length ks \<and> (ks ! i \<le> k \<or> i = 0) \<and> (\<forall>j < length ks. i < j \<longrightarrow> k < ks ! j)"
    proof (rule "1.hyps" [OF False refl refl])
      show "0 < sz - ?half" by (rule mid)
      show "(if ks ! ?mid > k then base else ?mid) + (sz - ?half) \<le> length ks"
        using "1.prems"(2) mid(1,3) by auto
      show "ks ! (if ks ! ?mid > k then base else ?mid) \<le> k \<or> (if ks ! ?mid > k then base else ?mid) = 0"
        using "1.prems" by auto
      show "\<forall>j < length ks. (if ks ! ?mid > k then base else ?mid) + (sz - ?half) \<le> j \<longrightarrow> k < ks ! j"
        using "1.prems" above mid by auto
    qed
    moreover have "bs_loop (\<lambda>j. ks ! j > k) base sz =
        bs_loop (\<lambda>j. ks ! j > k) (if ks ! ?mid > k then base else ?mid) (sz - ?half)"
      using False by (subst bs_loop.simps) (simp add: Let_def)
    ultimately show ?thesis by simp
  qed
qed

lemma binary_search_find:
  fixes ks :: "'k::linorder list"
  assumes "sorted_wrt (<) ks"
  shows "binary_search ks k = find (\<lambda>i. ks ! i = k) [0..<length ks]"
proof (cases "ks = []")
  case False
  let ?i = "bs_loop (\<lambda>j. ks ! j > k) 0 (length ks)"
  have i: "?i < length ks" "ks ! ?i \<le> k \<or> ?i = 0" "\<forall>j < length ks. ?i < j \<longrightarrow> k < ks ! j"
    using bs_loop_spec [OF assms, of "length ks" 0 k] False by auto
  have "j = ?i" if "j < length ks" "ks ! j = k" for j
  proof (cases "j < ?i")
    case True
    then have "ks ! j < ks ! ?i" using sorted_wrt_nth_less [OF assms True i(1)] by simp
    then show ?thesis using i(2) that True by auto
  next
    case False
    then show ?thesis using i(3) that by (metis less_irrefl linorder_neqE_nat)
  qed
  then have "find (\<lambda>i. ks ! i = k) [0..<length ks] = (if ks ! ?i = k then Some ?i else None)"
    by (rule find_upt_unique [OF i(1)])
  then show ?thesis using False by (simp add: binary_search_def Let_def)
qed (simp add: binary_search_def)

lemma find_map: "find P (map f xs) = map_option f (find (P \<circ> f) xs)"
  by (induction xs) auto

lemma find_nth: "map_option ((!) xs) (find (\<lambda>i. P (xs ! i)) [0..<length xs]) = find P xs"
proof (induction xs)
  case (Cons x xs)
  have "[0..<Suc (length xs)] = 0 # map Suc [0..<length xs]"
    by (metis map_Suc_upt upt_rec zero_less_Suc)
  then show ?case using Cons by (simp add: find_map comp_def option.map_comp del: upt_Suc)
qed simp

section \<open>The mailbox invariant\<close>

text \<open>Messages in ascending uid order below \<open>uid_next\<close>; modification sequences below the mailbox's;
  the expunge log in ascending order, of uids that were given out and are no longer there.\<close>

definition wf_mailbox :: "mailbox \<Rightarrow> bool" where
  "wf_mailbox mb \<longleftrightarrow>
     0 < mb_highest_modseq mb \<and>
     sorted_wrt (<) (map m_uid (mb_messages mb)) \<and>
     (\<forall>m \<in> set (mb_messages mb). m_uid m < mb_uid_next mb \<and> 0 < m_created_modseq m \<and>
        m_created_modseq m \<le> m_modseq m \<and> m_modseq m \<le> mb_highest_modseq mb) \<and>
     (\<forall>e \<in> set (mb_expunged mb). fst e < mb_uid_next mb \<and> snd e \<le> mb_highest_modseq mb \<and>
        fst e \<notin> m_uid ` set (mb_messages mb)) \<and>
     distinct (map fst (mb_expunged mb)) \<and> sorted_wrt (<) (map snd (mb_expunged mb))"

lemma wf_mailbox_new [simp]: "wf_mailbox (mailbox_new name role)"
  by (simp add: wf_mailbox_def mailbox_new_def)

lemma word_less_inc:
  fixes x :: "'a::len word"
  assumes "x \<noteq> - 1"
  shows "x < x + 1"
proof -
  have "unat x \<noteq> 2 ^ LENGTH('a) - 1"
  proof
    assume "unat x = 2 ^ LENGTH('a) - 1"
    also have "\<dots> = unat (- 1 :: 'a word)" by (simp add: unsigned_minus_1_eq_mask mask_eq_exp_minus_1)
    finally show False using assms by (simp add: word_unat_eq_iff)
  qed
  moreover have "unat x < 2 ^ LENGTH('a)" by (rule unsigned_less)
  ultimately have "Suc (unat x) < 2 ^ LENGTH('a)" by linarith
  then show ?thesis by (simp add: word_less_nat_alt unat_word_ariths(1))
qed

lemma modseq_inc:
  fixes h :: u64
  assumes "h \<noteq> - 1"
  shows "0 < h + 1" and "x \<le> h \<Longrightarrow> x \<le> h + 1" and "x \<le> h \<Longrightarrow> x < h + 1"
  using word_less_inc [OF assms] by (auto simp: word_gt_0 intro: order.trans le_less_trans)

lemma wf_mailbox_append:
  assumes "wf_mailbox mb" "mb_uid_next mb \<noteq> - 1" "mb_highest_modseq mb \<noteq> - 1"
  shows "wf_mailbox (snd (mb_append raw flags date mb))"
proof -
  note inc = word_less_inc [OF assms(2)]
  have "x < mb_uid_next mb + 1" if "x < mb_uid_next mb" for x using that inc by (rule less_trans)
  then show ?thesis using assms(1) inc modseq_inc [OF assms(3)]
    by (fastforce simp: wf_mailbox_def mb_append_def message_new_def Let_def sorted_wrt_append)
qed

lemma remove_at_split:
  assumes "mb_messages mb = pre @ m # post"
  shows "remove_at (length pre) mb =
    (Some (m_uid m), mb\<lparr>mb_highest_modseq := mb_highest_modseq mb + 1,
       mb_expunged := mb_expunged mb @ [(m_uid m, mb_highest_modseq mb + 1)], mb_messages := pre @ post\<rparr>)"
  using assms by (simp add: remove_at_def Let_def)

lemma message_split:
  assumes "i < mb_exists mb"
  obtains pre m post where "mb_messages mb = pre @ m # post" "length pre = i"
  using assms id_take_nth_drop [of i "mb_messages mb"] by (fastforce simp: mb_exists_def)

lemma wf_mailbox_remove_at:
  assumes wf: "wf_mailbox mb" and ms: "mb_highest_modseq mb \<noteq> - 1"
  shows "wf_mailbox (snd (remove_at i mb))"
proof (cases "i < mb_exists mb")
  case True
  then obtain pre m post where m: "mb_messages mb = pre @ m # post" "length pre = i"
    by (rule message_split)
  show ?thesis using modseq_inc [OF ms] wf m(1)
    unfolding m(2) [symmetric] remove_at_split [OF m(1)] wf_mailbox_def
    by (fastforce simp: sorted_wrt_append)
qed (use wf in \<open>simp add: remove_at_def mb_exists_def\<close>)

lemma wf_mailbox_touch:
  assumes wf: "wf_mailbox mb" and ms: "mb_highest_modseq mb \<noteq> - 1"
    and g: "\<And>m. m_uid (g m) = m_uid m" "\<And>m. m_created_modseq (g m) = m_created_modseq m"
  shows "wf_mailbox (mb_touch i g mb)"
proof (cases "i < mb_exists mb")
  case True
  then obtain pre m post where m: "mb_messages mb = pre @ m # post" "length pre = i"
    by (rule message_split)
  show ?thesis using modseq_inc [OF ms] wf m g
    unfolding wf_mailbox_def mb_touch_def Let_def by (fastforce simp: sorted_wrt_append)
next
  case False
  then show ?thesis using modseq_inc [OF ms] wf
    by (simp add: wf_mailbox_def mb_touch_def Let_def mb_exists_def list_update_beyond)
qed

lemma apply_store_same [simp]:
  "m_uid (apply_store op fl m) = m_uid m"
  "m_created_modseq (apply_store op fl m) = m_created_modseq m"
  "m_raw (apply_store op fl m) = m_raw m"
proof -
  have add: "m_uid (fold (\<lambda>f m. if f \<noteq> Recent then set_flag f m else m) fl m) = m_uid m \<and>
      m_created_modseq (fold (\<lambda>f m. if f \<noteq> Recent then set_flag f m else m) fl m) = m_created_modseq m \<and>
      m_raw (fold (\<lambda>f m. if f \<noteq> Recent then set_flag f m else m) fl m) = m_raw m" for m
    by (induction fl arbitrary: m) (auto simp: set_flag_def)
  have remove: "m_uid (fold clear_flag fl m) = m_uid m \<and>
      m_created_modseq (fold clear_flag fl m) = m_created_modseq m \<and> m_raw (fold clear_flag fl m) = m_raw m" for m
    by (induction fl arbitrary: m) (auto simp: clear_flag_def)
  show "m_uid (apply_store op fl m) = m_uid m"
    "m_created_modseq (apply_store op fl m) = m_created_modseq m"
    "m_raw (apply_store op fl m) = m_raw m"
    using add remove by (auto simp: apply_store_def Let_def set_flag_def split: store_op.split)
qed

lemma uid_lookup_scans:
  assumes "wf_mailbox mb"
  shows "index_of_uid mb uid = find (\<lambda>i. m_uid (mb_messages mb ! i) = uid) [0..<mb_exists mb]"
    and "by_uid mb uid = find (\<lambda>m. m_uid m = uid) (mb_messages mb)"
proof -
  have "index_of_uid mb uid = find (\<lambda>i. map m_uid (mb_messages mb) ! i = uid) [0..<length (mb_messages mb)]"
    using binary_search_find [of "map m_uid (mb_messages mb)" uid] assms
    by (simp add: index_of_uid_def wf_mailbox_def)
  also have "\<dots> = find (\<lambda>i. m_uid (mb_messages mb ! i) = uid) [0..<mb_exists mb]"
    unfolding mb_exists_def by (rule find_cong) auto
  finally show index: "index_of_uid mb uid = find (\<lambda>i. m_uid (mb_messages mb ! i) = uid) [0..<mb_exists mb]" .
  show "by_uid mb uid = find (\<lambda>m. m_uid m = uid) (mb_messages mb)"
    using find_nth [of "mb_messages mb" "\<lambda>m. m_uid m = uid"] by (simp add: by_uid_def index mb_exists_def)
qed

text \<open>C35. In a well-formed mailbox the binary search on uids finds exactly what a scan of the messages
  finds: the position of the message with that uid, and through it the message.\<close>

theorem uid_lookup_is_scan:
  assumes "wf_mailbox mb"
  shows "index_of_uid mb uid = find (\<lambda>i. m_uid (mb_messages mb ! i) = uid) [0..<mb_exists mb] \<and>
    by_uid mb uid = find (\<lambda>m. m_uid m = uid) (mb_messages mb)"
  using uid_lookup_scans [OF assms] by blast

theorem uid_lookup_is_scan_witness:
  "case snd (mb_append [1] [] 0 (snd (mb_append [0] [] 0 (mailbox_new ''INBOX'' None)))) of mb \<Rightarrow>
     index_of_uid mb 2 = Some 1"
proof -
  let ?mb = "snd (mb_append [1] [] 0 (snd (mb_append [0] [] 0 (mailbox_new ''INBOX'' None))))"
  have "wf_mailbox ?mb" by code_simp
  then show ?thesis
    using uid_lookup_is_scan [of ?mb 2] by (simp add: mb_append_def mailbox_new_def message_new_def mb_exists_def Let_def)
qed

end
