(* ===== verification/Mail_Sync.thy ===== *)
theory Mail_Sync
  imports Mail_Store
begin

text \<open>
  The store as a state machine, and JMAP synchronisation. \<open>store_step\<close> has one rule per operation
  that changes the store; the invariant \<open>wf_store\<close> holds along every run. The locale
  \<open>change_log\<close> is what a store promises to a synchronising client: how each mailbox may have
  evolved since a state token was taken. From it follows that the change set computed for the
  token brings the client's set of email ids up to date.
\<close>

section \<open>Ordered maps\<close>

lemma set_btree_insert: "sorted_wrt (<) (map fst m) \<Longrightarrow>
  set (btree_insert k v m) = insert (k, v) {p \<in> set m. fst p \<noteq> k}"
  by (induction k v m rule: btree_insert.induct) (auto simp: less_imp_neq[symmetric])

lemma fst_btree_insert: "fst ` set (btree_insert k v m) = insert k (fst ` set m)"
  by (induction k v m rule: btree_insert.induct) auto

lemma sorted_btree_insert: "sorted_wrt (<) (map fst m) \<Longrightarrow> sorted_wrt (<) (map fst (btree_insert k v m))"
proof (induction k v m rule: btree_insert.induct)
  case (2 k v k' v' m)
  then show ?case
    using fst_btree_insert [of k v m] by (auto simp flip: set_map)
qed simp

lemma map_of_btree_insert:
  "sorted_wrt (<) (map fst m) \<Longrightarrow> map_of (btree_insert k v m) = (map_of m)(k \<mapsto> v)"
  by (induction k v m rule: btree_insert.induct) (auto simp: fun_eq_iff map_of_eq_None_iff)

lemma map_of_collect_btree_aux:
  assumes "sorted_wrt (<) (map fst m)"
  shows "sorted_wrt (<) (map fst (foldl (\<lambda>m (k, v). btree_insert k v m) m ps)) \<and>
    map_of (foldl (\<lambda>m (k, v). btree_insert k v m) m ps) = map_of m ++ map_of (rev ps)"
  using assms by (induction ps arbitrary: m)
    (auto simp: sorted_btree_insert map_of_btree_insert)

lemma collect_btree:
  "sorted_wrt (<) (map fst (collect_btree ps))" "map_of (collect_btree ps) = map_of (rev ps)"
  using map_of_collect_btree_aux [of "[]" ps] by (simp_all add: collect_btree_def)

lemma collect_btree_sorted:
  assumes "sorted_wrt (<) (map fst ps)"
  shows "collect_btree ps = ps"
proof -
  have "foldl (\<lambda>m (k, v). btree_insert k v m) m ps = m @ ps"
    if "sorted_wrt (<) (map fst (m @ ps))" for m
    using that
  proof (induction ps arbitrary: m)
    case (Cons p ps)
    have "btree_insert (fst p) (snd p) m = m @ [p]"
      using btree_insert_last [of m "fst p" "snd p"] Cons.prems by (auto simp: sorted_wrt_append)
    then show ?case using Cons.IH [of "m @ [p]"] Cons.prems by (simp add: case_prod_unfold)
  qed simp
  from this [of "[]"] show ?thesis using assms by (simp add: collect_btree_def)
qed

section \<open>State tokens\<close>

lemma from_be_4 [simp]: "n < 2 ^ 32 \<Longrightarrow> from_be (be_bytes 4 n) = n"
  by (simp add: from_be_be_bytes)

lemma of_nat_from_be_8 [simp]: "of_nat (from_be (be_bytes 8 (unat (ms :: u64)))) = ms"
proof -
  have "unat ms < 2 ^ 64" by (rule order_less_le_trans [OF unsigned_less]) simp
  then show ?thesis by (simp add: from_be_be_bytes)
qed

lemma decode_entries_step:
  assumes "utf8_valid (as_bytes_of name)" "length name < 2 ^ 32"
  shows "decode_entries (be_bytes 4 (length name mod 2 ^ 32) @ as_bytes_of name @ be_bytes 8 (unat ms) @ r) m =
    decode_entries r (btree_insert name ms m)"
proof -
  have "be_bytes 4 (length name) \<noteq> []" by (metis length_be_bytes length_0_conv zero_neq_numeral)
  moreover have "length name \<le> 4294967295" using assms(2) by simp
  ultimately show ?thesis using assms
    by (subst decode_entries.simps) (simp add: get_range_def from_utf8_def)
qed

lemma decode_entries_encode:
  assumes "\<forall>p \<in> set ps. utf8_valid (as_bytes_of (fst p)) \<and> length (fst p) < 2 ^ 32"
  shows "decode_entries (concat (map (\<lambda>(name, ms).
      be_bytes 4 (length name mod 2 ^ 32) @ as_bytes_of name @ be_bytes 8 (unat ms)) ps)) m =
    Some (foldl (\<lambda>m (k, v). btree_insert k v m) m ps)"
  using assms
proof (induction ps arbitrary: m)
  case Nil
  then show ?case by (simp add: decode_entries.simps)
next
  case (Cons p ps)
  obtain n ms where p: "p = (n, ms)" by fastforce
  show ?case using Cons decode_entries_step [of n ms _ m] by (simp add: p)
qed

lemma base64_encode_not_zero: "base64_encode b \<noteq> ''0''"
proof
  assume "base64_encode b = ''0''"
  then have "length (base64_encode b) = 1" by simp
  then show False by (simp add: length_base64_encode)
qed

lemma base64_encode_Nil_iff: "base64_encode b = [] \<longleftrightarrow> b = []"
  by (cases b rule: chunks3.cases) (simp_all add: base64_encode_def encode_chunk_def Let_def)

lemma decode_state_map_encode:
  assumes "\<forall>p \<in> set ps. utf8_valid (as_bytes_of (fst p)) \<and> length (fst p) < 2 ^ 32"
  shows "decode_state_map (encode_state_map ps) = Some (collect_btree ps)"
proof -
  define b where "b = concat (map (\<lambda>(name, ms).
      be_bytes 4 (length name mod 2 ^ 32) @ as_bytes_of name @ be_bytes 8 (unat ms)) ps)"
  have d: "decode_entries b [] = Some (collect_btree ps)"
    unfolding b_def collect_btree_def using assms by (rule decode_entries_encode)
  have e: "encode_state_map ps = base64_encode b" by (simp add: encode_state_map_def b_def)
  show ?thesis
  proof (cases "b = []")
    case True
    then have "collect_btree ps = []" using d by (simp add: decode_entries.simps)
    then show ?thesis using True by (simp add: decode_state_map_def e base64_encode_Nil_iff)
  next
    case False
    then show ?thesis using d
      by (simp add: decode_state_map_def e base64_encode_not_zero base64_encode_Nil_iff)
  qed
qed

lemma dec_no_bar: "CHR ''|'' \<notin> set (dec n)"
  using dec_digits(2) [of n] by (auto simp: list_all_iff is_digit_def code_def)

lemma dec_inject [simp]: "dec m = dec n \<longleftrightarrow> m = n"
  by (metis digits_val_dec)

lemma email_id_inject [simp]: "email_id n u = email_id n' u' \<longleftrightarrow> n = n' \<and> u = u'"
proof
  assume "email_id n u = email_id n' u'"
  then have "rev (dec (unat u)) @ CHR ''|'' # rev n = rev (dec (unat u')) @ CHR ''|'' # rev n'"
    unfolding email_id_def by (metis append.assoc append_Cons append_Nil rev.simps(2) rev_append rev_rev_ident)
  then have "split_once CHR ''|'' (rev (dec (unat u)) @ CHR ''|'' # rev n) =
      split_once CHR ''|'' (rev (dec (unat u')) @ CHR ''|'' # rev n')" by simp
  then show "n = n' \<and> u = u'"
    by (simp add: split_once_append dec_no_bar word_unat_eq_iff)
qed simp

section \<open>How a mailbox evolves\<close>

abbreviation uids :: "mailbox \<Rightarrow> u32 set" where
  "uids mb \<equiv> m_uid ` set (mb_messages mb)"

text \<open>What may have become of a mailbox: a message it did not have is newer than all it had, one that
  was not touched is the same, and one that is gone is in the log.\<close>

definition mb_evolves :: "mailbox \<Rightarrow> mailbox \<Rightarrow> bool" where
  "mb_evolves mb mb' \<longleftrightarrow>
     mb_highest_modseq mb \<le> mb_highest_modseq mb' \<and> mb_uid_next mb \<le> mb_uid_next mb' \<and>
     set (mb_expunged mb) \<subseteq> set (mb_expunged mb') \<and>
     (\<forall>m' \<in> set (mb_messages mb'). m_modseq m' \<le> mb_highest_modseq mb \<longrightarrow> m' \<in> set (mb_messages mb)) \<and>
     (\<forall>m' \<in> set (mb_messages mb'). m_created_modseq m' \<le> mb_highest_modseq mb \<longrightarrow>
        (\<exists>m \<in> set (mb_messages mb). m_uid m = m_uid m' \<and> m_raw m = m_raw m' \<and>
           m_created_modseq m = m_created_modseq m')) \<and>
     (\<forall>m' \<in> set (mb_messages mb'). mb_highest_modseq mb < m_created_modseq m' \<longrightarrow>
        mb_uid_next mb \<le> m_uid m') \<and>
     (\<forall>m \<in> set (mb_messages mb). m_uid m \<in> uids mb' \<or>
        (\<exists>ms > mb_highest_modseq mb. (m_uid m, ms) \<in> set (mb_expunged mb')))"

lemma mb_evolves_refl: "wf_mailbox mb \<Longrightarrow> mb_evolves mb mb"
  by (auto simp: mb_evolves_def wf_mailbox_def)

lemma mb_evolves_trans:
  assumes "mb_evolves a b" "mb_evolves b c"
  shows "mb_evolves a c"
  unfolding mb_evolves_def
proof (intro conjI ballI impI)
  note ab = assms(1) [unfolded mb_evolves_def] and bc = assms(2) [unfolded mb_evolves_def]
  have h: "mb_highest_modseq a \<le> mb_highest_modseq b" and u: "mb_uid_next a \<le> mb_uid_next b"
    using ab by blast+
  show "mb_highest_modseq a \<le> mb_highest_modseq c" "mb_uid_next a \<le> mb_uid_next c"
    "set (mb_expunged a) \<subseteq> set (mb_expunged c)"
    using ab bc by (blast intro: order.trans)+
  show "m \<in> set (mb_messages a)" if "m \<in> set (mb_messages c)" "m_modseq m \<le> mb_highest_modseq a" for m
    using that h ab bc by (meson order.trans)
  show "\<exists>m \<in> set (mb_messages a). m_uid m = m_uid m' \<and> m_raw m = m_raw m' \<and> m_created_modseq m = m_created_modseq m'"
    if m': "m' \<in> set (mb_messages c)" "m_created_modseq m' \<le> mb_highest_modseq a" for m'
  proof -
    obtain m where "m \<in> set (mb_messages b)" "m_uid m = m_uid m'" "m_raw m = m_raw m'"
      "m_created_modseq m = m_created_modseq m'"
      using bc m' h by (meson order.trans)
    then show ?thesis using ab m'(2) by metis
  qed
  show "mb_uid_next a \<le> m_uid m'"
    if m': "m' \<in> set (mb_messages c)" "mb_highest_modseq a < m_created_modseq m'" for m'
  proof (cases "mb_highest_modseq b < m_created_modseq m'")
    case True
    then show ?thesis using bc m' u by (meson order.trans)
  next
    case False
    then obtain m where "m \<in> set (mb_messages b)" "m_uid m = m_uid m'" "m_created_modseq m = m_created_modseq m'"
      using bc m' by (meson not_le_imp_less)
    then show ?thesis using ab m'(2) by metis
  qed
  show "m_uid m \<in> uids c \<or> (\<exists>ms > mb_highest_modseq a. (m_uid m, ms) \<in> set (mb_expunged c))"
    if m: "m \<in> set (mb_messages a)" for m
  proof (cases "m_uid m \<in> uids b")
    case True
    then obtain m1 where m1: "m1 \<in> set (mb_messages b)" "m_uid m1 = m_uid m" by force
    have "m_uid m1 \<in> uids c \<or> (\<exists>ms > mb_highest_modseq b. (m_uid m1, ms) \<in> set (mb_expunged c))"
      using bc m1(1) by blast
    then show ?thesis unfolding m1(2) using h by (meson le_less_trans)
  next
    case False
    have "set (mb_expunged b) \<subseteq> set (mb_expunged c)" using bc by blast
    moreover have "m_uid m \<in> uids b \<or> (\<exists>ms > mb_highest_modseq a. (m_uid m, ms) \<in> set (mb_expunged b))"
      using ab m by blast
    ultimately show ?thesis using False by blast
  qed
qed

section \<open>The change log\<close>

text \<open>One mailbox at a time: \<open>h\<close> is what the token says of it, 0 when it was not there.\<close>

lemma mailbox_sync:
  assumes wf: "wf_mailbox mb'"
    and old: "case old of None \<Rightarrow> h = 0 \<and> us = {} | Some mb \<Rightarrow> h = mb_highest_modseq mb \<and> us = uids mb \<and>
      wf_mailbox mb \<and> mb_evolves mb mb'"
  shows "uids mb' = (us \<union> set (mb_created h mb')) - set (mb_destroyed h mb')"
    and "us \<inter> set (mb_created h mb') = {}"
    and "set (mb_updated h mb') \<subseteq> us \<inter> uids mb'"
proof -
  have live: "u \<notin> set (mb_destroyed h mb')" if "u \<in> uids mb'" for u
    using wf that by (fastforce simp: mb_destroyed_def wf_mailbox_def)
  have new: "m_uid m \<in> set (mb_created h mb')" if "m \<in> set (mb_messages mb')" "h < m_created_modseq m" for m
    using that wf by (fastforce simp: mb_created_def wf_mailbox_def)
  have created: "set (mb_created h mb') \<subseteq> uids mb'" by (auto simp: mb_created_def)
  have kept: "m_uid m \<in> us" if m: "m \<in> set (mb_messages mb')" "\<not> h < m_created_modseq m" for m
  proof (cases old)
    case None
    then show ?thesis using old m wf by (simp add: wf_mailbox_def word_gt_0)
  next
    case (Some mb)
    then obtain m0 where "m0 \<in> set (mb_messages mb)" "m_uid m0 = m_uid m"
      using old m by (auto simp: mb_evolves_def not_less)
    moreover have "us = uids mb" using old Some by simp
    ultimately show ?thesis by (metis image_eqI)
  qed
  have gone: "u \<in> uids mb' \<or> u \<in> set (mb_destroyed h mb')" if u: "u \<in> us" for u
  proof (cases old)
    case None
    then show ?thesis using old u by simp
  next
    case (Some mb)
    then have ev: "mb_evolves mb mb'" and h: "h = mb_highest_modseq mb" and "us = uids mb" using old by simp_all
    then obtain m where m: "m \<in> set (mb_messages mb)" "u = m_uid m" using u by blast
    then have "u \<in> uids mb' \<or> (\<exists>ms > h. (u, ms) \<in> set (mb_expunged mb'))"
      using ev by (simp add: mb_evolves_def h)
    then show ?thesis by (force simp: mb_destroyed_def)
  qed
  show "uids mb' = (us \<union> set (mb_created h mb')) - set (mb_destroyed h mb')"
    using live new created kept gone by blast
  show "us \<inter> set (mb_created h mb') = {}"
  proof (cases old)
    case None
    then show ?thesis using old by simp
  next
    case (Some mb)
    then show ?thesis using old
      by (fastforce simp: mb_created_def mb_evolves_def wf_mailbox_def dest: bspec)
  qed
  show "set (mb_updated h mb') \<subseteq> us \<inter> uids mb'"
    using kept by (auto simp: mb_updated_def)
qed

text \<open>The interface of the trait \<open>MailStore\<close> that a synchronising client relies on: the names list the
  mailboxes, every mailbox is well-formed, and a step lets every mailbox it keeps only evolve.\<close>

locale change_log =
  fixes names :: "'s \<Rightarrow> string list" and mailbox :: "'s \<Rightarrow> string \<Rightarrow> mailbox option"
    and inv :: "'s \<Rightarrow> bool" and step :: "'s \<Rightarrow> 's \<Rightarrow> bool"
  assumes names_distinct: "inv s \<Longrightarrow> distinct (names s)"
    and names_dom: "inv s \<Longrightarrow> n \<in> set (names s) \<longleftrightarrow> mailbox s n \<noteq> None"
    and names_valid: "inv s \<Longrightarrow> n \<in> set (names s) \<Longrightarrow> utf8_valid (as_bytes_of n) \<and> length n < 2 ^ 32"
    and mailbox_wf: "inv s \<Longrightarrow> mailbox s n = Some mb \<Longrightarrow> wf_mailbox mb"
    and step_inv: "inv s \<Longrightarrow> step s s' \<Longrightarrow> inv s'"
    and step_evolves: "inv s \<Longrightarrow> step s s' \<Longrightarrow> mailbox s n = Some mb \<Longrightarrow>
      \<exists>mb'. mailbox s' n = Some mb' \<and> mb_evolves mb mb'"
begin

definition ids :: "'s \<Rightarrow> string set" where
  "ids s = {email_id n u | n u mb. mailbox s n = Some mb \<and> u \<in> uids mb}"

lemma run_evolves:
  assumes "step\<^sup>*\<^sup>* s s'" "inv s"
  shows "inv s' \<and> (\<forall>n mb. mailbox s n = Some mb \<longrightarrow> (\<exists>mb'. mailbox s' n = Some mb' \<and> mb_evolves mb mb'))"
  using assms
proof (induction rule: rtranclp_induct)
  case base
  then show ?case using mailbox_wf mb_evolves_refl by blast
next
  case (step y z)
  then have y: "inv y" by blast
  have "\<exists>mb''. mailbox z n = Some mb'' \<and> mb_evolves mb mb''" if "mailbox s n = Some mb" for n mb
  proof -
    obtain mb' where mb': "mailbox y n = Some mb'" "mb_evolves mb mb'" using step \<open>mailbox s n = Some mb\<close> by blast
    obtain mb'' where "mailbox z n = Some mb''" "mb_evolves mb' mb''"
      using step_evolves [OF y step.hyps(2) mb'(1)] by blast
    then show ?thesis using mb_evolves_trans [OF mb'(2)] by blast
  qed
  then show ?case using step_inv [OF y step.hyps(2)] by blast
qed

lemma modseq_map_of:
  assumes "inv s"
  shows "map_of (modseq_map (names s) (mailbox s)) n = map_option mb_highest_modseq (mailbox s n)"
proof -
  let ?f = "\<lambda>n. map_option (\<lambda>mb. (n, mb_highest_modseq mb)) (mailbox s n)"
  have "map_of (rev (List.map_filter ?f ns)) n =
      (if n \<in> set ns then map_option mb_highest_modseq (mailbox s n) else None)" for ns
    by (induction ns) (auto simp: List.map_filter_simps map_add_def split: option.splits if_splits)
  then show ?thesis
    using names_dom [OF assms, of n] by (auto simp: modseq_map_def collect_btree(2))
qed

lemma token_decodes:
  assumes "inv s"
  shows "decode_state_map (jmap_state (names s) (mailbox s)) = Some (modseq_map (names s) (mailbox s))"
proof -
  have "fst p \<in> set (names s)" if "p \<in> set (modseq_map (names s) (mailbox s))" for p
  proof -
    have "fst p \<in> dom (map_of (modseq_map (names s) (mailbox s)))"
      using that by (simp add: dom_map_of_conv_image_fst)
    then show ?thesis using modseq_map_of [OF assms] names_dom [OF assms] by auto
  qed
  moreover have "sorted_wrt (<) (map fst (modseq_map (names s) (mailbox s)))"
    by (simp add: modseq_map_def collect_btree(1))
  ultimately show ?thesis
    unfolding jmap_state_def using names_valid [OF assms] decode_state_map_encode collect_btree_sorted by metis
qed

lemma old_modseq_token:
  assumes "inv s"
  shows "old_modseq (modseq_map (names s) (mailbox s)) n =
    (case mailbox s n of None \<Rightarrow> 0 | Some mb \<Rightarrow> mb_highest_modseq mb)"
  by (simp add: old_modseq_def modseq_map_of [OF assms] split: option.split)

lemma email_delta_iff:
  assumes "inv s'"
  shows "i \<in> set (email_delta part old (names s') (mailbox s')) \<longleftrightarrow>
    (\<exists>n u mb. i = email_id n u \<and> mailbox s' n = Some mb \<and> u \<in> set (part (old_modseq old n) mb))"
proof -
  have "i \<in> set (email_delta part old (names s') (mailbox s')) \<longleftrightarrow>
    (\<exists>n \<in> set (names s'). \<exists>mb. mailbox s' n = Some mb \<and> i \<in> email_id n ` set (part (old_modseq old n) mb))"
  proof -
    have "i \<in> set (case mailbox s' n of None \<Rightarrow> [] | Some mb \<Rightarrow> map (email_id n) (part (old_modseq old n) mb)) \<longleftrightarrow>
        (\<exists>mb. mailbox s' n = Some mb \<and> i \<in> email_id n ` set (part (old_modseq old n) mb))" for n
      by (cases "mailbox s' n") auto
    then show ?thesis by (simp add: email_delta_def)
  qed
  then show ?thesis using names_dom [OF assms] by (auto simp: image_iff)
qed

lemma changes_sync:
  assumes run: "step\<^sup>*\<^sup>* s s'" and inv: "inv s"
  obtains ch where
    "jmap_changes_of (names s') (mailbox s') Email (jmap_state (names s) (mailbox s)) = Some ch"
    "ids s' = (ids s \<union> set (ch_created ch)) - set (ch_destroyed ch)"
    "ids s \<inter> set (ch_created ch) = {}"
    "set (ch_updated ch) \<subseteq> ids s \<inter> ids s'"
    "\<And>n mb' m. mailbox s' n = Some mb' \<Longrightarrow> m \<in> set (mb_messages mb') \<Longrightarrow>
       email_id n (m_uid m) \<notin> set (ch_created ch) \<union> set (ch_updated ch) \<Longrightarrow>
       \<exists>mb. mailbox s n = Some mb \<and> m \<in> set (mb_messages mb)"
proof -
  have inv': "inv s'" and ev: "\<And>n mb. mailbox s n = Some mb \<Longrightarrow> \<exists>mb'. mailbox s' n = Some mb' \<and> mb_evolves mb mb'"
    using run_evolves [OF run inv] by blast+
  let ?old = "modseq_map (names s) (mailbox s)"
  let ?h = "old_modseq ?old"
  let ?us = "\<lambda>n. case mailbox s n of None \<Rightarrow> {} | Some mb \<Rightarrow> uids mb"
  let ?d = "\<lambda>part. email_delta part ?old (names s') (mailbox s')"
  have h: "?h n = (case mailbox s n of None \<Rightarrow> 0 | Some mb \<Rightarrow> mb_highest_modseq mb)" for n
    by (rule old_modseq_token [OF inv])
  have loc: "case mailbox s n of None \<Rightarrow> ?h n = 0 \<and> ?us n = {} | Some mb \<Rightarrow> ?h n = mb_highest_modseq mb \<and>
      ?us n = uids mb \<and> wf_mailbox mb \<and> mb_evolves mb mb'" if "mailbox s' n = Some mb'" for n mb'
    using ev [of n] mailbox_wf [OF inv] that by (auto simp: h split: option.split)
  note sync = mailbox_sync [OF mailbox_wf [OF inv'] loc]
  have d: "i \<in> set (?d part) \<longleftrightarrow>
      (\<exists>n u mb. i = email_id n u \<and> mailbox s' n = Some mb \<and> u \<in> set (part (?h n) mb))" for i part
    by (rule email_delta_iff [OF inv'])
  have mem: "email_id n u \<in> set (?d part) \<longleftrightarrow> (\<exists>mb. mailbox s' n = Some mb \<and> u \<in> set (part (?h n) mb))" for n u part
    by (simp add: d)
  have s: "email_id n u \<in> ids s \<longleftrightarrow> u \<in> ?us n" and s': "email_id n u \<in> ids s' \<longleftrightarrow> (\<exists>mb. mailbox s' n = Some mb \<and> u \<in> uids mb)" for n u
    by (auto simp: ids_def split: option.splits)
  have form: "\<exists>n u. i = email_id n u" if "i \<in> ids s \<or> i \<in> ids s' \<or> i \<in> set (?d part)" for i part
    using that by (auto simp: ids_def d)
  have gone: "u \<notin> ?us n" if "mailbox s' n = None" for n u
    using ev [of n] that by (cases "mailbox s n") auto
  have c1: "ids s' = (ids s \<union> set (?d mb_created)) - set (?d mb_destroyed)"
  proof (rule set_eqI)
    fix i
    show "i \<in> ids s' \<longleftrightarrow> i \<in> (ids s \<union> set (?d mb_created)) - set (?d mb_destroyed)"
    proof (cases "\<exists>n u. i = email_id n u")
      case True
      then obtain n u where i: "i = email_id n u" by blast
      show ?thesis
        using sync(1) [of n] gone [of n u] by (cases "mailbox s' n") (auto simp: i mem s s')
    qed (use form in blast)
  qed
  have c2: "ids s \<inter> set (?d mb_created) = {}"
  proof (rule equals0I)
    fix i assume i: "i \<in> ids s \<inter> set (?d mb_created)"
    then obtain n u where e: "i = email_id n u" using form by blast
    then obtain mb' where "mailbox s' n = Some mb'" "u \<in> set (mb_created (?h n) mb')" "u \<in> ?us n"
      using i unfolding e Int_iff mem s by blast
    then show False using sync(2) by blast
  qed
  have c3: "set (?d mb_updated) \<subseteq> ids s \<inter> ids s'"
  proof
    fix i assume i: "i \<in> set (?d mb_updated)"
    then obtain n u where "i = email_id n u" using form by blast
    then show "i \<in> ids s \<inter> ids s'" using i sync(3) by (fastforce simp: mem s s')
  qed
  have c4: "\<exists>mb. mailbox s n = Some mb \<and> m \<in> set (mb_messages mb)"
    if m: "mailbox s' n = Some mb'" "m \<in> set (mb_messages mb')"
      "email_id n (m_uid m) \<notin> set (?d mb_created) \<union> set (?d mb_updated)" for n mb' m
  proof -
    have "m_modseq m \<le> ?h n"
      using m by (fastforce simp: mem mb_created_def mb_updated_def)
    moreover have "0 < m_modseq m" using mailbox_wf [OF inv' m(1)] m(2) by (auto simp: wf_mailbox_def)
    ultimately show ?thesis
      using loc [OF m(1)] m(2) by (auto simp: mb_evolves_def split: option.splits)
  qed
  show thesis
  proof (rule that)
    show "jmap_changes_of (names s') (mailbox s') Email (jmap_state (names s) (mailbox s)) =
        Some \<lparr>ch_old_state = jmap_state (names s) (mailbox s), ch_new_state = jmap_state (names s') (mailbox s'),
              ch_created = ?d mb_created, ch_updated = ?d mb_updated, ch_destroyed = ?d mb_destroyed,
              ch_has_more = False\<rparr>"
      by (simp add: jmap_changes_of_def token_decodes [OF inv])
  qed (use c1 c2 c3 c4 in auto)
qed

end

section \<open>The in-memory store as a state machine\<close>

definition name_ok :: "string \<Rightarrow> bool" where
  "name_ok n \<longleftrightarrow> utf8_valid (as_bytes_of n) \<and> length n < 2 ^ 32"

definition wf_store :: "memory_store \<Rightarrow> bool" where
  "wf_store s \<longleftrightarrow>
     sorted_wrt (<) (map fst (ms_mailboxes s)) \<and> distinct (ms_order s) \<and>
     set (ms_order s) = fst ` set (ms_mailboxes s) \<and> ''INBOX'' \<in> set (ms_order s) \<and>
     (\<forall>p \<in> set (ms_mailboxes s). name_ok (fst p) \<and> mb_name (snd p) = fst p \<and> wf_mailbox (snd p))"

datatype store_event =
    DeliverEv string bytes "flag list" u64
  | ExpungeEv string nat
  | StoreFlagsEv string nat store_op "flag list"
  | CreateEv string
  | DeleteEv string
  | RenameEv string string

text \<open>One rule per operation, with the operation's own state update. The counters of the mailbox that
  is written to have not run out.\<close>

definition has_room :: "string \<Rightarrow> memory_store \<Rightarrow> bool" where
  "has_room n s \<longleftrightarrow>
     (case mailbox_of s n of
        None \<Rightarrow> True | Some mb \<Rightarrow> mb_uid_next mb \<noteq> - 1 \<and> mb_highest_modseq mb \<noteq> - 1)"

inductive store_step :: "memory_store \<Rightarrow> store_event \<Rightarrow> memory_store \<Rightarrow> bool" where
  deliver: "has_room n s \<Longrightarrow> store_step s (DeliverEv n raw flags d) (snd (deliver_raw n raw flags d s))"
| expunge: "has_room n s \<Longrightarrow> store_step s (ExpungeEv n i) (snd (mailbox_mut n (remove_at i) s))"
| store_flags: "has_room n s \<Longrightarrow>
    store_step s (StoreFlagsEv n i op flags)
      (snd (mailbox_mut n (\<lambda>mb. ((), mb_touch i (apply_store op flags) mb)) s))"
| create: "name_ok n \<Longrightarrow> store_step s (CreateEv n) (snd (store_create n s))"
| delete: "store_step s (DeleteEv n) (snd (store_delete n s))"
| rename: "name_ok t \<Longrightarrow> store_step s (RenameEv f t) (snd (store_rename f t s))"

inductive store_run :: "memory_store \<Rightarrow> store_event list \<Rightarrow> memory_store \<Rightarrow> bool" where
  run_nil: "store_run s [] s"
| run_step: "store_step s e s' \<Longrightarrow> store_run s' es s'' \<Longrightarrow> store_run s (e # es) s''"

inductive_cases store_stepE: "store_step s e s'"
inductive_cases store_run_NilE: "store_run s [] s'"
inductive_cases store_run_ConsE: "store_run s (e # es) s'"

lemma map_of_mailbox_upd:
  "map_of (map (\<lambda>(n, x). if n = name then (n, mb') else (n, x)) m) k =
     (if k = name then map_option (\<lambda>_. mb') (map_of m k) else map_of m k)"
  by (induction m) auto

lemma mailbox_of_mut:
  "mailbox_of (snd (mailbox_mut name f s)) n =
     (if n = name then map_option (\<lambda>mb. snd (f mb)) (mailbox_of s n) else mailbox_of s n)"
  by (auto simp: mailbox_mut_def mailbox_of_def map_of_mailbox_upd split: option.split prod.split)

lemma wf_store_mut:
  assumes "wf_store s" and "\<And>mb. mailbox_of s n = Some mb \<Longrightarrow> wf_mailbox mb \<Longrightarrow> wf_mailbox (snd (f mb)) \<and> mb_name (snd (f mb)) = mb_name mb"
  shows "wf_store (snd (mailbox_mut n f s))"
proof (cases "mailbox_of s n")
  case None
  then show ?thesis using assms(1) by (simp add: mailbox_mut_def)
next
  case (Some mb)
  then have "(n, mb) \<in> set (ms_mailboxes s)" by (simp add: mailbox_of_def map_of_SomeD)
  then have mb: "wf_mailbox mb" "mb_name mb = n" "name_ok n" using assms(1) by (auto simp: wf_store_def)
  obtain r mb' where f: "f mb = (r, mb')" by fastforce
  define M where "M = map (\<lambda>(k, x). if k = n then (k, mb') else (k, x)) (ms_mailboxes s)"
  have "map fst M = map fst (ms_mailboxes s)" by (simp add: M_def case_prod_unfold)
  moreover from this have "fst ` set M = fst ` set (ms_mailboxes s)" by (metis set_map)
  moreover have "\<forall>p \<in> set M. p \<in> set (ms_mailboxes s) \<or> p = (n, mb')"
    by (auto simp: M_def split: if_splits)
  moreover have "snd (mailbox_mut n f s) = s\<lparr>ms_mailboxes := M\<rparr>"
    by (simp add: mailbox_mut_def Some f M_def)
  ultimately show ?thesis
    using assms(1) assms(2) [OF Some mb(1)] mb f by (auto simp: wf_store_def)
qed

lemma store_insert_wf:
  assumes "wf_store s" "mailbox_of s (mb_name mb) = None" "wf_mailbox mb" "name_ok (mb_name mb)"
  shows "wf_store (store_insert mb s)"
proof -
  have "mb_name mb \<notin> fst ` set (ms_mailboxes s)"
    using assms(2) by (simp add: mailbox_of_def map_of_eq_None_iff)
  then show ?thesis using assms(1,3,4)
    by (auto simp: wf_store_def store_insert_def sorted_btree_insert fst_btree_insert set_btree_insert)
qed

lemma sorted_keys_filter:
  "sorted_wrt (<) (map fst m) \<Longrightarrow> sorted_wrt (<) (map fst (filter P m))"
  by (simp add: sorted_wrt_map sorted_wrt_filter)

lemma store_delete_wf:
  assumes "wf_store s"
  shows "wf_store (snd (store_delete n s))"
proof (cases "eq_ignore_ascii_case n ''INBOX'' \<or> mailbox_of s n = None")
  case False
  then have "n \<noteq> ''INBOX''" by (auto simp: eq_ignore_ascii_case_def)
  then show ?thesis using assms False
    by (auto simp: wf_store_def store_delete_def sorted_keys_filter case_prod_unfold)
qed (use assms in \<open>auto simp: store_delete_def\<close>)

lemma wf_mailbox_name [simp]: "wf_mailbox (mb\<lparr>mb_name := t\<rparr>) = wf_mailbox mb"
  by (simp add: wf_mailbox_def)

lemma store_rename_wf:
  assumes "wf_store s" "name_ok t"
  shows "wf_store (snd (store_rename f t s))"
proof (cases "eq_ignore_ascii_case f ''INBOX'' \<or> mailbox_of s t \<noteq> None \<or> mailbox_of s f = None")
  case False
  then obtain mb where mb: "mailbox_of s f = Some mb" and t: "mailbox_of s t = None" by auto
  have f: "f \<noteq> ''INBOX''" using False by (auto simp: eq_ignore_ascii_case_def)
  let ?M = "filter (\<lambda>p. fst p \<noteq> f) (ms_mailboxes s)"
  have t': "t \<notin> set (ms_order s)" and fm: "(f, mb) \<in> set (ms_mailboxes s)"
    using t mb assms(1) by (auto simp: mailbox_of_def map_of_eq_None_iff wf_store_def map_of_SomeD)
  have "inj_on (\<lambda>n. if n = f then t else n) (set (ms_order s))"
    using t' by (auto simp: inj_on_def)
  then have "distinct (map (\<lambda>n. if n = f then t else n) (ms_order s))"
    using assms(1) by (simp add: wf_store_def distinct_map)
  moreover have "(\<lambda>n. if n = f then t else n) ` set (ms_order s) = insert t (fst ` set ?M)"
    using assms(1) fm by (force simp: wf_store_def)
  moreover have sorted: "sorted_wrt (<) (map fst ?M)"
    using assms(1) by (simp add: wf_store_def sorted_keys_filter)
  moreover have "snd (store_rename f t s) = s\<lparr>ms_mailboxes := btree_insert t (mb\<lparr>mb_name := t\<rparr>) ?M,
      ms_order := map (\<lambda>n. if n = f then t else n) (ms_order s)\<rparr>"
    using False mb t by (simp add: store_rename_def case_prod_unfold)
  moreover have "wf_mailbox (mb\<lparr>mb_name := t\<rparr>)"
    using assms(1) fm by (auto simp: wf_store_def)
  moreover have "''INBOX'' \<in> (\<lambda>n. if n = f then t else n) ` set (ms_order s)"
    using assms(1) f by (force simp: wf_store_def)
  ultimately show ?thesis
    using assms by (simp add: wf_store_def sorted_btree_insert fst_btree_insert set_btree_insert) auto
qed (use assms in \<open>auto simp: store_rename_def split: option.splits\<close>)

lemma has_roomD:
  "has_room n s \<Longrightarrow> mailbox_of s n = Some mb \<Longrightarrow> mb_uid_next mb \<noteq> - 1 \<and> mb_highest_modseq mb \<noteq> - 1"
  by (simp add: has_room_def)

lemma names_kept [simp]:
  "mb_name (snd (mb_append raw fl d mb)) = mb_name mb"
  "mb_name (snd (remove_at i mb)) = mb_name mb"
  "mb_name (mb_touch i g mb) = mb_name mb"
  by (simp_all add: mb_append_def remove_at_def mb_touch_def Let_def)

lemma store_step_wf:
  assumes "store_step s e s'" "wf_store s"
  shows "wf_store s'"
  using assms
proof cases
  case (create n)
  then show ?thesis using assms(2) by (auto simp: store_create_def mailbox_new_def intro!: store_insert_wf
        wf_mailbox_new [unfolded mailbox_new_def])
qed (use assms(2) in \<open>auto simp: deliver_raw_def intro!: wf_store_mut wf_mailbox_append wf_mailbox_remove_at
      wf_mailbox_touch store_delete_wf store_rename_wf simp: has_room_def\<close>)

lemma store_run_wf: "store_run s es s' \<Longrightarrow> wf_store s \<Longrightarrow> wf_store s'"
  by (induction rule: store_run.induct) (auto intro: store_step_wf)

lemma wf_created_le:
  "wf_mailbox mb \<Longrightarrow> m \<in> set (mb_messages mb) \<Longrightarrow> \<not> mb_highest_modseq mb < m_created_modseq m"
  by (auto simp: wf_mailbox_def not_less intro: order.trans)

lemma mb_evolves_append:
  assumes "wf_mailbox mb" "mb_uid_next mb \<noteq> - 1" "mb_highest_modseq mb \<noteq> - 1"
  shows "mb_evolves mb (snd (mb_append raw flags d mb))"
  using assms(1) word_less_inc [OF assms(2)] word_less_inc [OF assms(3)] modseq_inc [OF assms(3)]
  by (fastforce simp: mb_evolves_def mb_append_def message_new_def wf_mailbox_def Let_def)

lemma mb_evolves_remove:
  assumes "wf_mailbox mb" "mb_highest_modseq mb \<noteq> - 1"
  shows "mb_evolves mb (snd (remove_at i mb))"
proof (cases "i < mb_exists mb")
  case True
  then obtain pre m post where m: "mb_messages mb = pre @ m # post" "length pre = i"
    by (rule message_split)
  show ?thesis using word_less_inc [OF assms(2)] wf_created_le [OF assms(1)]
    unfolding m(2) [symmetric] remove_at_split [OF m(1)] by (auto simp: mb_evolves_def m(1))
next
  case False
  then show ?thesis using mb_evolves_refl [OF assms(1)] by (simp add: remove_at_def mb_exists_def)
qed

lemma mb_evolves_touch:
  assumes "wf_mailbox mb" "mb_highest_modseq mb \<noteq> - 1"
    and g: "\<And>m. m_uid (g m) = m_uid m" "\<And>m. m_created_modseq (g m) = m_created_modseq m" "\<And>m. m_raw (g m) = m_raw m"
  shows "mb_evolves mb (mb_touch i g mb)"
proof (cases "i < mb_exists mb")
  case True
  then obtain pre m post where m: "mb_messages mb = pre @ m # post" "length pre = i"
    by (rule message_split)
  have t: "mb_touch i g mb = mb\<lparr>mb_highest_modseq := mb_highest_modseq mb + 1,
      mb_messages := pre @ (g m)\<lparr>m_modseq := mb_highest_modseq mb + 1\<rparr> # post\<rparr>"
    using m by (auto simp: mb_touch_def Let_def)
  show ?thesis using word_less_inc [OF assms(2)] wf_created_le [OF assms(1)]
    unfolding t by (auto simp: mb_evolves_def m(1) g)
next
  case False
  then show ?thesis using mb_evolves_refl [OF assms(1)] modseq_inc [OF assms(2)]
    by (simp add: mb_touch_def mb_exists_def Let_def mb_evolves_def list_update_beyond)
qed

text \<open>The operations under which a client's ids stay meaningful: all but deleting and renaming.\<close>

definition keeps_mailboxes :: "store_event \<Rightarrow> bool" where
  "keeps_mailboxes e = (case e of DeleteEv _ \<Rightarrow> False | RenameEv _ _ \<Rightarrow> False | _ \<Rightarrow> True)"

definition sync_step :: "memory_store \<Rightarrow> memory_store \<Rightarrow> bool" where
  "sync_step s s' \<longleftrightarrow> (\<exists>e. keeps_mailboxes e \<and> store_step s e s')"

lemma mailbox_of_insert:
  "wf_store s \<Longrightarrow> mailbox_of (store_insert mb s) n = (if n = mb_name mb then Some mb else mailbox_of s n)"
  by (simp add: mailbox_of_def store_insert_def wf_store_def map_of_btree_insert)

lemma mailbox_of_wf: "wf_store s \<Longrightarrow> mailbox_of s n = Some mb \<Longrightarrow> wf_mailbox mb \<and> mb_name mb = n"
  by (force simp: wf_store_def mailbox_of_def dest: map_of_SomeD)

lemma mailbox_names_iff: "wf_store s \<Longrightarrow> n \<in> set (mailbox_names s) \<longleftrightarrow> mailbox_of s n \<noteq> None"
  by (simp add: wf_store_def mailbox_names_def mailbox_of_def map_of_eq_None_iff)

lemma sync_step_evolves:
  assumes wf: "wf_store s" and step: "sync_step s s'" and mb: "mailbox_of s n = Some mb"
  shows "\<exists>mb'. mailbox_of s' n = Some mb' \<and> mb_evolves mb mb'"
proof -
  obtain e where e: "keeps_mailboxes e" "store_step s e s'" using step by (auto simp: sync_step_def)
  note mb' = mailbox_of_wf [OF wf mb] mb_evolves_refl
  show ?thesis using e(2)
  proof cases
    case (create k)
    then show ?thesis using mb mb' mailbox_of_insert [OF wf, of "mailbox_new k None" n]
      by (auto simp: store_create_def mailbox_new_def)
  qed (use e(1) mb mb' in \<open>auto simp: keeps_mailboxes_def deliver_raw_def mailbox_of_mut has_room_def
      intro!: mb_evolves_append mb_evolves_remove mb_evolves_touch\<close>)
qed

lemma wf_store_names: "wf_store s \<Longrightarrow> distinct (mailbox_names s)"
  by (simp add: wf_store_def mailbox_names_def)

lemma wf_store_name_ok:
  "wf_store s \<Longrightarrow> n \<in> set (mailbox_names s) \<Longrightarrow> utf8_valid (as_bytes_of n) \<and> length n < 2 ^ 32"
  by (auto simp: wf_store_def mailbox_names_def name_ok_def)

interpretation mem: change_log mailbox_names mailbox_of wf_store sync_step
proof
  fix s s' n mb
  assume s: "wf_store s"
  show "distinct (mailbox_names s)" using s by (rule wf_store_names)
  show "n \<in> set (mailbox_names s) \<longleftrightarrow> mailbox_of s n \<noteq> None" using s by (rule mailbox_names_iff)
  show "utf8_valid (as_bytes_of n) \<and> length n < 2 ^ 32" if "n \<in> set (mailbox_names s)"
    using s that by (rule wf_store_name_ok)
  show "wf_mailbox mb" if "mailbox_of s n = Some mb" using mailbox_of_wf [OF s that] by blast
  show "wf_store s'" if "sync_step s s'" using s that store_step_wf by (auto simp: sync_step_def)
  show "\<exists>mb'. mailbox_of s' n = Some mb' \<and> mb_evolves mb mb'" if "sync_step s s'" "mailbox_of s n = Some mb"
    using s that by (rule sync_step_evolves)
qed

definition email_ids :: "memory_store \<Rightarrow> string set" where
  "email_ids s = {email_id n u | n u mb. mailbox_of s n = Some mb \<and> u \<in> uids mb}"

lemma mem_ids: "mem.ids = email_ids"
  by (simp add: fun_eq_iff mem.ids_def email_ids_def)

lemma run_sync_steps:
  "store_run s es s' \<Longrightarrow> list_all keeps_mailboxes es \<Longrightarrow> sync_step\<^sup>*\<^sup>* s s'"
proof (induction rule: store_run.induct)
  case (run_step s e s' es s'')
  then have "sync_step s s'" by (auto simp: sync_step_def)
  then show ?case using run_step by (auto intro: converse_rtranclp_into_rtranclp)
qed simp

section \<open>Theorems\<close>

lemma name_ok_folders [simp]:
  "name_ok ''INBOX''" "name_ok ''Sent''" "name_ok ''Drafts''" "name_ok ''Trash''" "name_ok ''Junk''" "name_ok ''Archive''"
  by (simp_all add: name_ok_def as_bytes_of_def)

lemma mb_name_new [simp]: "mb_name (mailbox_new n r) = n"
  by (simp add: mailbox_new_def)

lemma wf_store_empty [simp]: "wf_store store_empty"
  by (simp add: wf_store_def store_empty_def store_insert_def empty_maps_def)

lemma wf_store_new [simp]: "wf_store store_new"
proof -
  have e: "mailbox_of store_empty n = (if n = ''INBOX'' then Some (mailbox_new ''INBOX'' (Some Inbox)) else None)" for n
    by (simp add: mailbox_of_def store_empty_def store_insert_def empty_maps_def)
  have new: "store_new = store_insert (mailbox_new ''Archive'' (Some Archive)) (store_insert (mailbox_new ''Junk'' (Some Junk))
      (store_insert (mailbox_new ''Trash'' (Some Trash)) (store_insert (mailbox_new ''Drafts'' (Some Drafts))
      (store_insert (mailbox_new ''Sent'' (Some Sent)) store_empty))))"
    by (simp add: store_new_def store_empty_def)
  show ?thesis unfolding new by (intro store_insert_wf) (simp_all add: store_insert_wf mailbox_of_insert e)
qed

lemma inbox_deliver_run:
  assumes "wf_store s" "has_room ''INBOX'' s"
  shows "store_run s [DeliverEv ''INBOX'' raw fl d] (snd (deliver_raw ''INBOX'' raw fl d s))"
  by (rule run_step [OF deliver run_nil]) fact

lemma room_store_empty [simp]:
  "has_room ''INBOX'' store_empty"
  "has_room ''INBOX'' (snd (deliver_raw ''INBOX'' raw fl d store_empty))"
  by (simp_all add: has_room_def mailbox_of_def store_empty_def store_insert_def empty_maps_def deliver_raw_def
      mailbox_mut_def mb_append_def mailbox_new_def Let_def)

text \<open>C32. Every run of store operations keeps the store well-formed: names and mailboxes agree, INBOX is
  there, and in every mailbox the messages are in ascending uid order below \<open>uid_next\<close>, the
  modification sequences are bounded by the mailbox's, and no live uid is in the expunge log.\<close>

theorem store_runs_well_formed:
  assumes "store_run s0 es s" "s0 = store_new \<or> s0 = store_empty"
  shows "wf_store s"
  using store_run_wf [OF assms(1)] assms(2) by auto

theorem store_runs_well_formed_witness:
  "wf_store (snd (deliver_raw ''INBOX'' [65] [Recent] 0 store_empty))"
  using store_runs_well_formed [OF inbox_deliver_run [of store_empty]] by simp

text \<open>C13. JMAP synchronisation. A client that knows the email ids of a store and its state token, and
  later asks for the changes since that token, gets from the created and destroyed ids exactly the
  email ids of the store at that time, as long as no mailbox was deleted or renamed in between.
  What is reported as created is new to it, what is updated is known to it and still there, and
  every message that is reported as neither is unchanged in all its fields.\<close>

theorem jmap_changes_synchronise:
  assumes "wf_store s" "store_run s es s'" "list_all keeps_mailboxes es"
  shows "case store_changes s' Email (jmap_state (mailbox_names s) (mailbox_of s)) of
     None \<Rightarrow> False
   | Some ch \<Rightarrow>
       email_ids s' = (email_ids s \<union> set (ch_created ch)) - set (ch_destroyed ch) \<and>
       email_ids s \<inter> set (ch_created ch) = {} \<and>
       set (ch_updated ch) \<subseteq> email_ids s \<inter> email_ids s' \<and>
       (\<forall>n mb' m. mailbox_of s' n = Some mb' \<longrightarrow> m \<in> set (mb_messages mb') \<longrightarrow>
          email_id n (m_uid m) \<notin> set (ch_created ch) \<union> set (ch_updated ch) \<longrightarrow>
          (\<exists>mb. mailbox_of s n = Some mb \<and> m \<in> set (mb_messages mb)))"
proof -
  obtain ch where ch:
    "store_changes s' Email (jmap_state (mailbox_names s) (mailbox_of s)) = Some ch"
    "email_ids s' = (email_ids s \<union> set (ch_created ch)) - set (ch_destroyed ch)"
    "email_ids s \<inter> set (ch_created ch) = {}" "set (ch_updated ch) \<subseteq> email_ids s \<inter> email_ids s'"
    "\<And>n mb' m. mailbox_of s' n = Some mb' \<Longrightarrow> m \<in> set (mb_messages mb') \<Longrightarrow>
       email_id n (m_uid m) \<notin> set (ch_created ch) \<union> set (ch_updated ch) \<Longrightarrow>
       \<exists>mb. mailbox_of s n = Some mb \<and> m \<in> set (mb_messages mb)"
    using mem.changes_sync [OF run_sync_steps [OF assms(2,3)] assms(1), unfolded mem_ids]
    unfolding store_changes_def by metis
  then show ?thesis unfolding ch(1) option.case by blast
qed

theorem jmap_changes_synchronise_witness:
  "case snd (deliver_raw ''INBOX'' [65] [] 0 store_empty) of s \<Rightarrow>
   case store_changes s Email (jmap_state (mailbox_names store_empty) (mailbox_of store_empty)) of
     None \<Rightarrow> False
   | Some ch \<Rightarrow> email_ids s = (email_ids store_empty \<union> set (ch_created ch)) - set (ch_destroyed ch)"
  using jmap_changes_synchronise [OF wf_store_empty inbox_deliver_run [OF wf_store_empty room_store_empty(1), of "[65]" "[]" 0]]
  by (auto simp: keeps_mailboxes_def split: option.splits)

lemma recreated_mailbox_changes:
  assumes "wf_store s" "mailbox_of s n = Some mb" "\<not> eq_ignore_ascii_case n ''INBOX''" "2 \<le> mb_highest_modseq mb"
    and s': "s' = snd (deliver_raw n raw fl d (snd (store_create n (snd (store_delete n s)))))"
    and ch: "store_changes s' Email (jmap_state (mailbox_names s) (mailbox_of s)) = Some ch"
  shows "map_option (\<lambda>mb. (mb_uid_validity mb, map m_uid (mb_messages mb), map m_raw (mb_messages mb))) (mailbox_of s' n) =
      Some (1, [1], [raw])"
    and "email_id n u \<notin> set (ch_created ch) \<union> set (ch_updated ch) \<union> set (ch_destroyed ch)"
proof -
  let ?s1 = "snd (store_delete n s)"
  have s1: "wf_store ?s1" "mailbox_of ?s1 n = None"
    using store_delete_wf [OF assms(1)] assms(2,3)
    by (simp, auto simp: store_delete_def mailbox_of_def map_of_eq_None_iff)
  have name: "name_ok n" using assms(1,2) mailbox_names_iff wf_store_name_ok by (simp add: name_ok_def)
  define mb' where "mb' = snd (mb_append raw fl d (mailbox_new n None))"
  have m': "mailbox_of s' n = Some mb'"
    using s1 by (simp add: s' deliver_raw_def mailbox_of_mut store_create_def mailbox_of_insert mb'_def)
  then show "map_option (\<lambda>mb. (mb_uid_validity mb, map m_uid (mb_messages mb), map m_raw (mb_messages mb))) (mailbox_of s' n) =
      Some (1, [1], [raw])"
    by (simp add: mb'_def mb_append_def mailbox_new_def message_new_def Let_def)
  have "wf_store s'"
    using s1 name unfolding s' deliver_raw_def store_create_def
    by (auto intro!: wf_store_mut store_insert_wf wf_mailbox_append simp: mailbox_of_insert mailbox_new_def [of n None]
        wf_mailbox_new [unfolded mailbox_new_def])
  then have "email_id n u \<in> set (email_delta part (modseq_map (mailbox_names s) (mailbox_of s)) (mailbox_names s') (mailbox_of s'))
      \<longleftrightarrow> u \<in> set (part (mb_highest_modseq mb) mb')" for part
    using mem.email_delta_iff [of s'] mem.old_modseq_token [OF assms(1)] assms(2) m' by auto
  then show "email_id n u \<notin> set (ch_created ch) \<union> set (ch_updated ch) \<union> set (ch_destroyed ch)"
    using ch mem.token_decodes [OF assms(1)] leD [OF assms(4)]
    by (auto simp: store_changes_def jmap_changes_of_def mb_created_def mb_updated_def mb_destroyed_def
        mb'_def mb_append_def mailbox_new_def message_new_def Let_def)
qed

text \<open>A mailbox that is deleted and created again starts over with uid 1, UIDVALIDITY 1 and
  modification sequence 1, so a message delivered to it takes the place of an old one under the
  same id, and the changes since a token from before report nothing about that mailbox: the client
  keeps showing the old message.\<close>

theorem recreated_mailbox_hides_mail:
  assumes "wf_store s" "mailbox_of s n = Some mb" "\<not> eq_ignore_ascii_case n ''INBOX''" "2 \<le> mb_highest_modseq mb"
    and "s' = snd (deliver_raw n raw fl d (snd (store_create n (snd (store_delete n s)))))"
    and "store_changes s' Email (jmap_state (mailbox_names s) (mailbox_of s)) = Some ch"
  shows "map_option (\<lambda>mb. (mb_uid_validity mb, map m_uid (mb_messages mb), map m_raw (mb_messages mb))) (mailbox_of s' n) =
      Some (1, [1], [raw]) \<and>
    email_id n u \<notin> set (ch_created ch) \<union> set (ch_updated ch) \<union> set (ch_destroyed ch)"
  using recreated_mailbox_changes [OF assms] by blast

theorem recreated_mailbox_hides_mail_witness:
  "\<exists>s ch. store_changes (snd (deliver_raw ''Sent'' [66] [] 0 (snd (store_create ''Sent'' (snd (store_delete ''Sent'' s))))))
       Email (jmap_state (mailbox_names s) (mailbox_of s)) = Some ch \<and>
     email_id ''Sent'' 1 \<in> email_ids s \<and>
     email_id ''Sent'' 1 \<notin> set (ch_created ch) \<union> set (ch_updated ch) \<union> set (ch_destroyed ch)"
proof -
  let ?s = "snd (deliver_raw ''Sent'' [65] [] 0 store_new)"
  let ?s' = "snd (deliver_raw ''Sent'' [66] [] 0 (snd (store_create ''Sent'' (snd (store_delete ''Sent'' ?s)))))"
  let ?mb = "snd (mb_append [65] [] 0 (mailbox_new ''Sent'' (Some Sent)))"
  have new: "mailbox_of store_new ''Sent'' = Some (mailbox_new ''Sent'' (Some Sent))" by code_simp
  have "has_room ''Sent'' store_new" by (simp add: has_room_def new mailbox_new_def)
  then have wf: "wf_store ?s" by (intro store_step_wf [OF deliver]) simp_all
  have mb: "mailbox_of ?s ''Sent'' = Some ?mb" by (simp add: deliver_raw_def mailbox_of_mut new)
  obtain ch where ch: "store_changes ?s' Email (jmap_state (mailbox_names ?s) (mailbox_of ?s)) = Some ch"
    using mem.token_decodes [OF wf] by (auto simp: store_changes_def jmap_changes_of_def Let_def)
  have "email_id ''Sent'' 1 \<in> email_ids ?s"
    using mb by (auto simp: email_ids_def mb_append_def mailbox_new_def message_new_def Let_def)
  moreover have "2 \<le> mb_highest_modseq ?mb" by (simp add: mb_append_def mailbox_new_def Let_def)
  moreover have "\<not> eq_ignore_ascii_case ''Sent'' ''INBOX''" by code_simp
  ultimately show ?thesis
    using recreated_mailbox_hides_mail [OF wf mb _ _ refl ch] ch by blast
qed

end
