(* ===== verification/Mail_Auth.thy ===== *)
theory Mail_Auth
  imports Mail_Util
begin

text \<open>
  \<open>kotva-mail/src/auth.rs\<close>: app passwords, the authenticator trait and the SASL payloads. The trait
  is the record \<open>authenticator\<close> of its two methods; the sessions take one as a parameter and the
  locale \<open>app_passwords\<close> states what the shipped implementation promises them.
\<close>

record app_password =
  ap_username :: string
  ap_secret :: string
  ap_identity_pub :: bytes
  ap_label :: string

record authenticator =
  a_verify :: "string \<Rightarrow> string \<Rightarrow> bytes option"
  a_secret_for :: "string \<Rightarrow> string option"

fun ct_diff :: "u8 \<Rightarrow> bytes \<Rightarrow> bytes \<Rightarrow> u8" where
  "ct_diff diff (x # xs) (y # ys) = ct_diff (diff OR (x XOR y)) xs ys"
| "ct_diff diff _ _ = diff"

definition ct_eq :: "bytes \<Rightarrow> bytes \<Rightarrow> bool" where
  "ct_eq a b = (if length a \<noteq> length b then False else ct_diff 0 a b = 0)"

definition auth_issue :: "string \<Rightarrow> string \<Rightarrow> bytes \<Rightarrow> string \<Rightarrow> app_password list \<Rightarrow> app_password list" where
  "auth_issue username secret identity_pub label ps =
     ps @ [\<lparr>ap_username = username, ap_secret = secret, ap_identity_pub = identity_pub, ap_label = label\<rparr>]"

definition static_verify :: "app_password list \<Rightarrow> string \<Rightarrow> string \<Rightarrow> bytes option" where
  "static_verify ps username password =
     map_option ap_identity_pub
       (find (\<lambda>p. ap_username p = username \<and> ct_eq (as_bytes_of (ap_secret p)) (as_bytes_of password)) ps)"

definition static_secret_for :: "app_password list \<Rightarrow> string \<Rightarrow> string option" where
  "static_secret_for ps username = map_option ap_secret (find (\<lambda>p. ap_username p = username) ps)"

definition static_authenticator :: "app_password list \<Rightarrow> authenticator" where
  "static_authenticator ps = \<lparr>a_verify = static_verify ps, a_secret_for = static_secret_for ps\<rparr>"

record sasl_credential =
  sc_authzid :: "string option"
  sc_authcid :: string
  sc_password :: string

datatype sasl_mechanism = Plain | Login

definition sasl_parse :: "string \<Rightarrow> sasl_mechanism option" where
  "sasl_parse name =
     (if to_ascii_uppercase name = ''PLAIN'' then Some Plain
      else if to_ascii_uppercase name = ''LOGIN'' then Some Login else None)"

definition sasl_name :: "sasl_mechanism \<Rightarrow> string" where
  "sasl_name m = (case m of Plain \<Rightarrow> ''PLAIN'' | Login \<Rightarrow> ''LOGIN'')"

definition decode_plain :: "string \<Rightarrow> sasl_credential option" where
  "decode_plain b64 =
     (case base64_decode (trim b64) of
        None \<Rightarrow> None
      | Some raw \<Rightarrow>
          (case split_on 0 raw of
             [z, c, p] \<Rightarrow>
               (case from_utf8 z of
                  None \<Rightarrow> None
                | Some authzid \<Rightarrow>
                    (case from_utf8 c of
                       None \<Rightarrow> None
                     | Some authcid \<Rightarrow>
                         (case from_utf8 p of
                            None \<Rightarrow> None
                          | Some password \<Rightarrow>
                              Some \<lparr>sc_authzid = (if authzid = [] then None else Some authzid),
                                    sc_authcid = authcid, sc_password = password\<rparr>)))
           | _ \<Rightarrow> None))"

definition decode_login_field :: "string \<Rightarrow> string option" where
  "decode_login_field b64 = (case base64_decode (trim b64) of None \<Rightarrow> None | Some b \<Rightarrow> from_utf8 b)"

section \<open>Lemmas\<close>

lemma xor_eq_0_iff: "(a :: u8) XOR b = 0 \<longleftrightarrow> a = b"
  by (metis bit.xor_left_self bit.xor_self xor.right_neutral)

lemma ct_diff_iff: "length a = length b \<Longrightarrow> ct_diff d a b = 0 \<longleftrightarrow> d = 0 \<and> a = b"
  by (induction a b arbitrary: d rule: list_induct2) (auto simp: or_eq_0_iff xor_eq_0_iff)

lemma ct_eq_iff [simp]: "ct_eq a b \<longleftrightarrow> a = b"
  by (auto simp: ct_eq_def ct_diff_iff)

text \<open>The law that APOP relies on: the secret an authenticator gives out for a user is one it accepts.\<close>

locale app_passwords =
  fixes verify :: "string \<Rightarrow> string \<Rightarrow> bytes option" and secret_for :: "string \<Rightarrow> string option"
  assumes secret_verifies: "secret_for u = Some s \<Longrightarrow> verify u s \<noteq> None"

interpretation static: app_passwords "static_verify ps" "static_secret_for ps" for ps
proof
  fix u s
  assume "static_secret_for ps u = Some s"
  then obtain p where "p \<in> set ps" "ap_username p = u" "ap_secret p = s"
    by (auto simp: static_secret_for_def find_Some_iff intro: nth_mem)
  then show "static_verify ps u s \<noteq> None"
    by (auto simp: static_verify_def find_None_iff)
qed

end
