(* ===== verification/Pop3.thy ===== *)
theory Pop3
  imports Mail_Sync Mail_Auth
begin

text \<open>
  \<open>kotva-mail/src/pop3.rs\<close>: the POP3 session over the in-memory store, one line at a time. A reply is
  the bytes sent back. The authenticator is a parameter. \<open>body_offset\<close> and \<open>header_and_body\<close> are
  those of \<open>mime.rs\<close>.
\<close>

section \<open>Header and body\<close>

definition LF :: u8 where "LF = 10"
definition CR :: u8 where "CR = 13"

fun body_offset_from :: "nat \<Rightarrow> bytes \<Rightarrow> nat" where
  "body_offset_from i [] = i"
| "body_offset_from i (b # r) =
     (if b = LF \<and> (case r of c # _ \<Rightarrow> c = LF | _ \<Rightarrow> False) then i + 2
      else if b = LF \<and> (case r of c # d # _ \<Rightarrow> c = CR \<and> d = LF | _ \<Rightarrow> False) then i + 3
      else body_offset_from (i + 1) r)"

definition body_offset :: "bytes \<Rightarrow> nat" where
  "body_offset raw = body_offset_from 0 raw"

definition header_and_body :: "bytes \<Rightarrow> bytes \<times> bytes" where
  "header_and_body raw = (take (body_offset raw) raw, drop (body_offset raw) raw)"

section \<open>The session\<close>

datatype pop3_state = Authorization | Transaction

record slot =
  sl_uid :: u32
  sl_raw :: bytes
  sl_deleted :: bool

datatype sasl_step = SaslPlain

record pop3_session =
  p_store :: memory_store
  p_tls :: bool
  p_state :: pop3_state
  p_user :: "string option"
  p_identity :: "bytes option"
  p_slots :: "slot list"
  p_banner :: string
  p_pending_sasl :: "sasl_step option"

definition pop3_new :: "memory_store \<Rightarrow> bool \<Rightarrow> pop3_session" where
  "pop3_new store tls =
     \<lparr>p_store = store, p_tls = tls, p_state = Authorization, p_user = None, p_identity = None, p_slots = [],
      p_banner = ''<envoir.1.1@mail.dmtap.local>'', p_pending_sasl = None\<rparr>"

definition crlf :: string where
  "crlf = [CHR 0x0D, CHR 0x0A]"

definition line :: "string \<Rightarrow> bytes" where
  "line s = as_bytes_of (s @ crlf)"

definition pop3_is_authenticated :: "pop3_session \<Rightarrow> bool" where
  "pop3_is_authenticated s \<longleftrightarrow> p_identity s \<noteq> None"

definition pop3_greeting :: "pop3_session \<Rightarrow> bytes" where
  "pop3_greeting s = line (''+OK Envoir DMTAP POP3 ready '' @ p_banner s)"

definition capa :: "pop3_session \<Rightarrow> bytes" where
  "capa s =
     line ''+OK Capability list follows'' @ line ''TOP'' @ line ''UIDL'' @ line ''USER'' @ line ''RESP-CODES'' @
     line ''PIPELINING'' @ (if p_tls s then line ''SASL PLAIN'' else line ''STLS'') @ line ''.''"

definition load_inbox :: "pop3_session \<Rightarrow> pop3_session" where
  "load_inbox s =
     s\<lparr>p_slots :=
         (case mailbox_of (p_store s) ''INBOX'' of
            None \<Rightarrow> []
          | Some mb \<Rightarrow> map (\<lambda>m. \<lparr>sl_uid = m_uid m, sl_raw = m_raw m, sl_deleted = False\<rparr>) (mb_messages mb))\<rparr>"

definition login_ok :: "bytes \<Rightarrow> pop3_session \<Rightarrow> pop3_session \<times> bytes" where
  "login_ok identity s =
     (let s' = load_inbox (s\<lparr>p_identity := Some identity, p_state := Transaction\<rparr>) in
      (s', line (''+OK mailbox ready, '' @ dec (length (p_slots s')) @ '' messages'')))"

definition pass_cmd :: "authenticator \<Rightarrow> string \<Rightarrow> pop3_session \<Rightarrow> pop3_session \<times> bytes" where
  "pass_cmd A pw s =
     (case p_user s of
        None \<Rightarrow> (s, line ''-ERR USER first'')
      | Some user \<Rightarrow>
          (case a_verify A user pw of
             Some ident \<Rightarrow> login_ok ident s
           | None \<Rightarrow> (s, line ''-ERR [AUTH] invalid credentials'')))"

definition apop_digest :: "pop3_session \<Rightarrow> string \<Rightarrow> string" where
  "apop_digest s secret = hex (md5 (as_bytes_of (p_banner s @ secret)))"

definition apop :: "authenticator \<Rightarrow> string \<Rightarrow> pop3_session \<Rightarrow> pop3_session \<times> bytes" where
  "apop A rest s =
     (case split_whitespace rest of
        name # digest # _ \<Rightarrow>
          (case a_secret_for A name of
             None \<Rightarrow> (s, line ''-ERR [AUTH] APOP not available for this user'')
           | Some secret \<Rightarrow>
               if ct_eq (as_bytes_of (apop_digest s secret)) (as_bytes_of (to_ascii_lowercase digest)) then
                 (case a_verify A name secret of
                    Some ident \<Rightarrow> login_ok ident s
                  | None \<Rightarrow> (s, line ''-ERR [AUTH] APOP failed''))
               else (s, line ''-ERR [AUTH] APOP digest mismatch''))
      | _ \<Rightarrow> (s, line ''-ERR APOP requires name and digest''))"

definition finish_plain :: "authenticator \<Rightarrow> string \<Rightarrow> pop3_session \<Rightarrow> pop3_session \<times> bytes" where
  "finish_plain A ir s =
     (case decode_plain ir of
        Some cred \<Rightarrow>
          (case a_verify A (sc_authcid cred) (sc_password cred) of
             Some ident \<Rightarrow> login_ok ident s
           | None \<Rightarrow> (s, line ''-ERR [AUTH] invalid credentials''))
      | None \<Rightarrow> (s, line ''-ERR malformed SASL PLAIN''))"

definition continue_sasl :: "authenticator \<Rightarrow> sasl_step \<Rightarrow> string \<Rightarrow> pop3_session \<Rightarrow> pop3_session \<times> bytes" where
  "continue_sasl A step ln s = (case step of SaslPlain \<Rightarrow> finish_plain A (trim ln) s)"

definition auth_cmd :: "authenticator \<Rightarrow> string \<Rightarrow> pop3_session \<Rightarrow> pop3_session \<times> bytes" where
  "auth_cmd A rest s =
     (let toks = split_whitespace rest;
          mech = to_ascii_uppercase (case toks of [] \<Rightarrow> [] | t # _ \<Rightarrow> t) in
      if mech = ''PLAIN'' then
        (case toks of
           _ # ir # _ \<Rightarrow> finish_plain A ir s
         | _ \<Rightarrow> (s\<lparr>p_pending_sasl := Some SaslPlain\<rparr>, line ''+ ''))
      else (s, line ''-ERR unsupported SASL mechanism''))"

definition active :: "pop3_session \<Rightarrow> (nat \<times> slot) list" where
  "active s = filter (\<lambda>(_, sl). \<not> sl_deleted sl) (enumerate 0 (p_slots s))"

definition stat :: "pop3_session \<Rightarrow> bytes" where
  "stat s =
     (let (count, sz) = foldl (\<lambda>(c, n) (_, sl). (c + 1, n + length (sl_raw sl))) (0, 0) (active s)
      in line (''+OK '' @ dec count @ '' '' @ dec sz))"

text \<open>\<open>usize\<close> has 64 bits.\<close>

definition index_of :: "string \<Rightarrow> pop3_session \<Rightarrow> nat option" where
  "index_of num s =
     (case parse_uint (2 ^ 64) (trim num) of
        None \<Rightarrow> None
      | Some n \<Rightarrow>
          if n = 0 \<or> n > length (p_slots s) then None
          else if sl_deleted (p_slots s ! (n - 1)) then None else Some (n - 1))"

definition slot_of :: "string \<Rightarrow> pop3_session \<Rightarrow> (nat \<times> slot) option" where
  "slot_of num s = map_option (\<lambda>i. (i, p_slots s ! i)) (index_of num s)"

definition list_cmd :: "string \<Rightarrow> pop3_session \<Rightarrow> bytes" where
  "list_cmd rest s =
     (if rest = [] then
        line ''+OK scan listing follows'' @
        concat (map (\<lambda>(i, sl). line (dec (i + 1) @ '' '' @ dec (length (sl_raw sl)))) (active s)) @ line ''.''
      else (case slot_of rest s of
              Some (i, sl) \<Rightarrow> line (''+OK '' @ dec (i + 1) @ '' '' @ dec (length (sl_raw sl)))
            | None \<Rightarrow> line ''-ERR no such message''))"

definition uidl :: "string \<Rightarrow> pop3_session \<Rightarrow> bytes" where
  "uidl rest s =
     (if rest = [] then
        line ''+OK unique-id listing follows'' @
        concat (map (\<lambda>(i, sl). line (dec (i + 1) @ '' '' @ dec (unat (sl_uid sl)))) (active s)) @ line ''.''
      else (case slot_of rest s of
              Some (i, sl) \<Rightarrow> line (''+OK '' @ dec (i + 1) @ '' '' @ dec (unat (sl_uid sl)))
            | None \<Rightarrow> line ''-ERR no such message''))"

definition dot_line :: "bytes \<Rightarrow> bytes" where
  "dot_line l = (if l \<noteq> [] \<and> hd l = 46 then 46 # l else l)"

definition dot_stuff :: "bytes \<Rightarrow> bytes" where
  "dot_stuff raw =
     (let out = concat (map dot_line (split_inclusive LF raw)) in
      if out \<noteq> [] \<and> last out = LF then out else out @ [CR, LF])"

definition retr :: "string \<Rightarrow> pop3_session \<Rightarrow> bytes" where
  "retr rest s =
     (case slot_of rest s of
        Some (_, sl) \<Rightarrow>
          line (''+OK '' @ dec (length (sl_raw sl)) @ '' octets'') @ dot_stuff (sl_raw sl) @ line ''.''
      | None \<Rightarrow> line ''-ERR no such message'')"

definition top_cmd :: "string \<Rightarrow> pop3_session \<Rightarrow> bytes" where
  "top_cmd rest s =
     (let toks = split_whitespace rest;
          num = (case toks of [] \<Rightarrow> [] | t # _ \<Rightarrow> t);
          lines = (case toks of
                     _ # n # _ \<Rightarrow> (case parse_uint (2 ^ 64) n of None \<Rightarrow> 0 | Some k \<Rightarrow> k)
                   | _ \<Rightarrow> 0) in
      case slot_of num s of
        Some (_, sl) \<Rightarrow>
          (let (headers, body) = header_and_body (sl_raw sl);
               top = headers @ concat (take lines (split_inclusive LF body))
           in line ''+OK'' @ dot_stuff top @ line ''.'')
      | None \<Rightarrow> line ''-ERR no such message'')"

definition dele :: "string \<Rightarrow> pop3_session \<Rightarrow> pop3_session \<times> bytes" where
  "dele rest s =
     (case index_of rest s of
        Some i \<Rightarrow> (s\<lparr>p_slots := (p_slots s)[i := (p_slots s ! i)\<lparr>sl_deleted := True\<rparr>]\<rparr>, line ''+OK message deleted'')
      | None \<Rightarrow> (s, line ''-ERR no such message''))"

definition rset :: "pop3_session \<Rightarrow> pop3_session \<times> bytes" where
  "rset s = (s\<lparr>p_slots := map (\<lambda>sl. sl\<lparr>sl_deleted := False\<rparr>) (p_slots s)\<rparr>, line ''+OK'')"

definition expunge_uid :: "u32 \<Rightarrow> mailbox \<Rightarrow> mailbox" where
  "expunge_uid uid mb =
     (case index_of_uid mb uid of Some pos \<Rightarrow> snd (remove_at pos mb) | None \<Rightarrow> mb)"

definition quit_cmd :: "pop3_session \<Rightarrow> pop3_session \<times> bytes" where
  "quit_cmd s =
     (let to_delete = map sl_uid (filter sl_deleted (p_slots s)) in
      (if p_state s = Transaction
       then s\<lparr>p_store := snd (mailbox_mut ''INBOX'' (\<lambda>mb. ((), fold expunge_uid to_delete mb)) (p_store s))\<rparr>
       else s,
       line ''+OK Envoir POP3 signing off''))"

text \<open>The verb and the argument of a line.\<close>

definition pop3_split :: "string \<Rightarrow> string \<times> string" where
  "pop3_split ln =
     (case split_once CHR '' '' ln of
        Some (v, r) \<Rightarrow> (to_ascii_uppercase v, trim r)
      | None \<Rightarrow> (to_ascii_uppercase (trim ln), []))"

definition pop3_dispatch :: "authenticator \<Rightarrow> string \<Rightarrow> string \<Rightarrow> pop3_session \<Rightarrow> pop3_session \<times> bytes" where
  "pop3_dispatch A verb rest s =
     (if verb = ''CAPA'' then (s, capa s)
      else if verb = ''QUIT'' then quit_cmd s
      else if verb = ''NOOP'' then (s, line ''+OK'')
      else (case p_state s of
              Authorization \<Rightarrow>
                if verb = ''STLS'' then (s\<lparr>p_tls := True\<rparr>, line ''+OK Begin TLS'')
                else if verb = ''USER'' then (s\<lparr>p_user := Some rest\<rparr>, line ''+OK send PASS'')
                else if verb = ''PASS'' then pass_cmd A rest s
                else if verb = ''APOP'' then apop A rest s
                else if verb = ''AUTH'' then auth_cmd A rest s
                else (s, line ''-ERR command not permitted in this state'')
            | Transaction \<Rightarrow>
                if verb = ''STAT'' then (s, stat s)
                else if verb = ''LIST'' then (s, list_cmd rest s)
                else if verb = ''UIDL'' then (s, uidl rest s)
                else if verb = ''RETR'' then (s, retr rest s)
                else if verb = ''TOP'' then (s, top_cmd rest s)
                else if verb = ''DELE'' then dele rest s
                else if verb = ''RSET'' then rset s
                else (s, line ''-ERR command not permitted in this state'')))"

definition pop3_feed_line :: "authenticator \<Rightarrow> string \<Rightarrow> pop3_session \<Rightarrow> pop3_session \<times> bytes" where
  "pop3_feed_line A ln s =
     (case p_pending_sasl s of
        Some step \<Rightarrow> continue_sasl A step ln (s\<lparr>p_pending_sasl := None\<rparr>)
      | None \<Rightarrow> (let (verb, rest) = pop3_split ln in pop3_dispatch A verb rest s))"

definition pop3_feed_line_text :: "authenticator \<Rightarrow> string \<Rightarrow> pop3_session \<Rightarrow> pop3_session \<times> string" where
  "pop3_feed_line_text A ln s =
     (let (s', out) = pop3_feed_line A ln s in (s', string_of_bytes (utf8_lossy out)))"

section \<open>Dot stuffing\<close>

text \<open>What a client does with a multi-line reply (RFC 1939, section 3): read lines up to one that is a
  single dot, and remove the first dot of every line that starts with one.\<close>

fun unstuff :: "bytes list \<Rightarrow> (bytes \<times> bytes) option" where
  "unstuff [] = None"
| "unstuff (l # ls) =
     (if l = [46, CR, LF] then Some ([], concat ls)
      else map_option (\<lambda>(a, b). ((if l \<noteq> [] \<and> hd l = 46 then tl l else l) @ a, b)) (unstuff ls))"

definition read_multiline :: "bytes \<Rightarrow> (bytes \<times> bytes) option" where
  "read_multiline b = unstuff (split_inclusive LF b)"

definition complete_line :: "'a \<Rightarrow> 'a list \<Rightarrow> bool" where
  "complete_line c l \<longleftrightarrow> (\<exists>a. l = a @ [c] \<and> c \<notin> set a)"

lemma complete_line_Cons: "complete_line c (x # l) \<longleftrightarrow> (if x = c then l = [] else complete_line c l)"
  by (auto simp: complete_line_def Cons_eq_append_conv)

lemma complete_line_Nil [simp]: "\<not> complete_line c []"
  by (simp add: complete_line_def)

lemma split_inclusive_complete:
  "complete_line c l \<Longrightarrow> split_inclusive c (l @ xs) = l # split_inclusive c xs"
  by (induction l) (auto simp: complete_line_Cons split: if_splits)

lemma split_inclusive_concat:
  "\<forall>l \<in> set ls. complete_line c l \<Longrightarrow> split_inclusive c (concat ls @ xs) = ls @ split_inclusive c xs"
  by (induction ls) (auto simp: split_inclusive_complete)

lemma split_inclusive_lines:
  "\<exists>ls l. xs = concat ls @ l \<and> (\<forall>k \<in> set ls. complete_line c k) \<and> c \<notin> set l \<and>
     split_inclusive c xs = ls @ (if l = [] then [] else [l])"
proof (induction xs)
  case Nil
  then show ?case by (intro exI [of _ "[]"]) simp
next
  case (Cons x xs)
  then obtain ls l where IH: "xs = concat ls @ l" "\<forall>k \<in> set ls. complete_line c k" "c \<notin> set l"
    "split_inclusive c xs = ls @ (if l = [] then [] else [l])" by blast
  show ?case
  proof (cases "x = c")
    case True
    then show ?thesis using IH
      by (intro exI [of _ "[c] # ls"] exI [of _ l]) (simp add: complete_line_def)
  next
    case False
    show ?thesis
    proof (cases ls)
      case Nil
      then show ?thesis using IH False by (intro exI [of _ "[]"] exI [of _ "x # l"]) simp
    next
      case (Cons k ks)
      then show ?thesis using IH False
        by (intro exI [of _ "(x # k) # ks"] exI [of _ l]) (auto simp: complete_line_Cons)
    qed
  qed
qed

lemma complete_dot_line: "complete_line LF l \<Longrightarrow> complete_line LF (dot_line l)"
  by (simp add: dot_line_def complete_line_Cons LF_def)

lemma unstuff_dot_line:
  "unstuff (dot_line l # ls) = map_option (\<lambda>(a, b). (l @ a, b)) (unstuff ls)" if "l \<noteq> []"
  using that by (cases l) (auto simp: dot_line_def CR_def LF_def)

lemma unstuff_dot_lines:
  "\<forall>l \<in> set ls. l \<noteq> [] \<Longrightarrow>
     unstuff (map dot_line ls @ rs) = map_option (\<lambda>(a, b). (concat ls @ a, b)) (unstuff rs)"
  by (induction ls) (auto simp: unstuff_dot_line option.map_comp comp_def case_prod_unfold option.map_ident
      simp del: unstuff.simps(2))

lemma complete_not_Nil: "complete_line c l \<Longrightarrow> l \<noteq> []"
  by (auto simp: complete_line_def)

lemma last_concat_complete:
  "ls \<noteq> [] \<Longrightarrow> \<forall>l \<in> set ls. complete_line c l \<Longrightarrow> concat ls \<noteq> [] \<and> last (concat ls) = c"
  by (cases ls rule: rev_cases) (auto simp: complete_line_def)

text \<open>The lines that \<open>dot_stuff\<close> writes, all complete and stuffed.\<close>

lemma dot_stuff_lines:
  obtains ls where "dot_stuff raw = concat (map dot_line ls)" "\<forall>l \<in> set ls. complete_line LF l"
    "concat ls = (if raw \<noteq> [] \<and> last raw = LF then raw else raw @ [CR, LF])"
proof -
  obtain ks l where raw: "raw = concat ks @ l" "\<forall>k \<in> set ks. complete_line LF k" "LF \<notin> set l"
    "split_inclusive LF raw = ks @ (if l = [] then [] else [l])"
    using split_inclusive_lines [of raw LF] by (elim exE conjE)
  have ks: "\<forall>k \<in> set (map dot_line ks). complete_line LF k" using raw(2) by (simp add: complete_dot_line)
  show thesis
  proof (cases "l = [] \<and> ks \<noteq> []")
    case True
    then have r: "raw = concat ks" "split_inclusive LF raw = ks" using raw(1,4) by simp_all
    have d1: "dot_stuff raw = concat (map dot_line ks)"
      using last_concat_complete [OF _ ks] True by (simp add: dot_stuff_def Let_def r(2) del: concat_eq_Nil_conv)
    have d2: "raw \<noteq> [] \<and> last raw = LF"
      unfolding r(1) using last_concat_complete [OF _ raw(2)] True by blast
    show ?thesis by (rule that [OF d1 raw(2)]) (metis d2 r(1))
  next
    case False
    have last: "raw = [] \<or> last raw \<noteq> LF"
      using raw(1,3) False by (cases "l = []") (simp, metis last_appendR last_in_set)
    have dot: "dot_line (l @ [CR, LF]) = dot_line l @ [CR, LF]"
      by (cases l) (auto simp: dot_line_def CR_def)
    have "concat (map dot_line ks) @ dot_line l = [] \<or> last (concat (map dot_line ks) @ dot_line l) \<noteq> LF"
    proof (cases "l = []")
      case l: False
      then have "last l \<noteq> LF" using raw(3) by (metis last_in_set)
      then show ?thesis using l by (auto simp: dot_line_def last_append)
    qed (use False in \<open>simp add: dot_line_def\<close>)
    then have "dot_stuff raw = concat (map dot_line ks) @ dot_line l @ [CR, LF]"
      using raw(4) by (cases "l = []") (auto simp: dot_stuff_def Let_def dot_line_def)
    moreover have "complete_line LF (l @ [CR, LF])"
      using raw(3) by (auto simp: complete_line_def CR_def LF_def)
    ultimately show ?thesis
      using that [of "ks @ [l @ [CR, LF]]"] raw(1,2) last by (auto simp: dot)
  qed
qed

text \<open>The body of a multi-line reply survives transport: whatever bytes a stored message has, a
  client that reads the stuffed text up to the terminating dot and unstuffs it gets the message
  back, with a line end added when it had none, and stops exactly where the reply ends.\<close>

theorem dot_stuff_round_trip:
  "read_multiline (dot_stuff raw @ line ''.'' @ rest) =
     Some (if raw \<noteq> [] \<and> last raw = LF then raw else raw @ [CR, LF], rest)"
proof -
  obtain ls where ls: "dot_stuff raw = concat (map dot_line ls)" "\<forall>l \<in> set ls. complete_line LF l"
    "concat ls = (if raw \<noteq> [] \<and> last raw = LF then raw else raw @ [CR, LF])"
    by (rule dot_stuff_lines)
  have "complete_line LF [46, CR, LF]" by (simp add: complete_line_Cons CR_def LF_def)
  then have "split_inclusive LF (dot_stuff raw @ [46, CR, LF] @ rest) =
      map dot_line ls @ [46, CR, LF] # split_inclusive LF rest"
    unfolding ls(1) using ls(2)
    by (subst split_inclusive_concat) (auto simp: complete_dot_line split_inclusive_complete
        simp del: append.simps simp flip: append_Cons)
  moreover have "line ''.'' = [46, CR, LF]" by (simp add: line_def crlf_def as_bytes_of_def CR_def LF_def)
  moreover have "\<forall>l \<in> set ls. l \<noteq> []" using ls(2) by auto
  ultimately show ?thesis
    using ls(3) unstuff_dot_lines [of ls] by (simp add: read_multiline_def)
qed

section \<open>Sessions\<close>

text \<open>The session after a list of lines.\<close>

definition pop3_run :: "authenticator \<Rightarrow> string list \<Rightarrow> pop3_session \<Rightarrow> pop3_session" where
  "pop3_run A lns s = fold (\<lambda>ln s. fst (pop3_feed_line A ln s)) lns s"

definition inbox_slots :: "memory_store \<Rightarrow> (u32 \<times> bytes) list" where
  "inbox_slots store =
     (case mailbox_of store ''INBOX'' of None \<Rightarrow> [] | Some mb \<Rightarrow> map (\<lambda>m. (m_uid m, m_raw m)) (mb_messages mb))"

text \<open>In the transaction state the client is somebody the authenticator accepted, and the slots are
  the messages of INBOX, some of them marked.\<close>

definition pop3_inv :: "authenticator \<Rightarrow> pop3_session \<Rightarrow> bool" where
  "pop3_inv A s \<longleftrightarrow>
     (p_state s = Transaction \<longrightarrow>
        (\<exists>u pw. a_verify A u pw \<noteq> None \<and> p_identity s = a_verify A u pw) \<and>
        map (\<lambda>sl. (sl_uid sl, sl_raw sl)) (p_slots s) = inbox_slots (p_store s)) \<and>
     (p_state s = Authorization \<longrightarrow> p_identity s = None)"

lemma login_ok_simps [simp]:
  "p_state (fst (login_ok i s)) = Transaction" "p_identity (fst (login_ok i s)) = Some i"
  "p_store (fst (login_ok i s)) = p_store s" "p_banner (fst (login_ok i s)) = p_banner s"
  "map (\<lambda>sl. (sl_uid sl, sl_raw sl)) (p_slots (fst (login_ok i s))) = inbox_slots (p_store s)"
  by (auto simp: login_ok_def load_inbox_def Let_def inbox_slots_def comp_def split: option.splits)

lemma login_ok_inv: "a_verify A u pw = Some i \<Longrightarrow> pop3_inv A (fst (login_ok i s))"
  by (simp add: pop3_inv_def) (metis option.distinct(1))

lemma auth_cmds_inv:
  assumes "pop3_inv A s"
  shows "pop3_inv A (fst (pass_cmd A pw s))" "pop3_inv A (fst (apop A rest s))"
    "pop3_inv A (fst (finish_plain A ir s))" "pop3_inv A (fst (auth_cmd A rest s))"
proof -
  show plain: "pop3_inv A (fst (finish_plain A ir s))" for ir
    using assms login_ok_inv by (auto simp: finish_plain_def split: option.split)
  show "pop3_inv A (fst (pass_cmd A pw s))"
    using assms login_ok_inv by (auto simp: pass_cmd_def split: option.split)
  show "pop3_inv A (fst (apop A rest s))"
    using assms login_ok_inv by (auto simp: apop_def split: option.split list.split)
  show "pop3_inv A (fst (auth_cmd A rest s))"
    using assms plain by (auto simp: auth_cmd_def Let_def pop3_inv_def split: list.split)
qed

lemma auth_cmds_store:
  "p_store (fst (pass_cmd A pw s)) = p_store s" "p_store (fst (apop A rest s)) = p_store s"
  "p_store (fst (finish_plain A ir s)) = p_store s" "p_store (fst (auth_cmd A rest s)) = p_store s"
proof -
  show plain: "p_store (fst (finish_plain A ir s)) = p_store s" for ir
    by (auto simp: finish_plain_def split: option.split)
  show "p_store (fst (pass_cmd A pw s)) = p_store s" by (auto simp: pass_cmd_def split: option.split)
  show "p_store (fst (apop A rest s)) = p_store s" by (auto simp: apop_def split: option.split list.split)
  show "p_store (fst (auth_cmd A rest s)) = p_store s"
    using plain by (auto simp: auth_cmd_def Let_def split: list.split)
qed

lemma dele_rset_inv:
  assumes "pop3_inv A s"
  shows "pop3_inv A (fst (dele rest s))" "pop3_inv A (fst (rset s))"
proof -
  have "map (\<lambda>sl. (sl_uid sl, sl_raw sl)) (xs[i := (xs ! i)\<lparr>sl_deleted := True\<rparr>]) = map (\<lambda>sl. (sl_uid sl, sl_raw sl)) xs"
    for xs :: "slot list" and i by (cases "i < length xs") (auto intro: nth_equalityI simp: nth_list_update)
  then show "pop3_inv A (fst (dele rest s))"
    using assms by (auto simp: dele_def pop3_inv_def split: option.split)
  show "pop3_inv A (fst (rset s))"
    using assms by (auto simp: rset_def pop3_inv_def comp_def)
qed

lemma feed_no_quit:
  assumes "pop3_inv A s" "fst (pop3_split ln) \<noteq> ''QUIT''"
  shows "pop3_inv A (fst (pop3_feed_line A ln s)) \<and> p_store (fst (pop3_feed_line A ln s)) = p_store s"
proof (cases "p_pending_sasl s")
  case (Some st)
  have "pop3_inv A (s\<lparr>p_pending_sasl := None\<rparr>)" using assms(1) by (simp add: pop3_inv_def)
  then show ?thesis using Some auth_cmds_inv auth_cmds_store
    by (cases st) (simp add: pop3_feed_line_def continue_sasl_def)
next
  case None
  obtain verb rest where v: "pop3_split ln = (verb, rest)" by fastforce
  have "pop3_inv A (s\<lparr>p_user := Some rest\<rparr>)" "pop3_inv A (s\<lparr>p_tls := True\<rparr>)"
    using assms(1) by (simp_all add: pop3_inv_def)
  moreover have "p_store (fst (dele rest s)) = p_store s" "p_store (fst (rset s)) = p_store s"
    by (simp_all add: dele_def rset_def split: option.split)
  ultimately show ?thesis
    using assms None v auth_cmds_inv [OF assms(1)] auth_cmds_store dele_rset_inv [OF assms(1)]
    by (simp add: pop3_feed_line_def pop3_dispatch_def split: pop3_state.split)
qed

lemma run_no_quit:
  assumes "pop3_inv A s" "\<forall>ln \<in> set lns. fst (pop3_split ln) \<noteq> ''QUIT''"
  shows "pop3_inv A (pop3_run A lns s) \<and> p_store (pop3_run A lns s) = p_store s"
  using assms
proof (induction lns arbitrary: s)
  case (Cons ln lns)
  then have "pop3_inv A (fst (pop3_feed_line A ln s))" "p_store (fst (pop3_feed_line A ln s)) = p_store s"
    using feed_no_quit by auto
  then show ?case using Cons.IH [of "fst (pop3_feed_line A ln s)"] Cons.prems by (simp add: pop3_run_def)
qed (simp add: pop3_run_def)

lemma expunge_uid_messages:
  assumes "sorted_wrt (<) (map m_uid (mb_messages mb))"
  shows "mb_messages (expunge_uid u mb) = filter (\<lambda>m. m_uid m \<noteq> u) (mb_messages mb)"
proof (cases "index_of_uid mb u")
  case None
  then have "find (\<lambda>i. map m_uid (mb_messages mb) ! i = u) [0..<length (mb_messages mb)] = None"
    using binary_search_find [OF assms, of u] by (simp add: index_of_uid_def)
  then have "\<forall>m \<in> set (mb_messages mb). m_uid m \<noteq> u"
    by (auto simp: find_None_iff in_set_conv_nth)
  then show ?thesis using None by (simp add: expunge_uid_def)
next
  case (Some i)
  then have "find (\<lambda>i. map m_uid (mb_messages mb) ! i = u) [0..<length (mb_messages mb)] = Some i"
    using binary_search_find [OF assms, of u] by (simp add: index_of_uid_def)
  then have i: "i < mb_exists mb" "m_uid (mb_messages mb ! i) = u"
    by (auto simp: find_Some_iff mb_exists_def)
  then obtain pre m post where m: "mb_messages mb = pre @ m # post" "length pre = i"
    using message_split by blast
  then have "m_uid m = u" using i by auto
  then have "\<forall>x \<in> set (pre @ post). m_uid x \<noteq> u"
    using assms m(1) by (fastforce simp: sorted_wrt_append)
  then show ?thesis
    using Some remove_at_split [OF m(1)] m \<open>m_uid m = u\<close>
    by (auto simp: expunge_uid_def filter_id_conv)
qed

lemma expunge_uids_messages:
  assumes "sorted_wrt (<) (map m_uid (mb_messages mb))"
  shows "mb_messages (fold expunge_uid us mb) = filter (\<lambda>m. m_uid m \<notin> set us) (mb_messages mb)"
  using assms
proof (induction us arbitrary: mb)
  case (Cons u us)
  note e = expunge_uid_messages [OF Cons.prems]
  have "sorted_wrt (<) (map m_uid (mb_messages (expunge_uid u mb)))"
    unfolding e using Cons.prems by (simp add: sorted_wrt_map sorted_wrt_filter)
  from Cons.IH [OF this] show ?case by (simp add: e conj_commute)
qed simp

lemma pop3_new_inv: "pop3_inv A (pop3_new store tls)"
  by (simp add: pop3_inv_def pop3_new_def)

abbreviation pop3_deleted :: "pop3_session \<Rightarrow> u32 set" where
  "pop3_deleted s \<equiv> {sl_uid sl | sl. sl \<in> set (p_slots s) \<and> sl_deleted sl}"

lemma pop3_session_effects:
  assumes "wf_store store" "mailbox_of store ''INBOX'' = Some mb"
    and "\<forall>ln \<in> set lns. fst (pop3_split ln) \<noteq> ''QUIT''" and t: "t = pop3_run A lns (pop3_new store tls)"
  shows "p_store t = store"
    and "p_state t = Transaction \<Longrightarrow> \<exists>u pw. a_verify A u pw \<noteq> None \<and> p_identity t = a_verify A u pw"
    and "p_state t = Transaction \<Longrightarrow>
      map (\<lambda>sl. (sl_uid sl, sl_raw sl)) (p_slots t) = map (\<lambda>m. (m_uid m, m_raw m)) (mb_messages mb) \<and>
      map_option mb_messages (mailbox_of (p_store (fst (quit_cmd t))) ''INBOX'') =
        Some (filter (\<lambda>m. m_uid m \<notin> pop3_deleted t) (mb_messages mb)) \<and>
      (\<forall>n. n \<noteq> ''INBOX'' \<longrightarrow> mailbox_of (p_store (fst (quit_cmd t))) n = mailbox_of store n)"
    and "p_state t = Authorization \<Longrightarrow> fst (quit_cmd t) = t"
proof -
  have run: "pop3_inv A t" "p_store t = store"
    using run_no_quit [OF pop3_new_inv assms(3)] by (simp_all add: t) (simp add: pop3_new_def)
  show "p_store t = store" by fact
  show "\<exists>u pw. a_verify A u pw \<noteq> None \<and> p_identity t = a_verify A u pw" if "p_state t = Transaction"
    using run(1) that by (simp add: pop3_inv_def)
  show "fst (quit_cmd t) = t" if "p_state t = Authorization"
    using that by (simp add: quit_cmd_def Let_def)
  assume tr: "p_state t = Transaction"
  have "sorted_wrt (<) (map m_uid (mb_messages mb))"
    using mailbox_of_wf [OF assms(1,2)] by (simp add: wf_mailbox_def)
  note ex = expunge_uids_messages [OF this]
  have "set (map sl_uid (filter sl_deleted (p_slots t))) = pop3_deleted t" by auto
  then show "map (\<lambda>sl. (sl_uid sl, sl_raw sl)) (p_slots t) = map (\<lambda>m. (m_uid m, m_raw m)) (mb_messages mb) \<and>
      map_option mb_messages (mailbox_of (p_store (fst (quit_cmd t))) ''INBOX'') =
        Some (filter (\<lambda>m. m_uid m \<notin> pop3_deleted t) (mb_messages mb)) \<and>
      (\<forall>n. n \<noteq> ''INBOX'' \<longrightarrow> mailbox_of (p_store (fst (quit_cmd t))) n = mailbox_of store n)"
    using tr run assms(2) ex [of "map sl_uid (filter sl_deleted (p_slots t))"]
    by (simp add: quit_cmd_def Let_def mailbox_of_mut pop3_inv_def inbox_slots_def)
qed

lemma filter_none: "u \<in> D \<Longrightarrow> \<forall>m \<in> set ms. f m = u \<Longrightarrow> filter (\<lambda>m. f m \<notin> D) ms = []"
  by (induction ms) auto

text \<open>C30. Deletions take effect only on QUIT, only for an authenticated client, and only for the marked
  messages. Whatever lines a client sends, as long as none is QUIT the store stays as it was. A
  session that reached the transaction state did so with credentials the authenticator accepts and
  sees the messages of INBOX; QUIT then removes from INBOX exactly the messages marked at that time
  and touches no other mailbox. In the authorization state QUIT changes nothing.\<close>

theorem pop3_deletes_on_quit:
  assumes "wf_store store" "mailbox_of store ''INBOX'' = Some mb"
    and "\<forall>ln \<in> set lns. fst (pop3_split ln) \<noteq> ''QUIT''" and "t = pop3_run A lns (pop3_new store tls)"
  shows "p_store t = store \<and>
    (p_state t = Transaction \<longrightarrow>
      (\<exists>u pw. a_verify A u pw \<noteq> None \<and> p_identity t = a_verify A u pw) \<and>
      map (\<lambda>sl. (sl_uid sl, sl_raw sl)) (p_slots t) = map (\<lambda>m. (m_uid m, m_raw m)) (mb_messages mb) \<and>
      map_option mb_messages (mailbox_of (p_store (fst (quit_cmd t))) ''INBOX'') =
        Some (filter (\<lambda>m. m_uid m \<notin> pop3_deleted t) (mb_messages mb)) \<and>
      (\<forall>n. n \<noteq> ''INBOX'' \<longrightarrow> mailbox_of (p_store (fst (quit_cmd t))) n = mailbox_of store n)) \<and>
    (p_state t = Authorization \<longrightarrow> fst (quit_cmd t) = t)"
  using pop3_session_effects [OF assms] by blast

theorem pop3_deletes_on_quit_witness:
  "map_option mb_messages (mailbox_of (p_store (fst (quit_cmd
      (pop3_run (static_authenticator (auth_issue ''u'' ''p'' [1] ''l'' []))
        [''USER u'', ''PASS p'', ''DELE 1''] (pop3_new (snd (deliver_raw ''INBOX'' [65] [] 0 store_empty)) True))))) ''INBOX'') =
   Some []"
proof -
  let ?A = "static_authenticator (auth_issue ''u'' ''p'' [1] ''l'' [])"
  let ?s = "snd (deliver_raw ''INBOX'' [65] [] 0 store_empty)"
  let ?mb = "snd (mb_append [65] [] 0 (mailbox_new ''INBOX'' (Some Inbox)))"
  let ?t = "pop3_run ?A [''USER u'', ''PASS p'', ''DELE 1''] (pop3_new ?s True)"
  have empty: "mailbox_of store_empty ''INBOX'' = Some (mailbox_new ''INBOX'' (Some Inbox))"
    by (simp add: mailbox_of_def store_empty_def store_insert_def empty_maps_def)
  have "has_room ''INBOX'' store_empty" by (simp add: has_room_def empty mailbox_new_def)
  then have wf: "wf_store ?s" by (intro store_step_wf [OF deliver]) (simp_all add: wf_store_empty)
  have mb: "mailbox_of ?s ''INBOX'' = Some ?mb" by (simp add: deliver_raw_def mailbox_of_mut empty)
  have q: "\<forall>ln \<in> set [''USER u'', ''PASS p'', ''DELE 1'']. fst (pop3_split ln) \<noteq> ''QUIT''" by code_simp
  have "a_verify ?A (trim ''u'') (trim ''p'') = Some [1]" "trim ''1'' = ''1''" by code_simp+
  moreover have "parse_uint 18446744073709551616 ''1'' = Some 1"
    by (simp add: parse_uint_def Let_def is_digit_def digits_val_def code_def)
  ultimately have st: "p_state ?t = Transaction" "map sl_deleted (p_slots ?t) = [True]"
    by (simp_all add: pop3_run_def pop3_feed_line_def pop3_new_def pop3_split_def to_ascii_uppercase_def ascii_upper_def
        code_def pop3_dispatch_def pass_cmd_def login_ok_def load_inbox_def Let_def mb dele_def index_of_def
        mb_append_def mailbox_new_def message_new_def)
  note main = pop3_deletes_on_quit [OF wf mb q refl, THEN conjunct2, THEN conjunct1, rule_format, OF st(1)]
  have "map sl_uid (p_slots ?t) = [1]"
    using main by (auto simp: mb_append_def mailbox_new_def message_new_def Let_def)
  with st(2) have "1 \<in> pop3_deleted ?t" by (cases "p_slots ?t") auto
  moreover have "\<forall>m \<in> set (mb_messages ?mb). m_uid m = 1"
    by (simp add: mb_append_def mailbox_new_def message_new_def Let_def)
  ultimately have "filter (\<lambda>m. m_uid m \<notin> pop3_deleted ?t) (mb_messages ?mb) = []"
    by (rule filter_none)
  then show ?thesis by (simp only: main [THEN conjunct2, THEN conjunct2, THEN conjunct1])
qed

text \<open>With credentials the authenticator accepts, USER followed by PASS always reaches the
  transaction state, on a connection without TLS as well.\<close>

theorem pop3_login_any_channel:
  assumes "a_verify A (trim u) (trim pw) = Some i"
  shows "p_state (pop3_run A [''USER '' @ u, ''PASS '' @ pw] (pop3_new store tls)) = Transaction \<and>
    p_identity (pop3_run A [''USER '' @ u, ''PASS '' @ pw] (pop3_new store tls)) = Some i"
  using assms
  by (simp add: pop3_run_def pop3_feed_line_def pop3_new_def pop3_split_def to_ascii_uppercase_def ascii_upper_def
      code_def pop3_dispatch_def pass_cmd_def)

theorem pop3_login_any_channel_witness:
  "p_state (pop3_run (static_authenticator (auth_issue ''u'' ''p'' [1] ''l'' []))
      [''USER u'', ''PASS p''] (pop3_new store_empty False)) = Transaction"
proof -
  have "a_verify (static_authenticator (auth_issue ''u'' ''p'' [1] ''l'' [])) (trim ''u'') (trim ''p'') = Some [1]"
    by code_simp
  from pop3_login_any_channel [OF this] show ?thesis by simp
qed

text \<open>The banner that APOP digests are computed over is the same in every session, so a digest that
  logs in once logs in on every later connection: a recorded APOP line can be replayed.\<close>

theorem apop_replays:
  "p_state (fst (pop3_feed_line A (''APOP '' @ arg) (pop3_new store tls))) =
     p_state (fst (pop3_feed_line A (''APOP '' @ arg) (pop3_new store' tls')))"
  by (auto simp: pop3_feed_line_def pop3_new_def pop3_split_def to_ascii_uppercase_def ascii_upper_def
      code_def pop3_dispatch_def apop_def apop_digest_def split: list.splits option.splits if_splits)

end
