(* ===== verification/Smtp.thy ===== *)
theory Smtp
  imports Pop3
begin

text \<open>
  \<open>kotva-mail/src/smtp.rs\<close>: the submission session and the selection of delivery-status
  notifications. \<open>smtp_feed_line_bytes\<close> returns the next session and the reply, or a panic: slicing a
  string backwards in \<open>parse_path_param\<close> aborts the thread, and that is a value here.
\<close>

definition MAX_SIZE :: nat where
  "MAX_SIZE = 50 * 1024 * 1024"

datatype ret = RetFull | RetHeaders

definition ret_parse :: "string \<Rightarrow> ret option" where
  "ret_parse v =
     (if to_ascii_uppercase v = ''FULL'' then Some RetFull
      else if to_ascii_uppercase v = ''HDRS'' then Some RetHeaders else None)"

record submission =
  sub_mail_from :: string
  sub_rcpt_to :: "string list"
  sub_data :: bytes
  sub_envid :: "string option"
  sub_ret :: "ret option"
  sub_dsn_notify :: "string option list"

datatype phase = Greeting | Command | Data

datatype smtp_pending_auth = PendingPlain | LoginUser | LoginPass string

record smtp_session =
  sm_tls :: bool
  sm_require_auth :: bool
  sm_max_size :: nat
  sm_phase :: phase
  sm_authed :: "bytes option"
  sm_mail_from :: "string option"
  sm_rcpt_to :: "string list"
  sm_dsn_notify :: "string option list"
  sm_envid :: "string option"
  sm_ret :: "ret option"
  sm_data_buf :: bytes
  sm_data_oversized :: bool
  sm_pending_auth :: "smtp_pending_auth option"
  sm_submissions :: "submission list"

datatype smtp_panic = SliceEndBeforeStart

definition smtp_new :: "bool \<Rightarrow> smtp_session" where
  "smtp_new tls =
     \<lparr>sm_tls = tls, sm_require_auth = True, sm_max_size = MAX_SIZE, sm_phase = Greeting, sm_authed = None,
      sm_mail_from = None, sm_rcpt_to = [], sm_dsn_notify = [], sm_envid = None, sm_ret = None, sm_data_buf = [],
      sm_data_oversized = False, sm_pending_auth = None, sm_submissions = []\<rparr>"

definition set_max_size :: "nat \<Rightarrow> smtp_session \<Rightarrow> smtp_session" where
  "set_max_size mx s = s\<lparr>sm_max_size := mx\<rparr>"

definition smtp_greeting :: "smtp_session \<Rightarrow> smtp_session \<times> string" where
  "smtp_greeting s =
     (s\<lparr>sm_phase := Command\<rparr>, ''220 mail.dmtap.local Envoir DMTAP Submission ready'' @ crlf)"

definition take_submissions :: "smtp_session \<Rightarrow> submission list \<times> smtp_session" where
  "take_submissions s = (sm_submissions s, s\<lparr>sm_submissions := []\<rparr>)"

definition reset_txn :: "smtp_session \<Rightarrow> smtp_session" where
  "reset_txn s =
     s\<lparr>sm_mail_from := None, sm_rcpt_to := [], sm_dsn_notify := [], sm_envid := None, sm_ret := None,
       sm_data_buf := []\<rparr>"

definition ehlo :: "string \<Rightarrow> bool \<Rightarrow> smtp_session \<Rightarrow> smtp_session \<times> string" where
  "ehlo domain esmtp s =
     (let s = reset_txn s in
      if \<not> esmtp then (s, ''250 mail.dmtap.local greets '' @ domain @ crlf)
      else (s, concat (map (\<lambda>l. l @ crlf)
             ([''250-mail.dmtap.local greets '' @ domain, ''250-SIZE '' @ dec (sm_max_size s), ''250-8BITMIME'',
               ''250-SMTPUTF8'', ''250-PIPELINING'', ''250-DSN'', ''250-ENHANCEDSTATUSCODES''] @
              [if sm_tls s then ''250-AUTH PLAIN LOGIN'' else ''250-STARTTLS''] @ [''250 HELP'']))))"

definition finish_credentials :: "authenticator \<Rightarrow> string \<Rightarrow> string \<Rightarrow> smtp_session \<Rightarrow> smtp_session \<times> string" where
  "finish_credentials A user pw s =
     (case a_verify A user pw of
        Some ident \<Rightarrow> (s\<lparr>sm_authed := Some ident\<rparr>, ''235 2.7.0 Authentication successful'' @ crlf)
      | None \<Rightarrow> (s, ''535 5.7.8 Authentication credentials invalid'' @ crlf))"

definition smtp_finish_plain :: "authenticator \<Rightarrow> string \<Rightarrow> smtp_session \<Rightarrow> smtp_session \<times> string" where
  "smtp_finish_plain A ir s =
     (case decode_plain ir of
        Some cred \<Rightarrow> finish_credentials A (sc_authcid cred) (sc_password cred) s
      | None \<Rightarrow> (s, ''501 5.5.2 Cannot decode AUTH PLAIN'' @ crlf))"

definition cmd_auth :: "authenticator \<Rightarrow> string \<Rightarrow> smtp_session \<Rightarrow> smtp_session \<times> string" where
  "cmd_auth A rest s =
     (if sm_authed s \<noteq> None then (s, ''503 5.5.1 Already authenticated'' @ crlf)
      else if \<not> sm_tls s then
        (s, ''538 5.7.11 Encryption required for requested authentication mechanism'' @ crlf)
      else
        (let toks = split_whitespace rest; mech = (case toks of [] \<Rightarrow> [] | t # _ \<Rightarrow> t) in
         case sasl_parse mech of
           Some Plain \<Rightarrow>
             (case toks of
                _ # ir # _ \<Rightarrow> smtp_finish_plain A ir s
              | _ \<Rightarrow> (s\<lparr>sm_pending_auth := Some PendingPlain\<rparr>, ''334 '' @ crlf))
         | Some Login \<Rightarrow>
             (s\<lparr>sm_pending_auth := Some LoginUser\<rparr>, ''334 '' @ base64_encode (as_bytes_of ''Username:'') @ crlf)
         | None \<Rightarrow> (s, ''504 5.5.4 Unrecognized authentication type'' @ crlf)))"

definition unwrap_or_default :: "string option \<Rightarrow> string" where
  "unwrap_or_default x = (case x of None \<Rightarrow> [] | Some v \<Rightarrow> v)"

definition continue_auth ::
  "authenticator \<Rightarrow> smtp_pending_auth \<Rightarrow> string \<Rightarrow> smtp_session \<Rightarrow> smtp_session \<times> string" where
  "continue_auth A p ln s =
     (case p of
        PendingPlain \<Rightarrow> smtp_finish_plain A (trim ln) s
      | LoginUser \<Rightarrow>
          (s\<lparr>sm_pending_auth := Some (LoginPass (unwrap_or_default (decode_login_field (trim ln))))\<rparr>,
           ''334 '' @ base64_encode (as_bytes_of ''Password:'') @ crlf)
      | LoginPass user \<Rightarrow>
          finish_credentials A user (unwrap_or_default (decode_login_field (trim ln))) s)"

text \<open>The address of \<open>FROM:<a>\<close> or \<open>TO:<a>\<close>. With both angle brackets, \<open>after[lt + 1..gt]\<close> panics when
  the closing one comes first.\<close>

definition parse_path_param :: "string \<Rightarrow> string \<Rightarrow> smtp_panic + string option" where
  "parse_path_param rest keyword =
     (let kw = keyword @ '':'' in
      case find_str kw (to_ascii_uppercase rest) of
        None \<Rightarrow> Inr None
      | Some idx \<Rightarrow>
          (let after = trim_start (drop (idx + length kw) rest) in
           case (find_char CHR ''<'' after, find_char CHR ''>'' after) of
             (Some lt, Some gt) \<Rightarrow>
               if gt < lt + 1 then Inl SliceEndBeforeStart
               else Inr (Some (take (gt - (lt + 1)) (drop (lt + 1) after)))
           | _ \<Rightarrow> Inr (case split_whitespace after of [] \<Rightarrow> None | t # _ \<Rightarrow> Some t)))"

fun param_of_tokens :: "string list \<Rightarrow> string \<Rightarrow> string option" where
  "param_of_tokens [] key = None"
| "param_of_tokens (tok # toks) key =
     (case split_once CHR ''='' tok of
        Some (k, v) \<Rightarrow> if eq_ignore_ascii_case k key then Some v else param_of_tokens toks key
      | None \<Rightarrow> param_of_tokens toks key)"

definition param_value :: "string \<Rightarrow> string \<Rightarrow> string option" where
  "param_value rest key = param_of_tokens (split_whitespace rest) key"

definition declared_size :: "string \<Rightarrow> nat option" where
  "declared_size rest = Option.bind (param_value rest ''SIZE'') (parse_uint (2 ^ 64))"

definition cmd_mail :: "string \<Rightarrow> smtp_session \<Rightarrow> smtp_panic + smtp_session \<times> string" where
  "cmd_mail rest s =
     (if sm_require_auth s \<and> sm_authed s = None then Inr (s, ''530 5.7.0 Authentication required'' @ crlf)
      else and_then (parse_path_param rest ''FROM'') (\<lambda>r.
        case r of
          None \<Rightarrow> Inr (s, ''501 5.5.4 Syntax: MAIL FROM:<address>'' @ crlf)
        | Some addr \<Rightarrow>
            if (case declared_size rest of Some sz \<Rightarrow> sz > sm_max_size s | None \<Rightarrow> False)
            then Inr (s, ''552 5.3.4 Message size exceeds fixed limit'' @ crlf)
            else Inr (s\<lparr>sm_ret := Option.bind (param_value rest ''RET'') ret_parse,
                        sm_envid := param_value rest ''ENVID'', sm_mail_from := Some addr,
                        sm_rcpt_to := [], sm_dsn_notify := []\<rparr>,
                      ''250 2.1.0 Sender OK'' @ crlf)))"

definition cmd_rcpt :: "string \<Rightarrow> smtp_session \<Rightarrow> smtp_panic + smtp_session \<times> string" where
  "cmd_rcpt rest s =
     (if sm_mail_from s = None then Inr (s, ''503 5.5.1 Need MAIL before RCPT'' @ crlf)
      else and_then (parse_path_param rest ''TO'') (\<lambda>r.
        case r of
          None \<Rightarrow> Inr (s, ''501 5.5.4 Syntax: RCPT TO:<address>'' @ crlf)
        | Some addr \<Rightarrow>
            Inr (s\<lparr>sm_rcpt_to := sm_rcpt_to s @ [addr],
                   sm_dsn_notify := sm_dsn_notify s @ [param_value rest ''NOTIFY'']\<rparr>,
                 ''250 2.1.5 Recipient OK'' @ crlf)))"

definition cmd_data :: "smtp_session \<Rightarrow> smtp_session \<times> string" where
  "cmd_data s =
     (if sm_mail_from s = None \<or> sm_rcpt_to s = [] then (s, ''503 5.5.1 Need MAIL and RCPT before DATA'' @ crlf)
      else (s\<lparr>sm_phase := Data, sm_data_buf := [], sm_data_oversized := False\<rparr>,
            ''354 End data with <CR><LF>.<CR><LF>'' @ crlf))"

definition strip_dot :: "bytes \<Rightarrow> bytes" where
  "strip_dot ln = (case ln of b # r \<Rightarrow> if b = 46 then r else ln | [] \<Rightarrow> ln)"

definition feed_data_line :: "bytes \<Rightarrow> smtp_session \<Rightarrow> smtp_session \<times> string" where
  "feed_data_line ln s =
     (if ln = [46] then
        (if sm_data_oversized s
         then (reset_txn (s\<lparr>sm_phase := Command, sm_data_buf := []\<rparr>),
               ''552 5.3.4 Message exceeds fixed maximum message size'' @ crlf)
         else
           (s\<lparr>sm_phase := Command, sm_data_buf := [], sm_mail_from := None, sm_rcpt_to := [], sm_envid := None,
              sm_ret := None, sm_dsn_notify := [],
              sm_submissions := sm_submissions s @
                [\<lparr>sub_mail_from = unwrap_or_default (sm_mail_from s), sub_rcpt_to = sm_rcpt_to s,
                  sub_data = sm_data_buf s, sub_envid = sm_envid s, sub_ret = sm_ret s,
                  sub_dsn_notify = sm_dsn_notify s\<rparr>]\<rparr>,
            ''250 2.0.0 OK: queued as MOTE'' @ crlf))
      else
        (let buf = (if length (sm_data_buf s) \<le> sm_max_size s then sm_data_buf s @ strip_dot ln @ [CR, LF]
                    else sm_data_buf s) in
         (s\<lparr>sm_data_buf := buf,
            sm_data_oversized := (if length buf > sm_max_size s then True else sm_data_oversized s)\<rparr>, [])))"

definition smtp_dispatch :: "authenticator \<Rightarrow> string \<Rightarrow> string \<Rightarrow> smtp_session \<Rightarrow> smtp_panic + smtp_session \<times> string" where
  "smtp_dispatch A verb rest s =
     (if verb = ''EHLO'' then Inr (ehlo rest True s)
      else if verb = ''HELO'' then Inr (ehlo rest False s)
      else if verb = ''STARTTLS'' then Inr (s\<lparr>sm_tls := True\<rparr>, ''220 2.0.0 Ready to start TLS'' @ crlf)
      else if verb = ''AUTH'' then Inr (cmd_auth A rest s)
      else if verb = ''MAIL'' then cmd_mail rest s
      else if verb = ''RCPT'' then cmd_rcpt rest s
      else if verb = ''DATA'' then Inr (cmd_data s)
      else if verb = ''RSET'' then Inr (reset_txn s, ''250 2.0.0 OK'' @ crlf)
      else if verb = ''NOOP'' then Inr (s, ''250 2.0.0 OK'' @ crlf)
      else if verb = ''VRFY'' then
        Inr (s, ''252 2.1.5 Cannot VRFY, but will accept and attempt delivery'' @ crlf)
      else if verb = ''QUIT'' then Inr (s, ''221 2.0.0 Bye'' @ crlf)
      else if verb = ''HELP'' then Inr (s, ''214 2.0.0 Envoir DMTAP submission'' @ crlf)
      else Inr (s, ''500 5.5.1 Command unrecognized'' @ crlf))"

definition smtp_feed_line_bytes :: "authenticator \<Rightarrow> bytes \<Rightarrow> smtp_session \<Rightarrow> smtp_panic + smtp_session \<times> string" where
  "smtp_feed_line_bytes A raw s =
     (if sm_phase s = Data then Inr (feed_data_line raw s)
      else
        (let ln = string_of_bytes (utf8_lossy raw) in
         case sm_pending_auth s of
           Some p \<Rightarrow> Inr (continue_auth A p ln (s\<lparr>sm_pending_auth := None\<rparr>))
         | None \<Rightarrow> (let (verb, rest) = pop3_split ln in smtp_dispatch A verb rest s)))"

definition smtp_feed_line :: "authenticator \<Rightarrow> string \<Rightarrow> smtp_session \<Rightarrow> smtp_panic + smtp_session \<times> string" where
  "smtp_feed_line A ln s = smtp_feed_line_bytes A (as_bytes_of ln) s"

section \<open>Delivery-status notifications\<close>

datatype dsn_action = Failed | Delayed | Delivered | Relayed | Expanded

record dsn_recipient =
  dr_address :: string
  dr_action :: dsn_action
  dr_status :: string
  dr_diagnostic :: "string option"

record dsn_report =
  rep_notify_to :: string
  rep_reporting_mta :: string
  rep_original_envelope_id :: "string option"
  rep_recipients :: "dsn_recipient list"
  rep_original_message :: bytes
  rep_ret :: ret
  rep_arrival :: u64

definition dsn_wire :: "dsn_action \<Rightarrow> string" where
  "dsn_wire a =
     (case a of Failed \<Rightarrow> ''failed'' | Delayed \<Rightarrow> ''delayed'' | Delivered \<Rightarrow> ''delivered''
      | Relayed \<Rightarrow> ''relayed'' | Expanded \<Rightarrow> ''expanded'')"

definition dsn_human :: "dsn_action \<Rightarrow> string" where
  "dsn_human a =
     (case a of
        Failed \<Rightarrow> ''Delivery to the following recipient failed permanently:''
      | Delayed \<Rightarrow> ''Delivery to the following recipient has been delayed:''
      | Delivered \<Rightarrow> ''Your message was successfully delivered to:''
      | Relayed \<Rightarrow> ''Your message was relayed to:''
      | Expanded \<Rightarrow> ''Your message was expanded to:'')"

definition wants_failure_dsn :: "string option \<Rightarrow> bool" where
  "wants_failure_dsn notify =
     (case notify of
        None \<Rightarrow> True
      | Some v \<Rightarrow>
          (let toks = map trim (split_on CHR '','' (to_ascii_uppercase v)) in
           if ''NEVER'' \<in> set toks then False else ''FAILURE'' \<in> set toks))"

text \<open>The recipients with their \<open>NOTIFY\<close> values, \<open>None\<close> where there are fewer of those.\<close>

fun zip_notify :: "string list \<Rightarrow> string option list \<Rightarrow> (string \<times> string option) list" where
  "zip_notify [] _ = []"
| "zip_notify (a # as) [] = (a, None) # zip_notify as []"
| "zip_notify (a # as) (n # ns) = (a, n) # zip_notify as ns"

definition failure_for :: "submission \<Rightarrow> string \<Rightarrow> string \<Rightarrow> string option \<Rightarrow> u64 \<Rightarrow> dsn_report option" where
  "failure_for sub mta status diagnostic now =
     (let recipients =
        map (\<lambda>(addr, _). \<lparr>dr_address = addr, dr_action = Failed, dr_status = status, dr_diagnostic = diagnostic\<rparr>)
          (filter (\<lambda>(_, notify). wants_failure_dsn notify) (zip_notify (sub_rcpt_to sub) (sub_dsn_notify sub)))
      in if recipients = [] then None
         else Some \<lparr>rep_notify_to = sub_mail_from sub, rep_reporting_mta = mta,
                    rep_original_envelope_id = sub_envid sub, rep_recipients = recipients,
                    rep_original_message = sub_data sub,
                    rep_ret = (case sub_ret sub of None \<Rightarrow> RetHeaders | Some r \<Rightarrow> r), rep_arrival = now\<rparr>)"

section \<open>The session invariant\<close>

definition sub_ok :: "nat \<Rightarrow> submission \<Rightarrow> bool" where
  "sub_ok mx sub \<longleftrightarrow>
     sub_rcpt_to sub \<noteq> [] \<and> length (sub_dsn_notify sub) = length (sub_rcpt_to sub) \<and> length (sub_data sub) \<le> mx"

definition smtp_inv :: "authenticator \<Rightarrow> smtp_session \<Rightarrow> bool" where
  "smtp_inv A s \<longleftrightarrow>
     sm_require_auth s \<and>
     (\<forall>i. sm_authed s = Some i \<longrightarrow> sm_tls s \<and> (\<exists>u pw. a_verify A u pw = Some i)) \<and>
     (sm_pending_auth s \<noteq> None \<longrightarrow> sm_tls s) \<and>
     (sm_mail_from s \<noteq> None \<longrightarrow> sm_authed s \<noteq> None) \<and>
     (sm_rcpt_to s \<noteq> [] \<longrightarrow> sm_mail_from s \<noteq> None) \<and>
     length (sm_dsn_notify s) = length (sm_rcpt_to s) \<and>
     (sm_phase s = Data \<longrightarrow> sm_rcpt_to s \<noteq> [] \<and> (sm_data_oversized s \<longleftrightarrow> length (sm_data_buf s) > sm_max_size s)) \<and>
     (sm_submissions s \<noteq> [] \<longrightarrow> sm_authed s \<noteq> None) \<and>
     (\<forall>sub \<in> set (sm_submissions s). sub_ok (sm_max_size s) sub)"

lemma smtp_inv_new: "smtp_inv A (fst (smtp_greeting (set_max_size mx (smtp_new tls))))"
  by (simp add: smtp_inv_def smtp_greeting_def set_max_size_def smtp_new_def)

lemma reset_txn_inv: "smtp_inv A s \<Longrightarrow> sm_phase s \<noteq> Data \<Longrightarrow> smtp_inv A (reset_txn s)"
  by (simp add: smtp_inv_def reset_txn_def)

lemma finish_credentials_inv:
  "smtp_inv A s \<Longrightarrow> sm_tls s \<Longrightarrow> smtp_inv A (fst (finish_credentials A u pw s))"
  by (auto simp: smtp_inv_def finish_credentials_def split: option.split)

lemma smtp_finish_plain_inv:
  "smtp_inv A s \<Longrightarrow> sm_tls s \<Longrightarrow> smtp_inv A (fst (smtp_finish_plain A ir s))"
  by (auto simp: smtp_finish_plain_def finish_credentials_inv split: option.split)

lemma pending_inv: "smtp_inv A s \<Longrightarrow> sm_tls s \<Longrightarrow> smtp_inv A (s\<lparr>sm_pending_auth := p\<rparr>)"
  by (simp add: smtp_inv_def)

lemma cmd_auth_inv: "smtp_inv A s \<Longrightarrow> smtp_inv A (fst (cmd_auth A rest s))"
  by (auto simp: cmd_auth_def Let_def smtp_finish_plain_inv pending_inv
      split: option.split sasl_mechanism.split list.split)

lemma continue_auth_inv:
  "smtp_inv A s \<Longrightarrow> sm_tls s \<Longrightarrow> smtp_inv A (fst (continue_auth A p ln s))"
  by (auto simp: continue_auth_def smtp_finish_plain_inv finish_credentials_inv pending_inv
      split: smtp_pending_auth.split)

text \<open>Whatever does not panic ends in a session that satisfies the invariant, with the same limit.\<close>

definition res_inv :: "authenticator \<Rightarrow> nat \<Rightarrow> smtp_panic + smtp_session \<times> string \<Rightarrow> bool" where
  "res_inv A mx r = (case r of Inl _ \<Rightarrow> True | Inr (s', _) \<Rightarrow> smtp_inv A s' \<and> sm_max_size s' = mx)"

lemma res_inv_simps [simp]:
  "res_inv A mx (Inl e)"
  "res_inv A mx (Inr p) \<longleftrightarrow> smtp_inv A (fst p) \<and> sm_max_size (fst p) = mx"
  by (auto simp: res_inv_def split: prod.split)

lemma res_inv_and_then: "(\<And>x. res_inv A mx (f x)) \<Longrightarrow> res_inv A mx (and_then r f)"
  by (cases r) auto

lemma res_inv_option: "(x = None \<Longrightarrow> res_inv A mx a) \<Longrightarrow> (\<And>y. x = Some y \<Longrightarrow> res_inv A mx (b y)) \<Longrightarrow>
    res_inv A mx (case x of None \<Rightarrow> a | Some y \<Rightarrow> b y)"
  by (cases x) auto

lemma mail_inv:
  "smtp_inv A s \<Longrightarrow> sm_phase s \<noteq> Data \<Longrightarrow> sm_authed s \<noteq> None \<Longrightarrow>
    smtp_inv A (s\<lparr>sm_ret := r, sm_envid := e, sm_mail_from := Some a, sm_rcpt_to := [], sm_dsn_notify := []\<rparr>)"
  by (simp add: smtp_inv_def)

lemma rcpt_inv:
  "smtp_inv A s \<Longrightarrow> sm_phase s \<noteq> Data \<Longrightarrow> sm_mail_from s \<noteq> None \<Longrightarrow>
    smtp_inv A (s\<lparr>sm_rcpt_to := sm_rcpt_to s @ [a], sm_dsn_notify := sm_dsn_notify s @ [n]\<rparr>)"
  by (simp add: smtp_inv_def)

lemma cmd_mail_inv:
  assumes "smtp_inv A s" "sm_phase s \<noteq> Data"
  shows "res_inv A (sm_max_size s) (cmd_mail rest s)"
proof (cases "sm_authed s")
  case None
  moreover have "sm_require_auth s" using assms(1) by (simp add: smtp_inv_def)
  ultimately show ?thesis using assms(1) by (simp add: cmd_mail_def)
next
  case (Some i)
  then show ?thesis unfolding cmd_mail_def using mail_inv [OF assms] assms(1)
    by (auto intro!: res_inv_and_then res_inv_option simp del: append.simps)
qed

lemma cmd_rcpt_inv:
  assumes "smtp_inv A s" "sm_phase s \<noteq> Data"
  shows "res_inv A (sm_max_size s) (cmd_rcpt rest s)"
  unfolding cmd_rcpt_def using rcpt_inv [OF assms] assms(1)
  by (auto intro!: res_inv_and_then res_inv_option simp del: append.simps)

lemma cmd_data_inv: "smtp_inv A s \<Longrightarrow> smtp_inv A (fst (cmd_data s))"
  by (auto simp: cmd_data_def smtp_inv_def)

lemma feed_data_line_inv:
  "smtp_inv A s \<Longrightarrow> sm_phase s = Data \<Longrightarrow> smtp_inv A (fst (feed_data_line ln s))"
  by (auto simp: feed_data_line_def smtp_inv_def reset_txn_def Let_def sub_ok_def)

lemma max_size_kept [simp]:
  "sm_max_size (reset_txn s) = sm_max_size s"
  "sm_max_size (fst (ehlo d b s)) = sm_max_size s"
  "sm_max_size (fst (finish_credentials A u pw s)) = sm_max_size s"
  "sm_max_size (fst (smtp_finish_plain A ir s)) = sm_max_size s"
  "sm_max_size (fst (cmd_data s)) = sm_max_size s"
  "sm_max_size (fst (feed_data_line raw s)) = sm_max_size s"
proof -
  show f: "sm_max_size (fst (finish_credentials A u pw s)) = sm_max_size s" for u pw
    by (simp add: finish_credentials_def split: option.split)
  show "sm_max_size (fst (smtp_finish_plain A ir s)) = sm_max_size s"
    using f by (simp add: smtp_finish_plain_def split: option.split)
qed (simp_all add: reset_txn_def ehlo_def cmd_data_def feed_data_line_def Let_def)

lemma max_size_auth [simp]:
  "sm_max_size (fst (cmd_auth A rest s)) = sm_max_size s"
  "sm_max_size (fst (continue_auth A p ln s)) = sm_max_size s"
  by (auto simp: cmd_auth_def continue_auth_def Let_def split: option.split sasl_mechanism.split list.split
      smtp_pending_auth.split)

lemma smtp_dispatch_inv:
  assumes "smtp_inv A s" "sm_phase s \<noteq> Data"
  shows "res_inv A (sm_max_size s) (smtp_dispatch A verb rest s)"
proof -
  have "smtp_inv A (s\<lparr>sm_tls := True\<rparr>)" using assms(1) by (simp add: smtp_inv_def)
  moreover have "smtp_inv A (fst (ehlo rest b s))" for b
    using assms by (simp add: ehlo_def Let_def reset_txn_inv)
  ultimately show ?thesis
    using assms(1) reset_txn_inv [OF assms] cmd_auth_inv [OF assms(1), of rest] cmd_data_inv [OF assms(1)]
      cmd_mail_inv [OF assms, of rest] cmd_rcpt_inv [OF assms, of rest]
    by (simp add: smtp_dispatch_def)
qed

lemma smtp_feed_inv:
  assumes "smtp_inv A s"
  shows "res_inv A (sm_max_size s) (smtp_feed_line_bytes A raw s)"
proof (cases "sm_phase s = Data")
  case True
  then show ?thesis using feed_data_line_inv [OF assms, of raw] by (simp add: smtp_feed_line_bytes_def)
next
  case False
  show ?thesis
  proof (cases "sm_pending_auth s")
    case (Some p)
    then have "sm_tls s" "smtp_inv A (s\<lparr>sm_pending_auth := None\<rparr>)" using assms by (auto simp: smtp_inv_def)
    then show ?thesis using False Some continue_auth_inv [of A "s\<lparr>sm_pending_auth := None\<rparr>" p]
      by (simp add: smtp_feed_line_bytes_def Let_def)
  next
    case None
    then show ?thesis using assms False smtp_dispatch_inv
      by (simp add: smtp_feed_line_bytes_def Let_def split: prod.split)
  qed
qed

text \<open>A session fed with a list of lines; it ends with a panic if one of them panics.\<close>

fun smtp_run :: "authenticator \<Rightarrow> bytes list \<Rightarrow> smtp_session \<Rightarrow> smtp_panic + smtp_session" where
  "smtp_run A [] s = Inr s"
| "smtp_run A (ln # lns) s = and_then (smtp_feed_line_bytes A ln s) (\<lambda>(s', _). smtp_run A lns s')"

lemma smtp_run_inv:
  "smtp_run A lns s = Inr s' \<Longrightarrow> smtp_inv A s \<Longrightarrow> smtp_inv A s' \<and> sm_max_size s' = sm_max_size s"
proof (induction lns arbitrary: s)
  case (Cons ln lns)
  then obtain s1 out where s1: "smtp_feed_line_bytes A ln s = Inr (s1, out)" "smtp_run A lns s1 = Inr s'" by auto
  then have "smtp_inv A s1" "sm_max_size s1 = sm_max_size s"
    using smtp_feed_inv [OF Cons.prems(2), of ln] by simp_all
  then show ?case using Cons.IH [OF s1(2)] by simp
qed simp

section \<open>Theorems\<close>

text \<open>C31. What the session queues is authorised and within limits. After any lines from a fresh session
  that do not make it panic, there are submissions only if the client authenticated over TLS with
  credentials the authenticator accepts; each has a recipient, one NOTIFY entry per recipient and
  at most \<open>max_size\<close> bytes of data.\<close>

theorem smtp_submissions_sound:
  assumes "smtp_run A lns (fst (smtp_greeting (set_max_size mx (smtp_new tls)))) = Inr s"
    and "sub \<in> set (sm_submissions s)"
  shows "sm_tls s \<and> (\<exists>u pw. a_verify A u pw \<noteq> None \<and> sm_authed s = a_verify A u pw) \<and>
    sub_rcpt_to sub \<noteq> [] \<and> length (sub_dsn_notify sub) = length (sub_rcpt_to sub) \<and>
    length (sub_data sub) \<le> mx"
proof -
  have inv: "smtp_inv A s" "sm_max_size s = mx"
    using smtp_run_inv [OF assms(1) smtp_inv_new] by (simp_all add: smtp_greeting_def set_max_size_def)
  then obtain i where i: "sm_authed s = Some i" using assms(2) by (cases "sm_authed s") (auto simp: smtp_inv_def)
  then obtain u pw where u: "a_verify A u pw = Some i" "sm_tls s" using inv(1) by (auto simp: smtp_inv_def)
  moreover have "sub_ok mx sub" using inv assms(2) by (auto simp: smtp_inv_def)
  moreover have "\<exists>u pw. a_verify A u pw \<noteq> None \<and> sm_authed s = a_verify A u pw"
    using i u(1) by (metis option.distinct(1))
  ultimately show ?thesis by (auto simp: sub_ok_def)
qed

theorem smtp_submissions_sound_witness:
  "\<exists>s sub. smtp_run (static_authenticator (auth_issue ''u'' ''p'' [7] ''l'' []))
     (map as_bytes_of [''AUTH PLAIN AHUAcA=='', ''MAIL FROM:<a>'', ''RCPT TO:<b>'', ''DATA'', ''x'', ''.''])
     (fst (smtp_greeting (set_max_size 9 (smtp_new True)))) = Inr s \<and>
   sub \<in> set (sm_submissions s) \<and> sm_tls s \<and> length (sub_data sub) \<le> 9"
proof -
  let ?A = "static_authenticator (auth_issue ''u'' ''p'' [7] ''l'' [])"
  let ?lns = "map as_bytes_of [''AUTH PLAIN AHUAcA=='', ''MAIL FROM:<a>'', ''RCPT TO:<b>'', ''DATA'', ''x'', ''.'']"
  let ?s0 = "\<lparr>sm_tls = True, sm_require_auth = True, sm_max_size = 9, sm_phase = Command, sm_authed = None,
      sm_mail_from = None, sm_rcpt_to = [], sm_dsn_notify = [], sm_envid = None, sm_ret = None, sm_data_buf = [],
      sm_data_oversized = False, sm_pending_auth = None, sm_submissions = []\<rparr>"
  have s0: "fst (smtp_greeting (set_max_size 9 (smtp_new True))) = ?s0"
    by (simp add: smtp_greeting_def set_max_size_def smtp_new_def)
  have "case smtp_run ?A ?lns ?s0 of Inl _ \<Rightarrow> False | Inr s \<Rightarrow> sm_submissions s \<noteq> []"
    by code_simp
  then obtain s sub where run: "smtp_run ?A ?lns (fst (smtp_greeting (set_max_size 9 (smtp_new True)))) = Inr s"
    and sub: "sub \<in> set (sm_submissions s)"
    unfolding s0 by (auto split: sum.splits) (metis list.set_intros(1) neq_Nil_conv)
  show ?thesis using smtp_submissions_sound [OF run sub] run sub by blast
qed

text \<open>The lines of a message as a client sends them.\<close>

definition stuff_line :: "bytes \<Rightarrow> bytes" where
  "stuff_line l = (if l \<noteq> [] \<and> hd l = 46 then 46 # l else l)"

lemma strip_stuff_line [simp]: "strip_dot (stuff_line l) = l"
  by (cases l) (auto simp: stuff_line_def strip_dot_def)

lemma stuff_line_not_dot [simp]: "stuff_line l \<noteq> [46]"
  by (cases l) (auto simp: stuff_line_def)

definition data_of :: "bytes list \<Rightarrow> bytes" where
  "data_of ls = concat (map (\<lambda>l. l @ [CR, LF]) ls)"

lemma feed_data_lines:
  assumes "sm_phase s = Data" "\<not> sm_data_oversized s" "length (sm_data_buf s @ data_of ls) \<le> sm_max_size s"
  shows "smtp_run A (map stuff_line ls) s = Inr (s\<lparr>sm_data_buf := sm_data_buf s @ data_of ls\<rparr>)"
  using assms
proof (induction ls arbitrary: s)
  case (Cons l ls)
  let ?s = "s\<lparr>sm_data_buf := sm_data_buf s @ l @ [CR, LF]\<rparr>"
  have "length (sm_data_buf s) \<le> sm_max_size s" "length (sm_data_buf s @ l @ [CR, LF]) \<le> sm_max_size s"
    using Cons.prems(3) by (simp_all add: data_of_def)
  then have "smtp_feed_line_bytes A (stuff_line l) s = Inr (?s, [])"
    using Cons.prems(1,2) by (simp add: smtp_feed_line_bytes_def feed_data_line_def Let_def)
  moreover have "smtp_run A (map stuff_line ls) ?s = Inr (?s\<lparr>sm_data_buf := sm_data_buf ?s @ data_of ls\<rparr>)"
    using Cons.prems by (intro Cons.IH) (simp_all add: data_of_def)
  ultimately show ?case by (simp add: data_of_def)
qed (simp add: data_of_def)

lemma smtp_run_append: "smtp_run A (xs @ ys) s = and_then (smtp_run A xs s) (smtp_run A ys)"
proof (induction xs arbitrary: s)
  case (Cons x xs)
  then show ?case by (cases "smtp_feed_line_bytes A x s") (auto split: prod.split)
qed simp

text \<open>C36. A message sent after DATA, its lines dot-stuffed and closed with a single dot, is queued byte
  for byte: the session collects exactly the lines with their line ends, with the envelope it had,
  and is ready for the next transaction.\<close>

theorem smtp_data_round_trip:
  assumes "sm_phase s = Data" "\<not> sm_data_oversized s" "sm_data_buf s = []" "length (data_of ls) \<le> sm_max_size s"
  shows "case smtp_run A (map stuff_line ls @ [[46]]) s of
      Inl _ \<Rightarrow> False
    | Inr s' \<Rightarrow>
        sm_submissions s' = sm_submissions s @
          [\<lparr>sub_mail_from = unwrap_or_default (sm_mail_from s), sub_rcpt_to = sm_rcpt_to s, sub_data = data_of ls,
            sub_envid = sm_envid s, sub_ret = sm_ret s, sub_dsn_notify = sm_dsn_notify s\<rparr>] \<and>
        sm_phase s' = Command \<and> sm_mail_from s' = None \<and> sm_rcpt_to s' = []"
  using assms feed_data_lines [of s ls A]
  by (simp add: smtp_run_append smtp_feed_line_bytes_def feed_data_line_def)

theorem smtp_data_round_trip_witness:
  "case smtp_run (static_authenticator []) (map stuff_line [[46], [65]] @ [[46]])
      ((smtp_new True)\<lparr>sm_phase := Data, sm_mail_from := Some ''a'', sm_rcpt_to := [''b''], sm_dsn_notify := [None]\<rparr>) of
     Inl _ \<Rightarrow> False | Inr s' \<Rightarrow> map sub_data (sm_submissions s') = [[46, CR, LF, 65, CR, LF]]"
  using smtp_data_round_trip [of "(smtp_new True)\<lparr>sm_phase := Data, sm_mail_from := Some ''a'', sm_rcpt_to := [''b''],
      sm_dsn_notify := [None]\<rparr>" "[[46], [65]]" "static_authenticator []"]
  by (auto simp: smtp_new_def data_of_def MAX_SIZE_def split: sum.splits)

text \<open>A closing angle bracket before the opening one makes the session panic: an authenticated
  client that sends such a MAIL command aborts the thread that serves it.\<close>

theorem smtp_mail_panics:
  assumes "sm_phase s \<noteq> Data" "sm_pending_auth s = None" "sm_authed s \<noteq> None"
  shows "smtp_feed_line A ''MAIL FROM:>x<'' s = Inl SliceEndBeforeStart"
proof -
  have "string_of_bytes (utf8_lossy (as_bytes_of ''MAIL FROM:>x<'')) = ''MAIL FROM:>x<''"
  proof -
    have "utf8_valid (as_bytes_of ''MAIL FROM:>x<'')" by code_simp
    then show ?thesis by (simp only: utf8_lossy_valid string_of_bytes_as_bytes)
  qed
  moreover have "pop3_split ''MAIL FROM:>x<'' = (''MAIL'', ''FROM:>x<'')" by code_simp
  moreover have "parse_path_param ''FROM:>x<'' ''FROM'' = Inl SliceEndBeforeStart" by code_simp
  ultimately show ?thesis using assms
    by (simp add: smtp_feed_line_def smtp_feed_line_bytes_def smtp_dispatch_def cmd_mail_def)
qed

theorem smtp_mail_panics_witness:
  "smtp_feed_line (static_authenticator []) ''MAIL FROM:>x<'' ((smtp_new True)\<lparr>sm_phase := Command, sm_authed := Some [1]\<rparr>) =
     Inl SliceEndBeforeStart"
  by (rule smtp_mail_panics) (simp_all add: smtp_new_def)

end
