(* ===== verification/Sphinx.thy ===== *)
theory Sphinx
  imports Kotva_Prelude
begin

text \<open>
  The fixed-length byte layouts of \<^verbatim>\<open>sphinx.rs\<close>: the cell, the per-hop routing command, the single-use
  reply block and the fragment header.  Fixed-size arrays are lists, with their length in the
  well-formedness predicate of each object.
\<close>

definition ALPHA_LEN :: nat where "ALPHA_LEN = 32"
definition BETA_LEN :: nat where "BETA_LEN = 240"
definition GAMMA_LEN :: nat where "GAMMA_LEN = 16"
definition DELTA_LEN :: nat where "DELTA_LEN = 2048"
definition CELL_LEN :: nat where "CELL_LEN = ALPHA_LEN + BETA_LEN + GAMMA_LEN + DELTA_LEN"
definition R_MAX :: nat where "R_MAX = 5"
definition ROUTING_COMMAND_LEN :: nat where "ROUTING_COMMAND_LEN = 48"
definition SURB_HEADER_LEN :: nat where "SURB_HEADER_LEN = ALPHA_LEN + BETA_LEN + GAMMA_LEN"
definition SURB_LEN :: nat where "SURB_LEN = 32 + SURB_HEADER_LEN + 32"
definition FRAGMENT_HEADER_LEN :: nat where "FRAGMENT_HEADER_LEN = 16"
definition FRAGMENT_DATA_LEN :: nat where "FRAGMENT_DATA_LEN = DELTA_LEN - FRAGMENT_HEADER_LEN"

lemmas sphinx_lens = ALPHA_LEN_def BETA_LEN_def GAMMA_LEN_def DELTA_LEN_def CELL_LEN_def ROUTING_COMMAND_LEN_def
  SURB_HEADER_LEN_def SURB_LEN_def FRAGMENT_HEADER_LEN_def

datatype sphinx_error = WrongLength string nat nat | UnknownCommand u8 | ReservedNonZero

definition fixed :: "bytes \<Rightarrow> string \<Rightarrow> nat \<Rightarrow> sphinx_error + bytes" where
  "fixed b what expected = (if length b = expected then Inr b else Inl (WrongLength what expected (length b)))"

text \<open>\<open>b[i..j]\<close>\<close>

definition slice :: "nat \<Rightarrow> nat \<Rightarrow> bytes \<Rightarrow> bytes" where
  "slice i j b = take (j - i) (drop i b)"

record routing_command =
  rc_cmd :: u8
  rc_flags :: u8
  rc_delay_ms :: u32
  rc_next_hop :: bytes

definition rc_to_bytes :: "routing_command \<Rightarrow> bytes" where
  "rc_to_bytes r = [rc_cmd r, rc_flags r] @ be_bytes 4 (unat (rc_delay_ms r)) @ rc_next_hop r @ replicate 10 0"

definition rc_from_bytes :: "bytes \<Rightarrow> sphinx_error + routing_command" where
  "rc_from_bytes bytes =
     and_then (fixed bytes ''RoutingCommand'' ROUTING_COMMAND_LEN) (\<lambda>b.
       let cmd = b ! 0 in
       if cmd > 0x02 then Inl (UnknownCommand cmd)
       else
         let flags = b ! 1 in
         if flags AND NOT 0x01 \<noteq> 0 then Inl ReservedNonZero
         else
           let delay_ms = of_nat (from_be (slice 2 6 b)); next_hop = slice 6 38 b in
           if cmd = 0x01 \<and> list_ex (\<lambda>x. x \<noteq> 0) next_hop then Inl ReservedNonZero
           else if list_ex (\<lambda>x. x \<noteq> 0) (slice 38 48 b) then Inl ReservedNonZero
           else Inr \<lparr>rc_cmd = cmd, rc_flags = flags, rc_delay_ms = delay_ms, rc_next_hop = next_hop\<rparr>)"

record surb =
  su_first_hop :: bytes
  su_header :: bytes
  su_key_seed :: bytes

definition su_to_bytes :: "surb \<Rightarrow> bytes" where
  "su_to_bytes s = su_first_hop s @ su_header s @ su_key_seed s"

definition su_from_bytes :: "bytes \<Rightarrow> sphinx_error + surb" where
  "su_from_bytes bytes =
     and_then (fixed bytes ''Surb'' SURB_LEN) (\<lambda>b.
       Inr \<lparr>su_first_hop = slice 0 32 b, su_header = slice 32 (32 + SURB_HEADER_LEN) b,
         su_key_seed = slice (32 + SURB_HEADER_LEN) SURB_LEN b\<rparr>)"

record fragment_header =
  fr_msg_id :: bytes
  fr_frag_index :: u16
  fr_frag_count :: u16
  fr_total_len :: u32

definition fh_to_bytes :: "fragment_header \<Rightarrow> bytes" where
  "fh_to_bytes f =
     fr_msg_id f @ be_bytes 2 (unat (fr_frag_index f)) @ be_bytes 2 (unat (fr_frag_count f)) @ be_bytes 4 (unat (fr_total_len f))"

definition fh_from_bytes :: "bytes \<Rightarrow> sphinx_error + fragment_header" where
  "fh_from_bytes bytes =
     and_then (fixed bytes ''SphinxFragmentHeader'' FRAGMENT_HEADER_LEN) (\<lambda>b.
       Inr \<lparr>fr_msg_id = slice 0 8 b, fr_frag_index = of_nat (from_be (slice 8 10 b)),
         fr_frag_count = of_nat (from_be (slice 10 12 b)), fr_total_len = of_nat (from_be (slice 12 16 b))\<rparr>)"

record sphinx_cell =
  ce_alpha :: bytes
  ce_beta :: bytes
  ce_gamma :: bytes
  ce_delta :: bytes

definition ce_to_bytes :: "sphinx_cell \<Rightarrow> bytes" where
  "ce_to_bytes c = ce_alpha c @ ce_beta c @ ce_gamma c @ ce_delta c"

definition ce_from_bytes :: "bytes \<Rightarrow> sphinx_error + sphinx_cell" where
  "ce_from_bytes bytes =
     and_then (fixed bytes ''SphinxCell'' CELL_LEN) (\<lambda>b.
       Inr \<lparr>ce_alpha = slice 0 ALPHA_LEN b, ce_beta = slice ALPHA_LEN (ALPHA_LEN + BETA_LEN) b,
         ce_gamma = slice (ALPHA_LEN + BETA_LEN) (ALPHA_LEN + BETA_LEN + GAMMA_LEN) b,
         ce_delta = slice (ALPHA_LEN + BETA_LEN + GAMMA_LEN) CELL_LEN b\<rparr>)"

section \<open>The layouts are exact\<close>

definition wf_rc :: "routing_command \<Rightarrow> bool" where
  "wf_rc r \<longleftrightarrow> rc_cmd r \<le> 2 \<and> rc_flags r AND NOT 1 = 0 \<and> length (rc_next_hop r) = 32 \<and>
     (rc_cmd r = 1 \<longrightarrow> rc_next_hop r = replicate 32 0)"

definition wf_su :: "surb \<Rightarrow> bool" where
  "wf_su s \<longleftrightarrow> length (su_first_hop s) = 32 \<and> length (su_header s) = 288 \<and> length (su_key_seed s) = 32"

definition wf_fh :: "fragment_header \<Rightarrow> bool" where
  "wf_fh f \<longleftrightarrow> length (fr_msg_id f) = 8"

definition wf_ce :: "sphinx_cell \<Rightarrow> bool" where
  "wf_ce c \<longleftrightarrow> length (ce_alpha c) = 32 \<and> length (ce_beta c) = 240 \<and> length (ce_gamma c) = 16 \<and> length (ce_delta c) = 2048"

lemma length_slice [simp]: "j \<le> length b \<Longrightarrow> length (slice i j b) = j - i"
  by (simp add: slice_def)

lemma slice_append: "i = length a \<Longrightarrow> j = i + length m \<Longrightarrow> slice i j (a @ m @ r) = m"
  by (simp add: slice_def)

lemma slice_glue: "i \<le> j \<Longrightarrow> j \<le> k \<Longrightarrow> slice i j b @ slice j k b = slice i k b"
proof -
  assume a: "i \<le> j" "j \<le> k"
  then have "slice i k b = take ((j - i) + (k - j)) (drop i b)" by (simp add: slice_def)
  also have "\<dots> = slice i j b @ take (k - j) (drop (j - i) (drop i b))" unfolding take_add slice_def ..
  finally show ?thesis using a by (simp add: slice_def)
qed

lemma slice_all: "slice 0 (length b) b = b"
  by (simp add: slice_def)

lemma be_word_16: "length b = 2 \<Longrightarrow> be_bytes 2 (unat (of_nat (from_be b) :: u16)) = b"
  using be_bytes_from_be [of b] from_be_less [of b] by (simp add: unat_of_nat)

lemma be_word_32: "length b = 4 \<Longrightarrow> be_bytes 4 (unat (of_nat (from_be b) :: u32)) = b"
  using be_bytes_from_be [of b] from_be_less [of b] by (simp add: unat_of_nat)

lemma word_be_16: "of_nat (from_be (be_bytes 2 (unat (x :: u16)))) = x"
proof -
  have "unat x < 65536" by (rule order_less_le_trans [OF unsigned_less]) simp
  then show ?thesis by (simp add: from_be_be_bytes)
qed

lemma word_be_32: "of_nat (from_be (be_bytes 4 (unat (x :: u32)))) = x"
proof -
  have "unat x < 4294967296" by (rule order_less_le_trans [OF unsigned_less]) simp
  then show ?thesis by (simp add: from_be_be_bytes)
qed

lemma zeros_iff: "list_ex (\<lambda>x. x \<noteq> 0) b \<longleftrightarrow> b \<noteq> replicate (length b) (0 :: u8)"
  by (induction b) auto

lemma list2: "2 \<le> length b \<Longrightarrow> slice 0 2 b = [b ! 0, b ! 1]"
  by (cases b; cases "tl b") (auto simp: slice_def)

lemma rc_round_trip:
  assumes "wf_rc r"
  shows "rc_from_bytes (rc_to_bytes r) = Inr r"
proof -
  let ?b = "rc_to_bytes r"
  have l: "length (rc_next_hop r) = 32" using assms by (simp add: wf_rc_def)
  have s: "slice 2 6 ?b = be_bytes 4 (unat (rc_delay_ms r))" "slice 6 38 ?b = rc_next_hop r" "slice 38 48 ?b = replicate 10 0"
    using slice_append [of 2 "[rc_cmd r, rc_flags r]" 6 "be_bytes 4 (unat (rc_delay_ms r))" "rc_next_hop r @ replicate 10 0"]
      slice_append [of 6 "[rc_cmd r, rc_flags r] @ be_bytes 4 (unat (rc_delay_ms r))" 38 "rc_next_hop r" "replicate 10 0"]
      slice_append [of 38 "[rc_cmd r, rc_flags r] @ be_bytes 4 (unat (rc_delay_ms r)) @ rc_next_hop r" 48 "replicate 10 0" "[]"] l
    by (simp_all add: rc_to_bytes_def del: be_bytes.simps)
  have h: "?b ! 0 = rc_cmd r" "?b ! 1 = rc_flags r" "length ?b = 48" by (simp_all add: rc_to_bytes_def l del: be_bytes.simps)
  have z: "\<not> list_ex (\<lambda>x. x \<noteq> 0) (replicate 10 (0 :: u8))" "rc_cmd r = 1 \<Longrightarrow> \<not> list_ex (\<lambda>x. x \<noteq> 0) (rc_next_hop r)"
    using assms by (simp_all add: list_ex_iff wf_rc_def)
  show ?thesis
    using assms z unfolding rc_from_bytes_def fixed_def s h Let_def
    by (auto simp: wf_rc_def h h(2) [unfolded One_nat_def] ROUTING_COMMAND_LEN_def s word_be_32 not_less simp del: be_bytes.simps)
qed

lemma rc_sound:
  assumes "rc_from_bytes b = Inr r"
  shows "wf_rc r \<and> b = rc_to_bytes r"
proof -
  have l: "length b = 48" using assms by (simp add: rc_from_bytes_def fixed_def ROUTING_COMMAND_LEN_def split: if_splits)
  have c: "\<not> b ! 0 > 2" "b ! 1 AND NOT 1 = 0" "\<not> (b ! 0 = 1 \<and> list_ex (\<lambda>x. x \<noteq> 0) (slice 6 38 b))"
    "\<not> list_ex (\<lambda>x. x \<noteq> 0) (slice 38 48 b)"
    and r: "r = \<lparr>rc_cmd = b ! 0, rc_flags = b ! 1, rc_delay_ms = of_nat (from_be (slice 2 6 b)), rc_next_hop = slice 6 38 b\<rparr>"
    using assms l by (auto simp: rc_from_bytes_def fixed_def ROUTING_COMMAND_LEN_def Let_def split: if_splits)
  have "be_bytes 4 (unat (of_nat (from_be (slice 2 6 b)) :: u32)) = slice 2 6 b" using l by (intro be_word_32) simp
  moreover have "slice 38 48 b = replicate 10 0" using c(4) l by (simp add: zeros_iff)
  moreover have "b = slice 0 2 b @ slice 2 6 b @ slice 6 38 b @ slice 38 48 b"
    using slice_all [of b] l by (simp add: slice_glue)
  ultimately have "b = rc_to_bytes r" using list2 [of b] l by (simp add: r rc_to_bytes_def del: be_bytes.simps)
  moreover have "wf_rc r" using c l by (auto simp: r wf_rc_def zeros_iff not_less)
  ultimately show ?thesis by simp
qed

lemma su_exact: "su_from_bytes b = Inr s \<longleftrightarrow> wf_su s \<and> b = su_to_bytes s"
proof
  assume "su_from_bytes b = Inr s"
  then have l: "length b = 352" and s: "s = \<lparr>su_first_hop = slice 0 32 b, su_header = slice 32 320 b, su_key_seed = slice 320 352 b\<rparr>"
    by (auto simp: su_from_bytes_def fixed_def sphinx_lens split: if_splits)
  have "b = slice 0 32 b @ slice 32 320 b @ slice 320 352 b" using slice_all [of b] l by (simp add: slice_glue)
  then show "wf_su s \<and> b = su_to_bytes s" using l by (simp add: s wf_su_def su_to_bytes_def)
next
  assume "wf_su s \<and> b = su_to_bytes s"
  then show "su_from_bytes b = Inr s"
    by (auto simp: su_from_bytes_def fixed_def su_to_bytes_def wf_su_def slice_def sphinx_lens)
qed

lemma ce_exact: "ce_from_bytes b = Inr c \<longleftrightarrow> wf_ce c \<and> b = ce_to_bytes c"
proof
  assume "ce_from_bytes b = Inr c"
  then have l: "length b = 2336" and c: "c = \<lparr>ce_alpha = slice 0 32 b, ce_beta = slice 32 272 b, ce_gamma = slice 272 288 b,
      ce_delta = slice 288 2336 b\<rparr>"
    by (auto simp: ce_from_bytes_def fixed_def sphinx_lens split: if_splits)
  have "b = slice 0 32 b @ slice 32 272 b @ slice 272 288 b @ slice 288 2336 b" using slice_all [of b] l by (simp add: slice_glue)
  then show "wf_ce c \<and> b = ce_to_bytes c" using l by (simp add: c wf_ce_def ce_to_bytes_def)
next
  assume "wf_ce c \<and> b = ce_to_bytes c"
  then show "ce_from_bytes b = Inr c"
    by (auto simp: ce_from_bytes_def fixed_def ce_to_bytes_def wf_ce_def slice_def sphinx_lens)
qed

lemma fh_exact: "fh_from_bytes b = Inr f \<longleftrightarrow> wf_fh f \<and> b = fh_to_bytes f"
proof
  assume "fh_from_bytes b = Inr f"
  then have l: "length b = 16" and f: "f = \<lparr>fr_msg_id = slice 0 8 b, fr_frag_index = of_nat (from_be (slice 8 10 b)),
      fr_frag_count = of_nat (from_be (slice 10 12 b)), fr_total_len = of_nat (from_be (slice 12 16 b))\<rparr>"
    by (auto simp: fh_from_bytes_def fixed_def sphinx_lens split: if_splits)
  have "b = slice 0 8 b @ slice 8 10 b @ slice 10 12 b @ slice 12 16 b" using slice_all [of b] l by (simp add: slice_glue)
  then show "wf_fh f \<and> b = fh_to_bytes f"
    using l be_word_16 [of "slice 8 10 b"] be_word_16 [of "slice 10 12 b"] be_word_32 [of "slice 12 16 b"]
    by (simp add: f wf_fh_def fh_to_bytes_def del: be_bytes.simps)
next
  assume "wf_fh f \<and> b = fh_to_bytes f"
  then show "fh_from_bytes b = Inr f"
    by (auto simp: fh_from_bytes_def fixed_def fh_to_bytes_def wf_fh_def slice_def sphinx_lens word_be_16 word_be_32
        simp del: be_bytes.simps)
qed

text \<open>C19. The mixnet layouts are exact: a routing command, reply block, fragment header and cell parses from a byte string
  exactly if the string is the layout of a well-formed object, so every layout has one length and every
  object one encoding.\<close>

theorem sphinx_layouts_exact:
  "(rc_from_bytes b = Inr r \<longleftrightarrow> wf_rc r \<and> b = rc_to_bytes r) \<and> (su_from_bytes b = Inr s \<longleftrightarrow> wf_su s \<and> b = su_to_bytes s) \<and>
   (fh_from_bytes b = Inr f \<longleftrightarrow> wf_fh f \<and> b = fh_to_bytes f) \<and> (ce_from_bytes b = Inr c \<longleftrightarrow> wf_ce c \<and> b = ce_to_bytes c)"
  using rc_round_trip rc_sound su_exact fh_exact ce_exact by auto

end
