(* ===== verification/Spec2Isabelle.thy ===== *)
theory Spec2Isabelle
  imports Cad Capability_Chain Deniable Directory Identity_Kt Keyname Location Mixnet Mote Policy Profile Pub_Sub Push Recovery_Guard Rtc_Capacity Search_Key Smtp Sphinx
begin

text \<open>
  A verification library for the two Rust crates of the repository: \<^verbatim>\<open>crates/kotva-core\<close> (the wire
  objects and the trust decisions of the protocol) and \<^verbatim>\<open>crates/kotva-mail\<close> (the mail server that
  presents a mailbox of messages to POP3, SMTP, IMAP and JMAP clients).

  \<^bold>\<open>How the program is put together.\<close>  Every object of the core crate is a struct with a canonical
  CBOR form (\<^verbatim>\<open>to_cv\<close>, \<^verbatim>\<open>det_cbor\<close>, \<^verbatim>\<open>from_det_cbor\<close>), a signing body that leaves the
  signature out, a constructor that signs and a \<^verbatim>\<open>verify\<close> that checks suite, signature and the rules of
  the object.  Stateful parts are small trackers (the suite ratchet, versions, feeds, replay caches and
  budgets, the inbound spool).  The mail crate is a store of mailboxes and one session state machine per protocol, fed one line
  at a time.

  \<^bold>\<open>Theories.\<close>
  \<^item> \<open>Kotva_Prelude\<close>, \<open>Rust_Str\<close>: machine words, \<open>Result\<close>, byte strings, UTF-8 and the standard
    library's string functions.
  \<^item> \<open>Cbor\<close>, \<open>Cbor_Props\<close>: \<^verbatim>\<open>cbor.rs\<close>.  The decoder accepts exactly the canonical encodings.
  \<^item> \<open>Wire\<close>, \<open>Wire_Laws\<close>: the \<^verbatim>\<open>Fields\<close> reader of \<^verbatim>\<open>cbor.rs\<close> and the contract of wire objects as
    the locales \<open>cv_object\<close>, \<open>wire_object\<close> and \<open>signed_object\<close>, interpreted for every object.
  \<^item> \<open>Rollback\<close>, \<open>Suite_Id\<close>: the anti-rollback contract (a locale), \<^verbatim>\<open>suite.rs\<close>, \<^verbatim>\<open>id.rs\<close> and the
    signature helpers.
  \<^item> \<open>Kt\<close>, \<open>Merkle\<close>, \<open>Merkle_Proofs\<close>: \<^verbatim>\<open>kt.rs\<close>.  Inclusion and consistency proofs are sound (up to an
    explicit BLAKE3 collision) and complete.
  \<^item> \<open>Capability\<close>, \<open>Capability_Chain\<close>: \<^verbatim>\<open>capability.rs\<close>.  A verified chain only attenuates.
  \<^item> \<open>Identity\<close>, \<open>Identity_Kt\<close>, \<open>Recovery\<close>, \<open>Rotation\<close>, \<open>Recovery_Guard\<close>: \<^verbatim>\<open>identity.rs\<close>.  What a
    verified identity is, and which recovery changes and key rotations are authorised.
  \<^item> \<open>Mote_Files\<close>, \<open>Mote_Wire\<close>, \<open>Pq\<close>, \<open>Mote\<close>: \<^verbatim>\<open>mote.rs\<close>, \<^verbatim>\<open>pq.rs\<close>.  Attachment tiers and the inbound
    spool, the wire objects of a message, sealing (locale \<open>seal_keypair\<close>, interpreted for HPKE and the hybrid
    suite), both builders, and the ordered validation.  What is built validates; what validates was signed for this
    envelope; nothing is decrypted before the cheap checks; the suite pin never moves down.
  \<^item> \<open>Wire_Err\<close>, \<open>Wire_Order\<close>: readers with an error type of their own, and objects written in another key
    order than the canonical one.
  \<^item> \<open>Merkle_Tags\<close>, \<open>Pub_Object\<close>, \<open>Pub_Feed\<close>, \<open>Pub_Sub\<close>: \<^verbatim>\<open>pubobj.rs\<close>, \<^verbatim>\<open>pubsub.rs\<close>.  Tagged Merkle
    roots (locale \<open>tagging\<close>), manifests, announcements and feeds; a follower never accepts a fork or a rollback
    and follows every honest feed; subscriptions, revocations and the hint budget.
  \<^item> \<open>Rust_Num\<close>, \<open>Replay\<close>, \<open>Push\<close>, \<open>Policy\<close>: saturating arithmetic and the split-point loop, the contract of replay
    caches (locale \<open>replay_cache\<close>), \<^verbatim>\<open>push.rs\<close>, and \<^verbatim>\<open>policy.rs\<close> with \<^verbatim>\<open>attestation.rs\<close>.
  \<^item> \<open>Directory\<close>, \<open>Location\<close>, \<open>Keyname\<close>: \<^verbatim>\<open>directory.rs\<close>; \<^verbatim>\<open>location.rs\<close> with its rollback tracker;
    \<^verbatim>\<open>keyname.rs\<close> and \<^verbatim>\<open>safety.rs\<close>, the names and numbers that people compare.
  \<^item> \<open>Mixnet\<close>, \<open>Sphinx\<close>, \<open>Deniable\<close>: \<^verbatim>\<open>mixnet.rs\<close>, \<^verbatim>\<open>sphinx.rs\<close>, \<^verbatim>\<open>deniable.rs\<close>.  Descriptors, the
    fixed-length packet layouts and the objects of the deniable mode.
  \<^item> \<open>Rust_Net\<close>, \<open>Profile\<close>: the IP-address parser of the standard library and \<^verbatim>\<open>profile.rs\<close>, with the guard on
    avatar URLs against explicit address ranges.
  \<^item> \<open>Cad\<close>: \<^verbatim>\<open>cad.rs\<close>.  The walk over a bill of materials returns, finds every cycle, and computes the sums over
    paths.
  \<^item> \<open>Rtc\<close>, \<open>Rtc_Capacity\<close>: \<^verbatim>\<open>rtc.rs\<close>.  Call signals, the scan of session descriptions, and capacity.
  \<^item> \<open>Mail_Util\<close>, \<open>Mail_Auth\<close>: \<^verbatim>\<open>util.rs\<close>, \<^verbatim>\<open>auth.rs\<close>.
  \<^item> \<open>Mail_Store\<close>, \<open>Mail_Sync\<close>: \<^verbatim>\<open>store.rs\<close>.  The store as a state machine; \<^verbatim>\<open>jmap_changes\<close> refines the
    specification of a change log (locale \<open>change_log\<close>).
  \<^item> \<open>Pop3\<close>, \<open>Smtp\<close>: \<^verbatim>\<open>pop3.rs\<close>, \<^verbatim>\<open>smtp.rs\<close>.  The sessions as functions of the input line.
  \<^item> \<open>Rust_Text\<close>, \<open>Imap_Seq\<close>, \<open>Imap_Token\<close>: \<^verbatim>\<open>imap/sequence.rs\<close>, the lexer of \<^verbatim>\<open>imap/parser.rs\<close> and the
    quoting of \<^verbatim>\<open>imap/response.rs\<close>.  Sets resolve to exactly their members; what is quoted is read back.
  \<^item> \<open>Search_Key\<close>: the search programs of \<^verbatim>\<open>search.rs\<close> and their parser, with its panics.

  \<^bold>\<open>Parameters.\<close>  Third-party cryptography (BLAKE3, Ed25519, ML-DSA, X-Wing, HPKE, HKDF, ChaCha20-Poly1305)
  enters as records of functions; the documented behaviour a property needs (digest length, an honest
  signature verifies, opening inverts sealing) is a named hypothesis, and every property with such a
  hypothesis is applied to an executable instance that satisfies it.  Collision resistance is never assumed:
  the properties conclude with an explicit collision instead.  That a presented signature is no forgery is a
  hypothesis of the one property that speaks of who signed.  Random choices are arguments.

  \<^bold>\<open>Bounds.\<close>  Integers keep their width (\<open>u8\<close> to \<open>u64\<close>); lengths and indices are natural numbers with
  the bound \<open>2^64\<close> stated where the code relies on it.  No fuel is used: recursive
  definitions terminate, and the two loops that need not (the split point of a tree beyond \<open>2^63\<close> leaves, the walk over
  an assembly) are partial functions whose return is a property.  The nesting bound of the decoder is the code's
  constant.

  \<^bold>\<open>Not modelled.\<close>  The listeners of \<^verbatim>\<open>net.rs\<close> only move bytes between sockets and the sessions.  Key
  generation draws from the operating system, and serde adapters only forward.  Of the mail crate, the command
  grammar and the session handlers of the IMAP server, the evaluation of search programs (which reads decoded headers
  and bodies and folds case in full Unicode), \<^verbatim>\<open>mime.rs\<close> (formatting of legacy mail), \<^verbatim>\<open>jmap.rs\<close> (a JSON
  dispatcher on a third-party value type) and \<^verbatim>\<open>autodiscover.rs\<close> (text templates) are left out; the store and
  the change log behind them are modelled.
\<close>

end
